(* ===== verification/Go_Prelude.thy ===== *)
theory Go_Prelude
  imports
    Complex_Main
    "HOL-Library.Word"
    "HOL-Library.Char_ord"
    "HOL-Library.List_Lexorder"
    "HOL-Library.Product_Lexorder"
    "HOL-Library.Multiset"
begin

text \<open>
  The shared vocabulary of the development: the Go types the sources use and the functions of
  the Go standard library (\<open>strings\<close>, \<open>encoding/binary\<close>, \<open>sort\<close>) they call, with the generic
  lemmas the components rest on.

  A Go \<open>string\<close> is a sequence of bytes, and so is an Isabelle \<^typ>\<open>string\<close> (a \<^typ>\<open>char\<close> is eight
  bits), so Go strings are HOL strings and \<open>len\<close> is \<^const>\<open>length\<close>; Go's bytewise \<open><\<close> on strings is
  the lexicographic order of \<open>List_Lexorder\<close> over \<open>Char_ord\<close>. A \<open>[]byte\<close> that is decoded with
  arithmetic is a list of \<^typ>\<open>8 word\<close>. Go's \<open>int\<close> and \<open>int64\<close> are HOL \<^typ>\<open>int\<close>, with \<open>wrap64\<close> where a
  product or a sum of unchecked inputs can overflow; \<open>uint16\<close> and \<open>uint32\<close> are words.

  The Unicode case table behind \<open>strings.ToLower\<close> is a parameter (\<open>uni_lower\<close>): the function's own
  ASCII fast path is modelled exactly, and the parameter is consulted only when the string holds
  a byte of 128 or more.
\<close>

unbundle bit_operations_syntax

named_theorems go_string_simps \<open>rewrite rules for the functions of the strings package\<close>
named_theorems wf_intros \<open>introduction rules for the well-formedness predicates of the components\<close>

type_synonym byte = "8 word"
type_synonym bytes = "8 word list"
type_synonym u16 = "16 word"
type_synonym u32 = "32 word"

section \<open>Integers\<close>

text \<open>Two's complement wrap-around of a 64-bit signed integer.\<close>

definition wrap64 :: "int \<Rightarrow> int" where
  "wrap64 n = (n + 2 ^ 63) mod 2 ^ 64 - 2 ^ 63"

lemma wrap64_id [simp]: "- (2 ^ 63) \<le> n \<Longrightarrow> n < 2 ^ 63 \<Longrightarrow> wrap64 n = n"
  by (simp add: wrap64_def)

lemma wrap64_range: "- (2 ^ 63) \<le> wrap64 n \<and> wrap64 n < 2 ^ 63"
proof -
  have "0 \<le> (n + 2 ^ 63) mod 2 ^ 64" and "(n + 2 ^ 63) mod 2 ^ 64 < 2 ^ 64"
    by (rule pos_mod_sign, simp) (rule pos_mod_bound, simp)
  then show ?thesis by (simp add: wrap64_def)
qed

text \<open>\<open>binary.BigEndian.Uint16\<close> and \<open>AppendUint16\<close>.\<close>

definition be_uint16 :: "byte \<Rightarrow> byte \<Rightarrow> u16" where
  "be_uint16 b0 b1 = push_bit 8 (ucast b0) OR ucast b1"

definition be_bytes16 :: "u16 \<Rightarrow> bytes" where
  "be_bytes16 v = [ucast (drop_bit 8 v), ucast v]"

lemma be_uint16_bytes16 [simp]: "be_uint16 (ucast (drop_bit 8 v)) (ucast v) = v"
  unfolding be_uint16_def
  by (rule bit_word_eqI) (auto simp: bit_simps)

lemma be_bytes16_uint16: "be_bytes16 (be_uint16 x y) = [x, y]"
  unfolding be_bytes16_def be_uint16_def
  by (auto intro!: bit_word_eqI simp: bit_simps) (use bit_imp_le_length in fastforce)

lemma length_be_bytes16 [simp]: "length (be_bytes16 v) = 2"
  by (simp add: be_bytes16_def)

lemma unat_be_uint16: "unat (be_uint16 b0 b1) = 256 * unat b0 + unat b1"
proof -
  have disj: "push_bit 8 (ucast b0) AND ucast b1 = (0 :: u16)"
    by (rule bit_word_eqI) (auto simp: bit_simps dest: bit_imp_le_length)
  have b: "unat b0 < 256" "unat b1 < 256"
    using unsigned_less [of b0] unsigned_less [of b1] by simp_all
  have "be_uint16 b0 b1 = push_bit 8 (ucast b0) + ucast b1"
    using disj by (simp add: be_uint16_def disjunctive_add_eq_or)
  also have "unat (push_bit 8 (ucast b0) + ucast b1 :: u16) = 256 * unat b0 + unat b1"
    using b by (simp add: unat_word_ariths push_bit_eq_mult unsigned_ucast_eq take_bit_nat_eq_self)
  finally show ?thesis .
qed

lemma unat_byte_less: "unat (b :: byte) < 256"
  using unsigned_less [of b] by simp

lemma unat_be_uint16_less: "unat (be_uint16 b0 b1) < 65536"
  using unsigned_less [of "be_uint16 b0 b1"] by simp

section \<open>Bytes and strings\<close>

definition string_of_bytes :: "bytes \<Rightarrow> string" where
  "string_of_bytes bs = map (\<lambda>b. char_of (unat b)) bs"

definition bytes_of_string :: "string \<Rightarrow> bytes" where
  "bytes_of_string s = map of_char s"

lemma length_string_of_bytes [simp]: "length (string_of_bytes bs) = length bs"
  by (simp add: string_of_bytes_def)

lemma length_bytes_of_string [simp]: "length (bytes_of_string s) = length s"
  by (simp add: bytes_of_string_def)

lemma char_of_unat_of_char [simp]: "char_of (unat (of_char c :: byte)) = c"
proof -
  have lt: "(of_char c :: nat) < 256" by simp
  have "unat (of_char c :: byte) = unat (of_nat (of_char c :: nat) :: byte)"
    by (simp only: of_nat_of_char)
  also have "\<dots> = (of_char c :: nat)"
    using lt by (simp add: unat_of_nat)
  finally show ?thesis by simp
qed

lemma string_of_bytes_of_string [simp]: "string_of_bytes (bytes_of_string s) = s"
  by (simp add: string_of_bytes_def bytes_of_string_def comp_def)

lemma of_char_char_of_unat [simp]: "(of_char (char_of (unat b)) :: byte) = b"
proof -
  have "(of_char (char_of (unat b)) :: byte) = of_nat (of_char (char_of (unat b) :: char) :: nat)"
    by (simp only: of_nat_of_char)
  also have "(of_char (char_of (unat b) :: char) :: nat) = unat b"
    using unat_byte_less [of b] by (simp add: of_char_of)
  finally show ?thesis by simp
qed

lemma bytes_of_string_of_bytes [simp]: "bytes_of_string (string_of_bytes b) = b"
  by (simp add: string_of_bytes_def bytes_of_string_def comp_def)

text \<open>
  \<open>io.ReadFull\<close>: the bytes asked for and the rest of the stream, or a failure that consumes what
  was left.
\<close>

definition read_full :: "bytes \<Rightarrow> nat \<Rightarrow> bytes option \<times> bytes" where
  "read_full r n = (if n \<le> length r then (Some (take n r), drop n r) else (None, []))"

section \<open>The strings package\<close>

definition has_prefix :: "string \<Rightarrow> string \<Rightarrow> bool" where
  "has_prefix s p \<longleftrightarrow> take (length p) s = p"

definition has_suffix :: "string \<Rightarrow> string \<Rightarrow> bool" where
  "has_suffix s p \<longleftrightarrow> length p \<le> length s \<and> drop (length s - length p) s = p"

definition trim_prefix :: "string \<Rightarrow> string \<Rightarrow> string" where
  "trim_prefix s p = (if has_prefix s p then drop (length p) s else s)"

definition trim_suffix :: "string \<Rightarrow> string \<Rightarrow> string" where
  "trim_suffix s p = (if has_suffix s p then take (length s - length p) s else s)"

text \<open>\<open>strings.IndexByte\<close>; \<^term>\<open>None\<close> is Go's \<open>-1\<close>.\<close>

primrec index_byte :: "string \<Rightarrow> char \<Rightarrow> nat option" where
  "index_byte [] c = None"
| "index_byte (x # xs) c = (if x = c then Some 0 else map_option Suc (index_byte xs c))"

fun contains_str :: "string \<Rightarrow> string \<Rightarrow> bool" where
  "contains_str [] sub \<longleftrightarrow> sub = []"
| "contains_str (x # xs) sub \<longleftrightarrow> has_prefix (x # xs) sub \<or> contains_str xs sub"

definition contains_any :: "string \<Rightarrow> string \<Rightarrow> bool" where
  "contains_any s cs \<longleftrightarrow> list_ex (\<lambda>c. c \<in> set cs) s"

text \<open>\<open>strings.Split\<close> with a one-byte separator, and \<open>strings.Join\<close>.\<close>

fun split_on :: "char \<Rightarrow> string \<Rightarrow> string list" where
  "split_on c [] = [[]]"
| "split_on c (x # xs) =
     (if x = c then [] # split_on c xs
      else (case split_on c xs of [] \<Rightarrow> [[x]] | y # ys \<Rightarrow> (x # y) # ys))"

fun join_with :: "string \<Rightarrow> string list \<Rightarrow> string" where
  "join_with sep [] = []"
| "join_with sep [x] = x"
| "join_with sep (x # y # zs) = x @ sep @ join_with sep (y # zs)"

definition is_ascii :: "string \<Rightarrow> bool" where
  "is_ascii s \<longleftrightarrow> list_all (\<lambda>c. (of_char c :: nat) < 128) s"

definition ascii_lower_char :: "char \<Rightarrow> char" where
  "ascii_lower_char c =
     (if 65 \<le> (of_char c :: nat) \<and> (of_char c :: nat) \<le> 90 then char_of ((of_char c :: nat) + 32) else c)"

text \<open>\<open>strings.ToLower\<close>: the ASCII fast path, and the Unicode table for anything else.\<close>

definition to_lower :: "(string \<Rightarrow> string) \<Rightarrow> string \<Rightarrow> string" where
  "to_lower uni_lower s = (if is_ascii s then map ascii_lower_char s else uni_lower s)"

text \<open>
  The UTF-8 encodings of the runes \<open>unicode.IsSpace\<close> accepts. Each starts with a byte that cannot
  continue a rune, so looking for an encoding at a byte position finds exactly the runes Go's
  decoder finds, on valid and on invalid UTF-8.
\<close>

definition ws_runes :: "string list" where
  "ws_runes =
    [[CHR 0x09], [CHR 0x0A], [CHR 0x0B], [CHR 0x0C], [CHR 0x0D], [CHR 0x20],
     [CHR 0xC2, CHR 0x85], [CHR 0xC2, CHR 0xA0], [CHR 0xE1, CHR 0x9A, CHR 0x80],
     [CHR 0xE2, CHR 0x80, CHR 0x80], [CHR 0xE2, CHR 0x80, CHR 0x81], [CHR 0xE2, CHR 0x80, CHR 0x82],
     [CHR 0xE2, CHR 0x80, CHR 0x83], [CHR 0xE2, CHR 0x80, CHR 0x84], [CHR 0xE2, CHR 0x80, CHR 0x85],
     [CHR 0xE2, CHR 0x80, CHR 0x86], [CHR 0xE2, CHR 0x80, CHR 0x87], [CHR 0xE2, CHR 0x80, CHR 0x88],
     [CHR 0xE2, CHR 0x80, CHR 0x89], [CHR 0xE2, CHR 0x80, CHR 0x8A], [CHR 0xE2, CHR 0x80, CHR 0xA8],
     [CHR 0xE2, CHR 0x80, CHR 0xA9], [CHR 0xE2, CHR 0x80, CHR 0xAF], [CHR 0xE2, CHR 0x81, CHR 0x9F],
     [CHR 0xE3, CHR 0x80, CHR 0x80]]"

text \<open>The length of the rune of the given list at the front of the string, 0 when there is none.\<close>

definition rune_len :: "string list \<Rightarrow> string \<Rightarrow> nat" where
  "rune_len ws s =
     (case find (\<lambda>w. w \<noteq> [] \<and> has_prefix s w) ws of None \<Rightarrow> 0 | Some w \<Rightarrow> length w)"

lemma rune_len_Nil [simp]: "rune_len ws [] = 0"
  by (auto simp: rune_len_def has_prefix_def find_Some_iff split: option.split)

function trim_runes :: "string list \<Rightarrow> string \<Rightarrow> string" where
  "trim_runes ws s = (if rune_len ws s = 0 then s else trim_runes ws (drop (rune_len ws s) s))"
  by pat_completeness auto
termination
proof (relation "measure (\<lambda>(ws, s). length s)")
  fix ws s
  assume pos: "rune_len ws s \<noteq> 0"
  then have "s \<noteq> []" by auto
  with pos show "((ws, drop (rune_len ws s) s), ws, s) \<in> measure (\<lambda>(ws, s). length s)"
    by simp
qed simp

declare trim_runes.simps [simp del]

definition trim_space :: "string \<Rightarrow> string" where
  "trim_space s = rev (trim_runes (map rev ws_runes) (rev (trim_runes ws_runes s)))"

text \<open>\<open>strings.Trim\<close> with a one-character cutset.\<close>

definition trim_char :: "char \<Rightarrow> string \<Rightarrow> string" where
  "trim_char c s = rev (dropWhile (\<lambda>x. x = c) (rev (dropWhile (\<lambda>x. x = c) s)))"

text \<open>\<open>strings.Fields\<close>: the maximal runs of non-space runes.\<close>

function go_fields_acc :: "string \<Rightarrow> string \<Rightarrow> string list" where
  "go_fields_acc cur [] = (if cur = [] then [] else [cur])"
| "go_fields_acc cur (x # xs) =
     (if rune_len ws_runes (x # xs) = 0 then go_fields_acc (cur @ [x]) xs
      else (if cur = [] then [] else [cur])
             @ go_fields_acc [] (drop (rune_len ws_runes (x # xs)) (x # xs)))"
  by pat_completeness auto
termination
  by (relation "measure (\<lambda>(cur, s). length s)") auto

definition go_fields :: "string \<Rightarrow> string list" where
  "go_fields s = go_fields_acc [] s"

subsection \<open>Lemmas on strings\<close>

lemma has_prefix_iff: "has_prefix s p \<longleftrightarrow> (\<exists>t. s = p @ t)"
  unfolding has_prefix_def
  by (metis append_eq_conv_conj append_take_drop_id)

lemma has_suffix_iff: "has_suffix s p \<longleftrightarrow> (\<exists>t. s = t @ p)"
proof
  assume "has_suffix s p"
  then have "s = take (length s - length p) s @ p"
    unfolding has_suffix_def by (metis append_take_drop_id)
  then show "\<exists>t. s = t @ p" by blast
next
  assume "\<exists>t. s = t @ p"
  then show "has_suffix s p" by (auto simp: has_suffix_def)
qed

lemma index_byte_None [simp]: "index_byte s c = None \<longleftrightarrow> c \<notin> set s"
  by (induction s) auto

lemma index_byte_Some:
  "index_byte s c = Some i \<Longrightarrow> i < length s \<and> s ! i = c \<and> c \<notin> set (take i s)"
  by (induction s arbitrary: i) (auto split: if_splits simp: nth_Cons')

lemma index_byte_Some_less: "index_byte s c = Some i \<Longrightarrow> i < length s"
  by (simp add: index_byte_Some)

lemma index_byte_append:
  "c \<notin> set xs \<Longrightarrow> index_byte (xs @ c # ys) c = Some (length xs)"
  by (induction xs) auto

lemma split_on_not_Nil [simp]: "split_on c s \<noteq> []"
  by (cases s) (auto split: list.split)

lemma join_split_on: "join_with [c] (split_on c s) = s"
proof (induction s)
  case Nil
  then show ?case by simp
next
  case (Cons x xs)
  obtain y ys where sp: "split_on c xs = y # ys"
    by (metis split_on_not_Nil neq_Nil_conv)
  with Cons.IH have j: "join_with [c] (y # ys) = xs" by simp
  show ?case
  proof (cases "x = c")
    case True
    with sp j show ?thesis by simp
  next
    case False
    with sp j show ?thesis by (cases ys) auto
  qed
qed

lemma split_on_no_sep: "c \<notin> set s \<Longrightarrow> split_on c s = [s]"
  by (induction s) auto

lemma split_on_append:
  "c \<notin> set xs \<Longrightarrow> split_on c (xs @ c # ys) = xs # split_on c ys"
  by (induction xs) auto

lemma split_on_pieces: "p \<in> set (split_on c s) \<Longrightarrow> c \<notin> set p"
proof (induction s arbitrary: p)
  case Nil
  then show ?case by simp
next
  case (Cons x xs)
  then show ?case
    by (cases "split_on c xs") (auto split: if_splits)
qed

lemma length_split_on: "length (split_on c s) = Suc (count_list s c)"
proof (induction s)
  case (Cons x xs)
  then show ?case by (cases "split_on c xs") auto
qed simp

lemma to_lower_ascii: "is_ascii s \<Longrightarrow> to_lower u s = map ascii_lower_char s"
  by (simp add: to_lower_def)

lemma of_char_ascii_lower: "(of_char c :: nat) < 128 \<Longrightarrow> (of_char (ascii_lower_char c) :: nat) < 128"
  by (auto simp: ascii_lower_char_def)

lemma ascii_lower_idem [simp]: "ascii_lower_char (ascii_lower_char c) = ascii_lower_char c"
  by (auto simp: ascii_lower_char_def)

lemma is_ascii_to_lower: "is_ascii s \<Longrightarrow> is_ascii (to_lower u s)"
  by (auto simp: is_ascii_def to_lower_def list_all_iff of_char_ascii_lower)

lemma to_lower_idem: "is_ascii s \<Longrightarrow> to_lower u (to_lower u s) = to_lower u s"
  using is_ascii_to_lower [of s u] by (simp add: to_lower_ascii comp_def)

lemma trim_runes_idem: "trim_runes ws (trim_runes ws s) = trim_runes ws s"
proof (induction ws s rule: trim_runes.induct)
  case (1 ws s)
  show ?case
  proof (cases "rune_len ws s = 0")
    case True
    then show ?thesis by (simp add: trim_runes.simps [of ws s])
  next
    case False
    with "1.IH" show ?thesis by (simp add: trim_runes.simps [of ws s])
  qed
qed

lemma index_byte_split:
  assumes "index_byte h c = Some i"
  obtains p r where "h = p @ c # r" and "c \<notin> set p" and "drop (i + 1) h = r" and "length p = i"
proof
  from index_byte_Some [OF assms] have i: "i < length h" "h ! i = c" "c \<notin> set (take i h)" by auto
  show "h = take i h @ c # drop (i + 1) h" using i id_take_nth_drop [of i h] by simp
  show "c \<notin> set (take i h)" by (rule i)
  show "drop (i + 1) h = drop (i + 1) h" ..
  show "length (take i h) = i" using i by simp
qed

lemma contains_str_iff: "contains_str s sub \<longleftrightarrow> (\<exists>a b. s = a @ sub @ b)"
proof (induction s)
  case (Cons x xs)
  have "contains_str (x # xs) sub \<longleftrightarrow> (\<exists>b. x # xs = sub @ b) \<or> (\<exists>a b. xs = a @ sub @ b)"
    using Cons.IH by (simp add: has_prefix_iff)
  also have "\<dots> \<longleftrightarrow> (\<exists>a b. x # xs = a @ sub @ b)"
    by (metis append_Cons append_Nil neq_Nil_conv list.inject)
  finally show ?case .
qed auto

lemma contains_char_iff: "contains_str s [c] \<longleftrightarrow> c \<in> set s"
  by (auto simp: contains_str_iff in_set_conv_decomp)

lemma split_on_append_sep: "split_on c (a @ c # b) = split_on c a @ split_on c b"
proof (induction a)
  case (Cons x xs)
  obtain y ys where "split_on c xs = y # ys" by (metis split_on_not_Nil neq_Nil_conv)
  with Cons.IH show ?case by simp
qed simp

lemma contains_double_sep: "contains_str s [c, c] \<Longrightarrow> [] \<in> set (split_on c s)"
  by (auto simp: contains_str_iff split_on_append_sep)

lemma length_split_on_ge_2: "2 \<le> length (split_on c s) \<longleftrightarrow> c \<in> set s"
  using count_list_0_iff [of s c] by (simp add: length_split_on Suc_le_eq) linarith

lemma find_None_if: "(\<And>x. x \<in> set xs \<Longrightarrow> \<not> P x) \<Longrightarrow> find P xs = None"
  by (simp add: find_None_iff)

lemma trim_runes_id:
  assumes "\<And>w. w \<in> set ws \<Longrightarrow> w \<noteq> [] \<Longrightarrow> s \<noteq> [] \<Longrightarrow> hd w \<noteq> hd s"
  shows "trim_runes ws s = s"
proof -
  have "\<not> (w \<noteq> [] \<and> has_prefix s w)" if "w \<in> set ws" for w
    using assms [OF that] by (cases w; cases s) (auto simp: has_prefix_def)
  then have "rune_len ws s = 0" by (simp add: rune_len_def find_None_if)
  then show ?thesis by (simp add: trim_runes.simps [of ws s])
qed

definition ws_bytes :: "char set" where
  "ws_bytes = \<Union> (set ` set ws_runes)"

lemma trim_space_id:
  assumes "\<And>c. c \<in> set s \<Longrightarrow> c \<notin> ws_bytes"
  shows "trim_space s = s"
proof -
  have hd: "hd w \<in> ws_bytes" if "w \<in> set ws_runes" "w \<noteq> []" for w
    using that by (auto simp: ws_bytes_def intro!: bexI [of _ w])
  have last: "hd (rev w) \<in> ws_bytes" if "w \<in> set ws_runes" "w \<noteq> []" for w
    using that by (auto simp: ws_bytes_def hd_rev intro!: bexI [of _ w])
  have l: "trim_runes ws_runes s = s"
    by (rule trim_runes_id) (metis assms hd hd_in_set)
  have r: "trim_runes (map rev ws_runes) (rev s) = rev s"
  proof (rule trim_runes_id)
    fix w assume "w \<in> set (map rev ws_runes)" "w \<noteq> []" "rev s \<noteq> []"
    then have "hd w \<in> ws_bytes" using last by fastforce
    moreover have "hd (rev s) \<notin> ws_bytes" using \<open>rev s \<noteq> []\<close> assms by (metis hd_in_set set_rev)
    ultimately show "hd w \<noteq> hd (rev s)" by metis
  qed
  show ?thesis by (simp add: trim_space_def l r)
qed

section \<open>Sorting\<close>

text \<open>
  \<open>sort.Slice\<close> and \<open>sort.SliceStable\<close> with a key comparison are \<^const>\<open>sort_key\<close>. The stable sort is
  the one \<^const>\<open>sort_key\<close> computes; for \<open>sort.Slice\<close> the two agree whenever the keys determine the
  elements, which is the case for every use in the sources that a theorem depends on.
\<close>

lemma length_sort_key [simp]: "length (sort_key f xs) = length xs"
  by (metis mset_sort size_mset)

section \<open>Keeping the first occurrence\<close>

text \<open>
  The loop \<open>if seen[e] { continue }; seen[e] = true; out = append(out, e)\<close> that several functions
  run over a list: the elements in the order of their first occurrence.
\<close>

fun keep_first :: "'a set \<Rightarrow> 'a list \<Rightarrow> 'a list" where
  "keep_first seen [] = []"
| "keep_first seen (x # xs) =
     (if x \<in> seen then keep_first seen xs else x # keep_first (insert x seen) xs)"

lemma set_keep_first [simp]: "set (keep_first seen xs) = set xs - seen"
  by (induction xs arbitrary: seen) auto

lemma distinct_keep_first [simp]: "distinct (keep_first seen xs)"
  by (induction xs arbitrary: seen) auto

lemma length_keep_first: "length (keep_first seen xs) \<le> length xs"
  by (induction xs arbitrary: seen) (auto intro: le_SucI)

text \<open>Updating one element in a way a projection does not see.\<close>

lemma map_list_update_same:
  assumes "f y = f (xs ! i)"
  shows "map f (xs[i := y]) = map f xs"
proof (cases "i < length xs")
  case True
  then have "map f (xs[i := y]) = (map f xs)[i := map f xs ! i]" using assms by (simp add: map_update)
  then show ?thesis by simp
qed (simp add: list_update_beyond)

section \<open>Decimal numbers\<close>

text \<open>Decimal text of an integer (\<open>%d\<close>, \<open>strconv.Itoa\<close>).\<close>

function dec_nat :: "nat \<Rightarrow> string" where
  "dec_nat n = (if n < 10 then [char_of (48 + n)] else dec_nat (n div 10) @ [char_of (48 + n mod 10)])"
  by auto
termination by (relation "measure id") auto

declare dec_nat.simps [simp del]

definition dec_int :: "int \<Rightarrow> string" where
  "dec_int n = (if n < 0 then ''-'' @ dec_nat (nat (- n)) else dec_nat (nat n))"

definition dec_val :: "string \<Rightarrow> nat" where
  "dec_val s = foldl (\<lambda>v c. 10 * v + (of_char c - 48)) 0 s"

lemma dec_val_dec_nat [simp]: "dec_val (dec_nat n) = n"
proof (induction n rule: dec_nat.induct)
  case (1 n)
  show ?case
  proof (cases "n < 10")
    case True
    then show ?thesis by (simp add: dec_val_def dec_nat.simps [of n])
  next
    case False
    then have "dec_val (dec_nat (n div 10)) = n div 10" by (rule 1)
    moreover have "n mod 10 < 10" by simp
    then have "(of_char (char_of (48 + n mod 10) :: char) :: nat) = 48 + n mod 10" by simp
    ultimately show ?thesis using False by (subst dec_nat.simps) (simp add: dec_val_def)
  qed
qed

lemma dec_nat_inject [simp]: "dec_nat m = dec_nat n \<longleftrightarrow> m = n"
  by (metis dec_val_dec_nat)

lemma dec_nat_digits: "c \<in> set (dec_nat n) \<Longrightarrow> 48 \<le> (of_char c :: nat) \<and> (of_char c :: nat) < 58"
proof (induction n rule: dec_nat.induct)
  case (1 n)
  have "n mod 10 < 10" by simp
  then show ?case using 1 by (subst (asm) (2) dec_nat.simps) (auto split: if_splits)
qed

section \<open>Option and sum results\<close>

lemma find_SomeD: "find P xs = Some x \<Longrightarrow> x \<in> set xs \<and> P x"
  by (induction xs) (auto split: if_splits)

lemma sum_case_eq_Inr [simp]:
  "(case r of Inl e \<Rightarrow> Inl (f e) | Inr v \<Rightarrow> g v) = Inr x \<longleftrightarrow> (\<exists>v. r = Inr v \<and> g v = Inr x)"
  by (cases r) auto

text \<open>Sequencing of fallible steps: the first error ends the computation.\<close>

definition bindE :: "'e + 'a \<Rightarrow> ('a \<Rightarrow> 'e + 'b) \<Rightarrow> 'e + 'b" where
  "bindE r f = (case r of Inl e \<Rightarrow> Inl e | Inr v \<Rightarrow> f v)"

lemma bindE_simps [simp]: "bindE (Inl e) f = Inl e" "bindE (Inr v) f = f v"
  by (simp_all add: bindE_def)

lemma bindE_cong [fundef_cong]:
  "r = r' \<Longrightarrow> (\<And>v. r' = Inr v \<Longrightarrow> f v = g v) \<Longrightarrow> bindE r f = bindE r' g"
  by (cases r') auto

lemma bindE_eq_Inr: "bindE r f = Inr x \<longleftrightarrow> (\<exists>v. r = Inr v \<and> f v = Inr x)"
  by (cases r) auto

lemma bindE_eq_Inl: "bindE r f = Inl e \<longleftrightarrow> r = Inl e \<or> (\<exists>v. r = Inr v \<and> f v = Inl e)"
  by (cases r) auto

lemma push_or_add:
  fixes x y :: nat
  assumes "y < 2 ^ n"
  shows "push_bit n x OR y = 2 ^ n * x + y"
proof -
  have "push_bit n x AND y = 0"
  proof (rule bit_eqI)
    fix k
    have "take_bit n y = y" using assms by (simp add: take_bit_nat_eq_self)
    then have "bit y k \<Longrightarrow> k < n" by (metis bit_take_bit_iff)
    then show "bit (push_bit n x AND y) k \<longleftrightarrow> bit (0::nat) k"
      by (auto simp: bit_and_iff bit_push_bit_iff)
  qed
  then show ?thesis by (simp add: disjunctive_add_eq_or push_bit_eq_mult mult.commute)
qed

end
