(* ===== verification/Domain_Set.thy ===== *)
theory Domain_Set
  imports Go_Prelude
begin

text \<open>
  Package \<open>shared/domainset\<close>, file \<open>domainset.go\<close>: normalisation of host names, the line parser of
  the rule lists, and the list operations (\<open>Sort\<close>, \<open>Merge\<close>, \<open>Hash\<close>, \<open>Counts\<close>, \<open>Diff\<close>) on normalised
  entries.

  Code outside the repository enters as the fields of a \<open>domain_lib\<close>: the IDNA profile of
  \<open>golang.org/x/net/idna\<close>, the Unicode case table, the RE2 engine behind \<open>regexp\<close>, and SHA-256.
\<close>

section \<open>Parameters and data\<close>

record domain_lib =
  uni_lower :: "string \<Rightarrow> string"           \<comment> \<open>unicode.ToLower over a string with non-ASCII bytes\<close>
  idna_to_ascii :: "string \<Rightarrow> string option" \<comment> \<open>idnaProfile.ToASCII, None for an error\<close>
  re_compile_ok :: "string \<Rightarrow> bool"         \<comment> \<open>regexp.Compile succeeds\<close>
  re_match :: "string \<Rightarrow> string \<Rightarrow> bool"    \<comment> \<open>MatchString of the compiled pattern\<close>
  sha256_hex :: "string \<Rightarrow> string"          \<comment> \<open>hex of the SHA-256 of the bytes\<close>

definition KindExact :: string where "KindExact = ''exact''"
definition KindSuffix :: string where "KindSuffix = ''suffix''"
definition KindRegex :: string where "KindRegex = ''regex''"

lemmas kind_defs = KindExact_def KindSuffix_def KindRegex_def

datatype entry = Entry (Kind: string) (Value: string)

datatype host_error =
    ErrEmpty | ErrIDNA | BadLength | EmptyLabel | BadLabelLength | BadChar char
  | LabelHyphen | NeedsTwoLabels

datatype parse_error =
    HostError host_error | KeywordUnsupported | RegexDisabled | RegexLength | RegexInvalid
  | UnsupportedWildcard

record parse_options =
  AllowRegex :: bool
  MaxEntries :: int

text \<open>A warning is the pair of the truncated line and the error that \<open>Sprintf\<close> renders.\<close>

record parse_result =
  Entries :: "entry list"
  Skipped :: nat
  Warnings :: "(string \<times> parse_error) list"

section \<open>Host names\<close>

definition bom :: string where
  "bom = [CHR 0xEF, CHR 0xBB, CHR 0xBF]"

definition host_char :: "char \<Rightarrow> bool" where
  "host_char c \<longleftrightarrow>
     (CHR ''a'' \<le> c \<and> c \<le> CHR ''z'') \<or> (CHR ''0'' \<le> c \<and> c \<le> CHR ''9'') \<or>
     c = CHR ''-'' \<or> c = CHR ''_''"

fun check_chars :: "string \<Rightarrow> host_error option" where
  "check_chars [] = None"
| "check_chars (c # cs) = (if host_char c then check_chars cs else Some (BadChar c))"

definition check_label :: "string \<Rightarrow> host_error option" where
  "check_label l =
     (if length l = 0 \<or> length l > 63 then Some BadLabelLength
      else (case check_chars l of
              Some e \<Rightarrow> Some e
            | None \<Rightarrow> if hd l = CHR ''-'' \<or> last l = CHR ''-'' then Some LabelHyphen else None))"

fun check_labels :: "string list \<Rightarrow> host_error option" where
  "check_labels [] = None"
| "check_labels (l # ls) = (case check_label l of Some e \<Rightarrow> Some e | None \<Rightarrow> check_labels ls)"

definition validate_host :: "string \<Rightarrow> host_error option" where
  "validate_host h =
     (if length h = 0 \<or> length h > 253 then Some BadLength
      else if contains_str h ''..'' then Some EmptyLabel
      else (case check_labels (split_on CHR ''.'' h) of
              Some e \<Rightarrow> Some e
            | None \<Rightarrow> if \<not> contains_str h ''.'' then Some NeedsTwoLabels else None))"

definition normalize_host :: "domain_lib \<Rightarrow> string \<Rightarrow> host_error + string" where
  "normalize_host lib s0 =
     (let s1 = trim_prefix (trim_space s0) bom in
      if s1 = [] then Inl ErrEmpty
      else let s2 = (if has_suffix s1 ''.'' then take (length s1 - 1) s1 else s1) in
      if s2 = [] then Inl ErrEmpty
      else (case idna_to_ascii lib s2 of
              None \<Rightarrow> Inl ErrIDNA
            | Some a0 \<Rightarrow>
                let a = to_lower (uni_lower lib) a0 in
                (case validate_host a of Some e \<Rightarrow> Inl e | None \<Rightarrow> Inr a)))"

section \<open>The line parser\<close>

definition maxRegexLen :: nat where "maxRegexLen = 256"

definition validate_regex :: "domain_lib \<Rightarrow> string \<Rightarrow> parse_error option" where
  "validate_regex lib v =
     (if length v = 0 \<or> length v > maxRegexLen then Some RegexLength
      else if \<not> re_compile_ok lib v then Some RegexInvalid
      else None)"

text \<open>\<open>line[strings.Index(line, ":")+1:]\<close>; with no colon the index is -1 and the slice is the line.\<close>

definition after_colon :: "string \<Rightarrow> string" where
  "after_colon line = (case index_byte line CHR '':'' of None \<Rightarrow> line | Some i \<Rightarrow> drop (i + 1) line)"

definition host_entry :: "domain_lib \<Rightarrow> string \<Rightarrow> string \<Rightarrow> parse_error + entry" where
  "host_entry lib k v =
     (case normalize_host lib v of Inl e \<Rightarrow> Inl (HostError e) | Inr h \<Rightarrow> Inr (Entry k h))"

definition parse_one :: "domain_lib \<Rightarrow> string \<Rightarrow> bool \<Rightarrow> parse_error + entry" where
  "parse_one lib line allowRegex =
     (let lower = to_lower (uni_lower lib) line in
      if has_prefix lower ''domain-suffix:'' \<or> has_prefix lower ''suffix:''
      then host_entry lib KindSuffix (after_colon line)
      else if has_prefix lower ''domain-keyword:'' \<or> has_prefix lower ''keyword:''
      then Inl KeywordUnsupported
      else if has_prefix lower ''domain-regex:'' \<or> has_prefix lower ''regexp:''
              \<or> has_prefix lower ''regex:''
      then (if \<not> allowRegex then Inl RegexDisabled
            else let v = trim_space (after_colon line) in
                 (case validate_regex lib v of
                    Some e \<Rightarrow> Inl e | None \<Rightarrow> Inr (Entry KindRegex v)))
      else if has_prefix lower ''full:'' \<or> has_prefix lower ''domain-full:''
      then host_entry lib KindExact (after_colon line)
      else if has_prefix lower ''domain:''
      then host_entry lib KindSuffix (drop (length ''domain:'') line)
      else if has_prefix line ''*.'' then host_entry lib KindSuffix (drop 2 line)
      else if has_prefix line ''.'' then host_entry lib KindSuffix (drop 1 line)
      else if has_prefix line ''+.'' then host_entry lib KindSuffix (drop 2 line)
      else if contains_any line ''*?/'' then Inl UnsupportedWildcard
      else host_entry lib KindExact line)"

definition truncate_warn :: "string \<Rightarrow> nat \<Rightarrow> string" where
  "truncate_warn s n = (if length s \<le> n then s else take n s @ [CHR 0xE2, CHR 0x80, CHR 0xA6])"

text \<open>The part of the loop body before \<open>parseOne\<close>; \<^term>\<open>None\<close> is \<open>continue\<close>.\<close>

definition unhost :: "string \<Rightarrow> string" where
  "unhost line =
     (let f = go_fields line in
      if length f = 2 \<and> (f ! 0 = ''0.0.0.0'' \<or> f ! 0 = ''127.0.0.1'' \<or> f ! 0 = ''::'')
      then f ! 1 else line)"

definition clean_line :: "string \<Rightarrow> string option" where
  "clean_line raw =
     (let line = trim_prefix (trim_space (trim_suffix raw [CHR 0x0D])) bom in
      if line = [] \<or> has_prefix line ''#'' \<or> has_prefix line ''!'' \<or> has_prefix line ''//''
      then None
      else (case index_byte line CHR ''#'' of
              None \<Rightarrow> Some (unhost line)
            | Some i \<Rightarrow>
                let line' = trim_space (take i line) in
                if line' = [] then None else Some (unhost line')))"

definition skip_line :: "string \<Rightarrow> parse_error \<Rightarrow> parse_result \<Rightarrow> parse_result" where
  "skip_line line err res =
     res\<lparr>Skipped := Suc (Skipped res),
         Warnings := (if length (Warnings res) < 50
                      then Warnings res @ [(truncate_warn line 80, err)] else Warnings res)\<rparr>"

fun parse_loop ::
  "domain_lib \<Rightarrow> bool \<Rightarrow> int \<Rightarrow> string list \<Rightarrow> entry set \<Rightarrow> parse_result \<Rightarrow> parse_result \<times> int option"
where
  "parse_loop lib rx mx [] seen res = (res, None)"
| "parse_loop lib rx mx (raw # raws) seen res =
     (case clean_line raw of
        None \<Rightarrow> parse_loop lib rx mx raws seen res
      | Some line \<Rightarrow>
          (case parse_one lib line rx of
             Inl err \<Rightarrow> parse_loop lib rx mx raws seen (skip_line line err res)
           | Inr e \<Rightarrow>
               if e \<in> seen then parse_loop lib rx mx raws seen res
               else let res' = res\<lparr>Entries := Entries res @ [e]\<rparr> in
                    if int (length (Entries res')) > mx then (res', Some mx)
                    else parse_loop lib rx mx raws (insert e seen) res'))"

text \<open>Entries are ordered by kind, then by value, which is the order \<open>Sort\<close> compares with.\<close>

instantiation entry :: linorder
begin
definition less_eq_entry_def:
  "e \<le> e' \<longleftrightarrow> (if Kind e \<noteq> Kind e' then Kind e < Kind e' else Value e \<le> Value e')"
definition less_entry_def:
  "e < e' \<longleftrightarrow> (if Kind e \<noteq> Kind e' then Kind e < Kind e' else Value e < Value e')"
instance
proof
  fix x y z :: entry
  show "x < y \<longleftrightarrow> x \<le> y \<and> \<not> y \<le> x"
    by (auto simp: less_entry_def less_eq_entry_def)
  show "x \<le> x" by (simp add: less_eq_entry_def)
  show "x \<le> y \<Longrightarrow> y \<le> z \<Longrightarrow> x \<le> z"
    by (auto simp: less_eq_entry_def split: if_splits)
  show "x \<le> y \<Longrightarrow> y \<le> x \<Longrightarrow> x = y"
    by (cases x; cases y) (auto simp: less_eq_entry_def split: if_splits)
  show "x \<le> y \<or> y \<le> x"
    by (auto simp: less_eq_entry_def)
qed
end

text \<open>\<open>Sort\<close> compares with exactly this strict order, and two entries that tie are equal.\<close>

definition Sort :: "entry list \<Rightarrow> entry list" where
  "Sort es = sort_key (\<lambda>e. e) es"

definition empty_result :: parse_result where
  "empty_result = \<lparr>Entries = [], Skipped = 0, Warnings = []\<rparr>"

definition limit_of :: "parse_options \<Rightarrow> int" where
  "limit_of opt = (if MaxEntries opt \<le> 0 then 1000000 else MaxEntries opt)"

definition parse_lines :: "domain_lib \<Rightarrow> string \<Rightarrow> parse_options \<Rightarrow> parse_result \<times> int option" where
  "parse_lines lib body opt =
     (case parse_loop lib (AllowRegex opt) (limit_of opt) (split_on CHR 0x0A body) {} empty_result of
        (res, Some m) \<Rightarrow> (res, Some m)
      | (res, None) \<Rightarrow> (res\<lparr>Entries := Sort (Entries res)\<rparr>, None))"

section \<open>List operations\<close>

function suffix_hit :: "string set \<Rightarrow> string \<Rightarrow> bool" where
  "suffix_hit S host =
     (if host \<in> S then True
      else (case index_byte host CHR ''.'' of
              None \<Rightarrow> False
            | Some i \<Rightarrow> suffix_hit S (drop (i + 1) host)))"
  by pat_completeness auto
termination
  by (relation "measure (\<lambda>(S, h). length h)") (auto dest: index_byte_Some_less)

declare suffix_hit.simps [simp del]

definition ex_suffixes :: "entry list \<Rightarrow> string set" where
  "ex_suffixes es = set (map Value (filter (\<lambda>e. Kind e = KindSuffix) es))"

fun merge_loop :: "entry set \<Rightarrow> string set \<Rightarrow> entry set \<Rightarrow> entry list \<Rightarrow> entry list" where
  "merge_loop ex exS seen [] = []"
| "merge_loop ex exS seen (e # es) =
     (if e \<in> ex \<or> e \<in> seen then merge_loop ex exS seen es
      else if Kind e = KindExact \<and> suffix_hit exS (Value e) then merge_loop ex exS seen es
      else e # merge_loop ex exS (insert e seen) es)"

definition Merge :: "entry list \<Rightarrow> entry list \<Rightarrow> entry list" where
  "Merge includes excludes = Sort (merge_loop (set excludes) (ex_suffixes excludes) {} includes)"

fun hash_input :: "entry list \<Rightarrow> string" where
  "hash_input [] = []"
| "hash_input (e # es) = Kind e @ [CHR 0x00] @ Value e @ [CHR 0x0A] @ hash_input es"

definition Hash :: "domain_lib \<Rightarrow> entry list \<Rightarrow> string" where
  "Hash lib es = sha256_hex lib (hash_input es)"

definition bump :: "(string \<rightharpoonup> int) \<Rightarrow> string \<Rightarrow> (string \<rightharpoonup> int)" where
  "bump c k = c(k \<mapsto> (case c k of None \<Rightarrow> 0 | Some n \<Rightarrow> n) + 1)"

definition Counts :: "entry list \<Rightarrow> (string \<rightharpoonup> int)" where
  "Counts es =
     fold (\<lambda>e c. bump c (Kind e)) es
       [''exact'' \<mapsto> 0, ''suffix'' \<mapsto> 0, ''regex'' \<mapsto> 0, ''total'' \<mapsto> int (length es)]"

definition Diff :: "entry list \<Rightarrow> entry list \<Rightarrow> entry list \<times> entry list" where
  "Diff old new =
     (let added = filter (\<lambda>e. e \<notin> set old) new;
          removed = filter (\<lambda>e. e \<notin> set new) old
      in (Sort added, Sort removed))"

section \<open>Label-bounded suffixes\<close>

definition label_suffix :: "string \<Rightarrow> string \<Rightarrow> bool" where
  "label_suffix s h \<longleftrightarrow> h = s \<or> has_suffix h (CHR ''.'' # s)"

lemma label_suffix_refl [simp]: "label_suffix h h"
  by (simp add: label_suffix_def)

lemma label_suffix_iff: "label_suffix s h \<longleftrightarrow> h = s \<or> (\<exists>t. h = t @ CHR ''.'' # s)"
  by (simp add: label_suffix_def has_suffix_iff)

lemma label_suffix_no_dot: "CHR ''.'' \<notin> set h \<Longrightarrow> label_suffix s h \<longleftrightarrow> s = h"
  by (auto simp: label_suffix_iff)

lemma label_suffix_dot:
  assumes "CHR ''.'' \<notin> set p"
  shows "label_suffix s (p @ CHR ''.'' # r) \<longleftrightarrow> s = p @ CHR ''.'' # r \<or> label_suffix s r"
proof
  assume "label_suffix s (p @ CHR ''.'' # r)"
  then consider "s = p @ CHR ''.'' # r" | t where "p @ CHR ''.'' # r = t @ CHR ''.'' # s"
    by (auto simp: label_suffix_iff)
  then show "s = p @ CHR ''.'' # r \<or> label_suffix s r"
  proof cases
    case 2
    with assms show ?thesis
      by (auto simp: append_eq_append_conv2 Cons_eq_append_conv append_eq_Cons_conv label_suffix_iff)
  qed simp
next
  assume "s = p @ CHR ''.'' # r \<or> label_suffix s r"
  then show "label_suffix s (p @ CHR ''.'' # r)"
    unfolding label_suffix_iff by (metis append.assoc append_Cons)
qed

lemma suffix_hit_iff: "suffix_hit S h \<longleftrightarrow> (\<exists>s\<in>S. label_suffix s h)"
proof (induction S h rule: suffix_hit.induct)
  case (1 S h)
  show ?case
  proof (cases "h \<in> S")
    case True
    then show ?thesis by (auto simp: suffix_hit.simps [of S h] intro: bexI [of _ h])
  next
    case notin: False
    show ?thesis
    proof (cases "index_byte h CHR ''.''")
      case None
      then have "CHR ''.'' \<notin> set h" by simp
      with notin None show ?thesis
        by (simp add: suffix_hit.simps [of S h] label_suffix_no_dot del: index_byte_None)
    next
      case (Some i)
      from Some obtain p r where h: "h = p @ CHR ''.'' # r" and p: "CHR ''.'' \<notin> set p"
        and r: "drop (i + 1) h = r" by (rule index_byte_split)
      have "suffix_hit S h \<longleftrightarrow> suffix_hit S r"
        using notin Some r by (simp add: suffix_hit.simps [of S h])
      also have "\<dots> \<longleftrightarrow> (\<exists>s\<in>S. label_suffix s r)"
        using "1.IH" [OF notin Some] r by simp
      also have "\<dots> \<longleftrightarrow> (\<exists>s\<in>S. label_suffix s h)"
        using notin p unfolding h by (auto simp: label_suffix_dot)
      finally show ?thesis .
    qed
  qed
qed

section \<open>Host names\<close>

definition valid_label :: "string \<Rightarrow> bool" where
  "valid_label l \<longleftrightarrow> l \<noteq> [] \<and> length l \<le> 63 \<and> list_all host_char l \<and>
     hd l \<noteq> CHR ''-'' \<and> last l \<noteq> CHR ''-''"

definition valid_host :: "string \<Rightarrow> bool" where
  "valid_host h \<longleftrightarrow> length h \<le> 253 \<and> 2 \<le> length (split_on CHR ''.'' h) \<and>
     list_all valid_label (split_on CHR ''.'' h)"

lemma check_chars_None: "check_chars l = None \<longleftrightarrow> list_all host_char l"
  by (induction l) auto

lemma check_label_None: "check_label l = None \<longleftrightarrow> valid_label l"
proof (cases "check_chars l")
  case None
  then show ?thesis
    using check_chars_None [of l] by (auto simp: check_label_def valid_label_def)
next
  case (Some e)
  then show ?thesis
    using check_chars_None [of l] by (auto simp: check_label_def valid_label_def)
qed

lemma check_labels_None: "check_labels ls = None \<longleftrightarrow> list_all valid_label ls"
proof (induction ls)
  case (Cons l ls)
  then show ?case
    using check_label_None [of l] by (cases "check_label l") auto
qed simp

lemma validate_host_iff: "validate_host h = None \<longleftrightarrow> valid_host h"
proof -
  have empty: "\<not> list_all valid_label (split_on CHR ''.'' h)" if "[] \<in> set (split_on CHR ''.'' h)"
    using that by (auto simp: list_all_iff valid_label_def)
  show ?thesis
  proof (cases "check_labels (split_on CHR ''.'' h)")
    case None
    then have "list_all valid_label (split_on CHR ''.'' h)" by (simp add: check_labels_None)
    moreover from this have "h \<noteq> []" and "\<not> contains_str h ''..''"
      using empty contains_double_sep [of h "CHR ''.''"] by auto
    ultimately show ?thesis
      using None
      by (auto simp: validate_host_def valid_host_def length_split_on_ge_2 contains_char_iff)
  next
    case (Some e)
    then have "\<not> list_all valid_label (split_on CHR ''.'' h)"
      using check_labels_None [of "split_on CHR ''.'' h"] by auto
    with Some show ?thesis by (auto simp: validate_host_def valid_host_def)
  qed
qed

lemma normalize_host_valid: "normalize_host lib s = Inr h \<Longrightarrow> valid_host h"
  unfolding normalize_host_def Let_def
  by (auto simp: validate_host_iff split: if_splits option.splits)

text \<open>A valid host name consists of host characters and dots, so trimming leaves it alone.\<close>

lemma valid_host_chars: "valid_host h \<Longrightarrow> c \<in> set h \<Longrightarrow> host_char c \<or> c = CHR ''.''"
proof -
  assume v: "valid_host h" and c: "c \<in> set h"
  have "set h \<subseteq> insert CHR ''.'' (\<Union> (set ` set (split_on CHR ''.'' h)))"
  proof (induction h)
    case (Cons x xs)
    then show ?case by (cases "split_on CHR ''.'' xs") auto
  qed simp
  with v c show ?thesis by (fastforce simp: valid_host_def valid_label_def list_all_iff)
qed

lemma host_char_not_ws: "host_char c \<or> c = CHR ''.'' \<Longrightarrow> c \<notin> ws_bytes"
  by (auto simp: host_char_def ws_bytes_def ws_runes_def less_eq_char_def)

lemma host_char_lower: "host_char c \<or> c = CHR ''.'' \<Longrightarrow> ascii_lower_char c = c \<and> (of_char c :: nat) < 128"
  by (auto simp: host_char_def ascii_lower_char_def less_eq_char_def)

lemma valid_host_lower: "valid_host h \<Longrightarrow> to_lower u h = h"
proof -
  assume v: "valid_host h"
  then have "is_ascii h" and "map ascii_lower_char h = h"
    using host_char_lower valid_host_chars [OF v] by (auto simp: is_ascii_def list_all_iff intro: map_idI)
  then show ?thesis by (simp add: to_lower_ascii)
qed

lemma valid_host_not_Nil: "valid_host h \<Longrightarrow> h \<noteq> []"
  by (auto simp: valid_host_def)

lemma valid_host_no_final_dot: "valid_host h \<Longrightarrow> \<not> has_suffix h ''.''"
proof
  assume v: "valid_host h" and "has_suffix h ''.''"
  then obtain t where "h = t @ [CHR ''.'']" by (auto simp: has_suffix_iff)
  then have "[] \<in> set (split_on CHR ''.'' h)" by (simp add: split_on_append_sep)
  with v show False by (auto simp: valid_host_def list_all_iff valid_label_def)
qed

lemma valid_host_no_bom: "valid_host h \<Longrightarrow> trim_prefix h bom = h"
proof -
  assume v: "valid_host h"
  have "\<not> has_prefix h bom"
  proof
    assume "has_prefix h bom"
    then have "CHR 0xEF \<in> set h" by (auto simp: has_prefix_iff bom_def)
    from valid_host_chars [OF v this] show False by (simp add: host_char_def less_eq_char_def)
  qed
  then show ?thesis by (simp add: trim_prefix_def)
qed

lemma normalize_host_fixed:
  assumes v: "valid_host h" and idna: "idna_to_ascii lib h = Some h"
  shows "normalize_host lib h = Inr h"
proof -
  have "trim_space h = h" using valid_host_chars [OF v] host_char_not_ws by (blast intro: trim_space_id)
  moreover have "validate_host h = None" using v by (simp add: validate_host_iff)
  ultimately show ?thesis using v idna
    by (simp add: normalize_host_def valid_host_no_bom valid_host_not_Nil valid_host_no_final_dot
        valid_host_lower Let_def)
qed

section \<open>What the parser produces\<close>

definition good_entry :: "domain_lib \<Rightarrow> bool \<Rightarrow> entry \<Rightarrow> bool" where
  "good_entry lib rx e \<longleftrightarrow>
     (Kind e \<in> {KindExact, KindSuffix} \<and> valid_host (Value e)) \<or>
     (Kind e = KindRegex \<and> rx \<and> Value e \<noteq> [] \<and> length (Value e) \<le> maxRegexLen \<and>
      re_compile_ok lib (Value e))"

lemma host_entry_good: "host_entry lib k v = Inr e \<Longrightarrow> Kind e = k \<and> valid_host (Value e)"
  by (auto simp: host_entry_def dest: normalize_host_valid)

lemma validate_regex_None:
  "validate_regex lib v = None \<longleftrightarrow> v \<noteq> [] \<and> length v \<le> maxRegexLen \<and> re_compile_ok lib v"
  by (auto simp: validate_regex_def)

lemma parse_one_good: "parse_one lib line rx = Inr e \<Longrightarrow> good_entry lib rx e"
  unfolding parse_one_def Let_def good_entry_def
  by (auto simp: validate_regex_None dest!: host_entry_good split: if_splits option.splits)

definition parsed_line :: "domain_lib \<Rightarrow> bool \<Rightarrow> string \<Rightarrow> (parse_error + entry) option" where
  "parsed_line lib rx raw = map_option (\<lambda>line. parse_one lib line rx) (clean_line raw)"

definition parsed_entries :: "domain_lib \<Rightarrow> bool \<Rightarrow> string list \<Rightarrow> entry list" where
  "parsed_entries lib rx raws =
     List.map_filter (\<lambda>raw. case parsed_line lib rx raw of Some (Inr e) \<Rightarrow> Some e | _ \<Rightarrow> None) raws"

definition bad_lines :: "domain_lib \<Rightarrow> bool \<Rightarrow> string list \<Rightarrow> nat" where
  "bad_lines lib rx raws = length (filter (\<lambda>raw. case parsed_line lib rx raw of Some (Inl e) \<Rightarrow> True | _ \<Rightarrow> False) raws)"

lemma parsed_entries_simps [simp]:
  "parsed_entries lib rx [] = []"
  "parsed_entries lib rx (raw # raws) =
     (case parsed_line lib rx raw of Some (Inr e) \<Rightarrow> e # parsed_entries lib rx raws
      | _ \<Rightarrow> parsed_entries lib rx raws)"
  by (auto simp: parsed_entries_def map_filter_simps split: option.splits sum.splits)

lemma set_parsed_entries:
  "set (parsed_entries lib rx raws) = {e. \<exists>raw\<in>set raws. parsed_line lib rx raw = Some (Inr e)}"
  by (induction raws) (auto split: option.splits sum.splits)

lemma skip_line_simps [simp]:
  "Entries (skip_line line err res) = Entries res"
  "Skipped (skip_line line err res) = Suc (Skipped res)"
  "length (Warnings (skip_line line err res)) = (if length (Warnings res) < 50 then Suc (length (Warnings res)) else length (Warnings res))"
  by (simp_all add: skip_line_def)

lemma parse_loop_step:
  "parse_loop lib rx mx (raw # raws) seen res =
     (case parsed_line lib rx raw of
        None \<Rightarrow> parse_loop lib rx mx raws seen res
      | Some (Inl err) \<Rightarrow> parse_loop lib rx mx raws seen (skip_line (the (clean_line raw)) err res)
      | Some (Inr e) \<Rightarrow>
          if e \<in> seen then parse_loop lib rx mx raws seen res
          else if int (length (Entries res)) \<ge> mx then (res\<lparr>Entries := Entries res @ [e]\<rparr>, Some mx)
          else parse_loop lib rx mx raws (insert e seen) (res\<lparr>Entries := Entries res @ [e]\<rparr>))"
  by (auto simp: parsed_line_def Let_def split: option.split sum.split)

text \<open>The loop without the limit: what it appends, and when it stops at the limit.\<close>

lemma parse_loop_correct:
  assumes "int (length (Entries res)) \<le> mx"
  shows "case parse_loop lib rx mx raws seen res of
      (res', None) \<Rightarrow>
        Entries res' = Entries res @ keep_first seen (parsed_entries lib rx raws) \<and>
        Skipped res' = Skipped res + bad_lines lib rx raws \<and>
        int (length (Entries res')) \<le> mx
    | (res', Some m) \<Rightarrow> m = mx \<and> int (length (Entries res')) = mx + 1 \<and>
        mx < int (length (Entries res @ keep_first seen (parsed_entries lib rx raws)))"
  using assms
proof (induction raws arbitrary: seen res)
  case Nil
  then show ?case by (simp add: bad_lines_def)
next
  case (Cons raw raws)
  show ?case
  proof (cases "parsed_line lib rx raw")
    case None
    with Cons.IH [of res seen] Cons.prems show ?thesis
      by (auto simp: parse_loop_step bad_lines_def simp del: parse_loop.simps split: prod.splits option.splits)
  next
    case (Some r)
    show ?thesis
    proof (cases r)
      case (Inl err)
      with Some Cons.IH [of "skip_line (the (clean_line raw)) err res" seen] Cons.prems show ?thesis
        by (auto simp: parse_loop_step bad_lines_def simp del: parse_loop.simps split: prod.splits option.splits)
    next
      case (Inr e)
      let ?res = "res\<lparr>Entries := Entries res @ [e]\<rparr>"
      show ?thesis
      proof (cases "e \<in> seen \<or> mx \<le> int (length (Entries res))")
        case True
        with Some Inr Cons.IH [of res seen] Cons.prems show ?thesis
          by (auto simp: parse_loop_step bad_lines_def simp del: parse_loop.simps split: prod.splits option.splits)
      next
        case False
        with Some Inr Cons.IH [of ?res "insert e seen"] Cons.prems show ?thesis
          by (auto simp: parse_loop_step bad_lines_def simp del: parse_loop.simps split: prod.splits option.splits)
      qed
    qed
  qed
qed

lemma parse_loop_warnings:
  "length (Warnings res) \<le> 50 \<Longrightarrow> length (Warnings (fst (parse_loop lib rx mx raws seen res))) \<le> 50"
proof (induction raws arbitrary: seen res)
  case (Cons raw raws)
  then show ?case
    by (auto simp: parse_loop_step simp del: parse_loop.simps split: option.split sum.split)
qed simp

lemma set_Sort [simp]: "set (Sort es) = set es"
  by (simp add: Sort_def)

lemma sorted_Sort [simp]: "sorted (Sort es)"
  using sorted_sort_key [of "\<lambda>e. e" es] by (simp add: Sort_def)

lemma distinct_Sort [simp]: "distinct (Sort es) = distinct es"
  by (simp add: Sort_def)

lemma length_Sort [simp]: "length (Sort es) = length es"
  by (simp add: Sort_def)

lemma Sort_eq_set:
  assumes "distinct xs" "distinct ys" "set xs = set ys"
  shows "Sort xs = Sort ys"
  using assms by (intro sorted_distinct_set_unique) simp_all

abbreviation lines_of :: "string \<Rightarrow> string list" where
  "lines_of body \<equiv> split_on CHR 0x0A body"

lemma parse_lines_entries:
  assumes "parse_lines lib body opt = (res, None)"
  shows "Entries res = Sort (keep_first {} (parsed_entries lib (AllowRegex opt) (lines_of body)))"
    and "Skipped res = bad_lines lib (AllowRegex opt) (lines_of body)"
    and "int (length (Entries res)) \<le> limit_of opt"
    and "length (Warnings res) \<le> 50"
proof -
  let ?loop = "parse_loop lib (AllowRegex opt) (limit_of opt) (lines_of body) {} empty_result"
  from assms obtain res0 where loop: "?loop = (res0, None)" and res: "res = res0\<lparr>Entries := Sort (Entries res0)\<rparr>"
    by (auto simp: parse_lines_def Let_def split: prod.splits option.splits)
  have le: "int (length (Entries empty_result)) \<le> limit_of opt"
    by (simp add: empty_result_def limit_of_def)
  note L = parse_loop_correct [OF le, where lib = lib and rx = "AllowRegex opt" and raws = "lines_of body" and seen = "{}"]
  show "Entries res = Sort (keep_first {} (parsed_entries lib (AllowRegex opt) (lines_of body)))"
    and "Skipped res = bad_lines lib (AllowRegex opt) (lines_of body)"
    and "int (length (Entries res)) \<le> limit_of opt"
    using L loop by (auto simp: empty_result_def res)
  have "length (Warnings empty_result) \<le> 50" by (simp add: empty_result_def)
  from parse_loop_warnings [OF this] loop show "length (Warnings res) \<le> 50" by (metis fst_conv parse_result.select_convs(3) parse_result.surjective parse_result.update_convs(1) res)
qed

lemma parse_lines_good:
  "parse_lines lib body opt = (res, None) \<Longrightarrow> e \<in> set (Entries res) \<Longrightarrow> good_entry lib (AllowRegex opt) e"
  by (auto simp: parse_lines_entries set_parsed_entries parsed_line_def dest: parse_one_good)

lemma parse_lines_limit_aux:
  "snd (parse_lines lib body opt) =
     (if limit_of opt < int (card (set (parsed_entries lib (AllowRegex opt) (lines_of body))))
      then Some (limit_of opt) else None)"
proof -
  let ?loop = "parse_loop lib (AllowRegex opt) (limit_of opt) (lines_of body) {} empty_result"
  let ?es = "parsed_entries lib (AllowRegex opt) (lines_of body)"
  have le: "int (length (Entries empty_result)) \<le> limit_of opt"
    by (simp add: empty_result_def limit_of_def)
  have card: "length (keep_first {} ?es) = card (set ?es)"
    by (metis Diff_empty distinct_card distinct_keep_first set_keep_first)
  have snd: "snd (parse_lines lib body opt) = snd ?loop"
    by (simp add: parse_lines_def Let_def split: prod.split option.split)
  obtain res r where loop: "?loop = (res, r)" by force
  show ?thesis
    using parse_loop_correct [OF le, where lib = lib and rx = "AllowRegex opt" and raws = "lines_of body" and seen = "{}"] snd loop card
    by (cases r) (auto simp: empty_result_def)
qed


section \<open>Merging, hashing and comparing entry lists\<close>

definition merge_keeps :: "entry list \<Rightarrow> entry \<Rightarrow> bool" where
  "merge_keeps excludes e \<longleftrightarrow>
     e \<notin> set excludes \<and>
     \<not> (Kind e = KindExact \<and> (\<exists>x\<in>set excludes. Kind x = KindSuffix \<and> label_suffix (Value x) (Value e)))"

lemma merge_loop_eq:
  "merge_loop (set ex) (ex_suffixes ex) seen es = keep_first seen (filter (merge_keeps ex) es)"
proof (induction es arbitrary: seen)
  case (Cons e es)
  have "suffix_hit (ex_suffixes ex) (Value e) \<longleftrightarrow>
      (\<exists>x\<in>set ex. Kind x = KindSuffix \<and> label_suffix (Value x) (Value e))"
    by (auto simp: suffix_hit_iff ex_suffixes_def)
  then show ?case using Cons.IH by (auto simp: merge_keeps_def)
qed simp

lemma set_Merge: "set (Merge includes excludes) = {e \<in> set includes. merge_keeps excludes e}"
  by (auto simp: Merge_def merge_loop_eq)

lemma sorted_Merge [simp]: "sorted (Merge includes excludes)"
  by (simp add: Merge_def)

lemma distinct_Merge [simp]: "distinct (Merge includes excludes)"
  by (simp add: Merge_def merge_loop_eq)

lemma set_Merge_Nil [simp]: "set (Merge es []) = set es"
  by (auto simp: set_Merge merge_keeps_def)

lemma Merge_cong:
  "set inc = set inc' \<Longrightarrow> set exc = set exc' \<Longrightarrow> Merge inc exc = Merge inc' exc'"
  by (intro sorted_distinct_set_unique) (auto simp: set_Merge merge_keeps_def)

text \<open>
  The serialisation that is hashed is injective on the entries the parser makes: a kind holds no
  NUL and a value no newline.
\<close>

definition hashable :: "entry \<Rightarrow> bool" where
  "hashable e \<longleftrightarrow> CHR 0x00 \<notin> set (Kind e) \<and> CHR 0x0A \<notin> set (Value e)"

lemma append_sep_inj:
  "c \<notin> set a \<Longrightarrow> c \<notin> set a' \<Longrightarrow> a @ c # r = a' @ c # r' \<longleftrightarrow> a = a' \<and> r = r'"
  by (auto simp: append_eq_append_conv2 Cons_eq_append_conv append_eq_Cons_conv)

lemma hash_input_inj:
  "list_all hashable es \<Longrightarrow> list_all hashable es' \<Longrightarrow> hash_input es = hash_input es' \<Longrightarrow> es = es'"
proof (induction es arbitrary: es')
  case Nil
  then show ?case by (cases es') auto
next
  case (Cons e es)
  from Cons.prems(3) obtain e' fs where es': "es' = e' # fs" by (cases es') auto
  have k: "CHR 0x00 \<notin> set (Kind e)" "CHR 0x00 \<notin> set (Kind e')"
    and v: "CHR 0x0A \<notin> set (Value e)" "CHR 0x0A \<notin> set (Value e')"
    using Cons.prems(1,2) by (auto simp: es' hashable_def)
  from Cons.prems(3) have "Kind e @ CHR 0x00 # (Value e @ CHR 0x0A # hash_input es) =
      Kind e' @ CHR 0x00 # (Value e' @ CHR 0x0A # hash_input fs)"
    by (simp add: es')
  then have "Kind e = Kind e' \<and> Value e = Value e' \<and> hash_input es = hash_input fs"
    using append_sep_inj [OF k] append_sep_inj [OF v] by blast
  with Cons show ?case by (auto simp: es' intro: entry.expand)
qed

lemma Counts_fold:
  "fold (\<lambda>e c. bump c (Kind e)) es c k =
     (if k \<in> Kind ` set es then Some ((case c k of None \<Rightarrow> 0 | Some n \<Rightarrow> n) + int (length (filter (\<lambda>e. Kind e = k) es)))
      else c k)"
  by (induction es arbitrary: c) (auto simp: bump_def filter_empty_conv image_iff)

lemma Counts_kind:
  assumes "k \<in> {''exact'', ''suffix'', ''regex''}"
  shows "Counts es k = Some (int (length (filter (\<lambda>e. Kind e = k) es)))"
proof -
  have "filter (\<lambda>e. Kind e = k) es = []" if "k \<notin> Kind ` set es"
    using that by (auto simp: filter_empty_conv)
  with assms show ?thesis by (auto simp: Counts_def Counts_fold)
qed

lemma Counts_partition_aux:
  assumes "\<forall>e\<in>set es. Kind e \<in> {KindExact, KindSuffix, KindRegex}"
  shows "\<exists>x s r. Counts es ''exact'' = Some x \<and> Counts es ''suffix'' = Some s \<and>
    Counts es ''regex'' = Some r \<and> Counts es ''total'' = Some (x + s + r)"
proof -
  have "length es = length (filter (\<lambda>e. Kind e = ''exact'') es) + length (filter (\<lambda>e. Kind e = ''suffix'') es)
      + length (filter (\<lambda>e. Kind e = ''regex'') es)"
    using assms by (induction es) (auto simp: kind_defs)
  moreover have "''total'' \<notin> Kind ` set es" using assms by (auto simp: kind_defs)
  then have "Counts es ''total'' = Some (int (length es))" by (simp add: Counts_def Counts_fold)
  ultimately show ?thesis by (simp add: Counts_kind)
qed

lemma set_Diff:
  "Diff old new = (added, removed) \<Longrightarrow>
    set added = set new - set old \<and> set removed = set old - set new \<and> sorted added \<and> sorted removed"
  by (auto simp: Diff_def Let_def)


section \<open>Properties\<close>

text \<open>An instance of the parameters, for the witnesses: IDNA and case mapping are the identity, every
  pattern compiles and matches itself only, and the digest is the identity.\<close>

definition plain_lib :: domain_lib where
  "plain_lib =
     \<lparr>uni_lower = (\<lambda>s. s), idna_to_ascii = Some, re_compile_ok = (\<lambda>_. True),
      re_match = (\<lambda>r h. r = h), sha256_hex = (\<lambda>s. s)\<rparr>"

text \<open>
  Property C30. A rule list that parses without an error yields a sorted list without duplicates that
  holds exactly the entries of its parsable lines, every host in it valid and every pattern
  admissible; the number of skipped lines is the number of unparsable ones, and at most fifty
  warnings are kept.
\<close>

theorem parse_lines_correct:
  assumes "parse_lines lib body opt = (res, None)"
  shows "sorted (Entries res) \<and> distinct (Entries res) \<and>
    set (Entries res) = {e. \<exists>raw\<in>set (split_on CHR 0x0A body). parsed_line lib (AllowRegex opt) raw = Some (Inr e)} \<and>
    list_all (good_entry lib (AllowRegex opt)) (Entries res) \<and>
    Skipped res = bad_lines lib (AllowRegex opt) (split_on CHR 0x0A body) \<and>
    length (Warnings res) \<le> 50"
  using parse_lines_entries [OF assms] parse_lines_good [OF assms]
  by (simp add: set_parsed_entries list_all_iff)

theorem parse_lines_correct_witness:
  "parse_lines plain_lib (''*.x.org'' @ [CHR 0x0A] @ ''keyword:q'') \<lparr>AllowRegex = False, MaxEntries = 0\<rparr>
     = (\<lparr>Entries = [Entry ''suffix'' ''x.org''], Skipped = 1, Warnings = [(''keyword:q'', KeywordUnsupported)]\<rparr>, None) \<and>
   list_all (good_entry plain_lib False) [Entry ''suffix'' ''x.org'']"
proof -
  have run: "parse_lines plain_lib (''*.x.org'' @ [CHR 0x0A] @ ''keyword:q'') \<lparr>AllowRegex = False, MaxEntries = 0\<rparr>
     = (\<lparr>Entries = [Entry ''suffix'' ''x.org''], Skipped = 1, Warnings = [(''keyword:q'', KeywordUnsupported)]\<rparr>, None)"
    by code_simp
  show ?thesis using run parse_lines_correct [OF run] by simp
qed

text \<open>
  The parser reports an exceeded limit exactly when the list holds more distinct entries
  than the limit, whose default is one million.
\<close>

theorem parse_lines_limit:
  "snd (parse_lines lib body opt) =
     (if limit_of opt < int (card (set (parsed_entries lib (AllowRegex opt) (split_on CHR 0x0A body))))
      then Some (limit_of opt) else None)"
  by (rule parse_lines_limit_aux)

text \<open>
  Whatever IDNA returns, a normalised host satisfies the declarative grammar of host
  names (length, labels, alphabet, hyphens, at least two labels); and normalising it again gives
  it back wherever IDNA leaves it alone.
\<close>

theorem normalize_host_canonical:
  assumes "normalize_host lib s = Inr h" and "idna_to_ascii lib h = Some h"
  shows "valid_host h \<and> normalize_host lib h = Inr h"
  using assms normalize_host_valid normalize_host_fixed by blast

theorem normalize_host_canonical_witness:
  "valid_host ''example.com'' \<and> normalize_host plain_lib ''example.com'' = Inr ''example.com''"
proof (rule normalize_host_canonical)
  show "normalize_host plain_lib '' Example.COM. '' = Inr ''example.com''" by code_simp
  show "idna_to_ascii plain_lib ''example.com'' = Some ''example.com''" by (simp add: plain_lib_def)
qed

text \<open>
  The validator accepts exactly the host names of the declarative grammar.
\<close>

theorem validate_host_correct: "validate_host h = None \<longleftrightarrow> valid_host h"
  by (rule validate_host_iff)

text \<open>
  \<open>Merge\<close> computes the included entries minus the excluded ones, an excluded suffix also
  removing the exact entries beneath it, as a sorted list without duplicates; its result depends
  on the two inputs as sets only, so the order and repetition of sources cannot change a revision.
\<close>

theorem Merge_correct:
  "sorted (Merge inc exc) \<and> distinct (Merge inc exc) \<and>
   (e \<in> set (Merge inc exc) \<longleftrightarrow>
      e \<in> set inc \<and> e \<notin> set exc \<and>
      \<not> (Kind e = KindExact \<and> suffix_hit (ex_suffixes exc) (Value e))) \<and>
   Merge (rev inc @ inc) (rev exc) = Merge inc exc"
proof -
  have "suffix_hit (ex_suffixes exc) (Value e) \<longleftrightarrow>
      (\<exists>x\<in>set exc. Kind x = KindSuffix \<and> label_suffix (Value x) (Value e))"
    by (auto simp: suffix_hit_iff ex_suffixes_def)
  moreover have "Merge (rev inc @ inc) (rev exc) = Merge inc exc" by (rule Merge_cong) auto
  ultimately show ?thesis by (auto simp: set_Merge merge_keeps_def)
qed

text \<open>
  Two lists of hashable entries (no NUL in a kind, no newline in a value) have the same
  bytes fed to SHA-256 exactly when they are the same list: the content hash is canonical up to
  collisions of SHA-256 itself.
\<close>

theorem hash_input_injective:
  assumes "list_all hashable es" and "list_all hashable es'"
  shows "hash_input es = hash_input es' \<longleftrightarrow> es = es'"
  using assms hash_input_inj by blast

theorem hash_input_injective_witness:
  "hash_input [Entry ''exact'' ''a.b''] = hash_input [Entry ''suffix'' ''a.b''] \<longleftrightarrow>
   [Entry ''exact'' ''a.b''] = [Entry ''suffix'' ''a.b'']"
  by (rule hash_input_injective) (simp_all add: hashable_def)

text \<open>
  \<open>Diff\<close> is a patch: removing the removed entries from the old list and adding the added
  ones gives the new list's entries, and the two parts are sorted and do not overlap.
\<close>

theorem Diff_patches:
  assumes "Diff old new = (added, removed)"
  shows "(set old - set removed) \<union> set added = set new \<and> set added \<inter> set removed = {} \<and>
    set removed \<subseteq> set old \<and> sorted added \<and> sorted removed"
  using set_Diff [OF assms] by blast

theorem Diff_patches_witness:
  "({Entry ''exact'' ''a.b''} - {Entry ''exact'' ''a.b''}) \<union> {Entry ''exact'' ''c.d''} = {Entry ''exact'' ''c.d''}"
  using Diff_patches [of "[Entry ''exact'' ''a.b'']" "[Entry ''exact'' ''c.d'']" "[Entry ''exact'' ''c.d'']" "[Entry ''exact'' ''a.b'']"]
  by (simp add: Diff_def Sort_def)

text \<open>
  For entries of the three kinds, the per-kind counts add up to the reported total.
\<close>

theorem Counts_partition:
  assumes "\<forall>e\<in>set es. Kind e \<in> {KindExact, KindSuffix, KindRegex}"
  shows "\<exists>x s r. Counts es ''exact'' = Some x \<and> Counts es ''suffix'' = Some s \<and>
    Counts es ''regex'' = Some r \<and> Counts es ''total'' = Some (x + s + r)"
  using assms by (rule Counts_partition_aux)

theorem Counts_partition_witness:
  "\<exists>x s r. Counts [Entry ''exact'' ''a.b''] ''exact'' = Some x \<and> Counts [Entry ''exact'' ''a.b''] ''suffix'' = Some s \<and>
    Counts [Entry ''exact'' ''a.b''] ''regex'' = Some r \<and> Counts [Entry ''exact'' ''a.b''] ''total'' = Some (x + s + r)"
  by (rule Counts_partition) (simp add: kind_defs)

end
