(* ===== verification/Domain_Matcher.thy ===== *)
theory Domain_Matcher
  imports Domain_Set
begin

text \<open>
  Package \<open>shared/domainset\<close>, file \<open>matcher.go\<close>: the serialisable \<open>Set\<close>, its compiled \<open>Matcher\<close>, and
  the two queries \<open>Match\<close> and \<open>Specificity\<close> that the DNS frontend, the ingress proxy and the egress
  relay share. A \<open>*Matcher\<close> is an option, \<^term>\<open>None\<close> being the nil pointer; a compiled regexp is
  represented by its pattern.
\<close>

section \<open>Definitions\<close>

record dset =
  Exact :: "string list"
  Suffix :: "string list"
  Regex :: "string list"

definition new_set :: "entry list \<Rightarrow> dset" where
  "new_set es =
     \<lparr>Exact = map Value (filter (\<lambda>e. Kind e = KindExact) es),
      Suffix = map Value (filter (\<lambda>e. Kind e = KindSuffix) es),
      Regex = map Value (filter (\<lambda>e. Kind e = KindRegex) es)\<rparr>"

record matcher =
  exact_m :: "string set"
  suffix_m :: "string set"
  regex_m :: "string list"

definition compile_set :: "domain_lib \<Rightarrow> dset \<Rightarrow> matcher option" where
  "compile_set lib s =
     Some \<lparr>exact_m = set (Exact s), suffix_m = set (Suffix s),
           regex_m = filter (re_compile_ok lib) (Regex s)\<rparr>"

definition match_host :: "domain_lib \<Rightarrow> matcher option \<Rightarrow> string \<Rightarrow> bool" where
  "match_host lib mp host =
     (case mp of
        None \<Rightarrow> False
      | Some m \<Rightarrow>
          if host = [] then False
          else if host \<in> exact_m m then True
          else if suffix_hit (suffix_m m) host then True
          else list_ex (\<lambda>re. re_match lib re host) (regex_m m))"

text \<open>The loop of \<open>Specificity\<close>: the number of labels stripped before the first hit.\<close>

function suffix_depth :: "string set \<Rightarrow> string \<Rightarrow> nat \<Rightarrow> nat option" where
  "suffix_depth S h depth =
     (if h \<in> S then Some depth
      else (case index_byte h CHR ''.'' of
              None \<Rightarrow> None
            | Some i \<Rightarrow> suffix_depth S (drop (i + 1) h) (depth + 1)))"
  by pat_completeness auto
termination
  by (relation "measure (\<lambda>(S, h, d). length h)") (auto dest: index_byte_Some_less)

declare suffix_depth.simps [simp del]

definition specificity :: "domain_lib \<Rightarrow> matcher option \<Rightarrow> string \<Rightarrow> int" where
  "specificity lib mp host =
     (case mp of
        None \<Rightarrow> -1
      | Some m \<Rightarrow>
          if host = [] then -1
          else if host \<in> exact_m m then 1000
          else (case suffix_depth (suffix_m m) host 0 of
                  Some depth \<Rightarrow> 100 - int depth
                | None \<Rightarrow> if list_ex (\<lambda>re. re_match lib re host) (regex_m m) then 1 else -1))"

definition matcher_size :: "matcher option \<Rightarrow> nat" where
  "matcher_size mp =
     (case mp of
        None \<Rightarrow> 0
      | Some m \<Rightarrow> card (exact_m m) + card (suffix_m m) + length (regex_m m))"

section \<open>The rules a host is covered by\<close>

text \<open>The meaning of one entry, and of a set of entries: the reference the matcher is compared with.\<close>

definition covers :: "domain_lib \<Rightarrow> entry \<Rightarrow> string \<Rightarrow> bool" where
  "covers lib e h \<longleftrightarrow>
     (Kind e = KindExact \<and> h = Value e) \<or>
     (Kind e = KindSuffix \<and> label_suffix (Value e) h) \<or>
     (Kind e = KindRegex \<and> re_compile_ok lib (Value e) \<and> re_match lib (Value e) h)"

lemma match_compile_iff:
  "match_host lib (compile_set lib s) h \<longleftrightarrow>
     h \<noteq> [] \<and> (h \<in> set (Exact s) \<or> (\<exists>x\<in>set (Suffix s). label_suffix x h) \<or>
       (\<exists>r\<in>set (Regex s). re_compile_ok lib r \<and> re_match lib r h))"
  by (auto simp: match_host_def compile_set_def suffix_hit_iff list_ex_iff)

lemma match_new_set:
  "match_host lib (compile_set lib (new_set es)) h \<longleftrightarrow> h \<noteq> [] \<and> (\<exists>e\<in>set es. covers lib e h)"
  by (auto simp: match_compile_iff new_set_def covers_def)

lemma match_new_set_mono:
  "set es \<subseteq> set es' \<Longrightarrow> match_host lib (compile_set lib (new_set es)) h \<Longrightarrow>
    match_host lib (compile_set lib (new_set es')) h"
  by (auto simp: match_new_set)

section \<open>Specificity\<close>

lemma suffix_depth_None: "suffix_depth S h d = None \<longleftrightarrow> \<not> suffix_hit S h"
proof (induction S h d rule: suffix_depth.induct)
  case (1 S h d)
  show ?case
  proof (cases "h \<in> S")
    case True
    then show ?thesis by (simp add: suffix_depth.simps [of S h d] suffix_hit.simps [of S h])
  next
    case False
    with "1.IH" show ?thesis
      by (cases "index_byte h CHR ''.''")
        (simp_all add: suffix_depth.simps [of S h d] suffix_hit.simps [of S h] del: index_byte_None)
  qed
qed

lemma label_suffix_length: "label_suffix s h \<Longrightarrow> length s \<le> length h"
  by (auto simp: label_suffix_iff)

lemma suffix_depth_Some:
  "suffix_depth S h d = Some d' \<Longrightarrow>
    \<exists>s\<in>S. label_suffix s h \<and> d' + count_list s CHR ''.'' = d + count_list h CHR ''.'' \<and>
      (\<forall>s'\<in>S. label_suffix s' h \<longrightarrow> length s' \<le> length s)"
proof (induction S h d rule: suffix_depth.induct)
  case (1 S h d)
  show ?case
  proof (cases "h \<in> S")
    case True
    with "1.prems" have "d' = d" by (simp add: suffix_depth.simps [of S h d])
    with True show ?thesis by (auto intro!: bexI [of _ h] dest: label_suffix_length)
  next
    case notin: False
    with "1.prems" obtain i where i: "index_byte h CHR ''.'' = Some i"
      and rec: "suffix_depth S (drop (i + 1) h) (d + 1) = Some d'"
      by (auto simp: suffix_depth.simps [of S h d] split: option.splits)
    from i obtain p r where h: "h = p @ CHR ''.'' # r" and p: "CHR ''.'' \<notin> set p"
      and r: "drop (i + 1) h = r" by (rule index_byte_split)
    from "1.IH" [OF notin i rec] r obtain s where s: "s \<in> S" "label_suffix s r"
      "d' + count_list s CHR ''.'' = d + 1 + count_list r CHR ''.''"
      "\<forall>s'\<in>S. label_suffix s' r \<longrightarrow> length s' \<le> length s"
      by auto
    have "count_list h CHR ''.'' = 1 + count_list r CHR ''.''"
      using p by (simp add: h count_list_0_iff)
    moreover have "label_suffix s' h \<longleftrightarrow> label_suffix s' r" if "s' \<in> S" for s'
      using that notin p unfolding h by (auto simp: label_suffix_dot)
    ultimately show ?thesis using s by auto
  qed
qed

lemma specificity_neg: "\<not> match_host lib m h \<Longrightarrow> specificity lib m h = -1"
  using suffix_depth_None [of "suffix_m (the m)" h 0]
  by (auto simp: specificity_def match_host_def split: option.splits if_splits)

text \<open>
  A host with at most a hundred dots matches exactly when its specificity is not negative; the
  callers test \<open>spec < 0\<close>, so for such hosts the router and the relay agree.
\<close>

lemma specificity_nonneg_iff:
  assumes "count_list h CHR ''.'' \<le> 100"
  shows "0 \<le> specificity lib m h \<longleftrightarrow> match_host lib m h"
proof (cases m)
  case None
  then show ?thesis by (simp add: specificity_def match_host_def)
next
  case (Some mm)
  show ?thesis
  proof (cases "suffix_depth (suffix_m mm) h 0")
    case None
    then have "\<not> suffix_hit (suffix_m mm) h" by (simp add: suffix_depth_None)
    with None Some show ?thesis by (simp add: specificity_def match_host_def)
  next
    case hit: (Some d)
    then have "suffix_hit (suffix_m mm) h" using suffix_depth_None [of "suffix_m mm" h 0] by auto
    moreover from suffix_depth_Some [OF hit] assms have "d \<le> 100" by auto
    ultimately show ?thesis using hit Some by (simp add: specificity_def match_host_def)
  qed
qed

lemma specificity_bounds: "specificity lib m h \<le> 1000"
  by (auto simp: specificity_def split: option.split)

text \<open>Among suffix hits the longer suffix gives the larger specificity.\<close>

lemma specificity_suffix:
  assumes "h \<noteq> []" and "h \<notin> exact_m m" and "suffix_hit (suffix_m m) h"
  obtains s where "s \<in> suffix_m m" and "label_suffix s h"
    and "specificity lib (Some m) h = 100 - int (count_list h CHR ''.'') + int (count_list s CHR ''.'')"
    and "\<And>s'. s' \<in> suffix_m m \<Longrightarrow> label_suffix s' h \<Longrightarrow> length s' \<le> length s"
proof -
  from assms(3) obtain d where d: "suffix_depth (suffix_m m) h 0 = Some d"
    using suffix_depth_None [of "suffix_m m" h 0] by auto
  from suffix_depth_Some [OF d] obtain s where "s \<in> suffix_m m" "label_suffix s h"
    "d + count_list s CHR ''.'' = count_list h CHR ''.''"
    "\<forall>s'\<in>suffix_m m. label_suffix s' h \<longrightarrow> length s' \<le> length s" by auto
  with assms d show thesis by (intro that [of s]) (auto simp: specificity_def)
qed


subsection \<open>The entry behind a specificity\<close>

lemma new_set_mem:
  "v \<in> set (Exact (new_set es)) \<longleftrightarrow> Entry KindExact v \<in> set es"
  "v \<in> set (Suffix (new_set es)) \<longleftrightarrow> Entry KindSuffix v \<in> set es"
  "v \<in> set (Regex (new_set es)) \<longleftrightarrow> Entry KindRegex v \<in> set es"
  by (auto simp: new_set_def image_iff) (metis entry.exhaust_sel entry.sel)+

lemma label_suffix_cases:
  assumes "label_suffix s h" and "label_suffix s' h" and "length s \<le> length s'"
  shows "s = s' \<or> (\<exists>t. s' = t @ CHR ''.'' # s)"
proof -
  obtain t t' where t: "h = t @ s" "t = [] \<or> (\<exists>u. t = u @ ''.'')" and t': "h = t' @ s'"
    using assms(1,2) by (auto simp: label_suffix_iff) (metis append.assoc append_Cons append_Nil)+
  from t(1) t' have "t @ s = t' @ s'" by simp
  with assms(3) obtain w where w: "s' = w @ s" "t = t' @ w"
    by (auto simp: append_eq_append_conv2)
  show ?thesis
  proof (cases "w = []")
    case False
    with t(2) w(2) obtain u where "t = u @ ''.''" by auto
    with w(2) False have "last w = CHR ''.''" by (metis last_appendR last_snoc)
    with False have "w = butlast w @ ''.''" by (metis append_butlast_last_id)
    with w(1) show ?thesis by (metis append.assoc append_Cons append_Nil)
  qed (use w in simp)
qed

lemma label_suffix_dots:
  assumes "label_suffix s h" and "label_suffix s' h"
  shows "length s \<le> length s' \<Longrightarrow> count_list s CHR ''.'' \<le> count_list s' CHR ''.''"
    and "count_list s CHR ''.'' = count_list s' CHR ''.'' \<Longrightarrow> s = s'"
proof -
  have less: "count_list a CHR ''.'' < count_list b CHR ''.'' \<or> a = b"
    if "label_suffix a h" "label_suffix b h" "length a \<le> length b" for a b
    using label_suffix_cases [OF that] by auto
  show "length s \<le> length s' \<Longrightarrow> count_list s CHR ''.'' \<le> count_list s' CHR ''.''"
    using less [OF assms] by auto
  show "count_list s CHR ''.'' = count_list s' CHR ''.'' \<Longrightarrow> s = s'"
    using less [OF assms] less [OF assms(2,1)] by (cases "length s \<le> length s'") auto
qed

lemma specificity_entry:
  assumes "\<And>v. Entry KindRegex v \<notin> set es" and "0 \<le> specificity lib (compile_set lib (new_set es)) h"
  shows "(specificity lib (compile_set lib (new_set es)) h = 1000 \<and> Entry KindExact h \<in> set es) \<or>
    (\<exists>s. Entry KindSuffix s \<in> set es \<and> label_suffix s h \<and>
       specificity lib (compile_set lib (new_set es)) h = 100 - int (count_list h CHR ''.'') + int (count_list s CHR ''.''))"
proof -
  let ?m = "\<lparr>exact_m = set (Exact (new_set es)), suffix_m = set (Suffix (new_set es)),
    regex_m = filter (re_compile_ok lib) (Regex (new_set es))\<rparr>"
  have h: "h \<noteq> []" using assms(2) by (auto simp: specificity_def compile_set_def)
  have no: "Regex (new_set es) = []"
    using assms(1) new_set_mem(3) [of _ es] by (metis last_in_set)
  show ?thesis
  proof (cases "h \<in> exact_m ?m")
    case True
    then show ?thesis using h by (simp add: specificity_def compile_set_def new_set_mem)
  next
    case ex: False
    have "suffix_hit (suffix_m ?m) h"
      using assms(2) h ex no suffix_depth_None [of "suffix_m ?m" h 0]
      by (auto simp: specificity_def compile_set_def split: option.splits)
    from specificity_suffix [OF h ex this, of lib] show ?thesis
      by (metis compile_set_def matcher.select_convs(2) new_set_mem(2))
  qed
qed

lemma specificity_lower:
  assumes "h \<noteq> []"
  shows "Entry KindExact h \<in> set es \<Longrightarrow> specificity lib (compile_set lib (new_set es)) h = 1000"
    and "Entry KindSuffix s \<in> set es \<Longrightarrow> label_suffix s h \<Longrightarrow>
      100 - int (count_list h CHR ''.'') + int (count_list s CHR ''.'') \<le> specificity lib (compile_set lib (new_set es)) h"
proof -
  let ?m = "\<lparr>exact_m = set (Exact (new_set es)), suffix_m = set (Suffix (new_set es)),
    regex_m = filter (re_compile_ok lib) (Regex (new_set es))\<rparr>"
  show ex: "Entry KindExact h \<in> set es \<Longrightarrow> specificity lib (compile_set lib (new_set es)) h = 1000"
    using assms by (simp add: specificity_def compile_set_def new_set_mem)
  assume s: "Entry KindSuffix s \<in> set es" "label_suffix s h"
  have "count_list s CHR ''.'' \<le> count_list h CHR ''.''"
    using label_suffix_dots(1) [OF s(2) label_suffix_refl] label_suffix_length [OF s(2)] by simp
  show "100 - int (count_list h CHR ''.'') + int (count_list s CHR ''.'') \<le> specificity lib (compile_set lib (new_set es)) h"
  proof (cases "h \<in> exact_m ?m")
    case True
    then show ?thesis using ex \<open>count_list s CHR ''.'' \<le> count_list h CHR ''.''\<close> by (simp add: new_set_mem)
  next
    case False
    have "suffix_hit (suffix_m ?m) h" using s by (auto simp: suffix_hit_iff new_set_mem)
    from specificity_suffix [OF assms False this, of lib] obtain s' where
      "label_suffix s' h" "specificity lib (Some ?m) h = 100 - int (count_list h CHR ''.'') + int (count_list s' CHR ''.'')"
      "length s \<le> length s'" using s by (metis matcher.select_convs(2) new_set_mem(2))
    with label_suffix_dots(1) [OF s(2)] show ?thesis by (simp add: compile_set_def)
  qed
qed

section \<open>Properties\<close>

text \<open>
  Property C17. The compiled matcher covers a host exactly when some entry does: an exact entry by
  equality, a suffix entry at a label boundary (so \<open>example.com\<close> covers \<open>api.example.com\<close> and itself
  but not \<open>notexample.com\<close>), a pattern when it compiles and matches.
\<close>

theorem match_correct:
  "match_host lib (compile_set lib (new_set es)) h \<longleftrightarrow>
     h \<noteq> [] \<and> (\<exists>e\<in>set es.
       (Kind e = KindExact \<and> h = Value e) \<or>
       (Kind e = KindSuffix \<and> (h = Value e \<or> (\<exists>p. h = p @ CHR ''.'' # Value e))) \<or>
       (Kind e = KindRegex \<and> re_compile_ok lib (Value e) \<and> re_match lib (Value e) h))"
  by (simp add: match_new_set covers_def label_suffix_iff)

text \<open>
  For a host with at most a hundred dots, \<open>Specificity\<close> is non-negative exactly when
  \<open>Match\<close> holds, so the router that tests the sign and the relay that calls \<open>Match\<close> agree.
\<close>

theorem specificity_agrees_with_match:
  assumes "count_list h CHR ''.'' \<le> 100"
  shows "0 \<le> specificity lib m h \<longleftrightarrow> match_host lib m h"
  using assms by (rule specificity_nonneg_iff)

theorem specificity_agrees_with_match_witness:
  "0 \<le> specificity plain_lib (compile_set plain_lib (new_set [Entry ''suffix'' ''x.org''])) ''a.x.org'' \<longleftrightarrow>
   match_host plain_lib (compile_set plain_lib (new_set [Entry ''suffix'' ''x.org''])) ''a.x.org''"
  by (rule specificity_agrees_with_match) simp

text \<open>
  Property C0. The agreement fails beyond that: for a valid host name with 104 labels covered by the
  suffix \<open>a.a\<close>, \<open>Match\<close> holds while \<open>Specificity\<close> is negative, which its callers read as no match.
\<close>

definition deep_host :: string where
  "deep_host = concat (replicate 102 ''a.'') @ ''a.a''"

theorem specificity_deep_host:
  "valid_host deep_host \<and>
   match_host lib (compile_set lib (new_set [Entry KindSuffix ''a.a''])) deep_host \<and>
   specificity lib (compile_set lib (new_set [Entry KindSuffix ''a.a''])) deep_host = -2"
proof -
  have v: "valid_host deep_host" by code_simp
  have d: "suffix_depth {''a.a''} deep_host 0 = Some 102" by code_simp
  then have hit: "suffix_hit {''a.a''} deep_host"
    using suffix_depth_None [of "{''a.a''}" deep_host 0] by simp
  have "deep_host \<noteq> []" by (simp add: deep_host_def)
  with v d hit show ?thesis
    by (simp add: match_host_def specificity_def compile_set_def new_set_def kind_defs)
qed

text \<open>
  Among suffix hits, a matcher whose longest matching suffix has more labels has the
  larger specificity: the most specific rule wins.
\<close>

theorem specificity_longest_suffix:
  assumes "h \<noteq> []" and "h \<notin> exact_m m" and "suffix_hit (suffix_m m) h"
  shows "\<exists>s\<in>suffix_m m. label_suffix s h \<and>
    specificity lib (Some m) h = 100 - int (count_list h CHR ''.'') + int (count_list s CHR ''.'') \<and>
    (\<forall>s'\<in>suffix_m m. label_suffix s' h \<longrightarrow> length s' \<le> length s)"
  using specificity_suffix [OF assms, of lib] by metis

theorem specificity_longest_suffix_witness:
  "\<exists>s\<in>{''x.org''}. label_suffix s ''a.x.org'' \<and>
    specificity plain_lib (Some \<lparr>exact_m = {}, suffix_m = {''x.org''}, regex_m = []\<rparr>) ''a.x.org'' =
      100 - int (count_list ''a.x.org'' CHR ''.'') + int (count_list s CHR ''.'') \<and>
    (\<forall>s'\<in>{''x.org''}. label_suffix s' ''a.x.org'' \<longrightarrow> length s' \<le> length s)"
  using specificity_longest_suffix [of "''a.x.org''" "\<lparr>exact_m = {}, suffix_m = {''x.org''}, regex_m = []\<rparr>" plain_lib]
  by (simp add: suffix_hit_iff label_suffix_def has_suffix_def)

end
