(* ===== verification/Go_Encoding.thy ===== *)
theory Go_Encoding
  imports Go_Prelude
begin

text \<open>
  The parts of Go's \<open>encoding/base64\<close> and \<open>encoding/hex\<close> the sources use. \<open>b64_encode\<close> and
  \<open>b64_decode\<close> are \<open>StdEncoding.EncodeToString\<close> and \<open>StdEncoding.DecodeString\<close>: the padded standard
  alphabet, a decoder that skips carriage returns and line feeds anywhere, rejects every other
  byte outside the alphabet, and rejects anything after the padding. \<open>hex_encode\<close> is
  \<open>hex.EncodeToString\<close>. \<open>b64url_decode\<close> is \<open>RawURLEncoding.DecodeString\<close>.
\<close>

section \<open>base64.StdEncoding\<close>

definition b64_alphabet :: string where
  "b64_alphabet = ''ABCDEFGHIJKLMNOPQRSTUVWXYZabcdefghijklmnopqrstuvwxyz0123456789+/''"

definition b64_char :: "nat \<Rightarrow> char" where
  "b64_char i = b64_alphabet ! i"

definition b64_val :: "char \<Rightarrow> nat option" where
  "b64_val c = index_byte b64_alphabet c"

fun b64_encode :: "bytes \<Rightarrow> string" where
  "b64_encode [] = []"
| "b64_encode [a] =
     [b64_char (unat a div 4), b64_char (unat a mod 4 * 16), CHR ''='', CHR ''='']"
| "b64_encode [a, b] =
     [b64_char (unat a div 4), b64_char (unat a mod 4 * 16 + unat b div 16),
      b64_char (unat b mod 16 * 4), CHR ''='']"
| "b64_encode (a # b # c # bs) =
     b64_char (unat a div 4) # b64_char (unat a mod 4 * 16 + unat b div 16) #
     b64_char (unat b mod 16 * 4 + unat c div 64) # b64_char (unat c mod 64) # b64_encode bs"

text \<open>One quantum: the three bytes four alphabet values stand for.\<close>

definition quantum :: "nat \<Rightarrow> nat \<Rightarrow> nat \<Rightarrow> nat \<Rightarrow> bytes" where
  "quantum p q r s =
     [of_nat (p * 4 + q div 16), of_nat (q mod 16 * 16 + r div 4), of_nat (r mod 4 * 64 + s)]"

fun b64_quanta :: "string \<Rightarrow> bytes option" where
  "b64_quanta [] = Some []"
| "b64_quanta (w # x # y # z # rest) =
     (case (b64_val w, b64_val x) of
        (Some p, Some q) \<Rightarrow>
          if y = CHR ''='' then
            (if z = CHR ''='' \<and> rest = [] then Some (take 1 (quantum p q 0 0)) else None)
          else (case b64_val y of
                  None \<Rightarrow> None
                | Some r \<Rightarrow>
                    if z = CHR ''='' then
                      (if rest = [] then Some (take 2 (quantum p q r 0)) else None)
                    else (case b64_val z of
                            None \<Rightarrow> None
                          | Some s \<Rightarrow> map_option (\<lambda>bs. quantum p q r s @ bs) (b64_quanta rest)))
      | _ \<Rightarrow> None)"
| "b64_quanta _ = None"

definition b64_decode :: "string \<Rightarrow> bytes option" where
  "b64_decode s = b64_quanta (filter (\<lambda>c. c \<noteq> CHR 0x0A \<and> c \<noteq> CHR 0x0D) s)"

section \<open>base64.RawURLEncoding\<close>

text \<open>The URL alphabet without padding: a last group of two or three characters is allowed.\<close>

definition b64url_val :: "char \<Rightarrow> nat option" where
  "b64url_val c =
     index_byte ''ABCDEFGHIJKLMNOPQRSTUVWXYZabcdefghijklmnopqrstuvwxyz0123456789-_'' c"

fun b64url_quanta :: "string \<Rightarrow> bytes option" where
  "b64url_quanta [] = Some []"
| "b64url_quanta [w] = None"
| "b64url_quanta [w, x] =
     (case (b64url_val w, b64url_val x) of
        (Some p, Some q) \<Rightarrow> Some (take 1 (quantum p q 0 0)) | _ \<Rightarrow> None)"
| "b64url_quanta [w, x, y] =
     (case (b64url_val w, b64url_val x, b64url_val y) of
        (Some p, Some q, Some r) \<Rightarrow> Some (take 2 (quantum p q r 0)) | _ \<Rightarrow> None)"
| "b64url_quanta (w # x # y # z # rest) =
     (case (b64url_val w, b64url_val x, b64url_val y, b64url_val z) of
        (Some p, Some q, Some r, Some s) \<Rightarrow> map_option (\<lambda>bs. quantum p q r s @ bs) (b64url_quanta rest)
      | _ \<Rightarrow> None)"

definition b64url_decode :: "string \<Rightarrow> bytes option" where
  "b64url_decode s = b64url_quanta (filter (\<lambda>c. c \<noteq> CHR 0x0A \<and> c \<noteq> CHR 0x0D) s)"

section \<open>encoding/hex\<close>

definition hex_digit :: "nat \<Rightarrow> char" where
  "hex_digit i = ''0123456789abcdef'' ! i"

definition hex_encode :: "bytes \<Rightarrow> string" where
  "hex_encode bs = concat (map (\<lambda>b. [hex_digit (unat b div 16), hex_digit (unat b mod 16)]) bs)"

section \<open>Round trips\<close>

declare unat_byte_less [simp]

lemma unat_byte_div [simp]:
  "unat (b :: byte) div 4 < 64" "unat b div 16 < 16" "unat b div 64 < 4"
  by (rule less_mult_imp_div_less, simp)+

lemma b64_alphabet_ok:
  "list_all (\<lambda>i. b64_val (b64_char i) = Some i \<and> b64_char i \<notin> set [CHR ''='', CHR 0x0A, CHR 0x0D]) [0..<64]"
  by code_simp

lemma b64_char_ok:
  assumes "i < 64"
  shows "b64_val (b64_char i) = Some i" and "b64_char i \<noteq> CHR ''=''"
    and "b64_char i \<noteq> CHR 0x0A" and "b64_char i \<noteq> CHR 0x0D"
  using b64_alphabet_ok assms by (auto simp: list_all_iff)

lemma byte_digit_bounds [simp]:
  "unat (a :: byte) div 4 < 64" "unat a mod 4 * 16 < 64" "unat a mod 16 * 4 < 64"
  "unat a mod 4 * 16 + unat (b :: byte) div 16 < 64"
  "unat b mod 16 * 4 + unat (c :: byte) div 64 < 64" "unat c mod 64 < 64"
proof -
  show "unat a div 4 < 64" by (rule unat_byte_div)
  have a: "unat a mod 4 < 4" "unat a mod 16 < 16" by simp_all
  then show "unat a mod 4 * 16 < 64" "unat a mod 16 * 4 < 64" by linarith+
  have "unat a mod 4 \<le> 3" "unat b div 16 < 16" using a by simp_all
  then show "unat a mod 4 * 16 + unat b div 16 < 64" by linarith
  have "unat b mod 16 \<le> 15" "unat c div 64 < 4" by simp_all
  then show "unat b mod 16 * 4 + unat c div 64 < 64" by linarith
  show "unat c mod 64 < 64" by simp
qed

lemma quantum_digits:
  "quantum (unat a div 4) (unat a mod 4 * 16 + unat b div 16)
     (unat b mod 16 * 4 + unat c div 64) (unat c mod 64) = [a, b, c]"
proof -
  have b: "unat b div 16 < 16" "unat c div 64 < 4" by (rule unat_byte_div)+
  have 1: "unat a div 4 * 4 + (unat a mod 4 * 16 + unat b div 16) div 16 = unat a"
    using b by simp
  have 2: "(unat a mod 4 * 16 + unat b div 16) mod 16 * 16 + (unat b mod 16 * 4 + unat c div 64) div 4 = unat b"
    using b by simp
  have 3: "(unat b mod 16 * 4 + unat c div 64) mod 4 * 64 + unat c mod 64 = unat c"
    using b by simp
  show ?thesis unfolding quantum_def 1 2 3 by simp
qed

lemmas quantum_short =
  quantum_digits [of _ 0 0, simplified] quantum_digits [of _ _ 0, simplified]

lemma b64_encode_no_newline: "c \<in> set (b64_encode bs) \<Longrightarrow> c \<noteq> CHR 0x0A \<and> c \<noteq> CHR 0x0D"
  by (induction bs rule: b64_encode.induct) (auto simp: b64_char_ok)

lemma b64_quanta_encode: "b64_quanta (b64_encode bs) = Some bs"
  by (induction bs rule: b64_encode.induct)
    (simp_all add: b64_char_ok quantum_short quantum_digits)

lemma b64_decode_encode [simp]: "b64_decode (b64_encode bs) = Some bs"
proof -
  have "filter (\<lambda>c. c \<noteq> CHR 0x0A \<and> c \<noteq> CHR 0x0D) (b64_encode bs) = b64_encode bs"
    using b64_encode_no_newline by (simp add: filter_id_conv)
  then show ?thesis by (simp add: b64_decode_def b64_quanta_encode)
qed

lemma hex_digit_inj: "i < 16 \<Longrightarrow> j < 16 \<Longrightarrow> hex_digit i = hex_digit j \<Longrightarrow> i = j"
proof -
  have "list_all (\<lambda>i. list_all (\<lambda>j. hex_digit i = hex_digit j \<longrightarrow> i = j) [0..<16]) [0..<16]"
    by code_simp
  then show "i < 16 \<Longrightarrow> j < 16 \<Longrightarrow> hex_digit i = hex_digit j \<Longrightarrow> i = j"
    by (simp add: list_all_iff)
qed

lemma hex_encode_inj: "hex_encode a = hex_encode b \<Longrightarrow> a = b"
proof (induction a arbitrary: b)
  case Nil
  then show ?case by (cases b) (auto simp: hex_encode_def)
next
  case (Cons x xs)
  then obtain y ys where b: "b = y # ys" by (cases b) (auto simp: hex_encode_def)
  from Cons.prems b have e: "hex_digit (unat x div 16) = hex_digit (unat y div 16)"
    "hex_digit (unat x mod 16) = hex_digit (unat y mod 16)" "hex_encode xs = hex_encode ys"
    by (auto simp: hex_encode_def)
  have "unat x div 16 < 16" "unat y div 16 < 16"
    by (rule unat_byte_div)+
  then have "unat x = unat y"
    using e(1,2) hex_digit_inj by (metis div_mult_mod_eq mod_less_divisor zero_less_numeral)
  with Cons.IH [OF e(3)] b show ?case by (simp add: word_unat_eq_iff)
qed

lemma length_hex_encode [simp]: "length (hex_encode bs) = 2 * length bs"
  by (induction bs) (auto simp: hex_encode_def)

end
