(* ===== verification/Artifact_Model.thy ===== *)
theory Artifact_Model
  imports Domain_Matcher Go_Encoding
begin

text \<open>
  The wire contract between the panel and the nodes (\<open>shared/model\<close>): the node configuration with
  its DNS, ingress and egress sections, the signed manifest, the enrolment bundle and the health
  report, one record per Go struct (record fields carry a short prefix because Isabelle's record
  selectors are global). A \<open>uint32\<close> TTL is a \<^typ>\<open>32 word\<close>; \<open>time.Time\<close> is an \<^typ>\<open>int\<close> of
  nanoseconds; \<open>float64\<close> telemetry values are rationals.

  \<open>encoding/json\<close>, \<open>compress/gzip\<close>, \<open>crypto/ed25519\<close> and \<open>crypto/sha256\<close> are parameters, collected in
  \<open>wire_lib\<close>; base64 is the executable model of \<open>Go_Encoding\<close>.
\<close>

section \<open>The data of a revision\<close>

definition CompilerVersion :: string where
  "CompilerVersion = ''1.0.0''"

definition ArtifactKind :: string where
  "ArtifactKind = ''node-config''"

record artifact_ref =
  ar_node_id :: string
  ar_kind :: string
  ar_path :: string
  ar_sha256 :: string
  ar_size :: int

record manifest =
  mf_revision_id :: string
  mf_sequence :: int
  mf_created_at :: int
  mf_compiler_version :: string
  mf_model_sha256 :: string
  mf_min_agent_version :: string
  mf_artifacts :: "artifact_ref list"
  mf_signature :: string

record egress_target =
  et_node_id :: string
  et_name :: string
  et_endpoint :: string
  et_sni :: string
  et_priority :: int
  et_weight :: int

record egress_policy =
  ep_mode :: string
  ep_targets :: "egress_target list"
  ep_fail_threshold :: int
  ep_rise_threshold :: int
  ep_probe_interval :: int
  ep_hysteresis_pct :: int
  ep_hysteresis_ms :: int

record service =
  sv_slug :: string
  sv_name :: string
  sv_priority :: int
  sv_ttl :: u32
  sv_allowed_ports :: "int list"
  sv_udp_mode :: string
  sv_match :: dset
  sv_rule_set_hash :: string
  sv_ingress_v4 :: "string list"
  sv_ingress_v6 :: "string list"
  sv_egress :: egress_policy

record dns_access =
  da_mode :: string
  da_allowed_cidrs :: "string list"
  da_doh_path_tokens :: "string list"
  da_rate_limit_qps :: int
  da_rate_limit_burst :: int
  da_max_concurrent :: int

record dns_config =
  dc_upstream :: string
  dc_access :: dns_access
  dc_min_ttl :: u32
  dc_max_ttl :: u32
  dc_publish_aaaa :: bool
  dc_block_https_rr :: bool
  dc_log_queries :: bool
  dc_doh_hostname :: string
  dc_dot_hostname :: string

record ingress_config =
  ic_client_hello_timeout_ms :: int
  ic_max_pre_read_bytes :: int
  ic_dial_timeout_ms :: int
  ic_idle_timeout_sec :: int
  ic_max_sessions :: int

record egress_config =
  ec_allow :: dset
  ec_allowed_ports :: "int list"
  ec_resolver :: string
  ec_dial_timeout_ms :: int
  ec_idle_timeout_sec :: int
  ec_max_sessions :: int
  ec_allow_private_destinations :: bool

record node_config =
  nc_schema_version :: int
  nc_revision_id :: string
  nc_sequence :: int
  nc_node_id :: string
  nc_node_name :: string
  nc_role :: string
  nc_services :: "service list"
  nc_dns :: dns_config
  nc_ingress :: ingress_config
  nc_egress :: egress_config
  nc_log_level :: string
  nc_notes :: "string list"

record node_bundle =
  bd_node_id :: string
  bd_name :: string
  bd_role :: string
  bd_node_cert_pem :: string
  bd_node_key_pem :: string
  bd_ca_cert_pem :: string
  bd_panel_client_fp :: string

record health =
  hl_applied_revision_id :: string
  hl_applied_sequence :: int
  hl_status :: string
  hl_role :: string
  hl_version :: string
  hl_uptime_s :: int
  hl_last_err :: string
  hl_queries_per_sec :: rat
  hl_reject_rate :: rat
  hl_upstream_ok :: bool
  hl_egress_reachable :: bool
  hl_cert_days_left :: int
  hl_allowlist_denials :: int
  hl_resolve_errors :: int

text \<open>Go's zero values of the structs.\<close>

definition zero_policy :: egress_policy where
  "zero_policy = \<lparr>ep_mode = [], ep_targets = [], ep_fail_threshold = 0, ep_rise_threshold = 0,
     ep_probe_interval = 0, ep_hysteresis_pct = 0, ep_hysteresis_ms = 0\<rparr>"

definition zero_service :: service where
  "zero_service = \<lparr>sv_slug = [], sv_name = [], sv_priority = 0, sv_ttl = 0, sv_allowed_ports = [],
     sv_udp_mode = [], sv_match = new_set [], sv_rule_set_hash = [], sv_ingress_v4 = [], sv_ingress_v6 = [],
     sv_egress = zero_policy\<rparr>"

definition zero_access :: dns_access where
  "zero_access = \<lparr>da_mode = [], da_allowed_cidrs = [], da_doh_path_tokens = [],
     da_rate_limit_qps = 0, da_rate_limit_burst = 0, da_max_concurrent = 0\<rparr>"

definition zero_dns :: dns_config where
  "zero_dns = \<lparr>dc_upstream = [], dc_access = zero_access, dc_min_ttl = 0, dc_max_ttl = 0,
     dc_publish_aaaa = False, dc_block_https_rr = False, dc_log_queries = False,
     dc_doh_hostname = [], dc_dot_hostname = []\<rparr>"

definition zero_ingress :: ingress_config where
  "zero_ingress = \<lparr>ic_client_hello_timeout_ms = 0, ic_max_pre_read_bytes = 0,
     ic_dial_timeout_ms = 0, ic_idle_timeout_sec = 0, ic_max_sessions = 0\<rparr>"

definition zero_egress :: egress_config where
  "zero_egress = \<lparr>ec_allow = new_set [], ec_allowed_ports = [], ec_resolver = [],
     ec_dial_timeout_ms = 0, ec_idle_timeout_sec = 0, ec_max_sessions = 0,
     ec_allow_private_destinations = False\<rparr>"

definition zero_config :: node_config where
  "zero_config = \<lparr>nc_schema_version = 0, nc_revision_id = [], nc_sequence = 0, nc_node_id = [],
     nc_node_name = [], nc_role = [], nc_services = [], nc_dns = zero_dns, nc_ingress = zero_ingress,
     nc_egress = zero_egress, nc_log_level = [], nc_notes = []\<rparr>"

section \<open>Library parameters\<close>

record wire_lib =
  json_manifest :: "manifest \<Rightarrow> bytes"
  json_config :: "node_config \<Rightarrow> bytes option"
  json_config_parse :: "bytes \<Rightarrow> node_config option"
  json_bundle :: "node_bundle \<Rightarrow> bytes"
  json_bundle_parse :: "bytes \<Rightarrow> node_bundle option"
  gzip_compress :: "bytes \<Rightarrow> bytes"
  gzip_header_ok :: "bytes \<Rightarrow> bool"
  gzip_read_all :: "bytes \<Rightarrow> bytes option"
  ed25519_verify :: "bytes \<Rightarrow> bytes \<Rightarrow> bytes \<Rightarrow> bool"
  ed25519_sign :: "bytes \<Rightarrow> bytes \<Rightarrow> bytes"
  sha256_sum :: "bytes \<Rightarrow> bytes"

definition ed25519_public_key_size :: nat where
  "ed25519_public_key_size = 32"

section \<open>Manifest and bundle\<close>

definition SigningPayload :: "wire_lib \<Rightarrow> manifest \<Rightarrow> bytes" where
  "SigningPayload wl m = (let c = m\<lparr>mf_signature := []\<rparr> in json_manifest wl c)"

definition Canonical :: "wire_lib \<Rightarrow> node_config \<Rightarrow> bytes option" where
  "Canonical wl c = json_config wl c"

definition SHA256Hex :: "wire_lib \<Rightarrow> bytes \<Rightarrow> string" where
  "SHA256Hex wl b = hex_encode (sha256_sum wl b)"

datatype verify_error = NoPublicKey | DecodeSignature | BadSignature

definition Verify :: "wire_lib \<Rightarrow> manifest \<Rightarrow> bytes \<Rightarrow> verify_error option" where
  "Verify wl m pub =
     (if length pub \<noteq> ed25519_public_key_size then Some NoPublicKey
      else case b64_decode (mf_signature m) of
             None \<Rightarrow> Some DecodeSignature
           | Some sig \<Rightarrow>
               if \<not> ed25519_verify wl pub (SigningPayload wl m) sig then Some BadSignature else None)"

definition Encode :: "wire_lib \<Rightarrow> node_bundle \<Rightarrow> string" where
  "Encode wl b = b64_encode (gzip_compress wl (json_bundle wl b))"

datatype bundle_error = NotBase64 | GzipHeader | GzipBody | NotJSON | MissingFields

definition is_gzip :: "bytes \<Rightarrow> bool" where
  "is_gzip raw \<longleftrightarrow> 2 \<le> length raw \<and> raw ! 0 = 0x1f \<and> raw ! 1 = 0x8b"

definition gunzip :: "wire_lib \<Rightarrow> bytes \<Rightarrow> bundle_error + bytes" where
  "gunzip wl raw =
     (if is_gzip raw then
        (if \<not> gzip_header_ok wl raw then Inl GzipHeader
         else case gzip_read_all wl raw of None \<Rightarrow> Inl GzipBody | Some r \<Rightarrow> Inr r)
      else Inr raw)"

definition DecodeBundle :: "wire_lib \<Rightarrow> string \<Rightarrow> bundle_error + node_bundle" where
  "DecodeBundle wl s =
     (case b64_decode s of
        None \<Rightarrow> Inl NotBase64
      | Some raw0 \<Rightarrow>
          (case gunzip wl raw0 of
             Inl e \<Rightarrow> Inl e
           | Inr raw \<Rightarrow>
               (case json_bundle_parse wl raw of
                  None \<Rightarrow> Inl NotJSON
                | Some b \<Rightarrow>
                    if bd_node_cert_pem b = [] \<or> bd_node_key_pem b = [] \<or>
                       bd_ca_cert_pem b = [] \<or> bd_panel_client_fp b = []
                    then Inl MissingFields else Inr b)))"

section \<open>Lemmas\<close>

definition complete_bundle :: "node_bundle \<Rightarrow> bool" where
  "complete_bundle b \<longleftrightarrow> bd_node_cert_pem b \<noteq> [] \<and> bd_node_key_pem b \<noteq> [] \<and>
     bd_ca_cert_pem b \<noteq> [] \<and> bd_panel_client_fp b \<noteq> []"

lemma DecodeBundle_complete: "DecodeBundle wl s = Inr b \<Longrightarrow> complete_bundle b"
  by (auto simp: DecodeBundle_def complete_bundle_def split: option.splits sum.splits if_splits)

lemma gunzip_plain: "\<not> is_gzip raw \<Longrightarrow> gunzip wl raw = Inr raw"
  by (simp add: gunzip_def)

lemma gunzip_compress:
  assumes "is_gzip (gzip_compress wl raw)" and "gzip_header_ok wl (gzip_compress wl raw)"
    and "gzip_read_all wl (gzip_compress wl raw) = Some raw"
  shows "gunzip wl (gzip_compress wl raw) = Inr raw"
  using assms by (simp add: gunzip_def)

lemma Verify_None_iff:
  "Verify wl m pub = None \<longleftrightarrow> length pub = 32 \<and>
     (\<exists>sig. b64_decode (mf_signature m) = Some sig \<and> ed25519_verify wl pub (SigningPayload wl m) sig)"
  by (auto simp: Verify_def ed25519_public_key_size_def split: option.splits)

lemma SigningPayload_ignores_signature [simp]:
  "SigningPayload wl (m\<lparr>mf_signature := s\<rparr>) = SigningPayload wl m"
  by (simp add: SigningPayload_def)

section \<open>Properties\<close>

text \<open>
  Property C32. What the panel mints the agent decodes: \<open>DecodeBundle\<close> returns exactly the encoded
  bundle when all four secrets are present and refuses one that lacks a secret, in the gzipped form
  and in the older plain JSON form, given that JSON and gzip invert their encoders on this bundle,
  that a gzip stream carries its magic and that JSON text does not start with it.
\<close>

theorem bundle_roundtrip:
  assumes json: "json_bundle_parse wl (json_bundle wl b) = Some b"
    and magic: "\<And>r. is_gzip (gzip_compress wl r) \<and> gzip_header_ok wl (gzip_compress wl r)"
    and gz: "\<And>r. gzip_read_all wl (gzip_compress wl r) = Some r"
    and plain: "\<not> is_gzip (json_bundle wl b)"
  shows "DecodeBundle wl (Encode wl b) = (if complete_bundle b then Inr b else Inl MissingFields) \<and>
    DecodeBundle wl (b64_encode (json_bundle wl b)) = (if complete_bundle b then Inr b else Inl MissingFields)"
  using gunzip_compress [of wl "json_bundle wl b"] gunzip_plain [OF plain, of wl] magic gz json
  by (simp add: DecodeBundle_def Encode_def complete_bundle_def)

definition demo_bundle :: node_bundle where
  "demo_bundle = \<lparr>bd_node_id = ''n1'', bd_name = ''ams'', bd_role = ''ingress'', bd_node_cert_pem = ''c'',
     bd_node_key_pem = ''k'', bd_ca_cert_pem = ''a'', bd_panel_client_fp = ''f''\<rparr>"

definition demo_wire :: wire_lib where
  "demo_wire =
     \<lparr>json_manifest = (\<lambda>m. bytes_of_string (mf_revision_id m @ mf_signature m)),
      json_config = (\<lambda>c. Some (bytes_of_string (nc_node_id c))),
      json_config_parse = (\<lambda>r. Some (zero_config\<lparr>nc_node_id := string_of_bytes r\<rparr>)),
      json_bundle = (\<lambda>b. 0x7b # bytes_of_string (bd_node_id b)),
      json_bundle_parse = (\<lambda>r. Some (demo_bundle\<lparr>bd_node_id := string_of_bytes (tl r)\<rparr>)),
      gzip_compress = (\<lambda>r. 0x1f # 0x8b # r), gzip_header_ok = (\<lambda>_. True),
      gzip_read_all = (\<lambda>r. Some (drop 2 r)),
      ed25519_verify = (\<lambda>pub msg sig. sig = rev msg), ed25519_sign = (\<lambda>sk msg. rev msg),
      sha256_sum = (\<lambda>b. take 32 (b @ replicate 32 0))\<rparr>"

theorem bundle_roundtrip_witness:
  "DecodeBundle demo_wire (Encode demo_wire demo_bundle) = Inr demo_bundle"
proof -
  have 1: "json_bundle_parse demo_wire (json_bundle demo_wire demo_bundle) = Some demo_bundle"
    by (simp add: demo_wire_def demo_bundle_def)
  have 2: "is_gzip (gzip_compress demo_wire r) \<and> gzip_header_ok demo_wire (gzip_compress demo_wire r)" for r
    by (simp add: demo_wire_def is_gzip_def)
  have 3: "gzip_read_all demo_wire (gzip_compress demo_wire r) = Some r" for r
    by (simp add: demo_wire_def)
  have 4: "\<not> is_gzip (json_bundle demo_wire demo_bundle)"
    by (simp add: demo_wire_def is_gzip_def)
  have "complete_bundle demo_bundle" by (simp add: complete_bundle_def demo_bundle_def)
  then show ?thesis using bundle_roundtrip [OF 1 2 3 4] by simp
qed

end
