(* ===== verification/Net_Guard.thy ===== *)
theory Net_Guard
  imports Go_Prelude
begin

text \<open>
  Package \<open>shared/netguard\<close>: the classification of IP addresses that must never be reached through
  the rule fetcher or the egress relay. The part of \<open>net/netip\<close> the package uses is modelled on
  words: an address is invalid, a 32-bit IPv4 address or a 128-bit IPv6 address with a zone; a
  prefix contains an address of the same family, without a zone, that agrees with it on the
  leading bits. Text parsing (\<open>netip.ParseAddr\<close>, \<open>netip.ParsePrefix\<close>, \<open>net.SplitHostPort\<close>) and name resolution are the
  parameters of \<open>net_lib\<close>.
\<close>

section \<open>Addresses and prefixes\<close>

datatype addr =
    AddrInvalid
  | AddrV4 u32
  | AddrV6 "128 word" string

datatype prefix =
    PrefixV4 u32 nat
  | PrefixV6 "128 word" nat

definition ipv4 :: "nat \<Rightarrow> nat \<Rightarrow> nat \<Rightarrow> nat \<Rightarrow> u32" where
  "ipv4 a b c d = of_nat (((a * 256 + b) * 256 + c) * 256 + d)"

text \<open>An IPv6 address from its first four groups and its last four.\<close>

definition ipv6 :: "nat \<Rightarrow> nat \<Rightarrow> nat \<Rightarrow> nat \<Rightarrow> nat \<Rightarrow> nat \<Rightarrow> nat \<Rightarrow> nat \<Rightarrow> 128 word" where
  "ipv6 a b c d e f g h =
     of_nat (foldl (\<lambda>acc x. acc * 65536 + x) 0 [a, b, c, d, e, f, g, h])"

fun is_valid :: "addr \<Rightarrow> bool" where
  "is_valid AddrInvalid = False"
| "is_valid _ = True"

fun is6 :: "addr \<Rightarrow> bool" where
  "is6 (AddrV6 w z) = True"
| "is6 _ = False"

text \<open>\<open>Is4In6\<close>: the 96 leading bits are \<open>::ffff\<close>.\<close>

definition is4in6 :: "128 word \<Rightarrow> bool" where
  "is4in6 w \<longleftrightarrow> drop_bit 32 w = 0xFFFF"

fun unmap :: "addr \<Rightarrow> addr" where
  "unmap (AddrV6 w z) = (if is4in6 w then AddrV4 (ucast w) else AddrV6 w z)"
| "unmap a = a"

fun prefix_contains :: "prefix \<Rightarrow> addr \<Rightarrow> bool" where
  "prefix_contains (PrefixV4 p n) (AddrV4 a) \<longleftrightarrow> drop_bit (32 - n) (a XOR p) = 0"
| "prefix_contains (PrefixV6 p n) (AddrV6 a z) \<longleftrightarrow>
     z = [] \<and> (a XOR p) AND NOT (mask (128 - n)) = 0"
| "prefix_contains _ _ \<longleftrightarrow> False"

definition blocked :: "prefix list" where
  "blocked =
    [PrefixV4 (ipv4 0 0 0 0) 8, PrefixV4 (ipv4 10 0 0 0) 8, PrefixV4 (ipv4 100 64 0 0) 10,
     PrefixV4 (ipv4 127 0 0 0) 8, PrefixV4 (ipv4 169 254 0 0) 16, PrefixV4 (ipv4 172 16 0 0) 12,
     PrefixV4 (ipv4 192 0 0 0) 24, PrefixV4 (ipv4 192 0 2 0) 24, PrefixV4 (ipv4 192 88 99 0) 24,
     PrefixV4 (ipv4 192 168 0 0) 16, PrefixV4 (ipv4 198 18 0 0) 15, PrefixV4 (ipv4 198 51 100 0) 24,
     PrefixV4 (ipv4 203 0 113 0) 24, PrefixV4 (ipv4 224 0 0 0) 4, PrefixV4 (ipv4 240 0 0 0) 4,
     PrefixV4 (ipv4 255 255 255 255) 32,
     PrefixV6 (ipv6 0 0 0 0 0 0 0 0) 128, PrefixV6 (ipv6 0 0 0 0 0 0 0 1) 128,
     PrefixV6 (ipv6 0 0 0 0 0 0xFFFF 0 0) 96, PrefixV6 (ipv6 0x64 0xFF9B 0 0 0 0 0 0) 96,
     PrefixV6 (ipv6 0x100 0 0 0 0 0 0 0) 64, PrefixV6 (ipv6 0x2001 0 0 0 0 0 0 0) 23,
     PrefixV6 (ipv6 0x2001 0xDB8 0 0 0 0 0 0) 32, PrefixV6 (ipv6 0x2002 0 0 0 0 0 0 0) 16,
     PrefixV6 (ipv6 0xFC00 0 0 0 0 0 0 0) 7, PrefixV6 (ipv6 0xFE80 0 0 0 0 0 0 0) 10,
     PrefixV6 (ipv6 0xFF00 0 0 0 0 0 0 0) 8]"

definition is_blocked :: "addr \<Rightarrow> bool" where
  "is_blocked a =
     (if \<not> is_valid a then True
      else let u = unmap a in list_ex (\<lambda>p. prefix_contains p u \<or> prefix_contains p a) blocked)"

section \<open>Checks before and after resolution\<close>

datatype guard_error =
    NoAddresses | BlockedRange addr | BadHostPort | BadIP | BlockedDestination addr
  | LiteralBlocked addr | LookupFailed | AllBlocked

definition check_addrs :: "addr list \<Rightarrow> guard_error option" where
  "check_addrs as =
     (if as = [] then Some NoAddresses
      else (case find is_blocked as of Some a \<Rightarrow> Some (BlockedRange a) | None \<Rightarrow> None))"

record net_lib =
  parse_prefix :: "string \<Rightarrow> prefix option"                \<comment> \<open>netip.ParsePrefix\<close>
  parse_addr :: "string \<Rightarrow> addr option"                  \<comment> \<open>netip.ParseAddr\<close>
  split_host_port :: "string \<Rightarrow> (string \<times> string) option" \<comment> \<open>net.SplitHostPort\<close>
  lookup_net_ip :: "string \<Rightarrow> addr list option"           \<comment> \<open>Resolver.LookupNetIP\<close>

text \<open>
  A dialer is its \<open>Control\<close> hook: \<^term>\<open>None\<close> when the hook is not set. The hook sees the concrete
  address right before \<open>connect\<close>, and an error from it aborts the dial.
\<close>

definition control :: "net_lib \<Rightarrow> string \<Rightarrow> guard_error option" where
  "control nl address =
     (case split_host_port nl address of
        None \<Rightarrow> Some BadHostPort
      | Some (host, _) \<Rightarrow>
          (case parse_addr nl host of
             None \<Rightarrow> Some BadIP
           | Some ip \<Rightarrow> if is_blocked ip then Some (BlockedDestination ip) else None))"

definition safe_dialer_policy :: "net_lib \<Rightarrow> bool \<Rightarrow> (string \<Rightarrow> guard_error option) option" where
  "safe_dialer_policy nl allowPrivate = (if allowPrivate then None else Some (control nl))"

definition safe_dialer :: "net_lib \<Rightarrow> (string \<Rightarrow> guard_error option) option" where
  "safe_dialer nl = safe_dialer_policy nl False"

text \<open>Whether a dialer lets a connection to the address proceed.\<close>

definition dial_permitted :: "(string \<Rightarrow> guard_error option) option \<Rightarrow> string \<Rightarrow> bool" where
  "dial_permitted d address = (case d of None \<Rightarrow> True | Some hook \<Rightarrow> hook address = None)"

definition resolve :: "net_lib \<Rightarrow> string \<Rightarrow> bool \<Rightarrow> guard_error + addr list" where
  "resolve nl host allowPrivate =
     (case parse_addr nl host of
        Some ip \<Rightarrow>
          if \<not> allowPrivate \<and> is_blocked ip then Inl (LiteralBlocked ip) else Inr [ip]
      | None \<Rightarrow>
          (case lookup_net_ip nl host of
             None \<Rightarrow> Inl LookupFailed
           | Some addrs \<Rightarrow>
               if allowPrivate then Inr addrs
               else let out = filter (\<lambda>a. \<not> is_blocked a) addrs in
                    if out = [] then Inl AllBlocked else Inr out))"

definition resolve_public :: "net_lib \<Rightarrow> string \<Rightarrow> guard_error + addr list" where
  "resolve_public nl host = resolve nl host False"

section \<open>The blocked IPv4 space as intervals\<close>

lemma drop_bit_xor_zero:
  fixes a p :: "'a::len word"
  shows "drop_bit k (a XOR p) = 0 \<longleftrightarrow> unat a div 2 ^ k = unat p div 2 ^ k"
proof -
  have "drop_bit k (a XOR p) = 0 \<longleftrightarrow> drop_bit k a XOR drop_bit k p = 0"
    by (simp only: drop_bit_xor)
  also have "\<dots> \<longleftrightarrow> drop_bit k a = drop_bit k p"
    by (metis xor.left_neutral xor.right_neutral xor_self_eq bit.xor_left_self)
  also have "\<dots> \<longleftrightarrow> unat (drop_bit k a) = unat (drop_bit k p)"
    by (simp only: unsigned_word_eqI word_unat_eq_iff)
  also have "\<dots> \<longleftrightarrow> unat a div 2 ^ k = unat p div 2 ^ k"
    unfolding unat_drop_bit_eq by (simp only: drop_bit_eq_div)
  finally show ?thesis .
qed

lemma and_not_mask_zero: "w AND NOT (mask k) = 0 \<longleftrightarrow> drop_bit k w = 0" for w :: "'a::len word"
proof
  assume h: "w AND NOT (mask k) = 0"
  show "drop_bit k w = 0"
  proof (rule bit_word_eqI)
    fix i assume "i < LENGTH('a)"
    have "\<not> bit (w AND NOT (mask k)) (k + i)" by (simp add: h)
    then show "bit (drop_bit k w) i \<longleftrightarrow> bit (0 :: 'a word) i"
      by (auto simp: bit_simps dest: bit_imp_le_length)
  qed
next
  assume h: "drop_bit k w = 0"
  show "w AND NOT (mask k) = 0"
  proof (rule bit_word_eqI)
    fix i assume "i < LENGTH('a)"
    have "\<not> bit (drop_bit k w) (i - k)" by (simp add: h)
    then show "bit (w AND NOT (mask k)) i \<longleftrightarrow> bit (0 :: 'a word) i"
      by (cases "i < k") (auto simp: bit_simps)
  qed
qed

lemma div_eq_interval:
  fixes x p k :: nat
  assumes "2 ^ k dvd p"
  shows "x div 2 ^ k = p div 2 ^ k \<longleftrightarrow> p \<le> x \<and> x \<le> p + 2 ^ k - 1"
proof -
  obtain q where p: "p = 2 ^ k * q" using assms by auto
  have pos: "(0::nat) < 2 ^ k" by simp
  have "x div 2 ^ k = q \<longleftrightarrow> 2 ^ k * q \<le> x \<and> x < 2 ^ k * Suc q"
  proof
    assume "x div 2 ^ k = q"
    then show "2 ^ k * q \<le> x \<and> x < 2 ^ k * Suc q"
      using dividend_less_times_div [OF pos, of x] times_div_less_eq_dividend [of "2 ^ k" x] by auto
  next
    assume "2 ^ k * q \<le> x \<and> x < 2 ^ k * Suc q"
    then show "x div 2 ^ k = q" by (auto intro: div_nat_eqI simp: mult.commute)
  qed
  moreover have "x < 2 ^ k * Suc q \<longleftrightarrow> x \<le> p + 2 ^ k - 1"
    unfolding p using pos less_eq_Suc_le [of x "2 ^ k * q + 2 ^ k"]
    by (cases "2 ^ k :: nat") (auto simp: less_Suc_eq_le)
  ultimately show ?thesis by (simp add: p)
qed

lemma contains_v4_iff:
  assumes "2 ^ (32 - n) dvd unat p"
  shows "prefix_contains (PrefixV4 p n) (AddrV4 a) \<longleftrightarrow>
    unat p \<le> unat a \<and> unat a \<le> unat p + 2 ^ (32 - n) - 1"
  unfolding prefix_contains.simps drop_bit_xor_zero by (rule div_eq_interval [OF assms])

lemma contains_v6_iff:
  assumes "2 ^ (128 - n) dvd unat p"
  shows "prefix_contains (PrefixV6 p n) (AddrV6 a []) \<longleftrightarrow>
    unat p \<le> unat a \<and> unat a \<le> unat p + 2 ^ (128 - n) - 1"
  unfolding prefix_contains.simps and_not_mask_zero drop_bit_xor_zero
  using div_eq_interval [OF assms] by simp

fun prefix_range :: "prefix \<Rightarrow> nat \<times> nat" where
  "prefix_range (PrefixV4 p n) = (unat p, unat p + 2 ^ (32 - n) - 1)"
| "prefix_range (PrefixV6 p n) = (unat p, unat p + 2 ^ (128 - n) - 1)"

fun is_v4_prefix :: "prefix \<Rightarrow> bool" where
  "is_v4_prefix (PrefixV4 p n) = True"
| "is_v4_prefix (PrefixV6 p n) = False"

fun aligned :: "prefix \<Rightarrow> bool" where
  "aligned (PrefixV4 p n) = (unat p mod 2 ^ (32 - n) = 0)"
| "aligned (PrefixV6 p n) = (unat p mod 2 ^ (128 - n) = 0)"

lemma blocked_aligned: "list_all aligned blocked"
  by (simp add: blocked_def ipv4_def ipv6_def)

lemma blocked_v4:
  "(\<exists>p\<in>set blocked. prefix_contains p (AddrV4 a)) \<longleftrightarrow>
   (\<exists>p\<in>set (filter is_v4_prefix blocked). case prefix_range p of (lo, hi) \<Rightarrow> lo \<le> unat a \<and> unat a \<le> hi)"
proof -
  have "prefix_contains p (AddrV4 a) \<longleftrightarrow>
      is_v4_prefix p \<and> (case prefix_range p of (lo, hi) \<Rightarrow> lo \<le> unat a \<and> unat a \<le> hi)"
    if "p \<in> set blocked" for p
  proof -
    have "aligned p" using that blocked_aligned by (simp add: list_all_iff)
    then show ?thesis
      by (cases p) (simp add: contains_v4_iff mod_0_imp_dvd del: prefix_contains.simps(1), simp)
  qed
  then show ?thesis by auto
qed

lemma blocked_v6:
  "(\<exists>p\<in>set blocked. prefix_contains p (AddrV6 a [])) \<longleftrightarrow>
   (\<exists>p\<in>set (filter (\<lambda>p. \<not> is_v4_prefix p) blocked).
      case prefix_range p of (lo, hi) \<Rightarrow> lo \<le> unat a \<and> unat a \<le> hi)"
proof -
  have "prefix_contains p (AddrV6 a []) \<longleftrightarrow>
      \<not> is_v4_prefix p \<and> (case prefix_range p of (lo, hi) \<Rightarrow> lo \<le> unat a \<and> unat a \<le> hi)"
    if "p \<in> set blocked" for p
  proof -
    have "aligned p" using that blocked_aligned by (simp add: list_all_iff)
    then show ?thesis
      by (cases p) (simp, simp add: contains_v6_iff mod_0_imp_dvd del: prefix_contains.simps(2))
  qed
  then show ?thesis by auto
qed

definition v4_ranges :: "(nat \<times> nat) list" where
  "v4_ranges =
    [(0x00000000, 0x00FFFFFF), (0x0A000000, 0x0AFFFFFF), (0x64400000, 0x647FFFFF),
     (0x7F000000, 0x7FFFFFFF), (0xA9FE0000, 0xA9FEFFFF), (0xAC100000, 0xAC1FFFFF),
     (0xC0000000, 0xC00000FF), (0xC0000200, 0xC00002FF), (0xC0586300, 0xC05863FF),
     (0xC0A80000, 0xC0A8FFFF), (0xC6120000, 0xC613FFFF), (0xC6336400, 0xC63364FF),
     (0xCB007100, 0xCB0071FF), (0xE0000000, 0xEFFFFFFF), (0xF0000000, 0xFFFFFFFF),
     (0xFFFFFFFF, 0xFFFFFFFF)]"

lemma v4_ranges_eq: "map prefix_range (filter is_v4_prefix blocked) = v4_ranges"
  by (simp add: blocked_def ipv4_def ipv6_def v4_ranges_def)

lemma is_blocked_iff:
  "is_blocked a \<longleftrightarrow> \<not> is_valid a \<or>
     (\<exists>p\<in>set blocked. prefix_contains p (unmap a) \<or> prefix_contains p a)"
  by (auto simp: is_blocked_def Let_def list_ex_iff)

lemma is_blocked_v4:
  "is_blocked (AddrV4 a) \<longleftrightarrow> list_ex (\<lambda>(lo, hi). lo \<le> unat a \<and> unat a \<le> hi) v4_ranges"
proof -
  have "is_blocked (AddrV4 a) \<longleftrightarrow> (\<exists>p\<in>set blocked. prefix_contains p (AddrV4 a))"
    by (simp add: is_blocked_iff)
  also have "\<dots> \<longleftrightarrow> (\<exists>r\<in>set v4_ranges. case r of (lo, hi) \<Rightarrow> lo \<le> unat a \<and> unat a \<le> hi)"
    unfolding blocked_v4 v4_ranges_eq [symmetric] by simp
  finally show ?thesis by (simp add: list_ex_iff)
qed

lemma mapped_in_blocked: "is4in6 w \<Longrightarrow> prefix_contains (PrefixV6 (ipv6 0 0 0 0 0 0xFFFF 0 0) 96) (AddrV6 w [])"
proof -
  assume m: "is4in6 w"
  have "drop_bit 32 (w XOR ipv6 0 0 0 0 0 0xFFFF 0 0) = drop_bit 32 w XOR drop_bit 32 (ipv6 0 0 0 0 0 0xFFFF 0 0)"
    by (simp only: drop_bit_xor)
  also have "drop_bit 32 (ipv6 0 0 0 0 0 0xFFFF 0 0) = 0xFFFF"
    by (simp add: ipv6_def)
  also have "drop_bit 32 w XOR 0xFFFF = 0" using m by (simp add: is4in6_def)
  finally show ?thesis by (simp add: and_not_mask_zero)
qed

lemma is_blocked_v6:
  "is_blocked (AddrV6 w []) \<longleftrightarrow>
     list_ex (\<lambda>p. case prefix_range p of (lo, hi) \<Rightarrow> lo \<le> unat w \<and> unat w \<le> hi)
       (filter (\<lambda>p. \<not> is_v4_prefix p) blocked)"
proof -
  have "is_blocked (AddrV6 w []) \<longleftrightarrow> (\<exists>p\<in>set blocked. prefix_contains p (AddrV6 w []))"
  proof (cases "is4in6 w")
    case True
    have "PrefixV6 (ipv6 0 0 0 0 0 0xFFFF 0 0) 96 \<in> set blocked" by (simp add: blocked_def)
    with mapped_in_blocked [OF True] show ?thesis unfolding is_blocked_iff by blast
  qed (simp add: is_blocked_iff)
  then show ?thesis unfolding blocked_v6 by (simp add: list_ex_iff)
qed


lemma resolve_public_only:
  assumes "resolve nl host False = Inr as"
  shows "as \<noteq> [] \<and> list_all (\<lambda>a. \<not> is_blocked a) as"
  using assms by (auto simp: resolve_def Let_def list_all_iff split: option.splits if_splits)

section \<open>Properties\<close>

text \<open>
  An IPv4 address is refused exactly when it lies in one of sixteen intervals: this
  network, RFC 1918, shared address space, loopback, link-local (with the cloud metadata address),
  the special-purpose and documentation blocks, benchmarking, multicast, reserved space and the
  limited broadcast address.
\<close>

theorem is_blocked_v4_correct:
  "is_blocked (AddrV4 a) \<longleftrightarrow> (\<exists>(lo, hi)\<in>set v4_ranges. lo \<le> unat a \<and> unat a \<le> hi)"
  unfolding is_blocked_v4 list_ex_iff by blast

text \<open>
  An IPv4-mapped IPv6 address without a zone is refused whatever IPv4 address it wraps,
  public ones included, because \<open>::ffff:0:0/96\<close> is itself on the list.
\<close>

theorem mapped_always_blocked:
  assumes "is4in6 w"
  shows "is_blocked (AddrV6 w []) \<and> unmap (AddrV6 w []) = AddrV4 (ucast w)"
proof -
  have "PrefixV6 (ipv6 0 0 0 0 0 0xFFFF 0 0) 96 \<in> set blocked" by (simp add: blocked_def)
  with mapped_in_blocked [OF assms] assms show ?thesis unfolding is_blocked_iff by fastforce
qed

theorem mapped_always_blocked_witness:
  "is_blocked (AddrV6 0xFFFF08080808 []) \<and> unmap (AddrV6 0xFFFF08080808 []) = AddrV4 0x08080808 \<and>
   \<not> is_blocked (AddrV4 0x08080808)"
proof -
  have m: "is4in6 0xFFFF08080808" by (simp add: is4in6_def)
  show ?thesis using mapped_always_blocked [OF m] by (simp add: is_blocked_v4 v4_ranges_def)
qed

text \<open>
  An IPv6 address that carries a zone and is not IPv4-mapped is never refused, whatever
  range it is in: loopback \<open>::1%lo\<close> and every link-local address with a zone pass the guard.
\<close>

theorem zoned_never_blocked:
  assumes "z \<noteq> []" and "\<not> is4in6 w"
  shows "\<not> is_blocked (AddrV6 w z)"
proof -
  have "\<not> prefix_contains p (AddrV6 w z)" for p using assms by (cases p) simp_all
  with assms show ?thesis by (simp add: is_blocked_iff)
qed

theorem zoned_never_blocked_witness:
  "\<not> is_blocked (AddrV6 1 ''lo'') \<and> is_blocked (AddrV6 1 [])"
proof
  show "\<not> is_blocked (AddrV6 1 ''lo'')"
    by (rule zoned_never_blocked) (simp_all add: is4in6_def)
  have "PrefixV6 (ipv6 0 0 0 0 0 0 0 1) 128 \<in> set blocked" by (simp add: blocked_def)
  moreover have "prefix_contains (PrefixV6 (ipv6 0 0 0 0 0 0 0 1) 128) (AddrV6 1 [])"
    by (simp add: ipv6_def)
  ultimately show "is_blocked (AddrV6 1 [])" unfolding is_blocked_iff by blast
qed


definition plain_net :: net_lib where
  "plain_net =
     \<lparr>parse_prefix = (\<lambda>s. if s = ''10.0.0.0/8'' then Some (PrefixV4 0x0A000000 8) else None),
      parse_addr = (\<lambda>s. if s = ''127.0.0.1'' then Some (AddrV4 0x7F000001)
        else if s = ''8.8.8.8'' then Some (AddrV4 0x08080808) else None),
      split_host_port = (\<lambda>s. case index_byte s CHR '':'' of None \<Rightarrow> None | Some i \<Rightarrow> Some (take i s, drop (i + 1) s)),
      lookup_net_ip = (\<lambda>h. if h = ''mix.example'' then Some [AddrV4 0x7F000001, AddrV4 0x08080808] else None)\<rparr>"


end
