(* ===== verification/Route_Table.thy ===== *)
theory Route_Table
  imports Go_Prelude
begin

text \<open>
  The contract shared by the two routing tables of an ingress node, the DNS frontend's
  \<open>Router.Lookup\<close> and the SNI proxy's \<open>lookup\<close>: a single pass keeps the best entry so far, compared by
  specificity and then by priority. The locale states the two equations a pass satisfies and
  derives what the result is; both tables are interpreted in their own theories.
\<close>

locale best_route =
  fixes look :: "'r list \<Rightarrow> 'r option"
    and spec :: "'r \<Rightarrow> int"
    and prio :: "'r \<Rightarrow> int"
  assumes look_Nil: "look [] = None"
    and look_snoc: "look (rs @ [r]) =
      (if spec r < 0 then look rs
       else case look rs of
              None \<Rightarrow> Some r
            | Some b \<Rightarrow> if spec r > spec b \<or> spec r = spec b \<and> prio r > prio b then Some r else Some b)"
begin

lemma look_mem: "look rs = Some b \<Longrightarrow> b \<in> set rs \<and> 0 \<le> spec b"
  by (induction rs arbitrary: b rule: rev_induct)
    (auto simp: look_Nil look_snoc split: if_splits option.splits)

lemma look_None_iff: "look rs = None \<longleftrightarrow> (\<forall>r\<in>set rs. spec r < 0)"
  by (induction rs rule: rev_induct) (auto simp: look_Nil look_snoc split: option.splits)

lemma look_max:
  "look rs = Some b \<Longrightarrow> r \<in> set rs \<Longrightarrow> 0 \<le> spec r \<Longrightarrow> (spec r, prio r) \<le> (spec b, prio b)"
proof (induction rs arbitrary: b rule: rev_induct)
  case (snoc x xs)
  show ?case
  proof (cases "look xs")
    case None
    with snoc.prems look_None_iff [of xs] show ?thesis by (force simp: look_snoc split: if_splits)
  next
    case (Some c)
    with snoc.IH [OF Some] snoc.prems show ?thesis
      by (auto simp: look_snoc less_eq_prod_def split: if_splits)
  qed
qed (simp add: look_Nil)

text \<open>Ties are won by the first entry of the table.\<close>

lemma look_first:
  "look rs = Some b \<Longrightarrow>
   \<exists>xs ys. rs = xs @ b # ys \<and> (\<forall>r\<in>set xs. 0 \<le> spec r \<longrightarrow> (spec r, prio r) < (spec b, prio b))"
proof (induction rs arbitrary: b rule: rev_induct)
  case (snoc x xs)
  show ?case
  proof (cases "look xs = Some b")
    case True
    from snoc.IH [OF True] obtain ys zs where
      "xs = ys @ b # zs" "\<forall>r\<in>set ys. 0 \<le> spec r \<longrightarrow> (spec r, prio r) < (spec b, prio b)" by blast
    then show ?thesis by (intro exI [of _ ys] exI [of _ "zs @ [x]"]) simp
  next
    case False
    with snoc.prems have b: "b = x" by (auto simp: look_snoc split: if_splits option.splits)
    have "(spec r, prio r) < (spec x, prio x)" if r: "r \<in> set xs" "0 \<le> spec r" for r
    proof (cases "look xs")
      case None
      with r look_None_iff [of xs] show ?thesis by force
    next
      case (Some c)
      from look_max [OF Some r] snoc.prems False b Some show ?thesis
        by (auto simp: look_snoc less_eq_prod_def less_prod_def split: if_splits)
    qed
    then show ?thesis using b by (intro exI [of _ xs] exI [of _ "[]"]) simp
  qed
qed (simp add: look_Nil)

text \<open>The equations determine the table: any other pass that satisfies them through a map agrees.\<close>

lemma look_map:
  assumes "look' [] = None"
    and "\<And>rs r. look' (rs @ [r]) =
      (if spec (f r) < 0 then look' rs
       else case look' rs of
              None \<Rightarrow> Some r
            | Some b \<Rightarrow> if spec (f r) > spec (f b) \<or> spec (f r) = spec (f b) \<and> prio (f r) > prio (f b)
                        then Some r else Some b)"
  shows "look (map f rs) = map_option f (look' rs)"
  by (induction rs rule: rev_induct) (auto simp: look_Nil look_snoc assms split: option.splits)

end

end
