(* ===== verification/DNS_Router.thy ===== *)
theory DNS_Router
  imports Artifact_Model Net_Guard Route_Table
begin

text \<open>
  The routing half of the DNS frontend (\<open>node/dnsfe/router.go\<close>): the compiled table, the longest-match
  lookup, and the client access check. A router that has not been given a configuration is a record
  whose \<open>cfg\<close> is \<^term>\<open>None\<close>; the mutex makes \<open>Apply\<close> and the queries atomic, so each is one function.
\<close>

section \<open>Definitions\<close>

record route =
  rr_svc :: service
  rr_matcher :: "matcher option"

record router =
  rt_routes :: "route list"
  rt_cfg :: "node_config option"
  rt_acl :: "prefix list"
  rt_tokens :: "string set"

definition zero_router :: router where
  "zero_router = \<lparr>rt_routes = [], rt_cfg = None, rt_acl = [], rt_tokens = {}\<rparr>"

text \<open>The loop over \<open>AllowedCIDRs\<close>: entries that do not parse are dropped.\<close>

fun parse_acl :: "net_lib \<Rightarrow> string list \<Rightarrow> prefix list" where
  "parse_acl nl [] = []"
| "parse_acl nl (s # ss) =
     (case parse_prefix nl (trim_space s) of
        None \<Rightarrow> parse_acl nl ss
      | Some p \<Rightarrow> p # parse_acl nl ss)"

definition Apply_router :: "domain_lib \<Rightarrow> net_lib \<Rightarrow> node_config \<Rightarrow> router \<Rightarrow> router" where
  "Apply_router lib nl c r =
     (let routes = map (\<lambda>s. \<lparr>rr_svc = s, rr_matcher = compile_set lib (sv_match s)\<rparr>) (nc_services c);
          acl = parse_acl nl (da_allowed_cidrs (dc_access (nc_dns c)));
          tokens = set (map (to_lower (uni_lower lib)) (da_doh_path_tokens (dc_access (nc_dns c))))
      in r\<lparr>rt_routes := routes, rt_cfg := Some c, rt_acl := acl, rt_tokens := tokens\<rparr>)"

definition NewRouter :: "domain_lib \<Rightarrow> net_lib \<Rightarrow> node_config \<Rightarrow> router" where
  "NewRouter lib nl c = Apply_router lib nl c zero_router"

text \<open>
  The pass over the table. The accumulator is \<open>(best, bestSpec, bestPrio)\<close>; \<open>best\<close> holds the table
  entry, whose service \<open>Lookup\<close> returns.
\<close>

fun lookup_loop :: "domain_lib \<Rightarrow> string \<Rightarrow> route list \<Rightarrow> route option \<times> int \<times> int \<Rightarrow> route option \<times> int \<times> int" where
  "lookup_loop lib host [] acc = acc"
| "lookup_loop lib host (r # rs) (best, bestSpec, bestPrio) =
     (let sp = specificity lib (rr_matcher r) host in
      if sp < 0 then lookup_loop lib host rs (best, bestSpec, bestPrio)
      else let p = sv_priority (rr_svc r) in
        if sp > bestSpec \<or> (sp = bestSpec \<and> p > bestPrio)
        then lookup_loop lib host rs (Some r, sp, p)
        else lookup_loop lib host rs (best, bestSpec, bestPrio))"

definition best_entry :: "domain_lib \<Rightarrow> string \<Rightarrow> route list \<Rightarrow> route option" where
  "best_entry lib host rs = fst (lookup_loop lib host rs (None, -1, -1))"

definition Lookup :: "domain_lib \<Rightarrow> router \<Rightarrow> string \<Rightarrow> service option" where
  "Lookup lib r host = map_option rr_svc (best_entry lib host (rt_routes r))"

definition inACL :: "router \<Rightarrow> addr \<Rightarrow> bool" where
  "inACL r ip =
     (if rt_acl r = [] then False else list_ex (\<lambda>p. prefix_contains p ip) (rt_acl r))"

definition AllowClient :: "domain_lib \<Rightarrow> router \<Rightarrow> addr \<Rightarrow> string \<Rightarrow> bool" where
  "AllowClient lib r ip dohToken =
     (case rt_cfg r of
        None \<Rightarrow> False
      | Some c \<Rightarrow>
          let mode = da_mode (dc_access (nc_dns c)) in
          if mode = ''doh-token'' then
            (if dohToken \<noteq> [] \<and> to_lower (uni_lower lib) dohToken \<in> rt_tokens r then True else inACL r ip)
          else if mode = ''mtls'' then inACL r ip
          else if mode = ''restricted-public-dot'' then True
          else inACL r ip)"

definition NormalizeQName :: "domain_lib \<Rightarrow> string \<Rightarrow> string" where
  "NormalizeQName lib q = to_lower (uni_lower lib) (trim_suffix q ''.'')"

section \<open>The table meets the routing contract\<close>

text \<open>The accumulator always carries the key of its entry.\<close>

definition acc_ok :: "domain_lib \<Rightarrow> string \<Rightarrow> route option \<times> int \<times> int \<Rightarrow> bool" where
  "acc_ok lib host acc = (case acc of
     (None, s, p) \<Rightarrow> s = -1
   | (Some r, s, p) \<Rightarrow> s = specificity lib (rr_matcher r) host \<and> p = sv_priority (rr_svc r) \<and> 0 \<le> s)"

lemma lookup_loop_append:
  "lookup_loop lib host (xs @ ys) acc = lookup_loop lib host ys (lookup_loop lib host xs acc)"
  by (induction lib host xs acc rule: lookup_loop.induct) (auto simp: Let_def)

lemma lookup_loop_ok: "acc_ok lib host acc \<Longrightarrow> acc_ok lib host (lookup_loop lib host rs acc)"
  by (induction lib host rs acc rule: lookup_loop.induct) (auto simp: Let_def acc_ok_def)

lemma best_entry_snoc:
  "best_entry lib host (rs @ [r]) =
     (if specificity lib (rr_matcher r) host < 0 then best_entry lib host rs
      else case best_entry lib host rs of
             None \<Rightarrow> Some r
           | Some b \<Rightarrow>
               if specificity lib (rr_matcher r) host > specificity lib (rr_matcher b) host \<or>
                  specificity lib (rr_matcher r) host = specificity lib (rr_matcher b) host \<and>
                  sv_priority (rr_svc r) > sv_priority (rr_svc b)
               then Some r else Some b)"
proof -
  obtain b s p where acc: "lookup_loop lib host rs (None, -1, -1) = (b, s, p)" using prod_cases3 by blast
  have "acc_ok lib host (b, s, p)"
    using lookup_loop_ok [of lib host "(None, -1, -1)" rs] acc by (simp add: acc_ok_def)
  then show ?thesis
    by (auto simp: best_entry_def lookup_loop_append acc acc_ok_def Let_def split: option.splits)
qed

interpretation dns_table: best_route
  "best_entry lib host" "\<lambda>r. specificity lib (rr_matcher r) host" "\<lambda>r. sv_priority (rr_svc r)"
  for lib host
  by unfold_locales (simp add: best_entry_def, rule best_entry_snoc)

section \<open>Lemmas\<close>

lemma set_parse_acl: "set (parse_acl nl ss) = {p. \<exists>s\<in>set ss. parse_prefix nl (trim_space s) = Some p}"
  by (induction ss) (auto split: option.splits)

definition svc_spec :: "domain_lib \<Rightarrow> string \<Rightarrow> service \<Rightarrow> int" where
  "svc_spec lib host s = specificity lib (compile_set lib (sv_match s)) host"

lemma Lookup_Apply_Some:
  assumes "Lookup lib (Apply_router lib nl c r) host = Some s"
  shows "s \<in> set (nc_services c) \<and> 0 \<le> svc_spec lib host s \<and>
    (\<forall>s'\<in>set (nc_services c). 0 \<le> svc_spec lib host s' \<longrightarrow>
       (svc_spec lib host s', sv_priority s') \<le> (svc_spec lib host s, sv_priority s))"
proof -
  let ?routes = "map (\<lambda>s. \<lparr>rr_svc = s, rr_matcher = compile_set lib (sv_match s)\<rparr>) (nc_services c)"
  from assms obtain b where b: "best_entry lib host ?routes = Some b" "s = rr_svc b"
    by (auto simp: Lookup_def Apply_router_def Let_def)
  from dns_table.look_mem [OF b(1)] b(2) have mem: "s \<in> set (nc_services c)" "0 \<le> svc_spec lib host s"
    and key: "specificity lib (rr_matcher b) host = svc_spec lib host s"
    by (auto simp: svc_spec_def)
  have "(svc_spec lib host s', sv_priority s') \<le> (svc_spec lib host s, sv_priority s)"
    if "s' \<in> set (nc_services c)" "0 \<le> svc_spec lib host s'" for s'
    using dns_table.look_max [OF b(1), of "\<lparr>rr_svc = s', rr_matcher = compile_set lib (sv_match s')\<rparr>"]
      that b(2) key by (simp add: svc_spec_def)
  with mem show ?thesis by blast
qed

lemma Lookup_Apply_None:
  "Lookup lib (Apply_router lib nl c r) host = None \<longleftrightarrow> (\<forall>s\<in>set (nc_services c). svc_spec lib host s < 0)"
  by (simp add: Lookup_def Apply_router_def Let_def dns_table.look_None_iff svc_spec_def)

section \<open>Properties\<close>

text \<open>
  Property C18. After a configuration is applied, a lookup returns a service of that configuration
  whose specificity for the name is the greatest, with the greatest priority among those, and the
  first listed among equals; it returns none exactly when no service has a specificity of 0 or more.
\<close>

theorem Lookup_correct:
  "(Lookup lib (Apply_router lib nl c r) host = None \<longleftrightarrow> (\<forall>s\<in>set (nc_services c). svc_spec lib host s < 0)) \<and>
   (\<forall>s. Lookup lib (Apply_router lib nl c r) host = Some s \<longrightarrow>
      (\<exists>xs ys. nc_services c = xs @ s # ys \<and> 0 \<le> svc_spec lib host s \<and>
         (\<forall>s'\<in>set xs. 0 \<le> svc_spec lib host s' \<longrightarrow>
            (svc_spec lib host s', sv_priority s') < (svc_spec lib host s, sv_priority s)) \<and>
         (\<forall>s'\<in>set ys. 0 \<le> svc_spec lib host s' \<longrightarrow>
            (svc_spec lib host s', sv_priority s') \<le> (svc_spec lib host s, sv_priority s))))"
proof (intro conjI allI impI)
  show "Lookup lib (Apply_router lib nl c r) host = None \<longleftrightarrow> (\<forall>s\<in>set (nc_services c). svc_spec lib host s < 0)"
    by (rule Lookup_Apply_None)
next
  fix s assume s: "Lookup lib (Apply_router lib nl c r) host = Some s"
  let ?f = "\<lambda>s. \<lparr>rr_svc = s, rr_matcher = compile_set lib (sv_match s)\<rparr>"
  from s obtain b where b: "best_entry lib host (map ?f (nc_services c)) = Some b" "s = rr_svc b"
    by (auto simp: Lookup_def Apply_router_def Let_def)
  from dns_table.look_first [OF b(1)] obtain xs ys where
    split: "map ?f (nc_services c) = xs @ b # ys" and
    first: "\<forall>r\<in>set xs. 0 \<le> specificity lib (rr_matcher r) host \<longrightarrow>
      (specificity lib (rr_matcher r) host, sv_priority (rr_svc r)) <
      (specificity lib (rr_matcher b) host, sv_priority (rr_svc b))" by blast
  from split obtain us v ws where u: "nc_services c = us @ v # ws" "xs = map ?f us" "b = ?f v" "ys = map ?f ws"
    by (auto simp: map_eq_append_conv map_eq_Cons_conv)
  have "v = s" using b u by simp
  with u first Lookup_Apply_Some [OF s] show "\<exists>xs ys. nc_services c = xs @ s # ys \<and> 0 \<le> svc_spec lib host s \<and>
         (\<forall>s'\<in>set xs. 0 \<le> svc_spec lib host s' \<longrightarrow>
            (svc_spec lib host s', sv_priority s') < (svc_spec lib host s, sv_priority s)) \<and>
         (\<forall>s'\<in>set ys. 0 \<le> svc_spec lib host s' \<longrightarrow>
            (svc_spec lib host s', sv_priority s') \<le> (svc_spec lib host s, sv_priority s))"
    by (intro exI [of _ us] exI [of _ ws]) (simp add: svc_spec_def)
qed

definition demo_svc :: "string \<Rightarrow> string \<Rightarrow> int \<Rightarrow> service" where
  "demo_svc slug suffix prio =
     zero_service\<lparr>sv_slug := slug, sv_priority := prio, sv_match := new_set [Entry KindSuffix suffix]\<rparr>"

theorem Lookup_correct_witness:
  "Lookup plain_lib (Apply_router plain_lib plain_net
     (zero_config\<lparr>nc_services := [demo_svc ''all'' ''a.com'' 9, demo_svc ''tv'' ''tv.a.com'' 1]\<rparr>) zero_router)
     ''x.tv.a.com'' = Some (demo_svc ''tv'' ''tv.a.com'' 1) \<and>
   0 \<le> svc_spec plain_lib ''x.tv.a.com'' (demo_svc ''tv'' ''tv.a.com'' 1)"
proof -
  let ?c = "zero_config\<lparr>nc_services := [demo_svc ''all'' ''a.com'' 9, demo_svc ''tv'' ''tv.a.com'' 1]\<rparr>"
  have spec: "svc_spec plain_lib ''x.tv.a.com'' (demo_svc ''all'' ''a.com'' 9) = 98"
    "svc_spec plain_lib ''x.tv.a.com'' (demo_svc ''tv'' ''tv.a.com'' 1) = 99"
    by (code_simp, code_simp)
  have "Lookup plain_lib (Apply_router plain_lib plain_net ?c zero_router) ''x.tv.a.com'' =
      Some (demo_svc ''tv'' ''tv.a.com'' 1)"
    using spec by (simp add: Lookup_def best_entry_def Apply_router_def Let_def svc_spec_def)
  then show ?thesis
    using Lookup_correct [of plain_lib plain_net ?c zero_router "''x.tv.a.com''"] by blast
qed

text \<open>
  A client is answered only on the strength of the active configuration: never before
  one is applied, by a prefix of its parsed allowlist that contains the address, by one of its
  token hashes in \<open>doh-token\<close> mode, or because the mode is \<open>restricted-public-dot\<close>; an empty or
  unparsable allowlist admits nobody.
\<close>

theorem AllowClient_correct:
  "\<not> AllowClient lib zero_router ip tok \<and>
   (AllowClient lib (Apply_router lib nl c r) ip tok \<longleftrightarrow>
      da_mode (dc_access (nc_dns c)) = ''restricted-public-dot'' \<or>
      (\<exists>s\<in>set (da_allowed_cidrs (dc_access (nc_dns c))). \<exists>p.
         parse_prefix nl (trim_space s) = Some p \<and> prefix_contains p ip) \<or>
      (da_mode (dc_access (nc_dns c)) = ''doh-token'' \<and> tok \<noteq> [] \<and>
       (\<exists>t\<in>set (da_doh_path_tokens (dc_access (nc_dns c))).
          to_lower (uni_lower lib) tok = to_lower (uni_lower lib) t)))"
proof -
  have "inACL (Apply_router lib nl c r) ip \<longleftrightarrow>
      (\<exists>s\<in>set (da_allowed_cidrs (dc_access (nc_dns c))). \<exists>p.
         parse_prefix nl (trim_space s) = Some p \<and> prefix_contains p ip)"
    using set_parse_acl [of nl "da_allowed_cidrs (dc_access (nc_dns c))"]
    by (auto simp: inACL_def Apply_router_def Let_def list_ex_iff)
  moreover have "AllowClient lib (Apply_router lib nl c r) ip tok \<longleftrightarrow>
      da_mode (dc_access (nc_dns c)) = ''restricted-public-dot'' \<or> inACL (Apply_router lib nl c r) ip \<or>
      (da_mode (dc_access (nc_dns c)) = ''doh-token'' \<and> tok \<noteq> [] \<and>
       to_lower (uni_lower lib) tok \<in> rt_tokens (Apply_router lib nl c r))"
    by (auto simp: AllowClient_def Apply_router_def Let_def)
  moreover have "rt_tokens (Apply_router lib nl c r) =
      to_lower (uni_lower lib) ` set (da_doh_path_tokens (dc_access (nc_dns c)))"
    by (simp add: Apply_router_def Let_def)
  moreover have "\<not> AllowClient lib zero_router ip tok" by (simp add: AllowClient_def zero_router_def)
  ultimately show ?thesis by (auto simp: image_iff)
qed

end
