(* ===== verification/Rate_Limiter.thy ===== *)
theory Rate_Limiter
  imports Net_Guard
begin

text \<open>
  The per-prefix token bucket of the DNS frontend (\<open>node/dnsfe/limiter.go\<close>). Instants are nanoseconds
  (\<^typ>\<open>int\<close>) and each call takes the instant \<open>time.Now()\<close> returned; the mutex makes a call one atomic
  step. Bucket levels are exact rationals where Go has \<open>float64\<close>, so the bounds below are those of the
  algorithm, up to rounding. The product \<open>qps * 5\<close> wraps as a 64-bit integer.
\<close>

section \<open>Definitions\<close>

record bucket =
  bk_tokens :: rat
  bk_ts :: int

record limiter =
  lm_qps :: int
  lm_burst :: int
  lm_tokens :: "prefix option \<rightharpoonup> bucket"
  lm_last :: int

definition nanos_per_second :: int where "nanos_per_second = 1000000000"
definition gc_every :: int where "gc_every = 60 * nanos_per_second"
definition gc_idle :: int where "gc_idle = 300 * nanos_per_second"

lemmas time_defs = nanos_per_second_def gc_every_def gc_idle_def

definition configure :: "int \<Rightarrow> int \<Rightarrow> limiter \<Rightarrow> limiter" where
  "configure qps0 burst0 l =
     (let qps = (if qps0 \<le> 0 then 100 else qps0);
          burst = (if burst0 \<le> 0 then wrap64 (qps * 5) else burst0)
      in l\<lparr>lm_qps := qps, lm_burst := burst\<rparr>)"

definition newLimiter :: "int \<Rightarrow> int \<Rightarrow> int \<Rightarrow> limiter" where
  "newLimiter now qps burst =
     configure qps burst \<lparr>lm_qps = 0, lm_burst = 0, lm_tokens = Map.empty, lm_last = now\<rparr>"

text \<open>
  \<open>ip.Prefix(bits)\<close> masks the address and drops its zone; 24 and 64 never exceed the address length,
  so its error branch is not taken. The zero \<open>netip.Prefix\<close> of an invalid address is \<^term>\<open>None\<close>.
\<close>

fun limiter_key :: "addr \<Rightarrow> prefix option" where
  "limiter_key (AddrV4 a) = Some (PrefixV4 (a AND NOT (mask 8)) 24)"
| "limiter_key (AddrV6 w z) = Some (PrefixV6 (w AND NOT (mask 64)) 64)"
| "limiter_key AddrInvalid = None"

definition limiter_gc :: "int \<Rightarrow> (prefix option \<rightharpoonup> bucket) \<Rightarrow> (prefix option \<rightharpoonup> bucket)" where
  "limiter_gc now m =
     (\<lambda>k. case m k of None \<Rightarrow> None | Some b \<Rightarrow> if now - bk_ts b > gc_idle then None else Some b)"

definition seconds :: "int \<Rightarrow> rat" where
  "seconds d = of_int d / of_int nanos_per_second"

definition limiter_allow :: "int \<Rightarrow> addr \<Rightarrow> limiter \<Rightarrow> bool \<times> limiter" where
  "limiter_allow now ip l0 =
     (if \<not> is_valid ip then (False, l0)
      else
        let k = limiter_key ip;
            l = (if now - lm_last l0 > gc_every
                 then l0\<lparr>lm_tokens := limiter_gc now (lm_tokens l0), lm_last := now\<rparr> else l0);
            b = (case lm_tokens l k of
                   Some b \<Rightarrow> b
                 | None \<Rightarrow> \<lparr>bk_tokens = of_int (lm_burst l), bk_ts = now\<rparr>);
            t1 = bk_tokens b + seconds (now - bk_ts b) * of_int (lm_qps l);
            t2 = (if t1 > of_int (lm_burst l) then of_int (lm_burst l) else t1)
        in if t2 < 1
           then (False, l\<lparr>lm_tokens := (lm_tokens l)(k \<mapsto> \<lparr>bk_tokens = t2, bk_ts = now\<rparr>)\<rparr>)
           else (True, l\<lparr>lm_tokens := (lm_tokens l)(k \<mapsto> \<lparr>bk_tokens = t2 - 1, bk_ts = now\<rparr>)\<rparr>))"

section \<open>The invariant and the level of a bucket\<close>

text \<open>At instant \<open>t\<close> every bucket is between empty and full and no bucket is from the future.\<close>

definition limiter_ok :: "int \<Rightarrow> limiter \<Rightarrow> bool" where
  "limiter_ok t l \<longleftrightarrow> 0 < lm_qps l \<and> 1 \<le> lm_burst l \<and>
     (\<forall>k b. lm_tokens l k = Some b \<longrightarrow> 0 \<le> bk_tokens b \<and> bk_tokens b \<le> of_int (lm_burst l) \<and> bk_ts b \<le> t)"

text \<open>The tokens key \<open>k\<close> could spend at instant \<open>t\<close>.\<close>

definition level :: "limiter \<Rightarrow> prefix option \<Rightarrow> int \<Rightarrow> rat" where
  "level l k t =
     (case lm_tokens l k of
        None \<Rightarrow> of_int (lm_burst l)
      | Some b \<Rightarrow> min (of_int (lm_burst l)) (bk_tokens b + seconds (t - bk_ts b) * of_int (lm_qps l)))"

lemma seconds_mono: "d \<le> e \<Longrightarrow> seconds d \<le> seconds e"
  by (simp add: seconds_def nanos_per_second_def divide_right_mono)

lemma seconds_nonneg: "0 \<le> d \<Longrightarrow> 0 \<le> seconds d"
  by (simp add: seconds_def nanos_per_second_def)

lemma seconds_diff: "seconds (a - c) = seconds (a - b) + seconds (b - c)"
  by (simp add: seconds_def diff_divide_distrib)

lemma seconds_0 [simp]: "seconds 0 = 0"
  by (simp add: seconds_def)

lemma level_le_burst: "level l k t \<le> of_int (lm_burst l)"
  by (auto simp: level_def split: option.split)

lemma level_nonneg:
  assumes "limiter_ok t l" and "t \<le> t'"
  shows "0 \<le> level l k t'"
proof (cases "lm_tokens l k")
  case (Some b)
  with assms have b: "0 \<le> bk_tokens b" "bk_ts b \<le> t" "1 \<le> lm_burst l" "0 < lm_qps l" by (auto simp: limiter_ok_def)
  have "0 \<le> seconds (t' - bk_ts b) * of_int (lm_qps l)" using b assms(2) by (intro mult_nonneg_nonneg seconds_nonneg) auto
  with b Some show ?thesis by (simp add: level_def)
qed (use assms in \<open>simp add: level_def limiter_ok_def\<close>)

lemma level_advance:
  assumes "0 < lm_qps l" and "t \<le> t'"
  shows "level l k t' \<le> level l k t + seconds (t' - t) * of_int (lm_qps l)"
proof -
  have nn: "0 \<le> seconds (t' - t) * of_int (lm_qps l)"
    using assms by (intro mult_nonneg_nonneg seconds_nonneg) auto
  show ?thesis
  proof (cases "lm_tokens l k")
    case (Some b)
    have "seconds (t' - bk_ts b) * of_int (lm_qps l) =
        seconds (t - bk_ts b) * of_int (lm_qps l) + seconds (t' - t) * of_int (lm_qps l)"
      by (simp add: seconds_diff [of t' "bk_ts b" t] distrib_right)
    then show ?thesis using nn by (simp add: level_def Some min_def)
  qed (use nn in \<open>simp add: level_def\<close>)
qed

text \<open>Collecting an idle bucket changes no level: it had refilled long before.\<close>

lemma level_gc:
  assumes ok: "limiter_ok now l" and cap: "lm_burst l \<le> 300 * lm_qps l"
  shows "level (l\<lparr>lm_tokens := limiter_gc now (lm_tokens l), lm_last := x\<rparr>) k now = level l k now"
proof (cases "lm_tokens l k")
  case (Some b)
  show ?thesis
  proof (cases "now - bk_ts b > gc_idle")
    case True
    from ok Some have b: "0 \<le> bk_tokens b" "0 < lm_qps l" by (auto simp: limiter_ok_def)
    have "(300 :: rat) \<le> seconds (now - bk_ts b)"
      using seconds_mono [of gc_idle "now - bk_ts b"] True by (simp add: seconds_def time_defs)
    then have "300 * (of_int (lm_qps l) :: rat) \<le> seconds (now - bk_ts b) * of_int (lm_qps l)"
      using b by (intro mult_right_mono) auto
    moreover have "(of_int (lm_burst l) :: rat) \<le> 300 * of_int (lm_qps l)"
      using cap by (metis of_int_le_iff of_int_mult of_int_numeral)
    ultimately have "of_int (lm_burst l) \<le> bk_tokens b + seconds (now - bk_ts b) * of_int (lm_qps l)"
      using b by linarith
    then show ?thesis using Some True by (simp add: level_def limiter_gc_def min_def)
  qed (simp add: level_def limiter_gc_def Some)
qed (simp add: level_def limiter_gc_def)


text \<open>One step: what the caller is told and what happens to every level.\<close>

lemma allow_step:
  assumes ok: "limiter_ok t l" and le: "t \<le> now" and v: "is_valid ip" and cap: "lm_burst l \<le> 300 * lm_qps l"
    and step: "limiter_allow now ip l = (ans, l')"
  shows "limiter_ok now l'" and "lm_qps l' = lm_qps l" and "lm_burst l' = lm_burst l"
    and "ans \<longleftrightarrow> 1 \<le> level l (limiter_key ip) now"
    and "level l' (limiter_key ip) now = level l (limiter_key ip) now - (if ans then 1 else 0)"
    and "k \<noteq> limiter_key ip \<Longrightarrow> level l' k now = level l k now"
proof -
  define m where "m = (if now - lm_last l > gc_every
    then l\<lparr>lm_tokens := limiter_gc now (lm_tokens l), lm_last := now\<rparr> else l)"
  have ok': "limiter_ok now l" using ok le by (force simp: limiter_ok_def)
  have m: "lm_qps m = lm_qps l" "lm_burst m = lm_burst l" by (simp_all add: m_def)
  have okm: "limiter_ok now m"
    using ok' by (auto simp: m_def limiter_ok_def limiter_gc_def split: option.splits if_splits)
  have lev: "level m k now = level l k now" for k
    using level_gc [OF ok' cap] by (simp add: m_def)
  define b where "b = (case lm_tokens m (limiter_key ip) of
    Some b \<Rightarrow> b | None \<Rightarrow> \<lparr>bk_tokens = of_int (lm_burst m), bk_ts = now\<rparr>)"
  define lv where "lv = level m (limiter_key ip) now"
  have t2: "(if bk_tokens b + seconds (now - bk_ts b) * of_int (lm_qps m) > of_int (lm_burst m)
      then of_int (lm_burst m) else bk_tokens b + seconds (now - bk_ts b) * of_int (lm_qps m)) = lv"
    by (auto simp: lv_def level_def b_def min_def split: option.split)
  have r: "ans \<longleftrightarrow> 1 \<le> lv"
    "l' = m\<lparr>lm_tokens := (lm_tokens m)(limiter_key ip \<mapsto> \<lparr>bk_tokens = lv - (if ans then 1 else 0), bk_ts = now\<rparr>)\<rparr>"
    using step v unfolding limiter_allow_def Let_def m_def [symmetric] b_def [symmetric] t2 by (auto split: if_splits)
  have bnd: "0 \<le> lv" "lv \<le> of_int (lm_burst m)"
    unfolding lv_def using level_nonneg [OF okm, of now] level_le_burst by auto
  show "limiter_ok now l'" using okm bnd r by (auto simp: limiter_ok_def)
  show "lm_qps l' = lm_qps l" "lm_burst l' = lm_burst l" using r m by simp_all
  show "ans \<longleftrightarrow> 1 \<le> level l (limiter_key ip) now" using r lev by (simp add: lv_def)
  show "level l' (limiter_key ip) now = level l (limiter_key ip) now - (if ans then 1 else 0)"
  proof -
    have "level l (limiter_key ip) now = lv" by (simp add: lv_def lev)
    then show ?thesis using bnd by (simp add: r(2)) (simp add: level_def)
  qed
  show "k \<noteq> limiter_key ip \<Longrightarrow> level l' k now = level l k now"
  proof -
    assume "k \<noteq> limiter_key ip"
    then have "level l' k now = level m k now" by (cases "lm_tokens m k") (simp_all add: r(2) level_def)
    then show ?thesis by (simp add: lev)
  qed
qed

text \<open>A run of requests, each with its instant and client; the answers in order.\<close>

fun run :: "(int \<times> addr) list \<Rightarrow> limiter \<Rightarrow> bool list \<times> limiter" where
  "run [] l = ([], l)"
| "run ((now, ip) # rs) l =
     (case limiter_allow now ip l of (a, l1) \<Rightarrow> (case run rs l1 of (as, l2) \<Rightarrow> (a # as, l2)))"

fun timed :: "int \<Rightarrow> (int \<times> addr) list \<Rightarrow> int \<Rightarrow> bool" where
  "timed t [] T \<longleftrightarrow> t \<le> T"
| "timed t ((now, ip) # rs) T \<longleftrightarrow> t \<le> now \<and> timed now rs T"

definition admitted :: "prefix option \<Rightarrow> (int \<times> addr) list \<Rightarrow> limiter \<Rightarrow> nat" where
  "admitted k rs l = length (filter (\<lambda>((now, ip), a). a \<and> limiter_key ip = k) (zip rs (fst (run rs l))))"

lemma timed_le: "timed t rs T \<Longrightarrow> t \<le> T"
  by (induction t rs T rule: timed.induct) auto

lemma admitted_Cons:
  "limiter_allow now ip l = (a, l1) \<Longrightarrow>
   admitted k ((now, ip) # rs) l = (if a \<and> limiter_key ip = k then 1 else 0) + admitted k rs l1"
  by (auto simp: admitted_def split: prod.splits)

lemma admitted_bound:
  assumes "limiter_ok t l" and "timed t rs T" and "lm_burst l \<le> 300 * lm_qps l"
  shows "of_nat (admitted k rs l) \<le> level l k t + seconds (T - t) * of_int (lm_qps l)"
  using assms
proof (induction rs arbitrary: t l)
  case Nil
  then have "0 \<le> level l k t" using level_nonneg by auto
  moreover have "0 \<le> seconds (T - t) * of_int (lm_qps l)"
    using Nil by (intro mult_nonneg_nonneg seconds_nonneg) (auto simp: limiter_ok_def)
  ultimately show ?case by (simp add: admitted_def)
next
  case (Cons r rs)
  obtain now ip where r: "r = (now, ip)" by fastforce
  obtain a l1 where step: "limiter_allow now ip l = (a, l1)" by fastforce
  have le: "t \<le> now" "timed now rs T" using Cons.prems(2) by (simp_all add: r)
  have q: "0 < lm_qps l" using Cons.prems(1) by (simp add: limiter_ok_def)
  have adv: "level l k now \<le> level l k t + seconds (now - t) * of_int (lm_qps l)"
    by (rule level_advance [OF q le(1)])
  have split: "seconds (T - t) * of_int (lm_qps l) =
      seconds (T - now) * of_int (lm_qps l) + seconds (now - t) * of_int (lm_qps l)"
    by (simp add: seconds_diff [of T t now] distrib_right)
  show ?case
  proof (cases "is_valid ip")
    case True
    note st = allow_step [OF Cons.prems(1) le(1) True Cons.prems(3) step]
    have "of_nat (admitted k rs l1) \<le> level l1 k now + seconds (T - now) * of_int (lm_qps l)"
      using Cons.IH [OF st(1) le(2)] Cons.prems(3) st(2,3) by simp
    moreover have "level l1 k now + (if a \<and> limiter_key ip = k then 1 else 0) = level l k now"
      using st(5) st(6) [of k] by (cases "k = limiter_key ip") auto
    ultimately show ?thesis
      using adv split by (cases "a \<and> limiter_key ip = k") (auto simp: r admitted_Cons [OF step])
  next
    case False
    then have s: "a = False" "l1 = l" using step by (auto simp: limiter_allow_def)
    have "limiter_ok now l" using Cons.prems(1) le(1) by (force simp: limiter_ok_def)
    from Cons.IH [OF this le(2) Cons.prems(3)] show ?thesis
      using adv split s by (simp add: r admitted_Cons [OF step])
  qed
qed

lemma network_part_eq:
  fixes x y :: "'a::len word"
  shows "x AND NOT (mask n) = y AND NOT (mask n) \<longleftrightarrow> drop_bit n x = drop_bit n y"
proof -
  have "x AND NOT (mask n) = push_bit n (drop_bit n x)" for x :: "'a word"
    by (rule bit_word_eqI) (auto simp: bit_simps)
  moreover have "drop_bit n (x AND NOT (mask n)) = drop_bit n x" for x :: "'a word"
    by (rule bit_word_eqI) (auto simp: bit_simps dest: bit_imp_le_length)
  ultimately show ?thesis by metis
qed

section \<open>Properties\<close>

text \<open>
  Property C22. The rate limit holds over every window: from any consistent limiter state at instant
  \<open>t\<close>, whatever requests from whatever clients arrive in time order until \<open>T\<close>, the requests admitted
  for one key number at most the burst plus the rate times the length of the window. The default
  burst of five seconds and any burst of at most 300 seconds' worth of queries satisfy the
  hypothesis that idle buckets may be collected.
\<close>

theorem limiter_rate_bound:
  assumes "limiter_ok t l" and "timed t rs T" and "lm_burst l \<le> 300 * lm_qps l"
  shows "of_nat (admitted k rs l) \<le> of_int (lm_burst l) + seconds (T - t) * of_int (lm_qps l)"
  using admitted_bound [OF assms, of k] level_le_burst [of l k t] by linarith

theorem limiter_rate_bound_witness:
  "of_nat (admitted (limiter_key (AddrV4 1)) [(0, AddrV4 1), (0, AddrV4 2), (1000000000, AddrV4 3)] (newLimiter 0 1 2))
     \<le> (2 + seconds 1000000000 * 1 :: rat)"
proof -
  have "limiter_ok 0 (newLimiter 0 1 2)" by (simp add: limiter_ok_def newLimiter_def configure_def)
  from limiter_rate_bound [OF this, of "[(0, AddrV4 1), (0, AddrV4 2), (1000000000, AddrV4 3)]" 1000000000]
  show ?thesis by (simp add: newLimiter_def configure_def)
qed

text \<open>
  One call decides exactly by the level of the client's own bucket: it admits a valid
  address if and only if a whole token is there after the refill, takes that token, leaves the level
  of every other prefix as it was, and keeps every bucket between empty and the burst.
\<close>

theorem limiter_allow_correct:
  assumes "limiter_ok t l" and "t \<le> now" and "is_valid ip" and "lm_burst l \<le> 300 * lm_qps l"
    and "limiter_allow now ip l = (ans, l')"
  shows "(ans \<longleftrightarrow> 1 \<le> level l (limiter_key ip) now) \<and>
    level l' (limiter_key ip) now = level l (limiter_key ip) now - (if ans then 1 else 0) \<and>
    (k \<noteq> limiter_key ip \<longrightarrow> level l' k now = level l k now) \<and> limiter_ok now l'"
  using allow_step [OF assms] by auto

theorem limiter_allow_correct_witness:
  "fst (limiter_allow 0 (AddrV4 1) (newLimiter 0 1 2)) \<and>
   limiter_ok 0 (snd (limiter_allow 0 (AddrV4 1) (newLimiter 0 1 2)))"
proof -
  have ok: "limiter_ok 0 (newLimiter 0 1 2)" "lm_burst (newLimiter 0 1 2) \<le> 300 * lm_qps (newLimiter 0 1 2)"
    by (simp_all add: limiter_ok_def newLimiter_def configure_def)
  have "1 \<le> level (newLimiter 0 1 2) (limiter_key (AddrV4 1)) 0"
    by (simp add: level_def newLimiter_def configure_def)
  then show ?thesis
    using limiter_allow_correct [OF ok(1) order_refl _ ok(2), of "AddrV4 1"]
    by (metis is_valid.simps(2) prod.collapse)
qed

text \<open>
  A client that rotates addresses inside its /24 or its /64, or adds an IPv6 zone, keeps
  drawing from the same bucket, and two addresses share a bucket only when their network parts agree.
\<close>

theorem limiter_key_granularity:
  "(limiter_key (AddrV4 a) = limiter_key (AddrV4 b) \<longleftrightarrow> drop_bit 8 a = drop_bit 8 b) \<and>
   (limiter_key (AddrV6 v y) = limiter_key (AddrV6 w z) \<longleftrightarrow> drop_bit 64 v = drop_bit 64 w) \<and>
   limiter_key (AddrV4 a) \<noteq> limiter_key (AddrV6 w z)"
  by (simp add: network_part_eq)

end
