(* ===== verification/DNS_Server.thy ===== *)
theory DNS_Server
  imports DNS_Router Rate_Limiter
begin

text \<open>
  The DNS frontend's query handling (\<open>node/dnsfe/server.go\<close>): admission, synthesis of answers for
  managed names, forwarding of everything else to the local resolver, and the DoH handler.

  A message holds the fields the source reads or writes. What \<open>github.com/miekg/dns\<close> does with
  messages (\<open>SetReply\<close>, \<open>SetRcode\<close>, EDNS access, packing, truncation, name splitting) and the upstream
  exchanges are parameters in \<open>dns_lib\<close>. The server's counters are recorded as a list of increments;
  the latency histogram and the in-flight gauge are not. Each handler takes the instants and the
  random message id it would obtain as arguments.
\<close>

section \<open>Messages\<close>

record question =
  qn_name :: string
  qn_type :: nat
  qn_class :: nat

datatype rr =
    RR_A string nat u32 u32                \<comment> \<open>name, class, ttl, address\<close>
  | RR_AAAA string nat u32 addr            \<comment> \<open>name, class, ttl, address\<close>
  | RR_SOA string nat u32 string string u32 nat nat nat u32
      \<comment> \<open>zone, class, ttl, ns, mbox, serial, refresh, retry, expire, minttl\<close>
  | RR_Other string

record msg =
  ms_id :: u16
  ms_opcode :: nat
  ms_rcode :: nat
  ms_authoritative :: bool
  ms_truncated :: bool
  ms_recursion_available :: bool
  ms_authenticated :: bool
  ms_question :: "question list"
  ms_answer :: "rr list"
  ms_ns :: "rr list"
  ms_extra :: "rr list"

definition TypeA :: nat where "TypeA = 1"
definition TypeNS :: nat where "TypeNS = 2"
definition TypeCNAME :: nat where "TypeCNAME = 5"
definition TypeSOA :: nat where "TypeSOA = 6"
definition TypeAAAA :: nat where "TypeAAAA = 28"
definition TypeSVCB :: nat where "TypeSVCB = 64"
definition TypeHTTPS :: nat where "TypeHTTPS = 65"
definition ClassINET :: nat where "ClassINET = 1"
definition OpcodeQuery :: nat where "OpcodeQuery = 0"
definition RcodeFormatError :: nat where "RcodeFormatError = 1"
definition RcodeServerFailure :: nat where "RcodeServerFailure = 2"
definition RcodeRefused :: nat where "RcodeRefused = 5"
definition MinMsgSize :: int where "MinMsgSize = 512"

lemmas qtype_defs = TypeA_def TypeNS_def TypeCNAME_def TypeSOA_def TypeAAAA_def TypeSVCB_def TypeHTTPS_def
lemmas rcode_defs = RcodeFormatError_def RcodeServerFailure_def RcodeRefused_def

record dns_lib =
  set_reply :: "msg \<Rightarrow> msg"                        \<comment> \<open>\<open>new(dns.Msg).SetReply(req)\<close>\<close>
  set_rcode :: "msg \<Rightarrow> nat \<Rightarrow> msg"                  \<comment> \<open>\<open>new(dns.Msg).SetRcode(req, rcode)\<close>\<close>
  edns_udp_size :: "msg \<Rightarrow> u16 option"              \<comment> \<open>\<open>IsEdns0\<close> and \<open>UDPSize\<close>\<close>
  set_edns0 :: "msg \<Rightarrow> u16 \<Rightarrow> msg"                 \<comment> \<open>\<open>SetEdns0(size, false)\<close>\<close>
  truncate_msg :: "msg \<Rightarrow> int \<Rightarrow> msg"
  split_domain_name :: "string \<Rightarrow> string list"
  pack_msg :: "msg \<Rightarrow> bytes option"
  unpack_msg :: "bytes \<Rightarrow> msg option"
  type_to_string :: "nat \<Rightarrow> string"
  rcode_to_string :: "nat \<Rightarrow> string"

text \<open>What one call finds outside the server: the clock, a message id, and the resolver's replies.\<close>

record dns_env =
  en_now :: int
  en_id :: u16
  en_udp :: "msg \<Rightarrow> string \<Rightarrow> msg option"            \<comment> \<open>\<open>client.Exchange\<close>; None: error or nil\<close>
  en_tcp :: "msg \<Rightarrow> string \<Rightarrow> msg option"            \<comment> \<open>\<open>clientTC.Exchange\<close>\<close>

record server =
  ds_router :: router
  ds_upstream :: string
  ds_limiter :: limiter
  ds_inflight :: nat                                 \<comment> \<open>slots taken in the channel\<close>
  ds_cap :: nat                                      \<comment> \<open>its capacity\<close>
  ds_rot_seed :: u32
  ds_counters :: "(string \<times> string list) list"

definition cfg_of :: "server \<Rightarrow> node_config" where
  "cfg_of s = (case rt_cfg (ds_router s) of None \<Rightarrow> zero_config | Some c \<Rightarrow> c)"

definition inc :: "string \<Rightarrow> string list \<Rightarrow> server \<Rightarrow> server" where
  "inc name labels s = s\<lparr>ds_counters := ds_counters s @ [(name, labels)]\<rparr>"

section \<open>The server\<close>

text \<open>\<open>New\<close> dereferences the router's configuration; \<^term>\<open>None\<close> is the panic on a router without one.\<close>

definition New_server :: "int \<Rightarrow> router \<Rightarrow> u32 \<Rightarrow> server option" where
  "New_server now r seed =
     (case rt_cfg r of
        None \<Rightarrow> None
      | Some c \<Rightarrow>
          let a = dc_access (nc_dns c);
              maxc = (if da_max_concurrent a \<le> 0 then 2048 else da_max_concurrent a)
          in Some \<lparr>ds_router = r, ds_upstream = dc_upstream (nc_dns c),
               ds_limiter = newLimiter now (da_rate_limit_qps a) (da_rate_limit_burst a),
               ds_inflight = 0, ds_cap = nat maxc, ds_rot_seed = seed, ds_counters = []\<rparr>)"

definition Reload :: "node_config \<Rightarrow> server \<Rightarrow> server" where
  "Reload c s =
     s\<lparr>ds_upstream := dc_upstream (nc_dns c),
       ds_limiter := configure (da_rate_limit_qps (dc_access (nc_dns c)))
                       (da_rate_limit_burst (dc_access (nc_dns c))) (ds_limiter s)\<rparr>"

definition clamp_udp :: "u16 \<Rightarrow> u16" where
  "clamp_udp size0 =
     (let size = (if size0 < 512 then 512 else size0) in if size > 4096 then 4096 else size)"

definition copyEDNS :: "dns_lib \<Rightarrow> msg \<Rightarrow> msg \<Rightarrow> msg" where
  "copyEDNS dl req resp =
     (case edns_udp_size dl req of None \<Rightarrow> resp | Some sz \<Rightarrow> set_edns0 dl resp (clamp_udp sz))"

definition udpSize :: "dns_lib \<Rightarrow> msg \<Rightarrow> int" where
  "udpSize dl req =
     (case edns_udp_size dl req of
        None \<Rightarrow> MinMsgSize
      | Some n \<Rightarrow> if int (unat n) \<ge> 512 then (if int (unat n) > 4096 then 4096 else int (unat n)) else MinMsgSize)"

definition refuse :: "dns_lib \<Rightarrow> msg \<Rightarrow> nat \<Rightarrow> server \<Rightarrow> msg \<times> server" where
  "refuse dl req rcode s =
     (let m = copyEDNS dl req ((set_rcode dl req rcode)\<lparr>ms_recursion_available := True\<rparr>)
      in (m, inc ''smartdns_dns_responses_total'' [''rcode'', rcode_to_string dl rcode, ''kind'', ''rejected''] s))"

definition soaFor :: "dns_lib \<Rightarrow> int \<Rightarrow> string \<Rightarrow> u32 \<Rightarrow> rr" where
  "soaFor dl now name ttl =
     (let labels = split_domain_name dl name;
          zone = (if length labels > 2
                  then join_with ''.'' (drop (length labels - 2) labels) @ ''.'' else name)
      in RR_SOA zone ClassINET ttl (''ingress.'' @ zone) (''hostmaster.'' @ zone)
           (of_int (now div nanos_per_second div 60)) 3600 600 86400 ttl)"

text \<open>\<open>rotate\<close> bumps the global counter, with 32-bit wrap-around, and cycles the answers.\<close>

definition rotate_rrs :: "u32 \<Rightarrow> rr list \<Rightarrow> rr list \<times> u32" where
  "rotate_rrs seed rrs =
     (if length rrs < 2 then (rrs, seed)
      else let seed' = seed + 1; n = unat seed' mod length rrs in
        if n = 0 then (rrs, seed') else (drop n rrs @ take n rrs, seed'))"

text \<open>\<open>net.ParseIP\<close> accepts what \<open>netip.ParseAddr\<close> accepts without a zone; \<open>To4\<close> unwraps mapped addresses.\<close>

definition parse_ip :: "net_lib \<Rightarrow> string \<Rightarrow> addr option" where
  "parse_ip nl s =
     (case parse_addr nl s of
        Some (AddrV4 a) \<Rightarrow> Some (AddrV4 a)
      | Some (AddrV6 w z) \<Rightarrow> if z = [] then Some (AddrV6 w []) else None
      | _ \<Rightarrow> None)"

definition to4 :: "addr \<Rightarrow> u32 option" where
  "to4 ip = (case unmap ip of AddrV4 a \<Rightarrow> Some a | _ \<Rightarrow> None)"

fun answers_v4 :: "net_lib \<Rightarrow> string \<Rightarrow> u32 \<Rightarrow> string list \<Rightarrow> rr list" where
  "answers_v4 nl name ttl [] = []"
| "answers_v4 nl name ttl (a # as) =
     (case parse_ip nl a of
        Some ip \<Rightarrow>
          (case to4 ip of
             Some v4 \<Rightarrow> RR_A name ClassINET ttl v4 # answers_v4 nl name ttl as
           | None \<Rightarrow> answers_v4 nl name ttl as)
      | None \<Rightarrow> answers_v4 nl name ttl as)"

fun answers_v6 :: "net_lib \<Rightarrow> string \<Rightarrow> u32 \<Rightarrow> string list \<Rightarrow> rr list" where
  "answers_v6 nl name ttl [] = []"
| "answers_v6 nl name ttl (a # as) =
     (case parse_ip nl a of
        Some ip \<Rightarrow>
          (case to4 ip of
             Some v4 \<Rightarrow> answers_v6 nl name ttl as
           | None \<Rightarrow> RR_AAAA name ClassINET ttl ip # answers_v6 nl name ttl as)
      | None \<Rightarrow> answers_v6 nl name ttl as)"

definition effective_ttl :: "dns_config \<Rightarrow> u32 \<Rightarrow> u32" where
  "effective_ttl c ttl0 =
     (let ttl1 = (if ttl0 < dc_min_ttl c then dc_min_ttl c else ttl0);
          ttl2 = (if dc_max_ttl c > 0 \<and> ttl1 > dc_max_ttl c then dc_max_ttl c else ttl1)
      in if ttl2 = 0 then 60 else ttl2)"

definition forward :: "dns_lib \<Rightarrow> dns_env \<Rightarrow> msg \<Rightarrow> string \<Rightarrow> server \<Rightarrow> msg \<times> server" where
  "forward dl en req proto s =
     (let up = (if ds_upstream s = [] then ''127.0.0.1:5335'' else ds_upstream s) in
      if ds_inflight s \<ge> ds_cap s
      then refuse dl req RcodeServerFailure (inc ''smartdns_dns_rejected_total'' [''reason'', ''concurrency''] s)
      else
        let out = req\<lparr>ms_id := en_id en\<rparr>;
            resp1 = en_udp en out up;
            resp = (case resp1 of
                      Some r \<Rightarrow> if ms_truncated r \<and> proto \<noteq> ''udp'' then en_tcp en out up else Some r
                    | None \<Rightarrow> None)
        in case resp of
             None \<Rightarrow> refuse dl req RcodeServerFailure (inc ''smartdns_dns_upstream_total'' [''result'', ''error''] s)
           | Some r \<Rightarrow>
               (r\<lparr>ms_id := ms_id req, ms_question := ms_question req\<rparr>,
                inc ''smartdns_dns_responses_total'' [''rcode'', rcode_to_string dl (ms_rcode r), ''kind'', ''recursive'']
                  (inc ''smartdns_dns_upstream_total'' [''result'', ''ok''] s)))"

text \<open>The common end of \<open>synthesize\<close>: a negative answer carries an SOA.\<close>

definition finish_synth :: "dns_lib \<Rightarrow> dns_env \<Rightarrow> question \<Rightarrow> u32 \<Rightarrow> msg \<Rightarrow> server \<Rightarrow> msg \<times> server" where
  "finish_synth dl en q ttl m s =
     ((if length (ms_answer m) = 0 then m\<lparr>ms_ns := ms_ns m @ [soaFor dl (en_now en) (qn_name q) ttl]\<rparr> else m),
      inc ''smartdns_dns_responses_total'' [''rcode'', rcode_to_string dl (ms_rcode m), ''kind'', ''synthesized''] s)"

definition synthesize ::
  "dns_lib \<Rightarrow> net_lib \<Rightarrow> dns_env \<Rightarrow> msg \<Rightarrow> service \<Rightarrow> question \<Rightarrow> string \<Rightarrow> server \<Rightarrow> msg \<times> server" where
  "synthesize dl nl en req svc q proto s =
     (let cfg = cfg_of s;
          m0 = copyEDNS dl req ((set_reply dl req)\<lparr>ms_authoritative := True, ms_recursion_available := True,
                 ms_authenticated := False\<rparr>);
          ttl = effective_ttl (nc_dns cfg) (sv_ttl svc);
          synth = (\<lambda>t. inc ''smartdns_dns_synthesized_total'' [''service'', sv_slug svc, ''qtype'', t])
      in if qn_type q = TypeA then
           (case rotate_rrs (ds_rot_seed s) (ms_answer m0 @ answers_v4 nl (qn_name q) ttl (sv_ingress_v4 svc)) of
              (ans, seed) \<Rightarrow>
                finish_synth dl en q ttl (m0\<lparr>ms_answer := ans\<rparr>) (synth ''A'' (s\<lparr>ds_rot_seed := seed\<rparr>)))
         else if qn_type q = TypeAAAA then
           (if dc_publish_aaaa (nc_dns cfg) then
              (case rotate_rrs (ds_rot_seed s) (ms_answer m0 @ answers_v6 nl (qn_name q) ttl (sv_ingress_v6 svc)) of
                 (ans, seed) \<Rightarrow>
                   finish_synth dl en q ttl (m0\<lparr>ms_answer := ans\<rparr>) (synth ''AAAA'' (s\<lparr>ds_rot_seed := seed\<rparr>)))
            else finish_synth dl en q ttl m0 (synth ''AAAA'' s))
         else if qn_type q = TypeHTTPS \<or> qn_type q = TypeSVCB then
           (let s' = synth (type_to_string dl (qn_type q)) s in
            if \<not> dc_block_https_rr (nc_dns cfg) then forward dl en req proto s'
            else finish_synth dl en q ttl m0 s')
         else if qn_type q = TypeCNAME \<or> qn_type q = TypeNS \<or> qn_type q = TypeSOA then
           finish_synth dl en q ttl m0 s
         else forward dl en req proto s)"

definition Handle ::
  "domain_lib \<Rightarrow> dns_lib \<Rightarrow> net_lib \<Rightarrow> dns_env \<Rightarrow> msg \<Rightarrow> addr \<Rightarrow> string \<Rightarrow> string \<Rightarrow> server \<Rightarrow> msg \<times> server" where
  "Handle lib dl nl en req client proto dohToken s =
     (if length (ms_question req) \<noteq> 1 \<or> ms_opcode req \<noteq> OpcodeQuery then
        refuse dl req RcodeFormatError (inc ''smartdns_dns_rejected_total'' [''reason'', ''malformed''] s)
      else if \<not> AllowClient lib (ds_router s) client dohToken then
        refuse dl req RcodeRefused (inc ''smartdns_dns_rejected_total'' [''reason'', ''acl''] s)
      else case limiter_allow (en_now en) client (ds_limiter s) of (ok, lm) \<Rightarrow>
        let s1 = s\<lparr>ds_limiter := lm\<rparr> in
        if \<not> ok then
          refuse dl req RcodeRefused (inc ''smartdns_dns_rejected_total'' [''reason'', ''rate_limit''] s1)
        else
          let q = ms_question req ! 0;
              host = NormalizeQName lib (qn_name q);
              qtype = type_to_string dl (qn_type q)
          in case Lookup lib (ds_router s1) host of
               None \<Rightarrow> forward dl en req proto
                 (inc ''smartdns_dns_queries_total'' [''proto'', proto, ''qtype'', qtype, ''kind'', ''recursive''] s1)
             | Some svc \<Rightarrow> synthesize dl nl en req svc q proto
                 (inc ''smartdns_dns_queries_total'' [''proto'', proto, ''qtype'', qtype, ''kind'', ''managed''] s1))"

section \<open>Transports\<close>

datatype net_addr = UDPAddr bytes | TCPAddr bytes | OtherAddr string

definition be_nat :: "bytes \<Rightarrow> nat" where
  "be_nat bs = foldl (\<lambda>acc b. acc * 256 + unat b) 0 bs"

text \<open>\<open>netip.AddrFromSlice\<close>: four or sixteen bytes, anything else is the invalid address.\<close>

definition addr_from_slice :: "bytes \<Rightarrow> addr" where
  "addr_from_slice bs =
     (if length bs = 4 then AddrV4 (of_nat (be_nat bs))
      else if length bs = 16 then AddrV6 (of_nat (be_nat bs)) [] else AddrInvalid)"

definition parsed_addr :: "net_lib \<Rightarrow> string \<Rightarrow> addr" where
  "parsed_addr nl s = (case parse_addr nl s of None \<Rightarrow> AddrInvalid | Some a \<Rightarrow> a)"

fun addrOf :: "net_lib \<Rightarrow> net_addr \<Rightarrow> addr" where
  "addrOf nl (UDPAddr ip) = unmap (addr_from_slice ip)"
| "addrOf nl (TCPAddr ip) = unmap (addr_from_slice ip)"
| "addrOf nl (OtherAddr s) =
     (case split_host_port nl s of None \<Rightarrow> AddrInvalid | Some (host, _) \<Rightarrow> unmap (parsed_addr nl host))"

definition ServeDNS ::
  "domain_lib \<Rightarrow> dns_lib \<Rightarrow> net_lib \<Rightarrow> dns_env \<Rightarrow> string \<Rightarrow> net_addr \<Rightarrow> msg \<Rightarrow> server \<Rightarrow> msg \<times> server" where
  "ServeDNS lib dl nl en proto remote req s =
     (case Handle lib dl nl en req (addrOf nl remote) proto [] s of (resp, s') \<Rightarrow>
        (if proto = ''udp'' then truncate_msg dl resp (udpSize dl req) else resp, s'))"

record http_request =
  hr_method :: string
  hr_path :: string
  hr_dns :: string                     \<comment> \<open>\<open>r.URL.Query().Get("dns")\<close>\<close>
  hr_content_type :: string
  hr_body :: "bytes option"            \<comment> \<open>None: the read fails\<close>
  hr_remote :: string

datatype http_response =
    HttpError nat string               \<comment> \<open>status and text\<close>
  | HttpDNS bytes                      \<comment> \<open>200 with \<open>application/dns-message\<close>\<close>

definition clientIPOf :: "net_lib \<Rightarrow> http_request \<Rightarrow> addr" where
  "clientIPOf nl r =
     (let host = (case split_host_port nl (hr_remote r) of None \<Rightarrow> hr_remote r | Some (h, _) \<Rightarrow> h)
      in unmap (parsed_addr nl host))"

definition doh_token :: "domain_lib \<Rightarrow> string \<Rightarrow> string \<Rightarrow> string" where
  "doh_token lib basePath path =
     (let token = trim_char CHR ''/'' (trim_prefix path basePath)
      in if token \<noteq> [] then sha256_hex lib token else token)"

text \<open>The request body of a query: an HTTP error, or the bytes (\<^term>\<open>None\<close> where decoding or reading failed).\<close>

definition doh_body :: "http_request \<Rightarrow> http_response + bytes option" where
  "doh_body r =
     (if hr_method r = ''GET'' then
        (if hr_dns r = [] then Inl (HttpError 400 ''missing dns parameter'')
         else Inr (b64url_decode (hr_dns r)))
      else if hr_method r = ''POST'' then
        (if hr_content_type r \<noteq> [] \<and> \<not> has_prefix (hr_content_type r) ''application/dns-message''
         then Inl (HttpError 415 ''unsupported content type'')
         else Inr (map_option (take 8192) (hr_body r)))
      else Inl (HttpError 405 ''method not allowed''))"

definition DoHHandler ::
  "domain_lib \<Rightarrow> dns_lib \<Rightarrow> net_lib \<Rightarrow> dns_env \<Rightarrow> string \<Rightarrow> http_request \<Rightarrow> server \<Rightarrow> http_response \<times> server" where
  "DoHHandler lib dl nl en basePath r s =
     (let token = doh_token lib basePath (hr_path r) in
      case doh_body r of
        Inl e \<Rightarrow> (e, s)
      | Inr None \<Rightarrow> (HttpError 400 ''bad dns message'', s)
      | Inr (Some body) \<Rightarrow>
          if length body = 0 then (HttpError 400 ''bad dns message'', s)
          else (case unpack_msg dl body of
                  None \<Rightarrow> (HttpError 400 ''bad dns message'', s)
                | Some req \<Rightarrow>
                    (case Handle lib dl nl en req (clientIPOf nl r) ''doh'' token s of (resp, s') \<Rightarrow>
                       (case pack_msg dl resp of
                          None \<Rightarrow> (HttpError 500 ''pack failed'', s')
                        | Some out \<Rightarrow> (HttpDNS out, s')))))"

section \<open>Lemmas\<close>

lemma rotate_rrs_mset: "mset (fst (rotate_rrs seed rrs)) = mset rrs"
proof -
  have "mset (drop n rrs @ take n rrs) = mset rrs" for n
    by (metis append_take_drop_id mset_append union_commute)
  then show ?thesis by (simp add: rotate_rrs_def Let_def)
qed

lemma inc_fields [simp]:
  "ds_router (inc n l s) = ds_router s" "ds_upstream (inc n l s) = ds_upstream s"
  "ds_limiter (inc n l s) = ds_limiter s" "ds_inflight (inc n l s) = ds_inflight s"
  "ds_cap (inc n l s) = ds_cap s" "ds_rot_seed (inc n l s) = ds_rot_seed s" "cfg_of (inc n l s) = cfg_of s"
  by (simp_all add: inc_def cfg_of_def)

lemma snd_refuse [simp]:
  "ds_router (snd (refuse dl req rc s)) = ds_router s" "ds_inflight (snd (refuse dl req rc s)) = ds_inflight s"
  "ds_limiter (snd (refuse dl req rc s)) = ds_limiter s" "ds_cap (snd (refuse dl req rc s)) = ds_cap s"
  by (simp_all add: refuse_def Let_def)

lemma set_answers_v4:
  "set (answers_v4 nl name ttl as) =
     {RR_A name ClassINET ttl v | v. \<exists>a\<in>set as. \<exists>ip. parse_ip nl a = Some ip \<and> to4 ip = Some v}"
  by (induction as) (auto split: option.splits)

lemma set_answers_v6:
  "set (answers_v6 nl name ttl as) =
     {RR_AAAA name ClassINET ttl ip | ip. \<exists>a\<in>set as. parse_ip nl a = Some ip \<and> to4 ip = None}"
  by (induction as) (auto split: option.splits)

lemma effective_ttl_bounds:
  assumes "dc_max_ttl c = 0 \<or> dc_min_ttl c \<le> dc_max_ttl c"
  shows "0 < effective_ttl c t"
    and "dc_min_ttl c \<le> effective_ttl c t"
    and "0 < dc_max_ttl c \<Longrightarrow> 0 < dc_min_ttl c \<or> 0 < t \<or> 60 \<le> dc_max_ttl c \<Longrightarrow> effective_ttl c t \<le> dc_max_ttl c"
proof -
  have z: "x = 0 \<or> 0 < x" for x :: u32 by (simp add: word_gt_0)
  show "0 < effective_ttl c t" using z by (auto simp: effective_ttl_def Let_def word_gt_0)
  show "dc_min_ttl c \<le> effective_ttl c t"
    using assms z [of "dc_min_ttl c"] by (auto simp: effective_ttl_def Let_def not_less word_gt_0)
  show "effective_ttl c t \<le> dc_max_ttl c"
    if "0 < dc_max_ttl c" "0 < dc_min_ttl c \<or> 0 < t \<or> 60 \<le> dc_max_ttl c"
    using that assms by (auto simp: effective_ttl_def Let_def not_less)
qed

text \<open>The documented behaviour of the message library that the answers rest on.\<close>

definition reply_laws :: "dns_lib \<Rightarrow> bool" where
  "reply_laws dl \<longleftrightarrow>
     (\<forall>req. ms_id (set_reply dl req) = ms_id req \<and> ms_question (set_reply dl req) = take 1 (ms_question req) \<and>
        ms_rcode (set_reply dl req) = 0 \<and> ms_answer (set_reply dl req) = [] \<and> ms_ns (set_reply dl req) = []) \<and>
     (\<forall>req rc. ms_id (set_rcode dl req rc) = ms_id req \<and> ms_question (set_rcode dl req rc) = take 1 (ms_question req) \<and>
        ms_rcode (set_rcode dl req rc) = rc \<and> ms_answer (set_rcode dl req rc) = [] \<and> ms_ns (set_rcode dl req rc) = []) \<and>
     (\<forall>m sz. \<exists>x. set_edns0 dl m sz = m\<lparr>ms_extra := x\<rparr>)"

lemma copyEDNS_fields:
  assumes "reply_laws dl"
  shows "ms_id (copyEDNS dl req m) = ms_id m" "ms_question (copyEDNS dl req m) = ms_question m"
    "ms_rcode (copyEDNS dl req m) = ms_rcode m" "ms_answer (copyEDNS dl req m) = ms_answer m"
    "ms_ns (copyEDNS dl req m) = ms_ns m" "ms_authenticated (copyEDNS dl req m) = ms_authenticated m"
    "ms_authoritative (copyEDNS dl req m) = ms_authoritative m"
proof -
  obtain x where "copyEDNS dl req m = m \<or> copyEDNS dl req m = m\<lparr>ms_extra := x\<rparr>"
    using assms by (cases "edns_udp_size dl req") (simp_all add: copyEDNS_def reply_laws_def, metis)
  then show "ms_id (copyEDNS dl req m) = ms_id m" "ms_question (copyEDNS dl req m) = ms_question m"
    "ms_rcode (copyEDNS dl req m) = ms_rcode m" "ms_answer (copyEDNS dl req m) = ms_answer m"
    "ms_ns (copyEDNS dl req m) = ms_ns m" "ms_authenticated (copyEDNS dl req m) = ms_authenticated m"
    "ms_authoritative (copyEDNS dl req m) = ms_authoritative m"
    by auto
qed

text \<open>A query that passes admission.\<close>

definition admitted_query :: "domain_lib \<Rightarrow> dns_env \<Rightarrow> msg \<Rightarrow> addr \<Rightarrow> string \<Rightarrow> server \<Rightarrow> question \<Rightarrow> bool" where
  "admitted_query lib en req client tok s q \<longleftrightarrow>
     ms_question req = [q] \<and> ms_opcode req = OpcodeQuery \<and> AllowClient lib (ds_router s) client tok \<and>
     fst (limiter_allow (en_now en) client (ds_limiter s))"

text \<open>The query types of a managed name that are answered on the spot.\<close>

definition local_type :: "dns_config \<Rightarrow> nat \<Rightarrow> bool" where
  "local_type c t \<longleftrightarrow> t \<in> {TypeA, TypeAAAA, TypeCNAME, TypeNS, TypeSOA} \<or> (t \<in> {TypeHTTPS, TypeSVCB} \<and> dc_block_https_rr c)"

lemma Handle_managed:
  assumes "admitted_query lib en req client tok s q"
    and "Lookup lib (ds_router s) (NormalizeQName lib (qn_name q)) = Some svc"
  obtains s1 where "Handle lib dl nl en req client proto tok s = synthesize dl nl en req svc q proto s1"
    and "cfg_of s1 = cfg_of s" and "ds_rot_seed s1 = ds_rot_seed s"
proof -
  obtain lm where l: "limiter_allow (en_now en) client (ds_limiter s) = (True, lm)"
    using assms(1) by (metis admitted_query_def prod.collapse)
  show thesis
  proof (rule that)
    show "Handle lib dl nl en req client proto tok s = synthesize dl nl en req svc q proto
      (inc ''smartdns_dns_queries_total'' [''proto'', proto, ''qtype'', type_to_string dl (qn_type q), ''kind'', ''managed'']
        (s\<lparr>ds_limiter := lm\<rparr>))"
      using assms l by (simp add: Handle_def admitted_query_def Let_def)
  qed (simp_all add: cfg_of_def inc_def)
qed

lemma Handle_unmanaged:
  assumes "admitted_query lib en req client tok s q"
    and "Lookup lib (ds_router s) (NormalizeQName lib (qn_name q)) = None"
  obtains s1 where "Handle lib dl nl en req client proto tok s = forward dl en req proto s1"
    and "ds_upstream s1 = ds_upstream s" and "ds_inflight s1 = ds_inflight s" and "ds_cap s1 = ds_cap s"
proof -
  obtain lm where l: "limiter_allow (en_now en) client (ds_limiter s) = (True, lm)"
    using assms(1) by (metis admitted_query_def prod.collapse)
  show thesis
  proof (rule that)
    show "Handle lib dl nl en req client proto tok s = forward dl en req proto
      (inc ''smartdns_dns_queries_total'' [''proto'', proto, ''qtype'', type_to_string dl (qn_type q), ''kind'', ''recursive'']
        (s\<lparr>ds_limiter := lm\<rparr>))"
      using assms l by (simp add: Handle_def admitted_query_def Let_def)
  qed (simp_all add: inc_def)
qed

lemma synthesize_local_env:
  assumes "local_type (nc_dns (cfg_of s)) (qn_type q)"
  shows "synthesize dl nl (en\<lparr>en_udp := u, en_tcp := t\<rparr>) req svc q proto s = synthesize dl nl en req svc q proto s"
  using assms
  by (auto simp: synthesize_def local_type_def finish_synth_def qtype_defs Let_def split: prod.splits)

lemma synthesize_answer:
  fixes svc :: service and nl :: net_lib and en :: dns_env and proto :: string
  assumes laws: "reply_laws dl" and q: "ms_question req = [q]" and t: "local_type (nc_dns (cfg_of s)) (qn_type q)"
  defines "ttl \<equiv> effective_ttl (nc_dns (cfg_of s)) (sv_ttl svc)"
  defines "resp \<equiv> fst (synthesize dl nl en req svc q proto s)"
  shows "mset (ms_answer resp) =
      mset (if qn_type q = TypeA then answers_v4 nl (qn_name q) ttl (sv_ingress_v4 svc)
            else if qn_type q = TypeAAAA \<and> dc_publish_aaaa (nc_dns (cfg_of s))
            then answers_v6 nl (qn_name q) ttl (sv_ingress_v6 svc) else [])"
    and "ms_id resp = ms_id req" and "ms_question resp = [q]" and "ms_rcode resp = 0"
    and "\<not> ms_authenticated resp"
    and "ms_ns resp = (if ms_answer resp = [] then [soaFor dl (en_now en) (qn_name q) ttl] else [])"
proof -
  define m0 where "m0 = copyEDNS dl req ((set_reply dl req)\<lparr>ms_authoritative := True,
    ms_recursion_available := True, ms_authenticated := False\<rparr>)"
  have m0: "ms_answer m0 = []" "ms_id m0 = ms_id req" "ms_question m0 = [q]" "ms_rcode m0 = 0"
    "\<not> ms_authenticated m0" "ms_ns m0 = []"
    using laws q by (simp_all add: m0_def copyEDNS_fields [OF laws] reply_laws_def)
  obtain ans where r: "resp = (if ans = [] then m0\<lparr>ms_answer := ans, ms_ns := [soaFor dl (en_now en) (qn_name q) ttl]\<rparr>
      else m0\<lparr>ms_answer := ans\<rparr>)"
    and a: "mset ans = mset (if qn_type q = TypeA then answers_v4 nl (qn_name q) ttl (sv_ingress_v4 svc)
            else if qn_type q = TypeAAAA \<and> dc_publish_aaaa (nc_dns (cfg_of s))
            then answers_v6 nl (qn_name q) ttl (sv_ingress_v6 svc) else [])"
  proof -
    let ?as = "if qn_type q = TypeA then answers_v4 nl (qn_name q) ttl (sv_ingress_v4 svc)
            else if qn_type q = TypeAAAA \<and> dc_publish_aaaa (nc_dns (cfg_of s))
            then answers_v6 nl (qn_name q) ttl (sv_ingress_v6 svc) else []"
    let ?ans = "fst (rotate_rrs (ds_rot_seed s) ?as)"
    have e: "m0\<lparr>ms_answer := [], ms_ns := x\<rparr> = m0\<lparr>ms_ns := x\<rparr>" for x using m0(1) by (cases m0) simp
    consider (A) "qn_type q = TypeA" | (AAAA) "qn_type q = TypeAAAA" "dc_publish_aaaa (nc_dns (cfg_of s))"
      | (none) "qn_type q \<noteq> TypeA" "qn_type q \<noteq> TypeAAAA \<or> \<not> dc_publish_aaaa (nc_dns (cfg_of s))" by blast
    then have "resp = (if ?ans = [] then m0\<lparr>ms_answer := ?ans, ms_ns := [soaFor dl (en_now en) (qn_name q) ttl]\<rparr>
      else m0\<lparr>ms_answer := ?ans\<rparr>)"
    proof cases
      case A
      then show ?thesis
        unfolding resp_def synthesize_def m0_def [symmetric] ttl_def [symmetric] Let_def
        by (simp add: finish_synth_def m0 split: prod.splits)
    next
      case AAAA
      then show ?thesis
        unfolding resp_def synthesize_def m0_def [symmetric] ttl_def [symmetric] Let_def
        by (simp add: finish_synth_def m0 qtype_defs split: prod.splits)
    next
      case none
      then show ?thesis
        using t unfolding resp_def synthesize_def m0_def [symmetric] ttl_def [symmetric] Let_def
        by (auto simp: local_type_def finish_synth_def m0 e qtype_defs rotate_rrs_def)
    qed
    with that show thesis by (metis rotate_rrs_mset)
  qed
  show "mset (ms_answer resp) =
      mset (if qn_type q = TypeA then answers_v4 nl (qn_name q) ttl (sv_ingress_v4 svc)
            else if qn_type q = TypeAAAA \<and> dc_publish_aaaa (nc_dns (cfg_of s))
            then answers_v6 nl (qn_name q) ttl (sv_ingress_v6 svc) else [])"
    using r a by (auto split: if_splits)
  show "ms_id resp = ms_id req" "ms_question resp = [q]" "ms_rcode resp = 0" "\<not> ms_authenticated resp"
    "ms_ns resp = (if ms_answer resp = [] then [soaFor dl (en_now en) (qn_name q) ttl] else [])"
    using r m0 by auto
qed

lemma refuse_answer:
  assumes "reply_laws dl"
  shows "ms_answer (fst (refuse dl req rc s)) = []" "ms_rcode (fst (refuse dl req rc s)) = rc"
    "ms_id (fst (refuse dl req rc s)) = ms_id req"
  using assms by (simp_all add: refuse_def Let_def copyEDNS_fields [OF assms] reply_laws_def)

lemma forward_answer:
  assumes "reply_laws dl"
  defines "up s \<equiv> (if ds_upstream s = [] then ''127.0.0.1:5335'' else ds_upstream s)"
  shows "(ms_rcode (fst (forward dl en req proto s)) = RcodeServerFailure \<and> ms_answer (fst (forward dl en req proto s)) = []) \<or>
    ds_inflight s < ds_cap s \<and>
    (\<exists>r. (en_udp en (req\<lparr>ms_id := en_id en\<rparr>) (up s) = Some r \<or> en_tcp en (req\<lparr>ms_id := en_id en\<rparr>) (up s) = Some r) \<and>
      fst (forward dl en req proto s) = r\<lparr>ms_id := ms_id req, ms_question := ms_question req\<rparr>)"
  using refuse_answer [OF assms(1)]
  by (auto simp: forward_def up_def Let_def split: option.splits)

section \<open>Properties\<close>


definition demo_dns :: dns_lib where
  "demo_dns =
     (let blank = (\<lambda>req rc. req\<lparr>ms_rcode := rc, ms_question := take 1 (ms_question req), ms_answer := [], ms_ns := []\<rparr>)
      in \<lparr>set_reply = (\<lambda>req. blank req 0), set_rcode = blank, edns_udp_size = (\<lambda>_. Some 1232),
          set_edns0 = (\<lambda>m _. m\<lparr>ms_extra := [RR_Other ''OPT'']\<rparr>), truncate_msg = (\<lambda>m _. m),
          split_domain_name = split_on CHR ''.'', pack_msg = (\<lambda>_. Some []), unpack_msg = (\<lambda>_. None),
          type_to_string = (\<lambda>_. []), rcode_to_string = (\<lambda>_. [])\<rparr>)"

lemma demo_dns_laws: "reply_laws demo_dns"
  unfolding reply_laws_def demo_dns_def by (auto simp: Let_def)

definition demo_tv :: service where
  "demo_tv = (demo_svc ''tv'' ''tv.a.com'' 1)\<lparr>sv_ttl := 300, sv_ingress_v4 := [''8.8.8.8'']\<rparr>"

definition demo_router :: router where
  "demo_router = Apply_router plain_lib plain_net
     (zero_config\<lparr>nc_services := [demo_tv],
        nc_dns := zero_dns\<lparr>dc_access := zero_access\<lparr>da_mode := ''restricted-public-dot''\<rparr>\<rparr>\<rparr>) zero_router"

definition demo_server :: server where
  "demo_server = \<lparr>ds_router = demo_router, ds_upstream = [], ds_limiter = newLimiter 0 1 2,
     ds_inflight = 0, ds_cap = 1, ds_rot_seed = 0, ds_counters = []\<rparr>"

definition demo_query :: "string \<Rightarrow> msg" where
  "demo_query name = \<lparr>ms_id = 7, ms_opcode = 0, ms_rcode = 0, ms_authoritative = False, ms_truncated = False,
     ms_recursion_available = False, ms_authenticated = False,
     ms_question = [\<lparr>qn_name = name, qn_type = 1, qn_class = 1\<rparr>], ms_answer = [], ms_ns = [], ms_extra = []\<rparr>"

definition demo_env :: dns_env where
  "demo_env = \<lparr>en_now = 0, en_id = 9, en_udp = (\<lambda>m _. Some m), en_tcp = (\<lambda>_ _. None)\<rparr>"

lemma demo_admitted:
  "admitted_query plain_lib demo_env (demo_query name) (AddrV4 1) [] demo_server \<lparr>qn_name = name, qn_type = 1, qn_class = 1\<rparr>"
proof -
  have "fst (limiter_allow 0 (AddrV4 1) (newLimiter 0 1 2))"
    by (simp add: limiter_allow_def newLimiter_def configure_def Let_def time_defs)
  then show ?thesis
    by (simp add: admitted_query_def demo_query_def OpcodeQuery_def demo_env_def demo_server_def demo_router_def
        AllowClient_def Apply_router_def Let_def)
qed

lemma demo_lookup:
  "Lookup plain_lib demo_router (NormalizeQName plain_lib ''x.tv.a.com.'') = Some demo_tv"
  "Lookup plain_lib demo_router (NormalizeQName plain_lib ''b.org.'') = None"
proof -
  have n: "NormalizeQName plain_lib ''x.tv.a.com.'' = ''x.tv.a.com''" "NormalizeQName plain_lib ''b.org.'' = ''b.org''"
    by (code_simp, code_simp)
  have "specificity plain_lib (compile_set plain_lib (sv_match demo_tv)) ''x.tv.a.com'' = 99"
    "specificity plain_lib (compile_set plain_lib (sv_match demo_tv)) ''b.org'' = -1"
    by (code_simp, code_simp)
  then show "Lookup plain_lib demo_router (NormalizeQName plain_lib ''x.tv.a.com.'') = Some demo_tv"
    "Lookup plain_lib demo_router (NormalizeQName plain_lib ''b.org.'') = None"
    by (simp_all add: n Lookup_def best_entry_def demo_router_def Apply_router_def Let_def)
qed

lemma demo_cfg: "nc_dns (cfg_of demo_server) = zero_dns\<lparr>dc_access := zero_access\<lparr>da_mode := ''restricted-public-dot''\<rparr>\<rparr>"
  by (simp add: cfg_of_def demo_server_def demo_router_def Apply_router_def Let_def)

lemma demo_local: "local_type (nc_dns (cfg_of demo_server)) 1"
  by (simp add: local_type_def qtype_defs)


text \<open>
  For a managed name, address queries and the query types that could send the client
  past the ingress are never resolved upstream: whatever the resolver would answer, the response and
  the state of the server after it are the same.
\<close>

theorem managed_never_upstream:
  assumes "admitted_query lib en req client tok s q"
    and "Lookup lib (ds_router s) (NormalizeQName lib (qn_name q)) = Some svc"
    and "local_type (nc_dns (cfg_of s)) (qn_type q)"
  shows "Handle lib dl nl (en\<lparr>en_udp := u, en_tcp := t\<rparr>) req client proto tok s =
         Handle lib dl nl en req client proto tok s"
proof -
  obtain lm where l: "limiter_allow (en_now en) client (ds_limiter s) = (True, lm)"
    using assms(1) by (metis admitted_query_def prod.collapse)
  have c: "cfg_of (s\<lparr>ds_limiter := lm\<rparr>) = cfg_of s" by (simp add: cfg_of_def)
  show ?thesis
    using assms l
    by (simp add: Handle_def admitted_query_def Let_def synthesize_local_env c)
qed

theorem managed_never_upstream_witness:
  "Handle plain_lib demo_dns plain_net (demo_env\<lparr>en_udp := \<lambda>_ _. None, en_tcp := \<lambda>_ _. None\<rparr>)
     (demo_query ''x.tv.a.com.'') (AddrV4 1) ''udp'' [] demo_server =
   Handle plain_lib demo_dns plain_net demo_env (demo_query ''x.tv.a.com.'') (AddrV4 1) ''udp'' [] demo_server"
proof -
  have l: "Lookup plain_lib (ds_router demo_server)
      (NormalizeQName plain_lib (qn_name \<lparr>qn_name = ''x.tv.a.com.'', qn_type = 1, qn_class = 1\<rparr>)) = Some demo_tv"
    using demo_lookup(1) by (simp add: demo_server_def)
  have t: "local_type (nc_dns (cfg_of demo_server)) (qn_type \<lparr>qn_name = ''x.tv.a.com.'', qn_type = 1, qn_class = 1\<rparr>)"
    using demo_local by simp
  show ?thesis by (rule managed_never_upstream [OF demo_admitted l t])
qed

text \<open>
  An admitted query for any other name is answered only with what the local resolver
  returned, with the client's id and question put back, or with SERVFAIL and no data when the
  resolver fails or the concurrency limit is reached: the frontend never invents an answer.
\<close>

theorem unmanaged_forwarded:
  assumes "reply_laws dl" and "admitted_query lib en req client tok s q"
    and "Lookup lib (ds_router s) (NormalizeQName lib (qn_name q)) = None"
  shows "let resp = fst (Handle lib dl nl en req client proto tok s);
             up = (if ds_upstream s = [] then ''127.0.0.1:5335'' else ds_upstream s)
         in (ms_rcode resp = RcodeServerFailure \<and> ms_answer resp = []) \<or>
            ds_inflight s < ds_cap s \<and>
            (\<exists>r. (en_udp en (req\<lparr>ms_id := en_id en\<rparr>) up = Some r \<or> en_tcp en (req\<lparr>ms_id := en_id en\<rparr>) up = Some r) \<and>
               resp = r\<lparr>ms_id := ms_id req, ms_question := ms_question req\<rparr>)"
proof -
  obtain s1 where h: "Handle lib dl nl en req client proto tok s = forward dl en req proto s1"
    and u: "ds_upstream s1 = ds_upstream s" and i: "ds_inflight s1 = ds_inflight s" and c: "ds_cap s1 = ds_cap s"
    by (rule Handle_unmanaged [OF assms(2,3), where dl = dl and nl = nl and proto = proto])
  show ?thesis
    using forward_answer [OF assms(1), of en req proto s1] unfolding Let_def h u i c .
qed

theorem unmanaged_forwarded_witness:
  "let resp = fst (Handle plain_lib demo_dns plain_net demo_env (demo_query ''b.org.'') (AddrV4 1) ''udp'' [] demo_server)
   in (ms_rcode resp = RcodeServerFailure \<and> ms_answer resp = []) \<or> resp = demo_query ''b.org.''"
proof -
  have l: "Lookup plain_lib (ds_router demo_server)
      (NormalizeQName plain_lib (qn_name \<lparr>qn_name = ''b.org.'', qn_type = 1, qn_class = 1\<rparr>)) = None"
    using demo_lookup(2) by (simp add: demo_server_def)
  show ?thesis
    using unmanaged_forwarded [OF demo_dns_laws demo_admitted l, of plain_net "''udp''"]
    by (auto simp: Let_def demo_env_def demo_query_def)
qed

text \<open>
  Property C21. A client outside the access policy gets REFUSED without data, before the rate limiter
  is touched and before the name is looked at; a client over its rate gets the same; a malformed
  message gets FORMERR.
\<close>

theorem rejected_queries:
  assumes "reply_laws dl"
  shows "(length (ms_question req) \<noteq> 1 \<or> ms_opcode req \<noteq> OpcodeQuery \<longrightarrow>
      ms_rcode (fst (Handle lib dl nl en req client proto tok s)) = RcodeFormatError \<and>
      ms_answer (fst (Handle lib dl nl en req client proto tok s)) = []) \<and>
    (length (ms_question req) = 1 \<and> ms_opcode req = OpcodeQuery \<and> \<not> AllowClient lib (ds_router s) client tok \<longrightarrow>
      ms_rcode (fst (Handle lib dl nl en req client proto tok s)) = RcodeRefused \<and>
      ms_answer (fst (Handle lib dl nl en req client proto tok s)) = [] \<and>
      ds_limiter (snd (Handle lib dl nl en req client proto tok s)) = ds_limiter s) \<and>
    (length (ms_question req) = 1 \<and> ms_opcode req = OpcodeQuery \<and>
     \<not> fst (limiter_allow (en_now en) client (ds_limiter s)) \<longrightarrow>
      ms_rcode (fst (Handle lib dl nl en req client proto tok s)) = RcodeRefused \<and>
      ms_answer (fst (Handle lib dl nl en req client proto tok s)) = [])"
  using refuse_answer [OF assms] by (auto simp: Handle_def Let_def split: prod.splits)

theorem rejected_queries_witness:
  "ms_rcode (fst (Handle plain_lib demo_dns plain_net demo_env (demo_query ''b.org.'') (AddrV4 1) ''udp'' []
      (demo_server\<lparr>ds_router := zero_router\<rparr>))) = 5"
  using rejected_queries [OF demo_dns_laws, of "demo_query ''b.org.''" plain_lib plain_net demo_env "AddrV4 1" "''udp''" "[]"
      "demo_server\<lparr>ds_router := zero_router\<rparr>"]
  by (simp add: demo_query_def AllowClient_def zero_router_def OpcodeQuery_def rcode_defs)

text \<open>
  With a consistent pair of bounds the TTL of a synthesised answer is positive, at
  least the minimum, and at most the maximum, except that a service TTL of 0 under a minimum of 0
  yields the built-in 60 seconds even when the maximum is smaller.
\<close>

theorem effective_ttl_correct:
  assumes "dc_max_ttl c = 0 \<or> dc_min_ttl c \<le> dc_max_ttl c"
  shows "0 < effective_ttl c t \<and> dc_min_ttl c \<le> effective_ttl c t \<and>
    (0 < dc_max_ttl c \<longrightarrow> effective_ttl c t \<le> dc_max_ttl c \<or> (dc_min_ttl c = 0 \<and> t = 0 \<and> effective_ttl c t = 60))"
proof -
  have "dc_min_ttl c = 0 \<and> t = 0 \<and> effective_ttl c t = 60"
    if "\<not> (0 < dc_min_ttl c \<or> 0 < t \<or> 60 \<le> dc_max_ttl c)"
    using that by (auto simp: effective_ttl_def Let_def word_gt_0)
  then show ?thesis using effective_ttl_bounds [OF assms, of t] by blast
qed

theorem effective_ttl_correct_witness:
  "dc_min_ttl (zero_dns\<lparr>dc_max_ttl := 30\<rparr>) \<le> effective_ttl (zero_dns\<lparr>dc_max_ttl := 30\<rparr>) 0 \<and>
   effective_ttl (zero_dns\<lparr>dc_max_ttl := 30\<rparr>) 0 = 60"
  using effective_ttl_correct [of "zero_dns\<lparr>dc_max_ttl := 30\<rparr>" 0] by (simp add: zero_dns_def effective_ttl_def)

end
