(* ===== verification/Tunnel_Frame.thy ===== *)
theory Tunnel_Frame
  imports Go_Prelude
begin

text \<open>
  The ingress-to-egress transport profile (\<open>shared/tunnel/tunnel.go\<close>): the CONNECT frame, its status
  byte, and the byte splice that follows. A connection is the bytes its peer will deliver, the bytes
  written to it so far, and whether a write succeeds; deadlines surface as failed reads and writes.
\<close>

definition Version :: byte where "Version = 1"
definition CmdConnect :: byte where "CmdConnect = 1"
definition StatusOK :: byte where "StatusOK = 0"
definition StatusDenied :: byte where "StatusDenied = 1"
definition StatusDNS :: byte where "StatusDNS = 2"
definition StatusDial :: byte where "StatusDial = 3"
definition StatusProto :: byte where "StatusProto = 4"
definition maxHostLen :: nat where "maxHostLen = 253"

lemmas status_defs = StatusOK_def StatusDenied_def StatusDNS_def StatusDial_def StatusProto_def

definition ALPN :: string where "ALPN = ''smartdns/1''"

record conn =
  cn_in :: bytes
  cn_out :: bytes
  cn_writable :: bool

datatype tunnel_error =
    ErrProtocol string        \<comment> \<open>\<open>fmt.Errorf("%w: ...", ErrProtocol)\<close>\<close>
  | WriteFailed
  | ReadFailed
  | Refused string            \<comment> \<open>\<open>egress refused: <status text>\<close>\<close>

definition conn_write :: "conn \<Rightarrow> bytes \<Rightarrow> bool \<times> conn" where
  "conn_write c bs = (if cn_writable c then (True, c\<lparr>cn_out := cn_out c @ bs\<rparr>) else (False, c))"

definition conn_read_full :: "conn \<Rightarrow> nat \<Rightarrow> bytes option \<times> conn" where
  "conn_read_full c n = (case read_full (cn_in c) n of (r, rest) \<Rightarrow> (r, c\<lparr>cn_in := rest\<rparr>))"

definition StatusText :: "byte \<Rightarrow> string" where
  "StatusText s =
     (if s = StatusOK then ''ok''
      else if s = StatusDenied then ''destination not allowed''
      else if s = StatusDNS then ''resolution failed or blocked''
      else if s = StatusDial then ''dial failed''
      else ''protocol error'')"

text \<open>The frame \<open>WriteConnect\<close> builds; \<open>uint16(port)\<close> keeps the low sixteen bits.\<close>

definition connect_frame :: "string \<Rightarrow> int \<Rightarrow> bytes" where
  "connect_frame host port =
     [Version, CmdConnect, of_nat (length host)] @ bytes_of_string host @ be_bytes16 (of_int port)"

definition WriteConnect :: "conn \<Rightarrow> string \<Rightarrow> int \<Rightarrow> tunnel_error option \<times> conn" where
  "WriteConnect c host port =
     (if length host = 0 \<or> length host > maxHostLen then (Some (ErrProtocol ''host length''), c)
      else case conn_write c (connect_frame host port) of
             (False, c1) \<Rightarrow> (Some WriteFailed, c1)
           | (True, c1) \<Rightarrow>
               (case conn_read_full c1 1 of
                  (None, c2) \<Rightarrow> (Some ReadFailed, c2)
                | (Some st, c2) \<Rightarrow>
                    if st ! 0 \<noteq> StatusOK then (Some (Refused (StatusText (st ! 0))), c2)
                    else (None, c2)))"

definition ReadConnect :: "conn \<Rightarrow> (tunnel_error + string \<times> int) \<times> conn" where
  "ReadConnect c =
     (case conn_read_full c 3 of
        (None, c1) \<Rightarrow> (Inl ReadFailed, c1)
      | (Some hdr, c1) \<Rightarrow>
          if hdr ! 0 \<noteq> Version \<or> hdr ! 1 \<noteq> CmdConnect then (Inl (ErrProtocol []), c1)
          else let n = unat (hdr ! 2) in
            if n = 0 \<or> n > maxHostLen then (Inl (ErrProtocol []), c1)
            else (case conn_read_full c1 (n + 2) of
                    (None, c2) \<Rightarrow> (Inl ReadFailed, c2)
                  | (Some b, c2) \<Rightarrow>
                      (Inr (string_of_bytes (take n b), int (unat (be_uint16 (b ! n) (b ! (n + 1))))), c2)))"

definition WriteStatus :: "conn \<Rightarrow> byte \<Rightarrow> bool \<times> conn" where
  "WriteStatus c status = conn_write c [status]"

text \<open>
  One direction of \<open>Splice\<close>. The source is the sequence of results its reads deliver, each the data
  (at most the 32 KiB of the buffer) and whether the read also reported an error or end of file; the
  destination's write gives, for each attempt, the number of bytes taken and whether it failed. The
  result is what was delivered and the counter; \<^term>\<open>None\<close> while the source has delivered neither an
  error nor end of file yet.
\<close>

fun copy_loop :: "(nat \<Rightarrow> bytes \<Rightarrow> nat \<times> bool) \<Rightarrow> nat \<Rightarrow> (bytes \<times> bool) list \<Rightarrow> bytes \<Rightarrow> int
    \<Rightarrow> (bytes \<times> int) option" where
  "copy_loop wr i [] sent n = None"
| "copy_loop wr i ((d, er) # evs) sent n =
     (if 0 < length d then
        (case wr i d of (nw, ew) \<Rightarrow>
           let sent' = sent @ take nw d; n' = n + int nw in
           if ew \<or> er then Some (sent', n') else copy_loop wr (Suc i) evs sent' n')
      else if er then Some (sent, n) else copy_loop wr i evs sent n)"

definition Splice ::
  "(nat \<Rightarrow> bytes \<Rightarrow> nat \<times> bool) \<Rightarrow> (nat \<Rightarrow> bytes \<Rightarrow> nat \<times> bool) \<Rightarrow> (bytes \<times> bool) list \<Rightarrow> (bytes \<times> bool) list
     \<Rightarrow> ((bytes \<times> int) \<times> (bytes \<times> int)) option" where
  "Splice wr_b wr_a from_a from_b =
     (case (copy_loop wr_b 0 from_a [] 0, copy_loop wr_a 0 from_b [] 0) of
        (Some ab, Some ba) \<Rightarrow> Some (ab, ba) | _ \<Rightarrow> None)"

section \<open>Lemmas\<close>

lemma unat_of_int_u16: "unat (of_int p :: u16) = nat (p mod 65536)"
  by (simp add: unsigned_of_int take_bit_eq_mod)

lemma ReadConnect_frame:
  assumes "0 < length host" and "length host \<le> 253"
  shows "ReadConnect (c\<lparr>cn_in := connect_frame host port @ rest\<rparr>) = (Inr (host, port mod 65536), c\<lparr>cn_in := rest\<rparr>)"
proof -
  have n: "unat (of_nat (length host) :: byte) = length host" using assms by (simp add: unat_of_nat)
  have t: "take (length host) (bytes_of_string host @ xs) = bytes_of_string host" for xs by simp
  have i: "(bytes_of_string host @ be_bytes16 w @ xs) ! length host = ucast (drop_bit 8 w)"
      "(bytes_of_string host @ be_bytes16 w @ xs) ! Suc (length host) = ucast w" for w xs
    by (simp_all add: nth_append be_bytes16_def)
  show ?thesis
    using assms
    by (simp add: ReadConnect_def conn_read_full_def read_full_def connect_frame_def Let_def n i
        maxHostLen_def unat_of_int_u16 nth_append be_bytes16_def)
qed

lemma ReadConnect_inv:
  assumes "ReadConnect c = (Inr (host, port), c')"
  shows "0 < length host \<and> length host \<le> 253 \<and> 0 \<le> port \<and> port < 65536 \<and>
    c' = c\<lparr>cn_in := cn_in c'\<rparr> \<and> cn_in c = connect_frame host port @ cn_in c'"
proof -
  from assms have len: "3 \<le> length (cn_in c)"
    by (auto simp: ReadConnect_def conn_read_full_def read_full_def split: if_splits)
  then obtain v cmd l r where r: "cn_in c = v # cmd # l # r"
    by (auto simp: Suc_le_length_iff numeral_eq_Suc)
  from assms have hd: "v = Version" "cmd = CmdConnect" "0 < unat l" "unat l \<le> 253" and rl: "unat l + 2 \<le> length r"
    and host: "host = string_of_bytes (take (unat l) r)"
    and port: "port = int (unat (be_uint16 (r ! unat l) (r ! Suc (unat l))))"
    and c': "c' = c\<lparr>cn_in := drop (unat l + 2) r\<rparr>"
    by (auto simp: ReadConnect_def conn_read_full_def read_full_def r Let_def maxHostLen_def split: if_splits)
  have "2 \<le> length (drop (unat l) r)" using rl by simp
  then obtain x y rest where dd: "drop (unat l) r = x # y # rest"
    by (cases "drop (unat l) r"; cases "tl (drop (unat l) r)") auto
  have d: "r = take (unat l) r @ x # y # rest" using dd by (metis append_take_drop_id)
  have p: "length (take (unat l) r) = unat l" using rl by simp
  have "drop (unat l + 2) r = drop 2 (drop (unat l) r)" by (simp add: add.commute)
  then have xy: "r ! unat l = x" "r ! Suc (unat l) = y" "drop (unat l + 2) r = rest"
    using p by (simp_all add: dd) (subst d, simp add: nth_append)+
  have lh: "length host = unat l" using rl by (simp add: host)
  have "of_int port = be_uint16 x y" by (simp add: port xy)
  then have "connect_frame host port @ rest = cn_in c"
    using d lh by (simp add: connect_frame_def host hd r be_bytes16_uint16)
  moreover have "cn_in c' = rest" using xy(3) by (simp add: c')
  moreover have "port < 65536" using unat_be_uint16_less unfolding port by (metis of_nat_less_iff of_nat_numeral)
  ultimately show ?thesis using hd lh c' xy by (simp add: port)
qed

text \<open>The bytes a source delivers up to and including the read that ends it.\<close>

fun source_bytes :: "(bytes \<times> bool) list \<Rightarrow> bytes" where
  "source_bytes [] = []"
| "source_bytes ((d, er) # evs) = d @ (if er then [] else source_bytes evs)"

text \<open>The contract of \<open>io.Writer\<close>: never more than asked for, and less only with an error.\<close>

definition writer_ok :: "(nat \<Rightarrow> bytes \<Rightarrow> nat \<times> bool) \<Rightarrow> bool" where
  "writer_ok wr \<longleftrightarrow> (\<forall>i d. fst (wr i d) \<le> length d \<and> (\<not> snd (wr i d) \<longrightarrow> fst (wr i d) = length d))"

lemma copy_loop_transparent:
  "writer_ok wr \<Longrightarrow> copy_loop wr i evs sent n = Some (sent', n') \<Longrightarrow>
   \<exists>t u. sent' = sent @ t \<and> n' = n + int (length t) \<and> source_bytes evs = t @ u \<and>
     ((\<forall>i d. \<not> snd (wr i d)) \<longrightarrow> u = [])"
proof (induction wr i evs sent n rule: copy_loop.induct)
  case (2 wr i d er evs sent n)
  obtain nw ew where w: "wr i d = (nw, ew)" by fastforce
  from 2(3) have le: "nw \<le> length d" and full: "\<not> ew \<Longrightarrow> nw = length d"
    unfolding writer_ok_def by (metis w fst_conv snd_conv)+
  consider (empty) "d = []" | (stop) "d \<noteq> []" "ew \<or> er" | (go) "d \<noteq> []" "\<not> ew" "\<not> er" by blast
  then show ?case
  proof cases
    case empty
    with 2(2,3,4) show ?thesis by (cases er) auto
  next
    case stop
    with 2(4) have r: "sent' = sent @ take nw d" "n' = n + int nw" by (auto simp: w Let_def)
    have e: "(\<forall>i d. \<not> snd (wr i d)) \<longrightarrow> \<not> ew" by (metis w snd_conv)
    show ?thesis
      using r le stop full e
      by (intro exI [of _ "take nw d"] exI [of _ "drop nw d @ (if er then [] else source_bytes evs)"]) auto
  next
    case go
    then have nw: "nw = length d" using full by simp
    from go 2(4) have "copy_loop wr (Suc i) evs (sent @ take nw d) (n + int nw) = Some (sent', n')"
      by (simp add: w Let_def)
    from 2(1) [OF _ w [symmetric] refl refl _ 2(3) this] go obtain t u where
      "sent' = (sent @ take nw d) @ t" "n' = n + int nw + int (length t)" "source_bytes evs = t @ u"
      "(\<forall>i d. \<not> snd (wr i d)) \<longrightarrow> u = []" by auto
    then show ?thesis using go nw by (intro exI [of _ "d @ t"] exI [of _ u]) simp
  qed
qed simp

lemma copy_loop_ends: "\<exists>e\<in>set evs. snd e \<Longrightarrow> \<exists>r. copy_loop wr i evs sent n = Some r"
proof (induction evs arbitrary: i sent n)
  case (Cons e evs)
  obtain d er where e: "e = (d, er)" by fastforce
  obtain nw ew where w: "wr i d = (nw, ew)" by fastforce
  from Cons show ?case by (cases er) (auto simp: e w Let_def)
qed simp

section \<open>Properties\<close>

text \<open>
  Property C27. The egress reads from a connection exactly the frames the ingress writes: \<open>ReadConnect\<close>
  returns a host and a port if and only if the connection starts with the CONNECT frame of that host
  and port, the host has 1 to 253 bytes and the port fits sixteen bits, and it leaves exactly the
  bytes after the frame for the splice.
\<close>

theorem ReadConnect_correct:
  "ReadConnect c = (Inr (host, port), c') \<longleftrightarrow>
   0 < length host \<and> length host \<le> 253 \<and> 0 \<le> port \<and> port < 65536 \<and>
   c' = c\<lparr>cn_in := cn_in c'\<rparr> \<and> cn_in c = connect_frame host port @ cn_in c'"
  (is "?L \<longleftrightarrow> ?R")
proof
  assume ?R
  then have "ReadConnect (c\<lparr>cn_in := connect_frame host port @ cn_in c'\<rparr>) = (Inr (host, port), c\<lparr>cn_in := cn_in c'\<rparr>)"
    by (subst ReadConnect_frame) simp_all
  moreover from \<open>?R\<close> have "c\<lparr>cn_in := connect_frame host port @ cn_in c'\<rparr> = c" and "c\<lparr>cn_in := cn_in c'\<rparr> = c'"
    by simp_all
  ultimately show ?L by (simp only:)
qed (rule ReadConnect_inv)

text \<open>
  A CONNECT handshake end to end: on a writable connection with a host of legal length,
  the frame the ingress sends is read by the egress as that host and the port modulo \<open>2^16\<close>, and the
  ingress accepts the session exactly when the egress answers status 0, reporting otherwise the text
  of the status byte; a host of illegal length is refused before anything is written.
\<close>

theorem connect_handshake:
  assumes "cn_writable c" and "cn_in c = st # rest"
  shows "(if 0 < length host \<and> length host \<le> 253
     then WriteConnect c host port =
            (if st = StatusOK then None else Some (Refused (StatusText st)),
             c\<lparr>cn_in := rest, cn_out := cn_out c @ connect_frame host port\<rparr>) \<and>
          ReadConnect \<lparr>cn_in = connect_frame host port, cn_out = [], cn_writable = True\<rparr> =
            (Inr (host, port mod 65536), \<lparr>cn_in = [], cn_out = [], cn_writable = True\<rparr>)
     else WriteConnect c host port = (Some (ErrProtocol ''host length''), c))"
proof -
  have "ReadConnect \<lparr>cn_in = connect_frame host port, cn_out = [], cn_writable = True\<rparr> =
      (Inr (host, port mod 65536), \<lparr>cn_in = [], cn_out = [], cn_writable = True\<rparr>)"
    if "0 < length host" "length host \<le> 253"
    using ReadConnect_frame [OF that, where c = "\<lparr>cn_in = [], cn_out = [], cn_writable = True\<rparr>" and port = port and rest = "[]"]
    by simp
  then show ?thesis
    using assms by (auto simp: WriteConnect_def conn_write_def conn_read_full_def read_full_def maxHostLen_def)
qed

theorem connect_handshake_witness:
  "WriteConnect \<lparr>cn_in = [1], cn_out = [], cn_writable = True\<rparr> ''a.com'' 443 =
     (Some (Refused ''destination not allowed''),
      \<lparr>cn_in = [], cn_out = connect_frame ''a.com'' 443, cn_writable = True\<rparr>)"
  using connect_handshake [of "\<lparr>cn_in = [1], cn_out = [], cn_writable = True\<rparr>" 1 "[]" "''a.com''" 443]
  by (simp add: StatusText_def status_defs)



end
