(* ===== verification/Egress_Selector.thy ===== *)
theory Egress_Selector
  imports Artifact_Model Tunnel_Frame
begin

text \<open>
  Choice of an egress on the ingress node (\<open>node/proxy/selector.go\<close>): the health of each target, the
  order in which a policy tries them, and the dial that walks this order. The targets of a pool are
  shared by pointer in Go; here a pointer is the index of the target in its pool, so that an update
  through one list is seen through all. Latencies are exact rationals where Go has \<open>float64\<close>, and
  the results of \<open>rand.Intn\<close> and of the network are arguments.
\<close>

section \<open>Targets and pools\<close>

record target =
  tg_info :: egress_target
  tg_healthy :: bool
  tg_fails :: int
  tg_successes :: int
  tg_latency_ms :: rat
  tg_last_check :: int

record pool =
  pl_policy :: egress_policy
  pl_targets :: "target list"
  pl_sticky :: string

definition snapshot :: "target \<Rightarrow> bool \<times> rat" where
  "snapshot t = (tg_healthy t, tg_latency_ms t)"

text \<open>One observation of a target; \<open>d\<close> is the duration in nanoseconds.\<close>

definition observe :: "int \<Rightarrow> bool \<Rightarrow> int \<Rightarrow> int \<Rightarrow> int \<Rightarrow> target \<Rightarrow> target" where
  "observe now ok d fail rise t0 =
     (let t = t0\<lparr>tg_last_check := now\<rparr> in
      if ok then
        let ms = of_int (d div 1000) / 1000;
            t1 = t\<lparr>tg_fails := 0, tg_successes := tg_successes t + 1,
                   tg_latency_ms := (if tg_latency_ms t = 0 then ms
                                     else 7 / 10 * tg_latency_ms t + 3 / 10 * ms)\<rparr>
        in if \<not> tg_healthy t1 \<and> tg_successes t1 \<ge> rise then t1\<lparr>tg_healthy := True\<rparr> else t1
      else
        let t1 = t\<lparr>tg_successes := 0, tg_fails := tg_fails t + 1\<rparr>
        in if tg_healthy t1 \<and> tg_fails t1 \<ge> fail then t1\<lparr>tg_healthy := False\<rparr> else t1)"

definition fresh_target :: "egress_target \<Rightarrow> target" where
  "fresh_target e = \<lparr>tg_info = e, tg_healthy = True, tg_fails = 0, tg_successes = 0, tg_latency_ms = 0,
     tg_last_check = 0\<rparr>"

text \<open>The inner loop of \<open>newPool\<close>: the verdict of a previous target with the same node id is kept.\<close>

fun inherit :: "target \<Rightarrow> target list \<Rightarrow> target" where
  "inherit nt [] = nt"
| "inherit nt (old # olds) =
     (if et_node_id (tg_info old) = et_node_id (tg_info nt)
      then inherit (case snapshot old of (h, l) \<Rightarrow> nt\<lparr>tg_healthy := h, tg_latency_ms := l\<rparr>) olds
      else inherit nt olds)"

definition newPool :: "egress_policy \<Rightarrow> pool option \<Rightarrow> pool" where
  "newPool p prev =
     \<lparr>pl_policy = p,
      pl_targets = sort_key (\<lambda>t. et_priority (tg_info t))
        (map (\<lambda>t. case prev of None \<Rightarrow> fresh_target t | Some po \<Rightarrow> inherit (fresh_target t) (pl_targets po))
             (ep_targets p)),
      pl_sticky = []\<rparr>"

definition thresholds :: "pool \<Rightarrow> int \<times> int" where
  "thresholds p =
     (let fail = ep_fail_threshold (pl_policy p); rise = ep_rise_threshold (pl_policy p)
      in (if fail \<le> 0 then 3 else fail, if rise \<le> 0 then 2 else rise))"

section \<open>Orders\<close>

definition latency_at :: "pool \<Rightarrow> nat \<Rightarrow> rat" where
  "latency_at p i = snd (snapshot (pl_targets p ! i))"

definition node_at :: "pool \<Rightarrow> nat \<Rightarrow> string" where
  "node_at p i = et_node_id (tg_info (pl_targets p ! i))"

text \<open>
  The comparison of \<open>byLatency\<close>: unmeasured targets (latency 0) come last. \<open>sort.SliceStable\<close> with it
  is the stable sort by \<open>latency_key\<close>, since the two comparisons agree (\<open>latency_less_key\<close>).
\<close>

definition latency_less :: "rat \<Rightarrow> rat \<Rightarrow> bool" where
  "latency_less li lj = (if li = 0 then False else if lj = 0 then True else li < lj)"

definition latency_key :: "rat \<Rightarrow> bool \<times> rat" where
  "latency_key l = (l = 0, l)"

lemma latency_less_key: "latency_less li lj \<longleftrightarrow> latency_key li < latency_key lj"
  by (auto simp: latency_less_def latency_key_def)

definition find_sticky :: "pool \<Rightarrow> nat list \<Rightarrow> nat option" where
  "find_sticky p ts = find (\<lambda>i. node_at p i = pl_sticky p) (rev ts)"

definition byLatency :: "pool \<Rightarrow> nat list \<Rightarrow> nat list \<times> pool" where
  "byLatency p ts =
     (if length ts < 2 then (ts, p)
      else
        let sorted' = sort_key (\<lambda>i. latency_key (latency_at p i)) ts;
            pct = (if ep_hysteresis_pct (pl_policy p) \<le> 0 then 20 else ep_hysteresis_pct (pl_policy p));
            ms = (if ep_hysteresis_ms (pl_policy p) \<le> 0 then 20 else ep_hysteresis_ms (pl_policy p))
        in if pl_sticky p = [] then (sorted', p\<lparr>pl_sticky := node_at p (sorted' ! 0)\<rparr>)
           else case find_sticky p ts of
             None \<Rightarrow> (sorted', p\<lparr>pl_sticky := node_at p (sorted' ! 0)\<rparr>)
           | Some cur \<Rightarrow>
               let curL = latency_at p cur; bestL = latency_at p (sorted' ! 0) in
               if curL > 0 \<and> bestL > 0 \<and> bestL < curL * (1 - of_int pct / 100) \<and> curL - bestL > of_int ms
               then (sorted', p\<lparr>pl_sticky := node_at p (sorted' ! 0)\<rparr>)
               else (cur # filter (\<lambda>i. node_at p i \<noteq> node_at p cur) sorted', p))"

definition weight_at :: "pool \<Rightarrow> nat \<Rightarrow> int" where
  "weight_at p i = (let w = et_weight (tg_info (pl_targets p ! i)) in if w \<le> 0 then 1 else w)"

text \<open>The inner loop: the first position where the draw falls below the weight, 0 if there is none.\<close>

fun draw_index :: "pool \<Rightarrow> int \<Rightarrow> nat \<Rightarrow> nat list \<Rightarrow> nat" where
  "draw_index p n i [] = 0"
| "draw_index p n i (t # ts) = (if n < weight_at p t then i else draw_index p (n - weight_at p t) (Suc i) ts)"

lemma draw_index_less: "rest \<noteq> [] \<Longrightarrow> draw_index p n i rest < i + length rest"
proof (induction p n i rest rule: draw_index.induct)
  case (2 p n i t ts)
  then show ?case by (cases ts) auto
qed simp

text \<open>\<open>rnd k total\<close> is the \<open>k\<close>-th result of \<open>rand.Intn(total)\<close>.\<close>

function weightedShuffle :: "(nat \<Rightarrow> int \<Rightarrow> int) \<Rightarrow> pool \<Rightarrow> nat \<Rightarrow> nat list \<Rightarrow> nat list" where
  "weightedShuffle rnd p k rest =
     (if rest = [] then []
      else let total = sum_list (map (weight_at p) rest);
               idx = draw_index p (rnd k total) 0 rest
           in rest ! idx # weightedShuffle rnd p (Suc k) (take idx rest @ drop (idx + 1) rest))"
  by pat_completeness auto
termination
proof (relation "measure (\<lambda>(rnd, p, k, rest). length rest)")
  fix rnd :: "nat \<Rightarrow> int \<Rightarrow> int" and p :: pool and k :: nat and rest :: "nat list" and total :: int and idx :: nat
  assume "rest \<noteq> []" and "idx = draw_index p (rnd k total) 0 rest"
  then have "idx < length rest" using draw_index_less [of rest p "rnd k total" 0] by simp
  then show "((rnd, p, Suc k, take idx rest @ drop (idx + 1) rest), rnd, p, k, rest)
      \<in> measure (\<lambda>(rnd, p, k, rest). length rest)" by simp
qed simp

declare weightedShuffle.simps [simp del]

definition order :: "(nat \<Rightarrow> int \<Rightarrow> int) \<Rightarrow> pool \<Rightarrow> nat list \<times> pool" where
  "order rnd p =
     (let all = [0..<length (pl_targets p)];
          healthy = filter (\<lambda>i. fst (snapshot (pl_targets p ! i))) all;
          unhealthy = filter (\<lambda>i. \<not> fst (snapshot (pl_targets p ! i))) all
      in if ep_mode (pl_policy p) = ''weighted'' then (weightedShuffle rnd p 0 healthy @ unhealthy, p)
         else if ep_mode (pl_policy p) = ''lowest_latency'' then
           (case byLatency p healthy of (hs, p') \<Rightarrow> (hs @ unhealthy, p'))
         else if ep_mode (pl_policy p) = ''manual_fixed'' then
           ((if length healthy > 1 then take 1 healthy else healthy) @ unhealthy, p)
         else (healthy @ unhealthy, p))"

section \<open>Probing and dialling\<close>

definition contains :: "string \<Rightarrow> string \<Rightarrow> bool" where
  "contains s sub \<longleftrightarrow> length s \<ge> length sub \<and>
     list_ex (\<lambda>i. take (length sub) (drop i s) = sub) [0..<length s - length sub + 1]"

definition isPolicyRefusal :: "string \<Rightarrow> bool" where
  "isPolicyRefusal e \<longleftrightarrow> contains e ''destination not allowed'' \<or> contains e ''resolution failed''"

text \<open>The text of the errors a CONNECT attempt can return; \<open>io\<close> is the text of a transport error.\<close>

fun error_text :: "string \<Rightarrow> tunnel_error \<Rightarrow> string" where
  "error_text io (ErrProtocol d) = (if d = [] then ''tunnel protocol error'' else ''tunnel protocol error: '' @ d)"
| "error_text io WriteFailed = io"
| "error_text io ReadFailed = io"
| "error_text io (Refused t) = ''egress refused: '' @ t"

definition observe_at :: "int \<Rightarrow> bool \<Rightarrow> int \<Rightarrow> nat \<Rightarrow> pool \<Rightarrow> pool" where
  "observe_at now ok d i p =
     (case thresholds p of (fail, rise) \<Rightarrow>
        p\<lparr>pl_targets := (pl_targets p)[i := observe now ok d fail rise (pl_targets p ! i)]\<rparr>)"

text \<open>
  What the network does with the attempt on each target: the error text (\<^term>\<open>None\<close>: the tunnel is
  up), the time it took and the instant after it.
\<close>

record attempt =
  at_error :: "string option"
  at_elapsed :: int
  at_now :: int

text \<open>The connection is the index of the target it goes to.\<close>

datatype dial_result =
    Connected nat
  | PolicyRefused nat string
  | NoEgress "string option"          \<comment> \<open>the last error, if any target was tried\<close>

fun dial_loop :: "(nat \<Rightarrow> attempt) \<Rightarrow> nat list \<Rightarrow> string option \<Rightarrow> pool \<Rightarrow> dial_result \<times> pool" where
  "dial_loop net [] lastErr p = (NoEgress lastErr, p)"
| "dial_loop net (i # is) lastErr p =
     (case at_error (net i) of
        None \<Rightarrow> (Connected i, observe_at (at_now (net i)) True (at_elapsed (net i)) i p)
      | Some e \<Rightarrow>
          if isPolicyRefusal e then (PolicyRefused i e, p)
          else dial_loop net is (Some e) (observe_at (at_now (net i)) False (at_elapsed (net i)) i p))"

definition dial :: "(nat \<Rightarrow> int \<Rightarrow> int) \<Rightarrow> (nat \<Rightarrow> attempt) \<Rightarrow> pool \<Rightarrow> dial_result \<times> pool" where
  "dial rnd net p = (case order rnd p of (os, p') \<Rightarrow> dial_loop net os None p')"

fun probe_loop :: "(nat \<Rightarrow> attempt) \<Rightarrow> nat list \<Rightarrow> pool \<Rightarrow> pool" where
  "probe_loop net [] p = p"
| "probe_loop net (i # is) p =
     probe_loop net is (observe_at (at_now (net i)) (at_error (net i) = None) (at_elapsed (net i)) i p)"

definition probe :: "(nat \<Rightarrow> attempt) \<Rightarrow> pool \<Rightarrow> pool" where
  "probe net p = probe_loop net [0..<length (pl_targets p)] p"

section \<open>Lemmas on orders\<close>

lemma weightedShuffle_mset: "mset (weightedShuffle rnd p k rest) = mset rest"
proof (induction rnd p k rest rule: weightedShuffle.induct)
  case (1 rnd p k rest)
  show ?case
  proof (cases "rest = []")
    case False
    define idx where "idx = draw_index p (rnd k (sum_list (map (weight_at p) rest))) 0 rest"
    have lt: "idx < length rest" unfolding idx_def using draw_index_less [OF False, where i = 0] by simp
    have rec: "mset (weightedShuffle rnd p (Suc k) (take idx rest @ drop (idx + 1) rest)) =
        mset (take idx rest @ drop (idx + 1) rest)"
      using "1.IH" [OF False refl idx_def] .
    have "mset rest = mset (take idx rest @ rest ! idx # drop (idx + 1) rest)"
      using id_take_nth_drop [OF lt] by simp
    then show ?thesis
      using False rec by (simp add: weightedShuffle.simps [of rnd p k rest] Let_def idx_def [symmetric])
  qed (simp add: weightedShuffle.simps)
qed

lemma find_sticky_Some: "find_sticky p ts = Some i \<Longrightarrow> i \<in> set ts \<and> node_at p i = pl_sticky p"
  unfolding find_sticky_def by (drule find_SomeD) simp

lemma byLatency_cases:
  fixes p ts
  defines "so \<equiv> sort_key (\<lambda>i. latency_key (latency_at p i)) ts"
  shows "fst (byLatency p ts) = ts \<or> fst (byLatency p ts) = so \<or>
    (\<exists>cur. find_sticky p ts = Some cur \<and> fst (byLatency p ts) = cur # filter (\<lambda>i. node_at p i \<noteq> node_at p cur) so)"
  by (cases "find_sticky p ts") (simp_all add: byLatency_def Let_def so_def)

lemma byLatency_mset:
  assumes "inj_on (node_at p) (set ts)" and "distinct ts"
  shows "mset (fst (byLatency p ts)) = mset ts"
proof -
  define so where "so = sort_key (\<lambda>i. latency_key (latency_at p i)) ts"
  have s: "mset so = mset ts" "set so = set ts" by (simp_all add: so_def)
  have "mset (cur # filter (\<lambda>i. node_at p i \<noteq> node_at p cur) so) = mset ts" if "cur \<in> set ts" for cur
  proof -
    have d: "distinct so" using assms(2) s(1) by (metis mset_eq_imp_distinct_iff)
    have "filter (\<lambda>i. node_at p i \<noteq> node_at p cur) so = filter (\<lambda>i. i \<noteq> cur) so"
      using assms(1) that s(2) by (intro filter_cong refl) (auto dest: inj_onD)
    moreover have "mset (cur # filter (\<lambda>i. i \<noteq> cur) so) = mset so"
      using d that s(2) by (intro set_eq_iff_mset_eq_distinct [THEN iffD1]) auto
    ultimately show ?thesis using s by simp
  qed
  then show ?thesis
    using s(1) find_sticky_Some [of p ts] byLatency_cases [of p ts, folded so_def] by metis
qed

lemma byLatency_pool: "pl_targets (snd (byLatency p ts)) = pl_targets p" "pl_policy (snd (byLatency p ts)) = pl_policy p"
  by (auto simp: byLatency_def Let_def split: option.splits)

lemma order_pool: "pl_targets (snd (order rnd p)) = pl_targets p" "pl_policy (snd (order rnd p)) = pl_policy p"
  using byLatency_pool by (auto simp: order_def Let_def split: prod.splits) (metis snd_conv)+

definition healthy_ids :: "pool \<Rightarrow> nat list" where
  "healthy_ids p = filter (\<lambda>i. tg_healthy (pl_targets p ! i)) [0..<length (pl_targets p)]"

definition unhealthy_ids :: "pool \<Rightarrow> nat list" where
  "unhealthy_ids p = filter (\<lambda>i. \<not> tg_healthy (pl_targets p ! i)) [0..<length (pl_targets p)]"

lemma order_split:
  "\<exists>hs. fst (order rnd p) = hs @ unhealthy_ids p \<and>
     (ep_mode (pl_policy p) = ''manual_fixed'' \<longrightarrow> hs = take 1 (healthy_ids p)) \<and>
     (ep_mode (pl_policy p) \<noteq> ''manual_fixed'' \<longrightarrow> inj_on (node_at p) (set (healthy_ids p)) \<longrightarrow>
        mset hs = mset (healthy_ids p)) \<and>
     (ep_mode (pl_policy p) \<notin> {''weighted'', ''lowest_latency'', ''manual_fixed''} \<longrightarrow> hs = healthy_ids p)"
proof -
  have d: "distinct (healthy_ids p)" by (simp add: healthy_ids_def)
  obtain hs p' where b: "byLatency p (healthy_ids p) = (hs, p')" by fastforce
  have m: "inj_on (node_at p) (set (healthy_ids p)) \<Longrightarrow> mset hs = mset (healthy_ids p)"
    using byLatency_mset [OF _ d, of p] b by simp
  have o: "order rnd p =
     (if ep_mode (pl_policy p) = ''weighted'' then (weightedShuffle rnd p 0 (healthy_ids p) @ unhealthy_ids p, p)
      else if ep_mode (pl_policy p) = ''lowest_latency'' then (hs @ unhealthy_ids p, p')
      else if ep_mode (pl_policy p) = ''manual_fixed'' then (take 1 (healthy_ids p) @ unhealthy_ids p, p)
      else (healthy_ids p @ unhealthy_ids p, p))"
    using b by (simp add: order_def Let_def snapshot_def healthy_ids_def [symmetric] unhealthy_ids_def [symmetric])
  show ?thesis unfolding o using m by (auto simp: weightedShuffle_mset)
qed

section \<open>Lemmas on health\<close>

lemma observe_fields:
  "tg_info (observe now ok d fail rise t) = tg_info t"
  "tg_fails (observe now ok d fail rise t) = (if ok then 0 else tg_fails t + 1)"
  "tg_successes (observe now ok d fail rise t) = (if ok then tg_successes t + 1 else 0)"
  "tg_healthy (observe now ok d fail rise t) =
     (if ok then tg_healthy t \<or> tg_successes t + 1 \<ge> rise else tg_healthy t \<and> tg_fails t + 1 < fail)"
  by (auto simp: observe_def Let_def)

text \<open>A history of observations, the latest first, and the length of its leading run.\<close>

fun observes :: "int \<Rightarrow> int \<Rightarrow> (int \<times> bool \<times> int) list \<Rightarrow> target \<Rightarrow> target" where
  "observes fail rise [] t = t"
| "observes fail rise ((now, ok, d) # os) t = observe now ok d fail rise (observes fail rise os t)"

definition streak :: "bool \<Rightarrow> (int \<times> bool \<times> int) list \<Rightarrow> nat" where
  "streak v os = length (takeWhile (\<lambda>(now, ok, d). ok = v) os)"

lemma streak_simps [simp]:
  "streak v [] = 0" "streak v ((now, ok, d) # os) = (if ok = v then Suc (streak v os) else 0)"
  by (simp_all add: streak_def)

lemma observes_counters:
  assumes "tg_fails t = 0" and "tg_successes t = 0"
  shows "tg_fails (observes fail rise os t) = int (streak False os)"
    and "tg_successes (observes fail rise os t) = int (streak True os)"
  using assms by (induction fail rise os t rule: observes.induct) (auto simp: observe_fields)

lemma contains_iff: "contains s sub \<longleftrightarrow> (\<exists>a b. s = a @ sub @ b)"
proof
  assume "contains s sub"
  then obtain i where i: "take (length sub) (drop i s) = sub" unfolding contains_def list_ex_iff by blast
  have "s = take i s @ take (length sub) (drop i s) @ drop (length sub) (drop i s)"
    by (simp only: append_take_drop_id)
  with i show "\<exists>a b. s = a @ sub @ b" by metis
next
  assume "\<exists>a b. s = a @ sub @ b"
  then obtain a b where "s = a @ sub @ b" by blast
  then show "contains s sub" by (auto simp: contains_def list_ex_iff intro!: bexI [of _ "length a"])
qed

lemma observe_at_fields:
  "pl_policy (observe_at now ok d i p) = pl_policy p" "length (pl_targets (observe_at now ok d i p)) = length (pl_targets p)"
  "j \<noteq> i \<Longrightarrow> pl_targets (observe_at now ok d i p) ! j = pl_targets p ! j"
  by (auto simp: observe_at_def split: prod.splits)

lemma dial_loop_spec:
  "dial_loop net os lastErr p = (r, p') \<Longrightarrow>
   (case r of
      Connected i \<Rightarrow> \<exists>xs ys. os = xs @ i # ys \<and> at_error (net i) = None \<and>
        (\<forall>j\<in>set xs. \<exists>e. at_error (net j) = Some e \<and> \<not> isPolicyRefusal e)
    | PolicyRefused i e \<Rightarrow> \<exists>xs ys. os = xs @ i # ys \<and> at_error (net i) = Some e \<and> isPolicyRefusal e \<and>
        (\<forall>j\<in>set xs. \<exists>e. at_error (net j) = Some e \<and> \<not> isPolicyRefusal e)
    | NoEgress _ \<Rightarrow> \<forall>j\<in>set os. \<exists>e. at_error (net j) = Some e \<and> \<not> isPolicyRefusal e)"
proof (induction net os lastErr p rule: dial_loop.induct)
  case (2 net i os lastErr p)
  show ?case
  proof (cases "at_error (net i)")
    case None
    with 2(2) have "r = Connected i" by simp
    with None show ?thesis by simp (metis append_Nil empty_iff list.set(1))
  next
    case (Some e)
    show ?thesis
    proof (cases "isPolicyRefusal e")
      case True
      with 2(2) Some have "r = PolicyRefused i e" by simp
      with Some True show ?thesis by simp (metis append_Nil empty_iff list.set(1))
    next
      case False
      with 2(2) Some have "dial_loop net os (Some e) (observe_at (at_now (net i)) False (at_elapsed (net i)) i p) = (r, p')"
        by simp
      note IH = 2(1) [OF Some False this]
      have ext: "\<exists>xs ys. i # os = xs @ k # ys \<and> (\<forall>j\<in>set xs. \<exists>e. at_error (net j) = Some e \<and> \<not> isPolicyRefusal e)"
        if "\<exists>xs ys. os = xs @ k # ys \<and> (\<forall>j\<in>set xs. \<exists>e. at_error (net j) = Some e \<and> \<not> isPolicyRefusal e)" for k
        using that Some False by (metis append_Cons set_ConsD)
      show ?thesis
      proof (cases r)
        case (Connected k)
        with IH ext [of k] show ?thesis by simp metis
      next
        case (PolicyRefused k x)
        with IH ext [of k] show ?thesis by simp metis
      qed (use IH Some False in auto)
    qed
  qed
qed (auto split: dial_result.splits)

text \<open>Health after a dial: only the targets tried and not refused by policy are observed.\<close>

lemma dial_loop_untouched:
  "dial_loop net os lastErr p = (r, p') \<Longrightarrow> i \<notin> set os \<or> (\<exists>e. r = PolicyRefused i e) \<and> distinct os \<Longrightarrow>
   pl_targets p' ! i = pl_targets p ! i"
proof (induction net os lastErr p rule: dial_loop.induct)
  case (2 net k os lastErr p)
  show ?case
  proof (cases "at_error (net k)")
    case None
    with 2(2,3) show ?thesis by (auto simp: observe_at_fields)
  next
    case (Some e)
    show ?thesis
    proof (cases "isPolicyRefusal e")
      case True
      with 2(2) Some show ?thesis by auto
    next
      case False
      let ?p = "observe_at (at_now (net k)) False (at_elapsed (net k)) k p"
      from False 2(2) Some have d: "dial_loop net os (Some e) ?p = (r, p')" by simp
      have "i \<noteq> k"
        using 2(3) dial_loop_spec [OF d] by auto
      then show ?thesis using 2(1) [OF Some False d] 2(3) by (auto simp: observe_at_fields)
    qed
  qed
qed simp

text \<open>The targets of a pool are those of its policy, whatever is observed of them.\<close>

definition infos :: "pool \<Rightarrow> egress_target list" where
  "infos p = map tg_info (pl_targets p)"

lemma inherit_info [simp]: "tg_info (inherit nt olds) = tg_info nt"
  by (induction nt olds rule: inherit.induct) (auto split: prod.splits)

lemma set_infos_newPool: "set (infos (newPool pol prev)) = set (ep_targets pol)"
  by (cases prev) (auto simp: infos_def newPool_def fresh_target_def image_image)

lemma infos_observe_at [simp]: "infos (observe_at now ok d i p) = infos p"
  by (auto simp: infos_def observe_at_def observe_fields map_list_update_same split: prod.splits)

lemma infos_dial_loop: "infos (snd (dial_loop net os le p)) = infos p"
  by (induction net os le p rule: dial_loop.induct) (auto split: option.splits)

lemma infos_dial: "infos (snd (dial rnd net p)) = infos p"
  using infos_dial_loop [of net "fst (order rnd p)" None "snd (order rnd p)"] order_pool [of rnd p]
  by (auto simp: dial_def infos_def split: prod.splits)

lemma order_bounded: "i \<in> set (fst (order rnd p)) \<Longrightarrow> i < length (pl_targets p)"
proof -
  have hb: "set (healthy_ids p) \<subseteq> {..<length (pl_targets p)}" "set (unhealthy_ids p) \<subseteq> {..<length (pl_targets p)}"
    by (auto simp: healthy_ids_def unhealthy_ids_def)
  have w: "set (weightedShuffle rnd p 0 (healthy_ids p)) = set (healthy_ids p)"
    by (metis weightedShuffle_mset set_mset_mset)
  have b: "set (fst (byLatency p (healthy_ids p))) \<subseteq> set (healthy_ids p)"
    using byLatency_cases [of p "healthy_ids p"] find_sticky_Some [of p "healthy_ids p"] by auto
  have t: "set (take 1 (healthy_ids p)) \<subseteq> set (healthy_ids p)" by (rule set_take_subset)
  show "i \<in> set (fst (order rnd p)) \<Longrightarrow> i < length (pl_targets p)"
    using hb w b t
    by (auto simp: order_def Let_def snapshot_def healthy_ids_def [symmetric] unhealthy_ids_def [symmetric] split: prod.splits if_splits)
qed

lemma dial_Connected: "fst (dial rnd net p) = Connected t \<Longrightarrow> t < length (pl_targets p)"
proof -
  assume c: "fst (dial rnd net p) = Connected t"
  obtain os p0 where o: "order rnd p = (os, p0)" by fastforce
  obtain p' where "dial_loop net os None p0 = (Connected t, p')"
    using c by (cases "dial_loop net os None p0") (simp add: dial_def o)
  from dial_loop_spec [OF this] have "t \<in> set os" by auto
  with order_bounded [of t rnd p] o show "t < length (pl_targets p)" by simp
qed

section \<open>Properties\<close>

text \<open>
  Whatever the policy, a dial tries the healthy targets first and keeps every unhealthy
  one as a last resort; when node ids are distinct, every policy but \<open>manual_fixed\<close> tries each
  target of the pool exactly once (\<open>manual_fixed\<close> tries only the first healthy one before the
  unhealthy ones), and the targets themselves are not changed by ordering them.
\<close>

theorem order_complete:
  assumes "inj_on (node_at p) {..<length (pl_targets p)}"
  shows "\<exists>hs. fst (order rnd p) = hs @ unhealthy_ids p \<and>
     mset hs = (if ep_mode (pl_policy p) = ''manual_fixed'' then mset (take 1 (healthy_ids p)) else mset (healthy_ids p)) \<and>
     mset (healthy_ids p) + mset (unhealthy_ids p) = mset [0..<length (pl_targets p)] \<and>
     pl_targets (snd (order rnd p)) = pl_targets p"
proof -
  have "inj_on (node_at p) (set (healthy_ids p))"
    using assms by (rule inj_on_subset) (auto simp: healthy_ids_def)
  moreover have "mset (healthy_ids p) + mset (unhealthy_ids p) = mset [0..<length (pl_targets p)]"
    by (simp only: healthy_ids_def unhealthy_ids_def mset_filter multiset_partition [symmetric])
  ultimately show ?thesis using order_split [of rnd p] order_pool [of rnd p] by force
qed

definition demo_target :: "string \<Rightarrow> bool \<Rightarrow> rat \<Rightarrow> target" where
  "demo_target n h l = (fresh_target \<lparr>et_node_id = n, et_name = n, et_endpoint = n, et_sni = n, et_priority = 0, et_weight = 1\<rparr>)
     \<lparr>tg_healthy := h, tg_latency_ms := l\<rparr>"

definition demo_pool :: "string \<Rightarrow> pool" where
  "demo_pool mode = \<lparr>pl_policy = zero_policy\<lparr>ep_mode := mode\<rparr>,
     pl_targets = [demo_target ''n1'' False 0, demo_target ''n2'' True 50, demo_target ''n3'' True 40],
     pl_sticky = ''n2''\<rparr>"

lemma demo_pool_inj: "inj_on (node_at (demo_pool mode)) {..<length (pl_targets (demo_pool mode))}"
proof -
  have "{..<length (pl_targets (demo_pool mode))} = {0, 1, 2}" by (auto simp: demo_pool_def)
  moreover have "node_at (demo_pool mode) 0 = ''n1''" "node_at (demo_pool mode) 1 = ''n2''" "node_at (demo_pool mode) 2 = ''n3''"
    by (simp_all add: node_at_def demo_pool_def demo_target_def fresh_target_def)
  ultimately show ?thesis by (simp add: inj_on_def)
qed

theorem order_complete_witness:
  "\<exists>hs. fst (order (\<lambda>_ _. 0) (demo_pool ''weighted'')) = hs @ [0] \<and> mset hs = {#1, 2#}"
proof -
  have "unhealthy_ids (demo_pool ''weighted'') = [0]" "healthy_ids (demo_pool ''weighted'') = [1, 2]"
    by (simp_all add: unhealthy_ids_def healthy_ids_def demo_pool_def demo_target_def upt_rec)
  then show ?thesis
    using order_complete [OF demo_pool_inj, of "\<lambda>_ _. 0" "''weighted''"] by (auto simp: demo_pool_def)
qed

text \<open>
  Health is decided by runs: after any history of observations of a fresh or inherited
  target, \<open>rise\<close> consecutive successes make it healthy, \<open>fail\<close> consecutive failures make it
  unhealthy, and a change of verdict happens only on such a run, so a single error never flips it.
\<close>

theorem health_by_streaks:
  assumes "tg_fails t = 0" and "tg_successes t = 0" and "0 < fail" and "0 < rise"
  shows "(rise \<le> int (streak True os) \<longrightarrow> tg_healthy (observes fail rise os t)) \<and>
    (fail \<le> int (streak False os) \<longrightarrow> \<not> tg_healthy (observes fail rise os t)) \<and>
    (\<forall>now ok d. tg_healthy (observes fail rise ((now, ok, d) # os) t) \<noteq> tg_healthy (observes fail rise os t) \<longrightarrow>
       (if ok then rise \<le> int (streak True ((now, ok, d) # os)) else fail \<le> int (streak False ((now, ok, d) # os))))"
proof (intro conjI allI impI)
  note cnt = observes_counters [OF assms(1,2), of fail rise]
  show "tg_healthy (observes fail rise os t)" if "rise \<le> int (streak True os)"
    using that assms(4) by (cases os) (auto simp: observe_fields cnt split: if_splits)
  show "\<not> tg_healthy (observes fail rise os t)" if "fail \<le> int (streak False os)"
    using that assms(3) by (cases os) (auto simp: observe_fields cnt split: if_splits)
  fix now ok d
  assume "tg_healthy (observes fail rise ((now, ok, d) # os) t) \<noteq> tg_healthy (observes fail rise os t)"
  then show "if ok then rise \<le> int (streak True ((now, ok, d) # os)) else fail \<le> int (streak False ((now, ok, d) # os))"
    by (auto simp: observe_fields cnt split: if_splits)
qed

theorem health_by_streaks_witness:
  "\<not> tg_healthy (observes 3 2 [(3, False, 0), (2, False, 0), (1, False, 0)] (demo_target ''n'' True 0)) \<and>
   tg_healthy (observes 3 2 [(5, True, 0), (4, True, 0), (3, False, 0), (2, False, 0), (1, False, 0)] (demo_target ''n'' True 0))"
  using health_by_streaks [of "demo_target ''n'' True 0" 3 2 "[(3, False, 0), (2, False, 0), (1, False, 0)]"]
    health_by_streaks [of "demo_target ''n'' True 0" 3 2 "[(5, True, 0), (4, True, 0), (3, False, 0), (2, False, 0), (1, False, 0)]"]
  by (simp add: demo_target_def fresh_target_def)


definition demo_net :: "nat \<Rightarrow> attempt" where
  "demo_net i = \<lparr>at_error = (if i = 1 then Some ''connection refused'' else None), at_elapsed = 0, at_now = 0\<rparr>"


text \<open>
  The text test that recognises a policy refusal matches the relay's status codes: of
  the refusals an egress can answer, exactly "destination not allowed" (1) and "resolution failed or
  blocked" (2) are taken as policy, so that failed dials and protocol errors count against its health.
\<close>

theorem policy_refusal_by_status:
  "isPolicyRefusal (error_text io (Refused (StatusText st))) \<longleftrightarrow> st = StatusDenied \<or> st = StatusDNS"
proof -
  have "isPolicyRefusal (''egress refused: '' @ ''destination not allowed'')"
    "isPolicyRefusal (''egress refused: '' @ ''resolution failed or blocked'')"
    "\<not> isPolicyRefusal (''egress refused: '' @ ''ok'')" "\<not> isPolicyRefusal (''egress refused: '' @ ''dial failed'')"
    "\<not> isPolicyRefusal (''egress refused: '' @ ''protocol error'')"
    by (code_simp, code_simp, code_simp, code_simp, code_simp)
  then show ?thesis by (simp add: StatusText_def status_defs)
qed

text \<open>
  Hysteresis: in \<open>lowest_latency\<close> mode the preferred target, while it is healthy, stays
  first and stays preferred unless both latencies are measured and the fastest one undercuts it by
  more than the percentage and by more than the milliseconds of the policy (20 and 20 by default).
\<close>

theorem latency_hysteresis:
  fixes p ts
  defines "pct \<equiv> (if ep_hysteresis_pct (pl_policy p) \<le> 0 then 20 else ep_hysteresis_pct (pl_policy p))"
  defines "ms \<equiv> (if ep_hysteresis_ms (pl_policy p) \<le> 0 then 20 else ep_hysteresis_ms (pl_policy p))"
  assumes "2 \<le> length ts" and "pl_sticky p \<noteq> []" and "find_sticky p ts = Some cur"
    and "\<And>i. i \<in> set ts \<Longrightarrow> 0 < latency_at p i \<Longrightarrow> 0 < latency_at p cur \<Longrightarrow>
      latency_at p cur * (1 - of_int pct / 100) \<le> latency_at p i \<or> latency_at p cur - latency_at p i \<le> of_int ms"
  shows "fst (byLatency p ts) ! 0 = cur \<and> pl_sticky (snd (byLatency p ts)) = pl_sticky p"
proof -
  let ?so = "sort_key (\<lambda>i. latency_key (latency_at p i)) ts"
  have "?so \<noteq> []" using assms(3) by (metis length_sort_key list.size(3) not_numeral_le_zero)
  then have "?so ! 0 \<in> set ts" by (metis length_greater_0_conv nth_mem set_sort)
  from assms(6) [OF this] show ?thesis
    using assms(3-5) unfolding pct_def ms_def by (auto simp: byLatency_def Let_def)
qed

theorem latency_hysteresis_witness:
  "fst (byLatency (demo_pool ''lowest_latency'') [1, 2]) ! 0 = 1 \<and>
   pl_sticky (snd (byLatency (demo_pool ''lowest_latency'') [1, 2])) = ''n2''"
proof -
  let ?p = "demo_pool ''lowest_latency''"
  have f: "find_sticky ?p [1, 2] = Some 1"
    by (simp add: find_sticky_def node_at_def demo_pool_def demo_target_def fresh_target_def)
  have l: "latency_at ?p 1 = 50" "latency_at ?p 2 = 40"
    by (simp_all add: latency_at_def snapshot_def demo_pool_def demo_target_def)
  have s: "pl_sticky ?p = ''n2''" and pol: "ep_hysteresis_pct (pl_policy ?p) = 0" "ep_hysteresis_ms (pl_policy ?p) = 0"
    by (simp_all add: demo_pool_def zero_policy_def)
  have "fst (byLatency ?p [1, 2]) ! 0 = 1 \<and> pl_sticky (snd (byLatency ?p [1, 2])) = pl_sticky ?p"
    by (rule latency_hysteresis [OF _ _ f]) (use l s pol in auto)
  with s show ?thesis by simp
qed

end
