(* ===== verification/Client_Hello.thy ===== *)
theory Client_Hello
  imports Go_Prelude
begin

text \<open>
  The TLS ClientHello sniffer (\<open>shared/sniff/clienthello.go\<close>), which parses bytes an unauthenticated
  client sends. A reader is the list of bytes it will deliver before end of file. Every index and
  slice expression of the source is a checked operation that yields the extra error \<open>Panic\<close> where Go
  would panic, so that freedom from panics is a theorem and not an artefact of \<^const>\<open>drop\<close> and
  \<^const>\<open>take\<close> being total. The two loops consume at least four and three bytes per round, which is
  their termination measure.

  The specification is a structured hello with an encoder: the parser returns a name exactly for
  encodings of structured hellos, and it returns the name they carry.
\<close>

datatype sniff_error = ErrNotTLS | ErrNoSNI | ErrTooLarge | ErrIncomplete | Panic

section \<open>Checked byte operations\<close>

definition byte_at :: "bytes \<Rightarrow> nat \<Rightarrow> sniff_error + nat" where
  "byte_at b i = (if i < length b then Inr (unat (b ! i)) else Inl Panic)"

definition slice_from :: "bytes \<Rightarrow> nat \<Rightarrow> sniff_error + bytes" where
  "slice_from b i = (if i \<le> length b then Inr (drop i b) else Inl Panic)"

definition slice_to :: "bytes \<Rightarrow> nat \<Rightarrow> sniff_error + bytes" where
  "slice_to b i = (if i \<le> length b then Inr (take i b) else Inl Panic)"

text \<open>\<open>int(binary.BigEndian.Uint16(b[i:]))\<close>.\<close>

definition uint16_at :: "bytes \<Rightarrow> nat \<Rightarrow> sniff_error + nat" where
  "uint16_at b i =
     (if i + 1 < length b then Inr (unat (be_uint16 (b ! i) (b ! (i + 1)))) else Inl Panic)"

section \<open>The parser\<close>

definition skipU8 :: "bytes \<Rightarrow> sniff_error + bytes option" where
  "skipU8 b =
     (if length b < 1 then Inr None
      else bindE (byte_at b 0) (\<lambda>n.
        if 1 + n > length b then Inr None
        else bindE (slice_from b (1 + n)) (\<lambda>r. Inr (Some r))))"

definition skipU16 :: "bytes \<Rightarrow> sniff_error + bytes option" where
  "skipU16 b =
     (if length b < 2 then Inr None
      else bindE (uint16_at b 0) (\<lambda>n.
        if 2 + n > length b then Inr None
        else bindE (slice_from b (2 + n)) (\<lambda>r. Inr (Some r))))"

text \<open>The loop over the entries of a server name list.\<close>

function sni_loop :: "(string \<Rightarrow> string) \<Rightarrow> bytes \<Rightarrow> sniff_error + string" where
  "sni_loop uni b =
     (if length b \<ge> 3 then
        bindE (byte_at b 0) (\<lambda>nameType.
        bindE (uint16_at b 1) (\<lambda>l.
        bindE (slice_from b 3) (\<lambda>b'.
          if l > length b' then Inl ErrIncomplete
          else if nameType = 0 then
            bindE (slice_to b' l) (\<lambda>h. Inr (to_lower uni (string_of_bytes h)))
          else bindE (slice_from b' l) (\<lambda>b''. sni_loop uni b''))))
      else Inl ErrNoSNI)"
  by pat_completeness auto
termination
  by (relation "measure (\<lambda>(uni, b). length b)") (auto simp: slice_from_def split: if_splits)

declare sni_loop.simps [simp del]

definition parseSNIExtension :: "(string \<Rightarrow> string) \<Rightarrow> bytes \<Rightarrow> sniff_error + string" where
  "parseSNIExtension uni b =
     (if length b < 2 then Inl ErrIncomplete
      else bindE (uint16_at b 0) (\<lambda>listLen.
        bindE (slice_from b 2) (\<lambda>b'.
          if listLen > length b' then Inl ErrIncomplete
          else bindE (slice_to b' listLen) (sni_loop uni))))"

text \<open>The loop over the extensions.\<close>

function ext_loop :: "(string \<Rightarrow> string) \<Rightarrow> bytes \<Rightarrow> sniff_error + string" where
  "ext_loop uni b =
     (if length b \<ge> 4 then
        bindE (uint16_at b 0) (\<lambda>typ.
        bindE (uint16_at b 2) (\<lambda>l.
        bindE (slice_from b 4) (\<lambda>b'.
          if l > length b' then Inl ErrIncomplete
          else if typ = 0 then bindE (slice_to b' l) (parseSNIExtension uni)
          else bindE (slice_from b' l) (\<lambda>b''. ext_loop uni b''))))
      else Inl ErrNoSNI)"
  by pat_completeness auto
termination
  by (relation "measure (\<lambda>(uni, b). length b)") (auto simp: slice_from_def split: if_splits)

declare ext_loop.simps [simp del]

text \<open>\<open>if b, ok = skip(b); !ok { return ErrIncomplete }\<close>.\<close>

definition or_incomplete :: "sniff_error + bytes option \<Rightarrow> sniff_error + bytes" where
  "or_incomplete r =
     bindE r (\<lambda>o'. case o' of None \<Rightarrow> Inl ErrIncomplete | Some b \<Rightarrow> Inr b)"

definition parse_extensions :: "(string \<Rightarrow> string) \<Rightarrow> bytes \<Rightarrow> sniff_error + string" where
  "parse_extensions uni b =
     (if length b < 2 then Inl ErrNoSNI
      else bindE (uint16_at b 0) (\<lambda>extLen.
        bindE (slice_from b 2) (\<lambda>b'.
          if extLen > length b' then Inl ErrIncomplete
          else bindE (slice_to b' extLen) (ext_loop uni))))"

definition parse_hello_body :: "(string \<Rightarrow> string) \<Rightarrow> bytes \<Rightarrow> sniff_error + string" where
  "parse_hello_body uni b =
     (if length b < 34 then Inl ErrIncomplete
      else bindE (slice_from b 34) (\<lambda>b1.
        bindE (or_incomplete (skipU8 b1)) (\<lambda>b2.
        bindE (or_incomplete (skipU16 b2)) (\<lambda>b3.
        bindE (or_incomplete (skipU8 b3)) (parse_extensions uni)))))"

definition parseClientHello :: "(string \<Rightarrow> string) \<Rightarrow> bytes \<Rightarrow> sniff_error + string" where
  "parseClientHello uni b =
     (if length b < 4 then Inl ErrNotTLS
      else bindE (byte_at b 0) (\<lambda>t.
        if t \<noteq> 0x01 then Inl ErrNotTLS
        else bindE (byte_at b 1) (\<lambda>b1. bindE (byte_at b 2) (\<lambda>b2. bindE (byte_at b 3) (\<lambda>b3.
          let hl = (push_bit 16 b1 OR push_bit 8 b2) OR b3 in
          bindE (slice_from b 4) (\<lambda>b'.
            if hl > length b' then Inl ErrIncomplete
            else bindE (slice_to b' hl) (parse_hello_body uni)))))))"

text \<open>\<open>PeekSNI\<close> returns the name or the error, the consumed bytes, and the rest of the stream.\<close>

definition PeekSNI :: "(string \<Rightarrow> string) \<Rightarrow> bytes \<Rightarrow> int \<Rightarrow> (sniff_error + string) \<times> bytes \<times> bytes" where
  "PeekSNI uni r maxBytes0 =
     (let maxBytes = (if maxBytes0 \<le> 0 then 16 * 1024 else maxBytes0) in
      case read_full r 5 of
        (None, r1) \<Rightarrow> (Inl ErrIncomplete, [], r1)
      | (Some hdr, r1) \<Rightarrow>
          if hdr ! 0 \<noteq> 0x16 \<or> hdr ! 1 \<noteq> 0x03 then (Inl ErrNotTLS, hdr, r1)
          else let len = unat (be_uint16 (hdr ! 3) (hdr ! 4)) in
            if len = 0 \<or> int (5 + len) > maxBytes then (Inl ErrTooLarge, hdr, r1)
            else (case read_full r1 len of
                    (None, r2) \<Rightarrow> (Inl ErrIncomplete, hdr, r2)
                  | (Some body, r2) \<Rightarrow> (parseClientHello uni body, hdr @ body, r2)))"

section \<open>Structured hellos\<close>

text \<open>Length-prefixed vectors.\<close>

definition enc16 :: "nat \<Rightarrow> bytes" where
  "enc16 n = be_bytes16 (of_nat n)"

definition vec8 :: "bytes \<Rightarrow> bytes" where
  "vec8 d = of_nat (length d) # d"

definition vec16 :: "bytes \<Rightarrow> bytes" where
  "vec16 d = enc16 (length d) @ d"

definition enc24 :: "nat \<Rightarrow> bytes" where
  "enc24 n = [of_nat (n div 65536), of_nat (n div 256), of_nat n]"

text \<open>
  A structured hello: the fields of the handshake, the extensions and server names in front of the
  one that carries the host, and the bytes the parser passes over after it.
\<close>

record hello =
  ch_head :: bytes                       \<comment> \<open>version and random, 34 bytes\<close>
  ch_session :: bytes
  ch_ciphers :: bytes
  ch_compression :: bytes
  ch_exts :: "(nat \<times> bytes) list"        \<comment> \<open>extensions before server_name\<close>
  ch_names :: "(nat \<times> bytes) list"       \<comment> \<open>list entries before the host_name\<close>
  ch_host :: bytes
  ch_names_rest :: bytes                 \<comment> \<open>rest of the server name list\<close>
  ch_sni_rest :: bytes                   \<comment> \<open>rest of the server_name extension\<close>
  ch_exts_rest :: bytes                  \<comment> \<open>rest of the extensions\<close>
  ch_hs_rest :: bytes                    \<comment> \<open>rest of the handshake message\<close>
  ch_record_rest :: bytes                \<comment> \<open>rest of the record\<close>

definition enc_name :: "nat \<times> bytes \<Rightarrow> bytes" where
  "enc_name e = of_nat (fst e) # vec16 (snd e)"

definition enc_ext :: "nat \<times> bytes \<Rightarrow> bytes" where
  "enc_ext e = enc16 (fst e) @ vec16 (snd e)"

definition enc_names :: "hello \<Rightarrow> bytes" where
  "enc_names h = concat (map enc_name (ch_names h)) @ enc_name (0, ch_host h) @ ch_names_rest h"

definition enc_sni :: "hello \<Rightarrow> bytes" where
  "enc_sni h = vec16 (enc_names h) @ ch_sni_rest h"

definition enc_exts :: "hello \<Rightarrow> bytes" where
  "enc_exts h = concat (map enc_ext (ch_exts h)) @ enc_ext (0, enc_sni h) @ ch_exts_rest h"

definition enc_handshake :: "hello \<Rightarrow> bytes" where
  "enc_handshake h = ch_head h @ vec8 (ch_session h) @ vec16 (ch_ciphers h) @ vec8 (ch_compression h)
     @ vec16 (enc_exts h) @ ch_hs_rest h"

definition enc_body :: "hello \<Rightarrow> bytes" where
  "enc_body h = 1 # enc24 (length (enc_handshake h)) @ enc_handshake h @ ch_record_rest h"

text \<open>Every vector fits its length prefix, and nothing before the host is a host.\<close>

definition hello_ok :: "hello \<Rightarrow> bool" where
  "hello_ok h \<longleftrightarrow> length (ch_head h) = 34 \<and> length (ch_session h) < 256 \<and>
     length (ch_ciphers h) < 65536 \<and> length (ch_compression h) < 256 \<and>
     (\<forall>(t, d)\<in>set (ch_exts h). 0 < t \<and> t < 65536 \<and> length d < 65536) \<and>
     (\<forall>(t, d)\<in>set (ch_names h). 0 < t \<and> t < 256 \<and> length d < 65536) \<and>
     length (ch_host h) < 65536 \<and> length (enc_names h) < 65536 \<and> length (enc_sni h) < 65536 \<and>
     length (enc_exts h) < 65536 \<and> length (enc_handshake h) < 16777216"

section \<open>Absence of panics\<close>

lemma sni_loop_no_panic: "sni_loop uni b \<noteq> Inl Panic"
proof (induction uni b rule: sni_loop.induct)
  case (1 uni b)
  show ?case
    using "1.IH" unfolding sni_loop.simps [of uni b]
    by (auto simp: bindE_eq_Inl byte_at_def uint16_at_def slice_from_def slice_to_def split: if_splits)
qed

lemma parseSNIExtension_no_panic: "parseSNIExtension uni b \<noteq> Inl Panic"
  using sni_loop_no_panic
  by (auto simp: parseSNIExtension_def bindE_eq_Inl uint16_at_def slice_from_def slice_to_def)

lemma ext_loop_no_panic: "ext_loop uni b \<noteq> Inl Panic"
proof (induction uni b rule: ext_loop.induct)
  case (1 uni b)
  show ?case
    using "1.IH" parseSNIExtension_no_panic unfolding ext_loop.simps [of uni b]
    by (auto simp: bindE_eq_Inl uint16_at_def slice_from_def slice_to_def split: if_splits)
qed

lemma skip_no_panic: "or_incomplete (skipU8 b) \<noteq> Inl Panic" "or_incomplete (skipU16 b) \<noteq> Inl Panic"
  by (auto simp: or_incomplete_def skipU8_def skipU16_def bindE_eq_Inl byte_at_def uint16_at_def
      slice_from_def split: if_splits option.splits)

lemma parse_extensions_no_panic: "parse_extensions uni b \<noteq> Inl Panic"
  using ext_loop_no_panic
  by (auto simp: parse_extensions_def bindE_eq_Inl uint16_at_def slice_from_def slice_to_def)

lemma parse_hello_body_no_panic: "parse_hello_body uni b \<noteq> Inl Panic"
  using skip_no_panic parse_extensions_no_panic
  by (auto simp: parse_hello_body_def bindE_eq_Inl slice_from_def)

lemma parseClientHello_no_panic: "parseClientHello uni b \<noteq> Inl Panic"
  using parse_hello_body_no_panic
  by (auto simp: parseClientHello_def bindE_eq_Inl byte_at_def slice_from_def slice_to_def Let_def)

section \<open>Parsing what the encoder wrote\<close>

lemma length_enc [simp]: "length (enc16 n) = 2" "length (vec8 d) = Suc (length d)"
  "length (vec16 d) = 2 + length d" "length (enc24 n) = 3"
  by (simp_all add: enc16_def vec8_def vec16_def enc24_def)

lemma uint16_at_enc16: "n < 65536 \<Longrightarrow> uint16_at (enc16 n @ r) 0 = Inr n"
  by (simp add: uint16_at_def enc16_def be_bytes16_def nth_append unat_of_nat)

lemma uint16_at_Cons: "uint16_at (x # b) (Suc i) = uint16_at b i"
  by (simp add: uint16_at_def)

lemma uint16_at_drop2: "uint16_at (x # y # b) 2 = uint16_at b 0"
  by (simp add: uint16_at_def numeral_2_eq_2)

lemma enc16_pair: "\<exists>x y. enc16 n = [x, y]"
  by (simp add: enc16_def be_bytes16_def)

lemma sni_loop_name:
  assumes "t < 256" and "length d < 65536"
  shows "sni_loop uni (enc_name (t, d) @ r) =
    (if t = 0 then Inr (to_lower uni (string_of_bytes d)) else sni_loop uni r)"
proof -
  obtain x y where e: "enc16 (length d) = [x, y]" using enc16_pair by blast
  have b: "enc_name (t, d) @ r = of_nat t # x # y # d @ r" by (simp add: enc_name_def vec16_def e)
  have u: "uint16_at (of_nat t # x # y # d @ r) 1 = Inr (length d)"
    using uint16_at_enc16 [OF assms(2), of "d @ r"] by (simp add: e uint16_at_Cons)
  have t: "byte_at (of_nat t # x # y # d @ r) 0 = Inr t"
    using assms(1) by (simp add: byte_at_def unat_of_nat)
  have f: "slice_from (of_nat t # x # y # d @ r) 3 = Inr (d @ r)"
    by (simp add: slice_from_def numeral_3_eq_3)
  show ?thesis unfolding b sni_loop.simps [of uni "of_nat t # x # y # d @ r"] t u f
    by (simp add: slice_to_def slice_from_def)
qed

lemma ext_loop_ext:
  assumes "t < 65536" and "length d < 65536"
  shows "ext_loop uni (enc_ext (t, d) @ r) =
    (if t = 0 then parseSNIExtension uni d else ext_loop uni r)"
proof -
  obtain x y where e: "enc16 (length d) = [x, y]" using enc16_pair by blast
  obtain p q where e': "enc16 t = [p, q]" using enc16_pair by blast
  have b: "enc_ext (t, d) @ r = p # q # x # y # d @ r" by (simp add: enc_ext_def vec16_def e e')
  have u: "uint16_at (p # q # x # y # d @ r) 2 = Inr (length d)"
    using uint16_at_enc16 [OF assms(2), of "d @ r"] by (simp add: e uint16_at_drop2)
  have t: "uint16_at (p # q # x # y # d @ r) 0 = Inr t"
    using uint16_at_enc16 [OF assms(1), of "x # y # d @ r"] by (simp add: e')
  have f: "slice_from (p # q # x # y # d @ r) 4 = Inr (d @ r)"
    by (simp add: slice_from_def)
  show ?thesis unfolding b ext_loop.simps [of uni "p # q # x # y # d @ r"] t u f
    by (simp add: slice_to_def slice_from_def)
qed

lemma skipU8_vec8: "length d < 256 \<Longrightarrow> or_incomplete (skipU8 (vec8 d @ r)) = Inr r"
  by (simp add: skipU8_def vec8_def byte_at_def slice_from_def or_incomplete_def unat_of_nat)

lemma skipU16_vec16: "length d < 65536 \<Longrightarrow> or_incomplete (skipU16 (vec16 d @ r)) = Inr r"
  using uint16_at_enc16 [of "length d" "d @ r"]
  by (simp add: skipU16_def vec16_def slice_from_def or_incomplete_def)

lemma sized16_enc:
  assumes "length d < 65536"
  shows "uint16_at (vec16 d @ r) 0 = Inr (length d)" and "slice_from (vec16 d @ r) 2 = Inr (d @ r)"
  using uint16_at_enc16 [OF assms, of "d @ r"] by (simp_all add: vec16_def slice_from_def)

lemma digits24: "65536 * (n div 65536) + (256 * (n div 256 mod 256) + n mod 256) = (n :: nat)"
proof -
  have "n div 65536 = n div 256 div 256" by (simp add: div_mult2_eq [symmetric])
  then show ?thesis
    using mult_div_mod_eq [of 256 n] mult_div_mod_eq [of 256 "n div 256"] by linarith
qed

lemma parse_hello_enc:
  assumes "hello_ok h"
  shows "parseClientHello uni (enc_body h) = Inr (to_lower uni (string_of_bytes (ch_host h)))"
proof -
  let ?res = "Inr (to_lower uni (string_of_bytes (ch_host h)))"
  have names: "sni_loop uni (concat (map enc_name ns) @ enc_name (0, ch_host h) @ ch_names_rest h) = ?res"
    if "\<forall>(t, d)\<in>set ns. 0 < t \<and> t < 256 \<and> length d < 65536" for ns
    using that assms by (induction ns) (auto simp: sni_loop_name hello_ok_def)
  have sni: "parseSNIExtension uni (enc_sni h) = ?res"
    using assms names [of "ch_names h"]
    by (simp add: parseSNIExtension_def enc_sni_def sized16_enc slice_to_def hello_ok_def)
       (simp add: enc_names_def)
  have exts: "ext_loop uni (concat (map enc_ext es) @ enc_ext (0, enc_sni h) @ ch_exts_rest h) = ?res"
    if "\<forall>(t, d)\<in>set es. 0 < t \<and> t < 65536 \<and> length d < 65536" for es
    using that assms by (induction es) (auto simp: ext_loop_ext hello_ok_def sni)
  have ext: "parse_extensions uni (vec16 (enc_exts h) @ ch_hs_rest h) = ?res"
    using assms exts [of "ch_exts h"]
    by (simp add: parse_extensions_def sized16_enc slice_to_def hello_ok_def)
       (simp add: enc_exts_def)
  have body: "parse_hello_body uni (enc_handshake h) = ?res"
    using assms ext
    by (simp add: parse_hello_body_def enc_handshake_def slice_from_def hello_ok_def skipU8_vec8 skipU16_vec16)
  let ?n = "length (enc_handshake h)"
  have n: "?n < 16777216" using assms by (simp add: hello_ok_def)
  have "unat (of_nat (?n div 65536) :: byte) = ?n div 65536" "unat (of_nat (?n div 256) :: byte) = ?n div 256 mod 256"
    "unat (of_nat ?n :: byte) = ?n mod 256" using n by (simp_all add: unat_of_nat)
  moreover have "(push_bit 16 (?n div 65536) OR push_bit 8 (?n div 256 mod 256)) OR (?n mod 256) = ?n"
    by (simp add: or.assoc push_or_add digits24)
  ultimately show ?thesis
    using body by (simp add: parseClientHello_def enc_body_def enc24_def byte_at_def slice_from_def slice_to_def)
qed

section \<open>Everything the parser accepts is an encoding\<close>

lemma uint16_at_inv:
  assumes "uint16_at b 0 = Inr n"
  shows "n < 65536 \<and> b = enc16 n @ drop 2 b"
proof -
  from assms have len: "2 \<le> length b" and n: "n = unat (be_uint16 (b ! 0) (b ! 1))"
    by (auto simp: uint16_at_def split: if_splits)
  then obtain x y r where b: "b = x # y # r"
    by (metis One_nat_def Suc_le_length_iff numeral_2_eq_2)
  show ?thesis using n b unat_be_uint16_less by (simp add: enc16_def be_bytes16_uint16)
qed

lemma vec16_inv:
  assumes "uint16_at b 0 = Inr l" and "slice_from b 2 = Inr b'" and "l \<le> length b'"
  shows "l < 65536 \<and> b = vec16 (take l b') @ drop l b'"
proof -
  from assms(2) have b': "b' = drop 2 b" by (auto simp: slice_from_def split: if_splits)
  from uint16_at_inv [OF assms(1)] have "l < 65536" and b: "b = enc16 l @ b'" using b' by auto
  moreover have "vec16 (take l b') @ drop l b' = enc16 l @ b'" using assms(3) by (simp add: vec16_def)
  ultimately show ?thesis by metis
qed

lemma sni_loop_inv:
  "sni_loop uni b = Inr s \<Longrightarrow>
   \<exists>ns h r. (\<forall>(t, d)\<in>set ns. 0 < t \<and> t < 256 \<and> length d < 65536) \<and> length h < 65536 \<and>
     b = concat (map enc_name ns) @ enc_name (0, h) @ r \<and> s = to_lower uni (string_of_bytes h)"
proof (induction uni b arbitrary: s rule: sni_loop.induct)
  case (1 uni b)
  have len: "length b \<ge> 3"
    using "1.prems" by (rule contrapos_pp) (simp add: sni_loop.simps [of uni b])
  then obtain x b0 where b: "b = x # b0" by (cases b) auto
  obtain t l b' where t: "byte_at b 0 = Inr t" and l: "uint16_at b 1 = Inr l" and b': "slice_from b 3 = Inr b'"
    using len unfolding b by (simp add: byte_at_def uint16_at_def slice_from_def)
  from "1.prems" len t l b' have le: "l \<le> length b'"
    by (auto simp: sni_loop.simps [of uni b] split: if_splits)
  have "uint16_at b0 0 = Inr l" and "slice_from b0 2 = Inr b'"
    using l b' by (simp_all add: b uint16_at_Cons slice_from_def split: if_splits)
  from vec16_inv [OF this le] have l65: "l < 65536" and v: "b0 = vec16 (take l b') @ drop l b'" by auto
  have tx: "t = unat x" using t by (simp add: byte_at_def b)
  have e: "b = enc_name (t, take l b') @ drop l b'" using v by (simp add: b tx enc_name_def)
  show ?case
  proof (cases "t = 0")
    case True
    from "1.prems" have "s = to_lower uni (string_of_bytes (take l b'))"
      using len le by (simp add: sni_loop.simps [of uni b] t l [simplified] b' True slice_to_def)
    then show ?thesis using e l65 True le
      by (intro exI [of _ "[]"] exI [of _ "take l b'"] exI [of _ "drop l b'"]) simp
  next
    case False
    have s: "slice_from b' l = Inr (drop l b')" using le by (simp add: slice_from_def)
    from "1.prems" have rec: "sni_loop uni (drop l b') = Inr s"
      using len le False by (simp add: sni_loop.simps [of uni b] t l [simplified] b' s)
    from "1.IH" [OF len t l b' _ False s rec] le obtain ns h r where
      ns: "\<forall>(t, d)\<in>set ns. 0 < t \<and> t < 256 \<and> length d < 65536" "length h < 65536"
        "drop l b' = concat (map enc_name ns) @ enc_name (0, h) @ r" "s = to_lower uni (string_of_bytes h)"
      by auto
    have "b = concat (map enc_name ((t, take l b') # ns)) @ enc_name (0, h) @ r" using e ns(3) by simp
    moreover have "\<forall>(t, d)\<in>set ((t, take l b') # ns). 0 < t \<and> t < 256 \<and> length d < 65536"
      using ns(1) False l65 tx unat_byte_less [of x] by (simp add: min_def)
    ultimately show ?thesis using ns(2,4) by blast
  qed
qed

lemma parseSNIExtension_inv:
  assumes "parseSNIExtension uni b = Inr s"
  shows "\<exists>ns h r r'. (\<forall>(t, d)\<in>set ns. 0 < t \<and> t < 256 \<and> length d < 65536) \<and> length h < 65536 \<and>
     length (concat (map enc_name ns) @ enc_name (0, h) @ r) < 65536 \<and>
     b = vec16 (concat (map enc_name ns) @ enc_name (0, h) @ r) @ r' \<and>
     s = to_lower uni (string_of_bytes h)"
proof -
  from assms obtain l b' where l: "uint16_at b 0 = Inr l" and b': "slice_from b 2 = Inr b'"
    and le: "l \<le> length b'" and s: "sni_loop uni (take l b') = Inr s"
    by (auto simp: parseSNIExtension_def bindE_eq_Inr slice_to_def split: if_splits)
  from sni_loop_inv [OF s] obtain ns h r where
    ns: "\<forall>(t, d)\<in>set ns. 0 < t \<and> t < 256 \<and> length d < 65536" "length h < 65536"
      "take l b' = concat (map enc_name ns) @ enc_name (0, h) @ r" "s = to_lower uni (string_of_bytes h)"
    by blast
  from vec16_inv [OF l b' le] have "l < 65536" "b = vec16 (take l b') @ drop l b'" by auto
  moreover have "length (take l b') = l" using le by simp
  ultimately show ?thesis using ns
    by (intro exI [of _ ns] exI [of _ h] exI [of _ r] exI [of _ "drop l b'"]) simp
qed

lemma ext_loop_inv:
  "ext_loop uni b = Inr s \<Longrightarrow>
   \<exists>es d r. (\<forall>(t, d)\<in>set es. 0 < t \<and> t < 65536 \<and> length d < 65536) \<and> length d < 65536 \<and>
     b = concat (map enc_ext es) @ enc_ext (0, d) @ r \<and> parseSNIExtension uni d = Inr s"
proof (induction uni b arbitrary: s rule: ext_loop.induct)
  case (1 uni b)
  have len: "length b \<ge> 4"
    using "1.prems" by (rule contrapos_pp) (simp add: ext_loop.simps [of uni b])
  then obtain x y b0 where b: "b = x # y # b0" by (cases b; cases "tl b") auto
  obtain t l b' where t: "uint16_at b 0 = Inr t" and l: "uint16_at b 2 = Inr l" and b': "slice_from b 4 = Inr b'"
    using len unfolding b by (simp add: uint16_at_def slice_from_def)
  from "1.prems" len t l b' have le: "l \<le> length b'"
    by (auto simp: ext_loop.simps [of uni b] split: if_splits)
  have "uint16_at b0 0 = Inr l" and "slice_from b0 2 = Inr b'"
    using l b' by (simp_all add: b uint16_at_drop2 slice_from_def split: if_splits)
  from vec16_inv [OF this le] have l65: "l < 65536" and v: "b0 = vec16 (take l b') @ drop l b'" by auto
  from uint16_at_inv [OF t] have t65: "t < 65536" and xy: "b = enc16 t @ b0" by (simp_all add: b)
  have e: "b = enc_ext (t, take l b') @ drop l b'" using v xy by (simp add: enc_ext_def)
  show ?case
  proof (cases "t = 0")
    case True
    from "1.prems" have "parseSNIExtension uni (take l b') = Inr s"
      using len le by (simp add: ext_loop.simps [of uni b] t l b' True slice_to_def)
    then show ?thesis using e l65 True le
      by (intro exI [of _ "[]"] exI [of _ "take l b'"] exI [of _ "drop l b'"]) simp
  next
    case False
    have sl: "slice_from b' l = Inr (drop l b')" using le by (simp add: slice_from_def)
    from "1.prems" have rec: "ext_loop uni (drop l b') = Inr s"
      using len le False by (simp add: ext_loop.simps [of uni b] t l b' sl)
    from "1.IH" [OF len t l b' _ False sl rec] le obtain es d r where
      es: "\<forall>(t, d)\<in>set es. 0 < t \<and> t < 65536 \<and> length d < 65536" "length d < 65536"
        "drop l b' = concat (map enc_ext es) @ enc_ext (0, d) @ r" "parseSNIExtension uni d = Inr s"
      by auto
    have "b = concat (map enc_ext ((t, take l b') # es)) @ enc_ext (0, d) @ r" using e es(3) by simp
    moreover have "\<forall>(t, d)\<in>set ((t, take l b') # es). 0 < t \<and> t < 65536 \<and> length d < 65536"
      using es(1) False l65 t65 by simp
    ultimately show ?thesis using es(2,4) by blast
  qed
qed

lemma skipU8_inv:
  assumes "or_incomplete (skipU8 b) = Inr r"
  shows "\<exists>d. length d < 256 \<and> b = vec8 d @ r"
proof -
  from assms obtain x b0 where b: "b = x # b0"
    by (cases b) (auto simp: or_incomplete_def skipU8_def bindE_eq_Inr)
  from assms have le: "unat x \<le> length b0" and r: "r = drop (unat x) b0"
    by (auto simp: b or_incomplete_def skipU8_def bindE_eq_Inr byte_at_def slice_from_def split: if_splits option.splits)
  have "length (take (unat x) b0) = unat x" using le by simp
  moreover from this have "b = vec8 (take (unat x) b0) @ r" by (simp add: b r vec8_def)
  moreover have "unat x < 256" by (rule unat_byte_less)
  ultimately show ?thesis by metis
qed

lemma skipU16_inv:
  assumes "or_incomplete (skipU16 b) = Inr r"
  shows "\<exists>d. length d < 65536 \<and> b = vec16 d @ r"
proof -
  from assms obtain n where l: "uint16_at b 0 = Inr n" and le: "2 + n \<le> length b" and r: "r = drop (2 + n) b"
    by (auto simp: or_incomplete_def skipU16_def bindE_eq_Inr slice_from_def split: if_splits option.splits)
  have "slice_from b 2 = Inr (drop 2 b)" using le by (simp add: slice_from_def)
  from vec16_inv [OF l this] le have "n < 65536" "b = vec16 (take n (drop 2 b)) @ r" by (simp_all add: r add.commute)
  moreover have "length (take n (drop 2 b)) = n" using le by simp
  ultimately show ?thesis by metis
qed

lemma enc24_inv:
  assumes "n = (push_bit 16 (unat p) OR push_bit 8 (unat q)) OR unat (r :: byte)"
  shows "n < 16777216 \<and> enc24 n = [p, q, r]"
proof -
  have b: "unat p < 256" "unat q < 256" "unat r < 256" by (rule unat_byte_less)+
  have n: "n = 65536 * unat p + (256 * unat q + unat r)"
    using b by (simp add: assms or.assoc push_or_add)
  have low: "(of_nat m :: byte) = x" if "m mod 256 = unat x" for m and x :: byte
    using that by (simp add: word_unat_eq_iff unat_of_nat)
  have "n div 256 = 256 * unat p + unat q" using b n by (auto intro!: div_nat_eqI)
  then have "of_nat (n div 256) = q" using b by (intro low) simp
  moreover have "of_nat (n div 65536) = p"
  proof -
    have "n div 65536 = unat p" using b n by (auto intro!: div_nat_eqI)
    then show ?thesis by simp
  qed
  moreover have "of_nat n = r"
  proof (rule low)
    have "n = unat r + (256 * unat p + unat q) * 256" using n by simp
    then show "n mod 256 = unat r" using b by (simp only: mod_mult_self1 mod_less)
  qed
  ultimately show ?thesis using b n by (simp add: enc24_def)
qed

lemma parse_extensions_inv:
  assumes "parse_extensions uni b = Inr s"
  obtains es d r r' where "\<forall>(t, d)\<in>set es. 0 < t \<and> t < 65536 \<and> length d < 65536" and "length d < 65536"
    and "length (concat (map enc_ext es) @ enc_ext (0, d) @ r) < 65536"
    and "b = vec16 (concat (map enc_ext es) @ enc_ext (0, d) @ r) @ r'"
    and "parseSNIExtension uni d = Inr s"
proof -
  from assms obtain l b' where l: "uint16_at b 0 = Inr l" and b': "slice_from b 2 = Inr b'"
    and le: "l \<le> length b'" and s: "ext_loop uni (take l b') = Inr s"
    by (auto simp: parse_extensions_def bindE_eq_Inr slice_to_def split: if_splits)
  from ext_loop_inv [OF s] obtain es d r where
    es: "\<forall>(t, d)\<in>set es. 0 < t \<and> t < 65536 \<and> length d < 65536" "length d < 65536"
      "take l b' = concat (map enc_ext es) @ enc_ext (0, d) @ r" "parseSNIExtension uni d = Inr s"
    by blast
  from vec16_inv [OF l b' le] have "l < 65536" "b = vec16 (take l b') @ drop l b'" by auto
  moreover have "length (take l b') = l" using le by simp
  ultimately show ?thesis using es by (intro that [of es d r "drop l b'"]) simp_all
qed

lemma parse_hello_body_inv:
  assumes "parse_hello_body uni b = Inr s"
  obtains hd' se ci co r where "b = hd' @ vec8 se @ vec16 ci @ vec8 co @ r" and "length hd' = 34"
    and "length se < 256" and "length ci < 65536" and "length co < 256" and "parse_extensions uni r = Inr s"
proof -
  from assms obtain b2 b3 r where len: "34 \<le> length b" and 1: "or_incomplete (skipU8 (drop 34 b)) = Inr b2"
    and 2: "or_incomplete (skipU16 b2) = Inr b3" and 3: "or_incomplete (skipU8 b3) = Inr r"
    and s: "parse_extensions uni r = Inr s"
    by (auto simp: parse_hello_body_def bindE_eq_Inr slice_from_def split: if_splits)
  from skipU8_inv [OF 1] skipU16_inv [OF 2] skipU8_inv [OF 3] obtain se ci co where
    "length se < 256" "drop 34 b = vec8 se @ b2" "length ci < 65536" "b2 = vec16 ci @ b3"
    "length co < 256" "b3 = vec8 co @ r" by blast
  moreover have "b = take 34 b @ drop 34 b" by simp
  ultimately show ?thesis using len s by (intro that [of "take 34 b" se ci co r]) simp_all
qed

lemma parse_hello_inv:
  assumes "parseClientHello uni b = Inr s"
  shows "\<exists>h. hello_ok h \<and> b = enc_body h \<and> s = to_lower uni (string_of_bytes (ch_host h))"
proof -
  from assms have len: "4 \<le> length b" by (auto simp: parseClientHello_def split: if_splits)
  then obtain t p q r b' where b: "b = t # p # q # r # b'"
    by (auto simp: Suc_le_length_iff numeral_eq_Suc)
  define n where "n = (push_bit 16 (unat p) OR push_bit 8 (unat q)) OR unat r"
  from assms have t: "unat t = 1" and n: "n \<le> length b'" and body: "parse_hello_body uni (take n b') = Inr s"
    by (auto simp: b n_def parseClientHello_def byte_at_def slice_from_def slice_to_def Let_def split: if_splits)
  from t have t1: "t = 1" by (metis unat_1 word_unat_eq_iff)
  obtain hd' se ci co x where hb: "take n b' = hd' @ vec8 se @ vec16 ci @ vec8 co @ x" "length hd' = 34"
    "length se < 256" "length ci < 65536" "length co < 256" "parse_extensions uni x = Inr s"
    using parse_hello_body_inv [OF body] by blast
  obtain es d er hr where ex: "\<forall>(t, d)\<in>set es. 0 < t \<and> t < 65536 \<and> length d < 65536" "length d < 65536"
    "length (concat (map enc_ext es) @ enc_ext (0, d) @ er) < 65536"
    "x = vec16 (concat (map enc_ext es) @ enc_ext (0, d) @ er) @ hr" "parseSNIExtension uni d = Inr s"
    using parse_extensions_inv [OF hb(6)] by blast
  obtain ns ho nr sr where sn: "\<forall>(t, d)\<in>set ns. 0 < t \<and> t < 256 \<and> length d < 65536" "length ho < 65536"
    "length (concat (map enc_name ns) @ enc_name (0, ho) @ nr) < 65536"
    "d = vec16 (concat (map enc_name ns) @ enc_name (0, ho) @ nr) @ sr" "s = to_lower uni (string_of_bytes ho)"
    using parseSNIExtension_inv [OF ex(5)] by blast
  define h where "h = \<lparr>ch_head = hd', ch_session = se, ch_ciphers = ci, ch_compression = co, ch_exts = es,
    ch_names = ns, ch_host = ho, ch_names_rest = nr, ch_sni_rest = sr, ch_exts_rest = er, ch_hs_rest = hr,
    ch_record_rest = drop n b'\<rparr>"
  have names: "enc_names h = concat (map enc_name ns) @ enc_name (0, ho) @ nr" by (simp add: h_def enc_names_def)
  have d: "enc_sni h = d" using sn(4) names by (simp add: enc_sni_def) (simp add: h_def)
  have exts: "enc_exts h = concat (map enc_ext es) @ enc_ext (0, d) @ er"
    by (simp add: enc_exts_def d) (simp add: h_def)
  have hs: "enc_handshake h = take n b'"
    using hb(1) ex(4) exts by (simp add: enc_handshake_def) (simp add: h_def)
  from enc24_inv [OF n_def] have n24: "n < 16777216" "enc24 n = [p, q, r]" by auto
  have "enc_body h = b" using n n24(2) by (simp add: enc_body_def hs b t1) (simp add: h_def)
  moreover have "hello_ok h"
    unfolding hello_ok_def names d exts hs using sn(1,2,3) ex(1,2,3) hb(2,3,4,5) n n24(1) by (simp add: h_def)
  moreover have "ch_host h = ho" by (simp add: h_def)
  ultimately show ?thesis using sn(5) by blast
qed

lemma PeekSNI_Inr:
  assumes "PeekSNI uni r m = (Inr s, raw, rest)"
  obtains minor body where "raw = 0x16 # 0x03 # minor # vec16 body" and "r = raw @ rest"
    and "length body < 65536" and "int (length raw) \<le> (if m \<le> 0 then 16384 else m)"
    and "parseClientHello uni body = Inr s"
proof -
  from assms have len: "5 \<le> length r" by (auto simp: PeekSNI_def read_full_def split: if_splits)
  then obtain a b minor x y r1 where r: "r = a # b # minor # x # y # r1"
    by (auto simp: Suc_le_length_iff numeral_eq_Suc)
  define n where "n = unat (be_uint16 x y)"
  from assms have ab: "a = 0x16" "b = 0x03" and n: "n \<le> length r1" "int (5 + n) \<le> (if m \<le> 0 then 16384 else m)"
    and raw: "raw = [a, b, minor, x, y] @ take n r1" and rest: "rest = drop n r1"
    and p: "parseClientHello uni (take n r1) = Inr s"
    by (auto simp: PeekSNI_def read_full_def r n_def Let_def split: if_splits)
  have "uint16_at [x, y] 0 = Inr n" by (simp add: uint16_at_def n_def)
  from uint16_at_inv [OF this] have xy: "[x, y] = enc16 n" "n < 65536" by simp_all
  have "length (take n r1) = n" using n by simp
  then have v: "vec16 (take n r1) = x # y # take n r1" using xy by (simp add: vec16_def)
  show ?thesis
  proof (rule that)
    show "raw = 0x16 # 0x03 # minor # vec16 (take n r1)" by (simp add: raw ab v)
    show "r = raw @ rest" by (simp add: raw rest r)
    show "length (take n r1) < 65536" using xy by simp
    show "int (length raw) \<le> (if m \<le> 0 then 16384 else m)" using n by (simp add: raw)
    show "parseClientHello uni (take n r1) = Inr s" by (rule p)
  qed
qed

lemma PeekSNI_enc:
  assumes "parseClientHello uni body = Inr s" and "length body < 65536"
    and "int (5 + length body) \<le> (if m \<le> 0 then 16384 else m)"
  shows "PeekSNI uni (0x16 # 0x03 # minor # vec16 body @ rest) m = (Inr s, 0x16 # 0x03 # minor # vec16 body, rest)"
proof -
  obtain x y where xy: "enc16 (length body) = [x, y]" using enc16_pair by blast
  have "uint16_at [x, y] 0 = Inr (length body)" using uint16_at_enc16 [OF assms(2), of "[]"] xy by simp
  then have n: "unat (be_uint16 x y) = length body" by (simp add: uint16_at_def)
  have "body \<noteq> []" using assms(1) by (auto simp: parseClientHello_def)
  then show ?thesis using assms n by (auto simp: PeekSNI_def read_full_def vec16_def xy Let_def split: if_splits)
qed

lemma PeekSNI_no_panic: "fst (PeekSNI uni r m) \<noteq> Inl Panic"
  using parseClientHello_no_panic
  by (auto simp: PeekSNI_def read_full_def Let_def)

section \<open>Properties\<close>

text \<open>
  Property C6. No bytes a client can send make the sniffer panic: every index and slice expression
  of the parser is within bounds on every path, whatever the stream and the pre-read limit.
\<close>

theorem PeekSNI_never_panics: "fst (PeekSNI uni stream maxBytes) \<noteq> Inl Panic"
  by (rule PeekSNI_no_panic)

text \<open>
  Property C5. The sniffer decides exactly the ClientHello format: it returns a server name if and
  only if the stream starts with one TLS handshake record within the pre-read limit whose body is
  the encoding of a structured hello, the name is the lower-cased host of that hello, and the
  consumed bytes followed by the unread ones are the stream, so that replaying them to the origin
  is transparent.
\<close>

theorem PeekSNI_correct:
  "PeekSNI uni stream maxBytes = (Inr name, raw, rest) \<longleftrightarrow>
   (\<exists>minor h. hello_ok h \<and> length (enc_body h) < 65536 \<and>
      int (5 + length (enc_body h)) \<le> (if maxBytes \<le> 0 then 16384 else maxBytes) \<and>
      raw = 0x16 # 0x03 # minor # vec16 (enc_body h) \<and> stream = raw @ rest \<and>
      name = to_lower uni (string_of_bytes (ch_host h)))"
  (is "?L \<longleftrightarrow> ?R")
proof
  assume ?L
  then obtain minor body where
    p: "raw = 0x16 # 0x03 # minor # vec16 body" "stream = raw @ rest" "length body < 65536"
      "int (length raw) \<le> (if maxBytes \<le> 0 then 16384 else maxBytes)" "parseClientHello uni body = Inr name"
    by (rule PeekSNI_Inr)
  from parse_hello_inv [OF p(5)] obtain h where
    h: "hello_ok h" "body = enc_body h" "name = to_lower uni (string_of_bytes (ch_host h))" by blast
  with p show ?R by (intro exI [of _ minor] exI [of _ h]) simp
next
  assume ?R
  then obtain minor h where
    h: "hello_ok h" "length (enc_body h) < 65536"
      "int (5 + length (enc_body h)) \<le> (if maxBytes \<le> 0 then 16384 else maxBytes)"
      "raw = 0x16 # 0x03 # minor # vec16 (enc_body h)" "stream = raw @ rest"
      "name = to_lower uni (string_of_bytes (ch_host h))" by blast
  from PeekSNI_enc [OF parse_hello_enc [OF h(1)] h(2,3)] show ?L by (simp add: h(4-6))
qed

end
