(* ===== verification/Session_Gate.thy ===== *)
theory Session_Gate
  imports Go_Prelude
begin

text \<open>
  The session limit that the SNI proxy and the egress relay share: a handler goroutine adds one to an
  atomic counter, compares the result with the limit, and takes its one back either at once or when
  the session ends. Handlers interleave freely, so the admission is a step relation on the shared
  state together with the number of handlers that are over the limit but have not undone their
  increment yet, and the number of sessions that run. A new configuration may arrive at any point.
\<close>

inductive gate_step ::
  "('s \<Rightarrow> int) \<Rightarrow> ('s \<Rightarrow> int) \<Rightarrow> ('s \<Rightarrow> 's) \<Rightarrow> ('s \<Rightarrow> 's) \<Rightarrow> ('c \<Rightarrow> 's \<Rightarrow> 's) \<Rightarrow>
   's \<times> nat \<times> nat \<Rightarrow> 's \<times> nat \<times> nat \<Rightarrow> bool"
  for active limit enter leave reconf where
  admit: "active (enter s) \<le> limit s \<Longrightarrow>
    gate_step active limit enter leave reconf (s, ov, run) (enter s, ov, Suc run)"
| exceed: "active (enter s) > limit s \<Longrightarrow>
    gate_step active limit enter leave reconf (s, ov, run) (enter s, Suc ov, run)"
| undo: "gate_step active limit enter leave reconf (s, Suc ov, run) (leave s, ov, run)"
| finish: "gate_step active limit enter leave reconf (s, ov, Suc run) (leave s, ov, run)"
| reconfigure: "gate_step active limit enter leave reconf (s, ov, run) (reconf c s, ov, run)"

inductive_cases gate_stepE: "gate_step active limit enter leave reconf x y"

locale session_gate =
  fixes active :: "'s \<Rightarrow> int"
    and limit :: "'s \<Rightarrow> int"
    and enter :: "'s \<Rightarrow> 's"
    and leave :: "'s \<Rightarrow> 's"
    and reconf :: "'c \<Rightarrow> 's \<Rightarrow> 's"
  assumes active_enter: "active (enter s) = active s + 1"
    and active_leave: "active (leave s) = active s - 1"
    and active_reconf: "active (reconf c s) = active s"
    and limit_enter: "limit (enter s) = limit s"
begin

definition gate_ok :: "'s \<times> nat \<times> nat \<Rightarrow> bool" where
  "gate_ok x = (case x of (s, ov, run) \<Rightarrow> active s = int ov + int run)"

lemma gate_ok_step:
  assumes "gate_step active limit enter leave reconf x y" and "gate_ok x"
  shows "gate_ok y"
  using assms by (cases rule: gate_step.cases) (auto simp: gate_ok_def active_enter active_leave active_reconf)

lemma gate_ok_reachable:
  assumes "(gate_step active limit enter leave reconf)\<^sup>*\<^sup>* x y" and "gate_ok x"
  shows "gate_ok y"
  using assms by (induction rule: rtranclp_induct) (auto intro: gate_ok_step)

text \<open>Whenever a session starts, the sessions running are within the limit in force.\<close>

lemma admission_bounded:
  assumes "(gate_step active limit enter leave reconf)\<^sup>*\<^sup>* (s0, 0, 0) (s, ov, run)" and "active s0 = 0"
    and "gate_step active limit enter leave reconf (s, ov, run) (s', ov', Suc run)"
  shows "int (Suc run) \<le> limit s' \<and> active s' = int ov' + int (Suc run)"
proof -
  have ok: "gate_ok (s, ov, run)" using gate_ok_reachable [OF assms(1)] assms(2) by (simp add: gate_ok_def)
  have ok': "gate_ok (s', ov', Suc run)" by (rule gate_ok_step [OF assms(3) ok])
  from assms(3) have "s' = enter s \<and> active (enter s) \<le> limit s"
    by (auto elim!: gate_stepE)
  then show ?thesis using ok ok' limit_enter [of s] active_enter [of s] by (simp add: gate_ok_def)
qed

text \<open>And no admission is refused while the counter, pending undos included, is below the limit.\<close>

lemma refusal_only_when_full:
  assumes "(gate_step active limit enter leave reconf)\<^sup>*\<^sup>* (s0, 0, 0) (s, ov, run)" and "active s0 = 0"
    and "gate_step active limit enter leave reconf (s, ov, run) (s', Suc ov, run)"
  shows "limit s \<le> int ov + int run"
proof -
  have ok: "gate_ok (s, ov, run)" using gate_ok_reachable [OF assms(1)] assms(2) by (simp add: gate_ok_def)
  from assms(3) have "active (enter s) > limit s" by (auto elim!: gate_stepE)
  then show ?thesis using ok active_enter [of s] by (simp add: gate_ok_def)
qed

end

end
