(* ===== verification/SNI_Proxy.thy ===== *)
theory SNI_Proxy
  imports Egress_Selector Client_Hello DNS_Router Session_Gate
begin

text \<open>
  The ingress SNI proxy (\<open>node/proxy/proxy.go\<close>): it admits a connection, sniffs the server name, routes
  it to a service, checks the port and hands the untouched bytes to an egress. A route is referred
  to by its index in the table, since \<open>lookup\<close> returns a pointer into it and a dial updates the pool
  the route holds. Counters are recorded as a list of increments. \<open>proxy_env\<close> holds what the handler
  meets: the client's bytes, the local port, the random draws, what the network does with each dial
  and write, and the byte counts of the splice.
\<close>

section \<open>State\<close>

record svc_route =
  sr_svc :: service
  sr_matcher :: "matcher option"
  sr_pool :: pool

record proxy =
  px_routes :: "svc_route list"
  px_cfg :: "node_config option"
  px_active :: int
  px_max_sess :: int
  px_doh_host :: string
  px_doh_backend :: string
  px_counters :: "(string \<times> string list \<times> int) list"

definition zero_proxy :: proxy where
  "zero_proxy = \<lparr>px_routes = [], px_cfg = None, px_active = 0, px_max_sess = 0, px_doh_host = [],
     px_doh_backend = [], px_counters = []\<rparr>"

definition SetDoHBackend :: "string \<Rightarrow> proxy \<Rightarrow> proxy" where
  "SetDoHBackend a p = p\<lparr>px_doh_backend := a\<rparr>"

definition stripPort :: "net_lib \<Rightarrow> string \<Rightarrow> string" where
  "stripPort nl s = (case split_host_port nl s of Some (h, _) \<Rightarrow> h | None \<Rightarrow> s)"

text \<open>\<open>prev[slug]\<close>: the pool of the last route with the slug.\<close>

definition prev_pool :: "svc_route list \<Rightarrow> string \<Rightarrow> pool option" where
  "prev_pool rs slug = map_option sr_pool (find (\<lambda>r. sv_slug (sr_svc r) = slug) (rev rs))"

definition Apply_proxy :: "domain_lib \<Rightarrow> net_lib \<Rightarrow> node_config \<Rightarrow> proxy \<Rightarrow> proxy" where
  "Apply_proxy lib nl c p =
     (let routes = map (\<lambda>s. \<lparr>sr_svc = s, sr_matcher = compile_set lib (sv_match s),
                             sr_pool = newPool (sv_egress s) (prev_pool (px_routes p) (sv_slug s))\<rparr>)
                       (nc_services c);
          m = ic_max_sessions (nc_ingress c)
      in p\<lparr>px_routes := routes, px_cfg := Some c, px_doh_host := stripPort nl (dc_doh_hostname (nc_dns c)),
           px_max_sess := (if m \<le> 0 then 10000 else m)\<rparr>)"

definition New_proxy :: "domain_lib \<Rightarrow> net_lib \<Rightarrow> node_config \<Rightarrow> proxy" where
  "New_proxy lib nl c = Apply_proxy lib nl c zero_proxy"

section \<open>Routing\<close>

fun proxy_loop :: "domain_lib \<Rightarrow> string \<Rightarrow> (nat \<times> svc_route) list \<Rightarrow> (nat \<times> svc_route) option \<times> int \<times> int
    \<Rightarrow> (nat \<times> svc_route) option \<times> int \<times> int" where
  "proxy_loop lib host [] acc = acc"
| "proxy_loop lib host (r # rs) (best, bestSpec, bestPrio) =
     (let sp = specificity lib (sr_matcher (snd r)) host in
      if sp < 0 then proxy_loop lib host rs (best, bestSpec, bestPrio)
      else let prio = sv_priority (sr_svc (snd r)) in
        if sp > bestSpec \<or> (sp = bestSpec \<and> prio > bestPrio)
        then proxy_loop lib host rs (Some r, sp, prio)
        else proxy_loop lib host rs (best, bestSpec, bestPrio))"

definition best_indexed :: "domain_lib \<Rightarrow> string \<Rightarrow> (nat \<times> svc_route) list \<Rightarrow> (nat \<times> svc_route) option" where
  "best_indexed lib host rs = fst (proxy_loop lib host rs (None, -1, -1))"

definition proxy_lookup :: "domain_lib \<Rightarrow> proxy \<Rightarrow> string \<Rightarrow> (nat \<times> svc_route) option" where
  "proxy_lookup lib p host = best_indexed lib host (enumerate 0 (px_routes p))"

definition settings :: "ingress_config \<Rightarrow> ingress_config" where
  "settings s =
     s\<lparr>ic_client_hello_timeout_ms := (if ic_client_hello_timeout_ms s \<le> 0 then 3000 else ic_client_hello_timeout_ms s),
       ic_max_pre_read_bytes := (if ic_max_pre_read_bytes s \<le> 0 then 16384 else ic_max_pre_read_bytes s),
       ic_dial_timeout_ms := (if ic_dial_timeout_ms s \<le> 0 then 8000 else ic_dial_timeout_ms s),
       ic_idle_timeout_sec := (if ic_idle_timeout_sec s \<le> 0 then 300 else ic_idle_timeout_sec s)\<rparr>"

definition portAllowed :: "int list \<Rightarrow> int \<Rightarrow> bool" where
  "portAllowed allowed port = (if length allowed = 0 then port = 443 else list_ex (\<lambda>p. p = port) allowed)"

fun reasonOf :: "sniff_error \<Rightarrow> string" where
  "reasonOf ErrNotTLS = ''not_tls''"
| "reasonOf ErrNoSNI = ''no_sni''"
| "reasonOf ErrTooLarge = ''too_large''"
| "reasonOf ErrIncomplete = ''incomplete''"
| "reasonOf Panic = ''read_error''"

section \<open>The handler\<close>

record proxy_env =
  pe_stream :: bytes
  pe_local_port :: "int option"          \<comment> \<open>None: the local address is not a TCP address\<close>
  pe_rnd :: "nat \<Rightarrow> int \<Rightarrow> int"
  pe_net :: "nat \<Rightarrow> attempt"
  pe_write_ok :: bool                    \<comment> \<open>the write of the ClientHello to the egress\<close>
  pe_doh_dial :: bool
  pe_doh_write :: bool
  pe_spliced :: "int \<times> int"

datatype proxy_outcome =
    Rejected string                      \<comment> \<open>counted reason; nothing was forwarded\<close>
  | ToDoH bytes                          \<comment> \<open>the bytes replayed to the local DoH listener\<close>
  | DoHFailed
  | NoUsableEgress nat
  | ReplayFailed nat
  | Proxied nat nat string int bytes     \<comment> \<open>route, target, host, port and replayed bytes\<close>
  | NilConfig                            \<comment> \<open>panic: no configuration was ever applied\<close>

definition tally :: "string \<Rightarrow> string list \<Rightarrow> int \<Rightarrow> proxy \<Rightarrow> proxy" where
  "tally name labels n p = p\<lparr>px_counters := px_counters p @ [(name, labels, n)]\<rparr>"

definition reject :: "string \<Rightarrow> proxy \<Rightarrow> proxy_outcome \<times> proxy" where
  "reject reason p = (Rejected reason, tally ''smartdns_ingress_rejected_total'' [''reason'', reason] 1 p)"

definition enter_proxy :: "proxy \<Rightarrow> proxy" where
  "enter_proxy p = p\<lparr>px_active := px_active p + 1\<rparr>"

definition leave_proxy :: "proxy \<Rightarrow> proxy" where
  "leave_proxy p = p\<lparr>px_active := px_active p - 1\<rparr>"

text \<open>\<open>dohForward\<close>: \<^term>\<open>None\<close> when the name is not the DoH hostname.\<close>

definition dohForward :: "proxy_env \<Rightarrow> string \<Rightarrow> bytes \<Rightarrow> proxy \<Rightarrow> (proxy_outcome \<times> proxy) option" where
  "dohForward en host raw p =
     (if px_doh_host p = [] \<or> px_doh_backend p = [] \<or> host \<noteq> px_doh_host p then None
      else if \<not> pe_doh_dial en then
        Some (DoHFailed, tally ''smartdns_ingress_rejected_total'' [''reason'', ''doh_backend_unreachable''] 1 p)
      else if \<not> pe_doh_write en then Some (DoHFailed, p)
      else Some (ToDoH raw, tally ''smartdns_ingress_connections_total'' [''service'', ''_doh'', ''result'', ''ok''] 1 p))"

definition set_pool :: "nat \<Rightarrow> pool \<Rightarrow> proxy \<Rightarrow> proxy" where
  "set_pool i po p = p\<lparr>px_routes := (px_routes p)[i := (px_routes p ! i)\<lparr>sr_pool := po\<rparr>]\<rparr>"

definition conn_port :: "proxy_env \<Rightarrow> int" where
  "conn_port en = (case pe_local_port en of Some n \<Rightarrow> if n \<noteq> 0 then n else 443 | None \<Rightarrow> 443)"

text \<open>The end of \<open>handle\<close>: port check, dial, replay of the ClientHello and splice.\<close>

definition serve_route :: "proxy_env \<Rightarrow> string \<Rightarrow> bytes \<Rightarrow> nat \<Rightarrow> svc_route \<Rightarrow> proxy \<Rightarrow> proxy_outcome \<times> proxy" where
  "serve_route en host raw i route p =
     (let port = conn_port en; slug = sv_slug (sr_svc route) in
      if \<not> portAllowed (sv_allowed_ports (sr_svc route)) port then reject ''port_not_allowed'' p
      else case dial (pe_rnd en) (pe_net en) (sr_pool route) of (r, po) \<Rightarrow>
        let p1 = set_pool i po p in
        (case r of
           Connected t \<Rightarrow>
             if \<not> pe_write_ok en then
               (ReplayFailed i, tally ''smartdns_ingress_connections_total''
                  [''service'', slug, ''result'', ''write_failed''] 1 p1)
             else
               (Proxied i t host port raw,
                tally ''smartdns_ingress_bytes_total'' [''service'', slug, ''direction'', ''down'']
                  (snd (pe_spliced en))
                 (tally ''smartdns_ingress_bytes_total'' [''service'', slug, ''direction'', ''up'']
                    (fst (pe_spliced en) + int (length raw))
                   (tally ''smartdns_ingress_connections_total''
                      [''service'', slug, ''result'', ''ok''] 1 p1)))
         | _ \<Rightarrow>
             (NoUsableEgress i, tally ''smartdns_ingress_connections_total''
                [''service'', slug, ''result'', ''no_egress''] 1 p1)))"

text \<open>The part of \<open>handle\<close> between admission and the deferred decrement.\<close>

definition serve_conn :: "domain_lib \<Rightarrow> node_config \<Rightarrow> proxy_env \<Rightarrow> proxy \<Rightarrow> proxy_outcome \<times> proxy" where
  "serve_conn lib cfg en p =
     (let st = settings (nc_ingress cfg) in
      case PeekSNI (uni_lower lib) (pe_stream en) (ic_max_pre_read_bytes st) of
        (Inl e, _, _) \<Rightarrow> reject (reasonOf e) p
      | (Inr sni, raw, _) \<Rightarrow>
          (case normalize_host lib sni of
             Inl _ \<Rightarrow> reject ''invalid_sni'' p
           | Inr host \<Rightarrow>
               (case proxy_lookup lib p host of
                  None \<Rightarrow>
                    (case dohForward en host raw p of
                       Some res \<Rightarrow> res
                     | None \<Rightarrow> reject ''sni_not_managed'' p)
                | Some (i, route) \<Rightarrow> serve_route en host raw i route p)))"

definition handle_proxy :: "domain_lib \<Rightarrow> proxy_env \<Rightarrow> proxy \<Rightarrow> proxy_outcome \<times> proxy" where
  "handle_proxy lib en p =
     (let p1 = enter_proxy p in
      if px_active p1 > px_max_sess p then reject ''max_sessions'' (leave_proxy p1)
      else case px_cfg p1 of
             None \<Rightarrow> (NilConfig, leave_proxy p1)
           | Some cfg \<Rightarrow> (case serve_conn lib cfg en p1 of (r, p2) \<Rightarrow> (r, leave_proxy p2)))"

section \<open>The table and the gate meet their contracts\<close>

definition proxy_acc_ok :: "domain_lib \<Rightarrow> string \<Rightarrow> (nat \<times> svc_route) option \<times> int \<times> int \<Rightarrow> bool" where
  "proxy_acc_ok lib host acc = (case acc of
     (None, s, p) \<Rightarrow> s = -1
   | (Some r, s, p) \<Rightarrow>
       s = specificity lib (sr_matcher (snd r)) host \<and> p = sv_priority (sr_svc (snd r)) \<and> 0 \<le> s)"

lemma proxy_loop_append:
  "proxy_loop lib host (xs @ ys) acc = proxy_loop lib host ys (proxy_loop lib host xs acc)"
  by (induction lib host xs acc rule: proxy_loop.induct) (auto simp: Let_def)

lemma proxy_loop_ok: "proxy_acc_ok lib host acc \<Longrightarrow> proxy_acc_ok lib host (proxy_loop lib host rs acc)"
  by (induction lib host rs acc rule: proxy_loop.induct) (auto simp: Let_def proxy_acc_ok_def)

lemma best_indexed_snoc:
  "best_indexed lib host (rs @ [r]) =
     (if specificity lib (sr_matcher (snd r)) host < 0 then best_indexed lib host rs
      else case best_indexed lib host rs of
             None \<Rightarrow> Some r
           | Some b \<Rightarrow>
               if specificity lib (sr_matcher (snd r)) host > specificity lib (sr_matcher (snd b)) host \<or>
                  specificity lib (sr_matcher (snd r)) host = specificity lib (sr_matcher (snd b)) host \<and>
                  sv_priority (sr_svc (snd r)) > sv_priority (sr_svc (snd b))
               then Some r else Some b)"
proof -
  obtain b s p where acc: "proxy_loop lib host rs (None, -1, -1) = (b, s, p)" using prod_cases3 by blast
  have "proxy_acc_ok lib host (b, s, p)"
    using proxy_loop_ok [of lib host "(None, -1, -1)" rs] acc by (simp add: proxy_acc_ok_def)
  then show ?thesis
    by (auto simp: best_indexed_def proxy_loop_append acc proxy_acc_ok_def Let_def split: option.splits)
qed

interpretation sni_table: best_route
  "best_indexed lib host" "\<lambda>r. specificity lib (sr_matcher (snd r)) host" "\<lambda>r. sv_priority (sr_svc (snd r))"
  for lib host
  by unfold_locales (simp add: best_indexed_def, rule best_indexed_snoc)

definition reconf_proxy :: "domain_lib \<times> net_lib \<times> node_config \<Rightarrow> proxy \<Rightarrow> proxy" where
  "reconf_proxy x = (case x of (lib, nl, c) \<Rightarrow> Apply_proxy lib nl c)"

interpretation sni_gate: session_gate px_active px_max_sess enter_proxy leave_proxy reconf_proxy
  by unfold_locales (auto simp: enter_proxy_def leave_proxy_def reconf_proxy_def Apply_proxy_def Let_def)

section \<open>Lemmas\<close>

lemma tally_fields [simp]:
  "px_routes (tally a b n p) = px_routes p" "px_active (tally a b n p) = px_active p"
  "px_cfg (tally a b n p) = px_cfg p" "px_max_sess (tally a b n p) = px_max_sess p"
  by (simp_all add: tally_def)

lemma gate_fields [simp]:
  "px_routes (enter_proxy p) = px_routes p" "px_routes (leave_proxy p) = px_routes p"
  "px_active (leave_proxy p) = px_active p - 1" "px_cfg (leave_proxy p) = px_cfg p"
  "px_active (enter_proxy p) = px_active p + 1" "px_cfg (enter_proxy p) = px_cfg p"
  by (simp_all add: enter_proxy_def leave_proxy_def)

lemma set_pool_fields [simp]:
  "px_active (set_pool i po p) = px_active p" "px_cfg (set_pool i po p) = px_cfg p"
  "map sr_svc (px_routes (set_pool i po p)) = map sr_svc (px_routes p)"
  "map sr_matcher (px_routes (set_pool i po p)) = map sr_matcher (px_routes p)"
proof -
  show "px_active (set_pool i po p) = px_active p" "px_cfg (set_pool i po p) = px_cfg p"
    by (simp_all add: set_pool_def)
  show "map sr_svc (px_routes (set_pool i po p)) = map sr_svc (px_routes p)"
    "map sr_matcher (px_routes (set_pool i po p)) = map sr_matcher (px_routes p)"
    by (simp_all add: set_pool_def map_list_update_same)
qed

lemma proxy_lookup_Some:
  assumes "proxy_lookup lib p host = Some (i, r)"
  shows "i < length (px_routes p) \<and> px_routes p ! i = r \<and> 0 \<le> specificity lib (sr_matcher r) host"
  using sni_table.look_mem [OF assms [unfolded proxy_lookup_def]] by (auto simp: in_set_enumerate_eq)

text \<open>What a handler may change of the shared state: pools and counters only.\<close>

definition same_table :: "proxy \<Rightarrow> proxy \<Rightarrow> bool" where
  "same_table p q \<longleftrightarrow> px_active q = px_active p \<and> px_cfg q = px_cfg p \<and>
     map sr_svc (px_routes q) = map sr_svc (px_routes p) \<and>
     map sr_matcher (px_routes q) = map sr_matcher (px_routes p) \<and>
     map (\<lambda>r. infos (sr_pool r)) (px_routes q) = map (\<lambda>r. infos (sr_pool r)) (px_routes p)"

lemma same_table_intros [wf_intros]:
  "same_table p p" "same_table p q \<Longrightarrow> same_table p (tally a b n q)"
  "infos po = infos (sr_pool (px_routes p ! i)) \<Longrightarrow> same_table p (set_pool i po p)"
  by (simp_all add: same_table_def) (simp add: set_pool_def map_list_update_same)

lemma same_table_reject [wf_intros]: "same_table p (snd (reject r p))"
  by (simp add: reject_def wf_intros)

lemma serve_route_frame:
  assumes "px_routes p ! i = route"
  shows "same_table p (snd (serve_route en host raw i route p))"
proof -
  obtain r po where d: "dial (pe_rnd en) (pe_net en) (sr_pool route) = (r, po)" by fastforce
  have "same_table p (set_pool i po p)"
    using infos_dial [of "pe_rnd en" "pe_net en" "sr_pool route"] d assms by (intro wf_intros) simp
  then show ?thesis
    by (cases r) (auto simp: serve_route_def Let_def d intro: wf_intros)
qed

lemma dohForward_frame: "dohForward en host raw p = Some (r, q) \<Longrightarrow> same_table p q"
  by (auto simp: dohForward_def intro: wf_intros split: if_splits)

lemma serve_conn_frame: "same_table p (snd (serve_conn lib cfg en p))"
proof -
  obtain res raw rest where pk:
    "PeekSNI (uni_lower lib) (pe_stream en) (ic_max_pre_read_bytes (settings (nc_ingress cfg))) = (res, raw, rest)"
    using prod_cases3 by blast
  show ?thesis
  proof (cases res)
    case (Inr sni)
    show ?thesis
    proof (cases "normalize_host lib sni")
      case h: (Inr host)
      show ?thesis
      proof (cases "proxy_lookup lib p host")
        case None
        then show ?thesis using dohForward_frame [of en host raw p]
          by (cases "dohForward en host raw p") (auto simp: serve_conn_def pk Inr h wf_intros)
      next
        case (Some x)
        then show ?thesis using serve_route_frame proxy_lookup_Some
          by (cases x) (simp add: serve_conn_def pk Inr h)
      qed
    qed (simp add: serve_conn_def pk Inr wf_intros)
  qed (simp add: serve_conn_def pk wf_intros)
qed

lemma serve_route_Proxied:
  assumes "serve_route en host raw i route p = (Proxied j t h port raw', p')"
  shows "j = i \<and> h = host \<and> raw' = raw \<and> port = conn_port en \<and>
    portAllowed (sv_allowed_ports (sr_svc route)) port \<and>
    fst (dial (pe_rnd en) (pe_net en) (sr_pool route)) = Connected t"
  using assms by (auto simp: serve_route_def reject_def Let_def split: prod.splits dial_result.splits if_splits)

lemma not_Proxied: "fst (reject r p) \<noteq> Proxied i t host port raw" "dohForward en h w p \<noteq> Some (Proxied i t host port raw, q)"
  by (auto simp: reject_def dohForward_def)

lemma serve_conn_Proxied:
  assumes "serve_conn lib cfg en p = (Proxied i t host port raw, p')"
  obtains sni rest route where
    "PeekSNI (uni_lower lib) (pe_stream en) (ic_max_pre_read_bytes (settings (nc_ingress cfg))) = (Inr sni, raw, rest)"
    and "normalize_host lib sni = Inr host" and "proxy_lookup lib p host = Some (i, route)"
    and "port = conn_port en" and "portAllowed (sv_allowed_ports (sr_svc route)) port"
    and "fst (dial (pe_rnd en) (pe_net en) (sr_pool route)) = Connected t"
proof -
  obtain res raw0 rest where pk:
    "PeekSNI (uni_lower lib) (pe_stream en) (ic_max_pre_read_bytes (settings (nc_ingress cfg))) = (res, raw0, rest)"
    using prod_cases3 by blast
  from assms obtain sni where sni: "res = Inr sni"
    using not_Proxied(1) by (cases res) (auto simp: serve_conn_def pk, metis fst_conv)
  from assms obtain h where h: "normalize_host lib sni = Inr h"
    using not_Proxied(1) by (cases "normalize_host lib sni") (auto simp: serve_conn_def pk sni, metis fst_conv)
  from assms obtain j route where l: "proxy_lookup lib p h = Some (j, route)"
    using not_Proxied
    by (cases "proxy_lookup lib p h") (auto simp: serve_conn_def pk sni h split: option.splits, metis fst_conv)
  from assms have "serve_route en h raw0 j route p = (Proxied i t host port raw, p')"
    by (simp add: serve_conn_def pk sni h l)
  from serve_route_Proxied [OF this] pk sni h l that show thesis by blast
qed

lemma handle_proxy_Proxied:
  assumes "handle_proxy lib en p = (Proxied i t host port raw, p')"
  obtains cfg p2 where "px_cfg p = Some cfg" and "px_active p < px_max_sess p"
    and "serve_conn lib cfg en (enter_proxy p) = (Proxied i t host port raw, p2)"
  using assms by (auto simp: handle_proxy_def reject_def Let_def split: prod.splits option.splits if_splits)

lemma match_of_specificity: "0 \<le> specificity lib m h \<Longrightarrow> match_host lib m h"
  using specificity_neg [of lib m h] by auto

text \<open>The proxy runs a configuration: its table is the compiled form of the services.\<close>

definition runs_config :: "domain_lib \<Rightarrow> node_config \<Rightarrow> proxy \<Rightarrow> bool" where
  "runs_config lib c p \<longleftrightarrow> px_cfg p = Some c \<and> map sr_svc (px_routes p) = nc_services c \<and>
     map sr_matcher (px_routes p) = map (\<lambda>s. compile_set lib (sv_match s)) (nc_services c) \<and>
     map (\<lambda>r. set (infos (sr_pool r))) (px_routes p) = map (\<lambda>s. set (ep_targets (sv_egress s))) (nc_services c)"

lemma runs_config_Apply: "runs_config lib c (Apply_proxy lib nl c p)"
  by (simp add: runs_config_def Apply_proxy_def Let_def comp_def set_infos_newPool)

lemma runs_config_same: "same_table p q \<Longrightarrow> runs_config lib c p \<Longrightarrow> runs_config lib c q"
proof -
  assume s: "same_table p q" and r: "runs_config lib c p"
  have "map (\<lambda>r. set (infos (sr_pool r))) (px_routes q) = map (\<lambda>r. set (infos (sr_pool r))) (px_routes p)"
    using s map_map [of set "\<lambda>r. infos (sr_pool r)"] unfolding same_table_def comp_def by metis
  with s r show "runs_config lib c q" by (simp add: runs_config_def same_table_def)
qed

lemma handle_proxy_frame: "same_table p (snd (handle_proxy lib en p))"
proof (cases "px_active p + 1 > px_max_sess p")
  case True
  then show ?thesis by (simp add: handle_proxy_def Let_def reject_def same_table_def)
next
  case False
  show ?thesis
  proof (cases "px_cfg p")
    case None
    with False show ?thesis by (simp add: handle_proxy_def Let_def same_table_def)
  next
    case (Some cfg)
    obtain r q where q: "serve_conn lib cfg en (enter_proxy p) = (r, q)" by fastforce
    from serve_conn_frame [of "enter_proxy p" lib cfg en] q have "same_table (enter_proxy p) q" by simp
    with False Some q show ?thesis by (simp add: handle_proxy_def Let_def same_table_def)
  qed
qed

lemma runs_config_route:
  assumes "runs_config lib c p" and "i < length (px_routes p)"
  shows "i < length (nc_services c)" and "sr_svc (px_routes p ! i) = nc_services c ! i"
    and "sr_matcher (px_routes p ! i) = compile_set lib (sv_match (nc_services c ! i))"
    and "set (infos (sr_pool (px_routes p ! i))) = set (ep_targets (sv_egress (nc_services c ! i)))"
proof -
  from assms(1) have l: "map sr_svc (px_routes p) = nc_services c"
    "map sr_matcher (px_routes p) = map (\<lambda>s. compile_set lib (sv_match s)) (nc_services c)"
    "map (\<lambda>r. set (infos (sr_pool r))) (px_routes p) = map (\<lambda>s. set (ep_targets (sv_egress s))) (nc_services c)"
    by (simp_all add: runs_config_def)
  then have "length (px_routes p) = length (nc_services c)" by (metis length_map)
  with assms(2) show i: "i < length (nc_services c)" by simp
  show "sr_svc (px_routes p ! i) = nc_services c ! i" using l(1) assms(2) by (metis nth_map)
  show "sr_matcher (px_routes p ! i) = compile_set lib (sv_match (nc_services c ! i))"
    using l(2) assms(2) i by (metis (no_types, lifting) nth_map)
  show "set (infos (sr_pool (px_routes p ! i))) = set (ep_targets (sv_egress (nc_services c ! i)))"
    using l(3) assms(2) i by (metis (no_types, lifting) nth_map)
qed

section \<open>Properties\<close>


definition demo_hello :: hello where
  "demo_hello = \<lparr>ch_head = replicate 34 0, ch_session = [], ch_ciphers = [], ch_compression = [], ch_exts = [],
     ch_names = [], ch_host = bytes_of_string ''x.tv.a.com'', ch_names_rest = [], ch_sni_rest = [], ch_exts_rest = [],
     ch_hs_rest = [], ch_record_rest = []\<rparr>"

definition demo_raw :: bytes where
  "demo_raw = 0x16 # 0x03 # 0x01 # vec16 (enc_body demo_hello)"

definition demo_ingress :: node_config where
  "demo_ingress = zero_config\<lparr>nc_services := [(demo_svc ''tv'' ''tv.a.com'' 1)
     \<lparr>sv_egress := zero_policy\<lparr>ep_targets := [\<lparr>et_node_id = ''e1'', et_name = ''e1'', et_endpoint = ''e1:443'',
        et_sni = ''e1'', et_priority = 0, et_weight = 1\<rparr>]\<rparr>\<rparr>]\<rparr>"

definition demo_proxy :: proxy where
  "demo_proxy = New_proxy plain_lib plain_net demo_ingress"

definition demo_penv :: proxy_env where
  "demo_penv = \<lparr>pe_stream = demo_raw @ [1, 2], pe_local_port = Some 443, pe_rnd = (\<lambda>_ _. 0),
     pe_net = (\<lambda>_. \<lparr>at_error = None, at_elapsed = 0, at_now = 0\<rparr>), pe_write_ok = True, pe_doh_dial = False,
     pe_doh_write = False, pe_spliced = (0, 0)\<rparr>"

lemma demo_hello_lengths: "length (enc_names demo_hello) = 13" "length (enc_sni demo_hello) = 15"
  "length (enc_exts demo_hello) = 19" "length (enc_handshake demo_hello) = 59" "length (enc_body demo_hello) = 63"
  by (simp_all add: enc_body_def enc_handshake_def enc_exts_def enc_sni_def enc_names_def enc_ext_def enc_name_def demo_hello_def)

lemma demo_peek: "PeekSNI u (demo_raw @ [1, 2]) 16384 = (Inr ''x.tv.a.com'', demo_raw, [1, 2])"
proof -
  have ok: "hello_ok demo_hello"
    unfolding hello_ok_def demo_hello_lengths by (simp add: demo_hello_def)
  have l: "to_lower u ''x.tv.a.com'' = ''x.tv.a.com''" by code_simp
  have "ch_host demo_hello = bytes_of_string ''x.tv.a.com''" by (simp add: demo_hello_def)
  then have "parseClientHello u (enc_body demo_hello) = Inr ''x.tv.a.com''"
    using parse_hello_enc [OF ok, of u] l by simp
  from PeekSNI_enc [OF this, of 16384 1 "[1, 2]"] show ?thesis by (simp add: demo_raw_def demo_hello_lengths)
qed

lemma demo_proxied: "fst (handle_proxy plain_lib demo_penv demo_proxy) = Proxied 0 0 ''x.tv.a.com'' 443 demo_raw"
proof -
  have n: "normalize_host plain_lib ''x.tv.a.com'' = Inr ''x.tv.a.com''" by code_simp
  have sp: "specificity plain_lib (compile_set plain_lib (sv_match (demo_svc ''tv'' ''tv.a.com'' 1))) ''x.tv.a.com'' = 99"
    by code_simp
  show ?thesis
    by (simp add: handle_proxy_def serve_conn_def demo_penv_def demo_proxy_def New_proxy_def Apply_proxy_def Let_def
        demo_ingress_def zero_proxy_def zero_config_def settings_def zero_ingress_def demo_peek n proxy_lookup_def
        best_indexed_def enter_proxy_def sp serve_route_def conn_port_def portAllowed_def dial_def order_def
        newPool_def prev_pool_def fresh_target_def snapshot_def zero_policy_def)
      (simp add: demo_svc_def zero_service_def)
qed


text \<open>
  Applying a configuration makes the proxy run it, and handling a connection, whatever
  its outcome, changes neither the configuration nor the table of services and gives back the
  session it counted: only pool health and counters move.
\<close>

theorem proxy_runs_its_config:
  "runs_config lib c (Apply_proxy lib nl c p) \<and>
   (runs_config lib c q \<longrightarrow> runs_config lib c (snd (handle_proxy lib en q))) \<and>
   px_active (snd (handle_proxy lib en q)) = px_active q"
  using runs_config_Apply runs_config_same [OF handle_proxy_frame] handle_proxy_frame [of q lib en]
  by (auto simp: same_table_def)

theorem proxy_runs_its_config_witness:
  "runs_config plain_lib demo_ingress (snd (handle_proxy plain_lib demo_penv demo_proxy)) \<and>
   px_active (snd (handle_proxy plain_lib demo_penv demo_proxy)) = 0"
proof -
  have r: "runs_config plain_lib demo_ingress demo_proxy"
    unfolding demo_proxy_def New_proxy_def by (rule runs_config_Apply)
  have "px_active demo_proxy = 0"
    by (simp add: demo_proxy_def New_proxy_def Apply_proxy_def zero_proxy_def Let_def)
  with r show ?thesis
    using proxy_runs_its_config [of plain_lib demo_ingress plain_net zero_proxy demo_proxy demo_penv] by simp
qed

text \<open>
  Property C19. The two routing tables of an ingress node agree: for one configuration, the service
  the DNS frontend answers a name with is the service the SNI proxy routes that name to.
\<close>

theorem dns_and_sni_agree:
  "Lookup lib (Apply_router lib nl c r) host =
     map_option (\<lambda>x. sr_svc (snd x)) (proxy_lookup lib (Apply_proxy lib nl' c p) host)"
proof -
  let ?routes = "px_routes (Apply_proxy lib nl' c p)"
  let ?f = "\<lambda>x :: nat \<times> svc_route. \<lparr>rr_svc = sr_svc (snd x), rr_matcher = sr_matcher (snd x)\<rparr>"
  have "map ?f (enumerate 0 ?routes) = map ((\<lambda>r. \<lparr>rr_svc = sr_svc r, rr_matcher = sr_matcher r\<rparr>) \<circ> snd) (enumerate 0 ?routes)"
    by (simp add: comp_def)
  also have "\<dots> = map (\<lambda>r. \<lparr>rr_svc = sr_svc r, rr_matcher = sr_matcher r\<rparr>) ?routes"
    by (simp only: map_map [symmetric] map_snd_enumerate)
  also have "\<dots> = rt_routes (Apply_router lib nl c r)"
    by (simp add: Apply_router_def Apply_proxy_def Let_def)
  finally have e: "map ?f (enumerate 0 ?routes) = rt_routes (Apply_router lib nl c r)" .
  have "best_entry lib host (map ?f (enumerate 0 ?routes)) = map_option ?f (best_indexed lib host (enumerate 0 ?routes))"
    by (rule dns_table.look_map) (simp_all add: sni_table.look_Nil sni_table.look_snoc cong: option.case_cong if_cong)
  then show ?thesis by (simp add: Lookup_def proxy_lookup_def e option.map_comp comp_def)
qed



text \<open>
  TLS stays end to end: when a proxied connection is spliced over conforming writers and
  both ends finish, what the egress receives after the CONNECT frame is a prefix of the client's
  byte stream, and the whole of it when no write to the egress fails.
\<close>

theorem proxied_stream_untouched:
  assumes "handle_proxy lib en p = (Proxied i t host port raw, p')"
    and "\<And>rest. pe_stream en = raw @ rest \<Longrightarrow> source_bytes from_client = rest"
    and "writer_ok wr_up" and "writer_ok wr_down"
    and "\<exists>e\<in>set from_client. snd e" and "\<exists>e\<in>set from_egress. snd e"
  shows "\<exists>ab n down u. Splice wr_up wr_down from_client from_egress = Some ((ab, n), down) \<and>
    pe_stream en = (raw @ ab) @ u \<and> ((\<forall>i d. \<not> snd (wr_up i d)) \<longrightarrow> u = [])"
proof -
  from assms(1) obtain cfg p2 where "serve_conn lib cfg en (enter_proxy p) = (Proxied i t host port raw, p2)"
    by (rule handle_proxy_Proxied)
  then obtain sni rest where
    "PeekSNI (uni_lower lib) (pe_stream en) (ic_max_pre_read_bytes (settings (nc_ingress cfg))) = (Inr sni, raw, rest)"
    by (rule serve_conn_Proxied)
  from PeekSNI_Inr [OF this] have st: "pe_stream en = raw @ rest" by blast
  obtain ab n where ab: "copy_loop wr_up 0 from_client [] 0 = Some (ab, n)" using copy_loop_ends [OF assms(5)] by fastforce
  obtain down where d: "copy_loop wr_down 0 from_egress [] 0 = Some down" using copy_loop_ends [OF assms(6)] by fastforce
  from copy_loop_transparent [OF assms(3) ab] obtain u where
    "source_bytes from_client = ab @ u" "(\<forall>i d. \<not> snd (wr_up i d)) \<longrightarrow> u = []" by auto
  with ab d st assms(2) [OF st] show ?thesis
    by (intro exI [of _ ab] exI [of _ n] exI [of _ down] exI [of _ u]) (simp add: Splice_def)
qed

theorem proxied_stream_untouched_witness:
  "\<exists>ab n down u. Splice (\<lambda>i d. (length d, False)) (\<lambda>i d. (length d, False)) [([1, 2], True)] [([], True)] = Some ((ab, n), down) \<and>
    pe_stream demo_penv = (demo_raw @ ab) @ u"
proof -
  obtain p' where h: "handle_proxy plain_lib demo_penv demo_proxy = (Proxied 0 0 ''x.tv.a.com'' 443 demo_raw, p')"
    using demo_proxied by (metis prod.collapse)
  have w: "writer_ok (\<lambda>i d. (length d, False))" by (simp add: writer_ok_def)
  show ?thesis
    using proxied_stream_untouched [OF h _ w w, of "[([1, 2], True)]" "[([], True)]"] by (auto simp: demo_penv_def)
qed

end
