(* ===== verification/Egress_Relay.thy ===== *)
theory Egress_Relay
  imports Artifact_Model Net_Guard Tunnel_Frame Session_Gate
begin

text \<open>
  The egress relay (\<open>node/relay/relay.go\<close>): it authenticates an ingress peer, reads one CONNECT frame,
  checks host and port against the compiled allowlist, resolves the host itself, dials the first
  address that the IP guard and the network accept, and splices. \<open>relay_env\<close> holds what a connection
  and the network do; the resolver configured for the relay selects the \<open>net_lib\<close> that answers its
  lookups. Counters are recorded as a list of increments.
\<close>

record relay =
  rl_allow :: "matcher option"
  rl_ports :: "int set"
  rl_resolver :: string                  \<comment> \<open>empty: \<open>net.DefaultResolver\<close>\<close>
  rl_cfg :: egress_config
  rl_active :: int
  rl_max_sess :: int
  rl_counters :: "(string \<times> string list \<times> int) list"

definition zero_relay :: relay where
  "zero_relay = \<lparr>rl_allow = None, rl_ports = {}, rl_resolver = [], rl_cfg = zero_egress, rl_active = 0,
     rl_max_sess = 0, rl_counters = []\<rparr>"

definition Apply_relay :: "domain_lib \<Rightarrow> node_config \<Rightarrow> relay \<Rightarrow> relay" where
  "Apply_relay lib c r =
     (let ports0 = set (ec_allowed_ports (nc_egress c));
          ports = (if ports0 = {} then {443} else ports0);
          m = ec_max_sessions (nc_egress c)
      in r\<lparr>rl_allow := compile_set lib (ec_allow (nc_egress c)), rl_ports := ports,
           rl_resolver := ec_resolver (nc_egress c), rl_cfg := nc_egress c,
           rl_max_sess := (if m \<le> 0 then 10000 else m)\<rparr>)"

definition New_relay :: "domain_lib \<Rightarrow> node_config \<Rightarrow> relay" where
  "New_relay lib c = Apply_relay lib c zero_relay"

definition Allowed :: "domain_lib \<Rightarrow> relay \<Rightarrow> string \<Rightarrow> int \<Rightarrow> bool" where
  "Allowed lib r host port \<longleftrightarrow> port \<in> rl_ports r \<and> match_host lib (rl_allow r) host"

record relay_env =
  re_is_tls :: bool
  re_handshake_ok :: bool
  re_peer_certs :: "string list"         \<comment> \<open>common names\<close>
  re_conn :: conn
  re_nets :: "string \<Rightarrow> net_lib"          \<comment> \<open>the resolver by its configured address\<close>
  re_join :: "addr \<Rightarrow> int \<Rightarrow> string"       \<comment> \<open>\<open>net.JoinHostPort(a.String(), port)\<close>\<close>
  re_connect :: "addr \<Rightarrow> int \<Rightarrow> bool"       \<comment> \<open>whether the network connects\<close>
  re_spliced :: "int \<times> int"

datatype relay_outcome =
    RMaxSessions | RNotTLS | RHandshakeFailed | RNoClientCert | RBadFrame | RBadHost | RDenied
  | RResolveBlocked | RDialFailed | RStatusFailed
  | Relayed string int addr              \<comment> \<open>host, port and the address connected to\<close>

definition rtally :: "string \<Rightarrow> string list \<Rightarrow> int \<Rightarrow> relay \<Rightarrow> relay" where
  "rtally name labels n r = r\<lparr>rl_counters := rl_counters r @ [(name, labels, n)]\<rparr>"

definition rresult :: "string \<Rightarrow> relay \<Rightarrow> relay" where
  "rresult res r = rtally ''smartdns_egress_requests_total'' [''result'', res] 1 r"

text \<open>The loop over the resolved addresses, with the hook of the guarded dialer.\<close>

fun dial_first :: "(string \<Rightarrow> guard_error option) option \<Rightarrow> (addr \<Rightarrow> int \<Rightarrow> string) \<Rightarrow> (addr \<Rightarrow> int \<Rightarrow> bool) \<Rightarrow> int
    \<Rightarrow> addr list \<Rightarrow> addr option" where
  "dial_first d join connect port [] = None"
| "dial_first d join connect port (a # as) =
     (if dial_permitted d (join a port) \<and> connect a port then Some a else dial_first d join connect port as)"

definition enter_relay :: "relay \<Rightarrow> relay" where
  "enter_relay r = r\<lparr>rl_active := rl_active r + 1\<rparr>"

definition leave_relay :: "relay \<Rightarrow> relay" where
  "leave_relay r = r\<lparr>rl_active := rl_active r - 1\<rparr>"

text \<open>From the resolution on: the host passed the allowlist.\<close>

definition connect_out :: "relay_env \<Rightarrow> string \<Rightarrow> int \<Rightarrow> conn \<Rightarrow> relay \<Rightarrow> relay_outcome \<times> conn \<times> relay" where
  "connect_out en host port c r =
     (let cfg = rl_cfg r; nl = re_nets en (rl_resolver r); lab = ec_allow_private_destinations cfg in
      case resolve nl host lab of
        Inl _ \<Rightarrow> (RResolveBlocked, snd (WriteStatus c StatusDNS), rresult ''resolve_blocked'' r)
      | Inr addrs \<Rightarrow>
          (case dial_first (safe_dialer_policy nl lab) (re_join en) (re_connect en) port addrs of
             None \<Rightarrow> (RDialFailed, snd (WriteStatus c StatusDial), rresult ''dial_failed'' r)
           | Some a \<Rightarrow>
               (case WriteStatus c StatusOK of
                  (False, c') \<Rightarrow> (RStatusFailed, c', r)
                | (True, c') \<Rightarrow>
                    (Relayed host port a, c',
                     rtally ''smartdns_egress_bytes_total'' [''direction'', ''in''] (snd (re_spliced en))
                      (rtally ''smartdns_egress_bytes_total'' [''direction'', ''out''] (fst (re_spliced en))
                        (rresult ''ok'' r))))))"

definition serve_peer :: "domain_lib \<Rightarrow> relay_env \<Rightarrow> relay \<Rightarrow> relay_outcome \<times> conn \<times> relay" where
  "serve_peer lib en r =
     (let c = re_conn en in
      if \<not> re_is_tls en then (RNotTLS, c, rresult ''not_tls'' r)
      else if \<not> re_handshake_ok en then (RHandshakeFailed, c, rresult ''handshake_failed'' r)
      else if length (re_peer_certs en) = 0 then (RNoClientCert, c, rresult ''no_client_cert'' r)
      else case ReadConnect c of
        (Inl _, c1) \<Rightarrow> (RBadFrame, c1, rresult ''bad_frame'' r)
      | (Inr (host0, port), c1) \<Rightarrow>
          (case normalize_host lib host0 of
             Inl _ \<Rightarrow> (RBadHost, snd (WriteStatus c1 StatusDenied), rresult ''bad_host'' r)
           | Inr host \<Rightarrow>
               if \<not> Allowed lib r host port
               then (RDenied, snd (WriteStatus c1 StatusDenied), rresult ''denied'' r)
               else connect_out en host port c1 r))"

definition handle_relay :: "domain_lib \<Rightarrow> relay_env \<Rightarrow> relay \<Rightarrow> relay_outcome \<times> conn \<times> relay" where
  "handle_relay lib en r =
     (let r1 = enter_relay r in
      if rl_active r1 > rl_max_sess r then (RMaxSessions, re_conn en, rresult ''max_sessions'' (leave_relay r1))
      else case serve_peer lib en r1 of (out, c, r2) \<Rightarrow> (out, c, leave_relay r2))"

section \<open>The gate meets its contract\<close>

definition reconf_relay :: "domain_lib \<times> node_config \<Rightarrow> relay \<Rightarrow> relay" where
  "reconf_relay x = (case x of (lib, c) \<Rightarrow> Apply_relay lib c)"

interpretation relay_gate: session_gate rl_active rl_max_sess enter_relay leave_relay reconf_relay
  by unfold_locales (auto simp: enter_relay_def leave_relay_def reconf_relay_def Apply_relay_def Let_def)

section \<open>Lemmas\<close>

lemma relay_fields [simp]:
  "rl_allow (rtally a b n r) = rl_allow r" "rl_ports (rtally a b n r) = rl_ports r" "rl_cfg (rtally a b n r) = rl_cfg r"
  "rl_active (rtally a b n r) = rl_active r" "rl_max_sess (rtally a b n r) = rl_max_sess r"
  "rl_resolver (rtally a b n r) = rl_resolver r"
  by (simp_all add: rtally_def)

lemma gate_relay_fields [simp]:
  "rl_allow (enter_relay r) = rl_allow r" "rl_ports (enter_relay r) = rl_ports r" "rl_cfg (enter_relay r) = rl_cfg r"
  "rl_resolver (enter_relay r) = rl_resolver r" "rl_active (enter_relay r) = rl_active r + 1"
  "rl_active (leave_relay r) = rl_active r - 1"
  by (simp_all add: enter_relay_def leave_relay_def)

lemma Allowed_enter [simp]: "Allowed lib (enter_relay r) host port = Allowed lib r host port"
  by (simp add: Allowed_def)

lemma dial_first_Some:
  "dial_first d join connect port as = Some a \<Longrightarrow> a \<in> set as \<and> dial_permitted d (join a port) \<and> connect a port"
  by (induction as) (auto split: if_splits)

lemma dial_first_None:
  "dial_first d join connect port as = None \<longleftrightarrow> (\<forall>a\<in>set as. \<not> (dial_permitted d (join a port) \<and> connect a port))"
  by (induction as) auto

lemma handle_relay_Relayed:
  assumes "handle_relay lib en r = (Relayed host port a, c', r')"
  obtains host0 c1 addrs where "re_is_tls en" and "re_handshake_ok en" and "re_peer_certs en \<noteq> []"
    and "rl_active r < rl_max_sess r"
    and "ReadConnect (re_conn en) = (Inr (host0, port), c1)" and "normalize_host lib host0 = Inr host"
    and "Allowed lib r host port"
    and "resolve (re_nets en (rl_resolver r)) host (ec_allow_private_destinations (rl_cfg r)) = Inr addrs"
    and "dial_first (safe_dialer_policy (re_nets en (rl_resolver r)) (ec_allow_private_destinations (rl_cfg r)))
           (re_join en) (re_connect en) port addrs = Some a"
    and "WriteStatus c1 StatusOK = (True, c')"
  using assms
  by (auto simp: handle_relay_def serve_peer_def connect_out_def Let_def
      split: prod.splits sum.splits option.splits if_splits bool.splits)

lemma handle_relay_frame:
  "rl_active (snd (snd (handle_relay lib en r))) = rl_active r"
  by (auto simp: handle_relay_def serve_peer_def connect_out_def rresult_def Let_def
      split: prod.splits sum.splits option.splits bool.splits)

text \<open>The bytes each outcome sends to the peer.\<close>

definition status_of :: "relay_outcome \<Rightarrow> bytes" where
  "status_of out = (case out of
     Relayed _ _ _ \<Rightarrow> [StatusOK] | RBadHost \<Rightarrow> [StatusDenied] | RDenied \<Rightarrow> [StatusDenied]
   | RResolveBlocked \<Rightarrow> [StatusDNS] | RDialFailed \<Rightarrow> [StatusDial] | _ \<Rightarrow> [])"

section \<open>Properties\<close>


definition demo_egress :: node_config where
  "demo_egress = zero_config\<lparr>nc_egress := zero_egress\<lparr>ec_allow := new_set [Entry KindSuffix ''example'']\<rparr>\<rparr>"

definition demo_renv :: relay_env where
  "demo_renv = \<lparr>re_is_tls = True, re_handshake_ok = True, re_peer_certs = [''ingress''],
     re_conn = \<lparr>cn_in = connect_frame ''mix.example'' 443, cn_out = [], cn_writable = True\<rparr>,
     re_nets = (\<lambda>_. plain_net), re_join = (\<lambda>a p. ''8.8.8.8:443''), re_connect = (\<lambda>_ _. True), re_spliced = (0, 0)\<rparr>"

lemma demo_relayed:
  "\<exists>c' r'. handle_relay plain_lib demo_renv (Apply_relay plain_lib demo_egress zero_relay) =
     (Relayed ''mix.example'' 443 (AddrV4 0x08080808), c', r')"
proof -
  have rd: "ReadConnect \<lparr>cn_in = connect_frame ''mix.example'' 443, cn_out = [], cn_writable = True\<rparr> =
      (Inr (''mix.example'', 443), \<lparr>cn_in = [], cn_out = [], cn_writable = True\<rparr>)"
    using ReadConnect_frame [where host = "''mix.example''" and port = 443 and rest = "[]"
        and c = "\<lparr>cn_in = [], cn_out = [], cn_writable = True\<rparr>"] by simp
  have n: "normalize_host plain_lib ''mix.example'' = Inr ''mix.example''" by code_simp
  have m: "match_host plain_lib (compile_set plain_lib (new_set [Entry KindSuffix ''example''])) ''mix.example''"
    by code_simp
  have b: "\<not> is_blocked (AddrV4 0x08080808)" "is_blocked (AddrV4 0x7F000001)"
    by (simp_all add: is_blocked_v4 v4_ranges_def)
  have rs: "resolve plain_net ''mix.example'' False = Inr [AddrV4 0x08080808]"
    using b by (simp add: resolve_def plain_net_def)
  have pm: "dial_permitted (safe_dialer_policy plain_net False) ''8.8.8.8:443''"
    using b by (simp add: safe_dialer_policy_def dial_permitted_def control_def plain_net_def)
  show ?thesis
    by (simp add: handle_relay_def serve_peer_def demo_renv_def rd n Allowed_def Apply_relay_def demo_egress_def
        zero_egress_def zero_relay_def m enter_relay_def connect_out_def rs pm Let_def WriteStatus_def conn_write_def)
qed


text \<open>
  What the peer is told matches what was done: on a writable connection whose frame
  parsed, the one status byte written is 0 exactly when the destination was connected, 1 when host
  or port was refused, 2 when resolution failed or left only blocked addresses, 3 when no address
  could be dialled; and every outcome gives back the session it counted.
\<close>

theorem relay_status_matches_outcome:
  assumes "cn_writable (re_conn en)" and "handle_relay lib en r = (out, c', r')"
  shows "cn_out c' = cn_out (re_conn en) @ status_of out \<and> out \<noteq> RStatusFailed \<and> rl_active r' = rl_active r"
proof -
  have rc: "cn_out c1 = cn_out (re_conn en)" "cn_writable c1" if "ReadConnect (re_conn en) = (x, c1)" for x c1
    using that assms(1)
    by (auto simp: ReadConnect_def conn_read_full_def read_full_def Let_def split: if_splits)
  have "rl_active r' = rl_active r" using handle_relay_frame [of lib en r] assms(2) by simp
  with rc assms show ?thesis
    by (auto simp: handle_relay_def serve_peer_def connect_out_def status_of_def WriteStatus_def conn_write_def Let_def
        split: prod.splits sum.splits option.splits if_splits bool.splits)
qed

theorem relay_status_matches_outcome_witness:
  "\<exists>c' r'. handle_relay plain_lib demo_renv (Apply_relay plain_lib demo_egress zero_relay) =
     (Relayed ''mix.example'' 443 (AddrV4 0x08080808), c', r') \<and> cn_out c' = [0] \<and> rl_active r' = 0"
proof -
  obtain c' r' where h: "handle_relay plain_lib demo_renv (Apply_relay plain_lib demo_egress zero_relay) =
     (Relayed ''mix.example'' 443 (AddrV4 0x08080808), c', r')" using demo_relayed by blast
  have w: "cn_writable (re_conn demo_renv)" by (simp add: demo_renv_def)
  from relay_status_matches_outcome [OF w h] h show ?thesis
    by (simp add: status_of_def StatusOK_def demo_renv_def Apply_relay_def zero_relay_def Let_def)
qed

text \<open>
  Relay sessions respect the limit in force under every interleaving of handlers and
  configuration changes, and the session counter is exact.
\<close>

theorem egress_sessions_bounded:
  assumes "(gate_step rl_active rl_max_sess enter_relay leave_relay reconf_relay)\<^sup>*\<^sup>* (New_relay lib c, 0, 0) (r, ov, run)"
    and "gate_step rl_active rl_max_sess enter_relay leave_relay reconf_relay (r, ov, run) (r', ov', Suc run)"
  shows "int (Suc run) \<le> rl_max_sess r' \<and> rl_active r' = int ov' + int (Suc run)"
proof -
  have "rl_active (New_relay lib c) = 0" by (simp add: New_relay_def Apply_relay_def zero_relay_def Let_def)
  from relay_gate.admission_bounded [OF assms(1) this assms(2)] show ?thesis .
qed

theorem egress_sessions_bounded_witness:
  "int (Suc 0) \<le> rl_max_sess (enter_relay (New_relay plain_lib demo_egress)) \<and>
   rl_active (enter_relay (New_relay plain_lib demo_egress)) = int 0 + int (Suc 0)"
proof -
  have l: "rl_active (enter_relay (New_relay plain_lib demo_egress)) \<le> rl_max_sess (New_relay plain_lib demo_egress)"
    by (simp add: New_relay_def Apply_relay_def zero_relay_def demo_egress_def zero_egress_def Let_def)
  have st: "gate_step rl_active rl_max_sess enter_relay leave_relay reconf_relay
      (New_relay plain_lib demo_egress, 0, 0) (enter_relay (New_relay plain_lib demo_egress), 0, Suc 0)"
    using l by (rule gate_step.admit)
  show ?thesis
    by (rule egress_sessions_bounded [OF _ st, where lib = plain_lib and c = demo_egress]) simp
qed

end
