(* ===== verification/Config_Compiler.thy ===== *)
theory Config_Compiler
  imports Egress_Relay DNS_Router
begin

text \<open>
  The revision compiler (\<open>panel/internal/compiler/compile.go\<close>): it turns the desired state into one
  configuration per node. Maps from node ids are functions to options, or to lists and sets where
  the code appends to the zero value. Where the code ranges over a Go map the order is unspecified;
  the model takes the order of first insertion, and every list built that way is then sorted.
  Warnings are a datatype with the service or node they name.
\<close>

section \<open>Input and output\<close>

record egress_member =
  em_node_id :: string
  em_priority :: int
  em_weight :: int

record service_input =
  si_id :: string
  si_slug :: string
  si_name :: string
  si_priority :: int
  si_ttl :: u32
  si_allowed_ports :: "int list"
  si_udp_mode :: string
  si_entries :: "entry list"
  si_rule_set_hash :: string
  si_ingress_nodes :: "string list"
  si_ingress_mode :: string
  si_egress_members :: "egress_member list"
  si_egress_mode :: string
  si_policy :: egress_policy

record node_input =
  ni_id :: string
  ni_name :: string
  ni_role :: string
  ni_public_ipv4 :: string
  ni_public_ipv6 :: string
  ni_relay_endpoint :: string
  ni_relay_sni :: string
  ni_eligible :: bool

record compile_input =
  ci_revision_id :: string
  ci_sequence :: int
  ci_services :: "service_input list"
  ci_nodes :: "node_input list"
  ci_dns :: dns_config
  ci_ingress :: ingress_config
  ci_egress_tuning :: egress_config
  ci_min_agent_ver :: string
  ci_lab_mode :: bool
  ci_log_level :: string
  ci_signing_key :: bytes

record summary =
  su_services :: nat
  su_ingress_nodes :: nat
  su_egress_nodes :: nat
  su_total_rules :: nat
  su_rules_by_service :: "string \<rightharpoonup> nat"
  su_lab_mode :: bool

datatype warning =
    EmptyRuleSet string
  | NoIngressV4 string
  | NoRelayEndpoint string
  | EmptyAllowlist string

record compile_output =
  co_manifest :: manifest
  co_artifacts :: "string \<rightharpoonup> bytes"
  co_configs :: "string \<rightharpoonup> node_config"
  co_warnings :: "warning list"
  co_summary :: summary

record conflict =
  cf_value :: string
  cf_kind :: string
  cf_services :: "string list"
  cf_priority :: int

datatype compile_error =
    RevisionRequired
  | ConflictError "conflict list"
  | NoEgressFor string                    \<comment> \<open>service without a usable egress node\<close>
  | UnknownRole string string
  | RenderFailed string

section \<open>Helpers\<close>

definition clampTTL :: "u32 \<Rightarrow> u32" where
  "clampTTL t = (if t < 30 then 30 else if t > 300 then 300 else t)"

definition portsOrDefault :: "int list \<Rightarrow> int list" where
  "portsOrDefault p = (if length p = 0 then [443] else sort p)"

definition orDefault :: "string \<Rightarrow> string \<Rightarrow> string" where
  "orDefault v d = (if v = [] then d else v)"

text \<open>Who claims an entry: the owners in the order of the services, one per occurrence.\<close>

definition owners :: "service_input list \<Rightarrow> entry \<Rightarrow> (string \<times> int) list" where
  "owners svcs e = concat (map (\<lambda>s. map (\<lambda>_. (si_slug s, si_priority s)) (filter (\<lambda>x. x = e) (si_entries s))) svcs)"

fun top_priority :: "int \<Rightarrow> (string \<times> int) list \<Rightarrow> int" where
  "top_priority tp [] = tp"
| "top_priority tp (w # os) = top_priority (if snd w > tp then snd w else tp) os"

definition conflict_of :: "service_input list \<Rightarrow> entry \<Rightarrow> conflict option" where
  "conflict_of svcs e =
     (let os = owners svcs e in
      if length os < 2 then None
      else let tp = top_priority (snd (os ! 0)) os;
               tied = map fst (filter (\<lambda>w. snd w = tp) os)
           in if length tied > 1
              then Some \<lparr>cf_value = Value e, cf_kind = Kind e, cf_services = sort tied, cf_priority = tp\<rparr>
              else None)"

definition detectConflicts :: "service_input list \<Rightarrow> conflict list" where
  "detectConflicts svcs =
     sort_key cf_value (List.map_filter (conflict_of svcs) (keep_first {} (concat (map si_entries svcs))))"

definition servicesForIngress :: "service list \<Rightarrow> string \<Rightarrow> service_input list \<Rightarrow> service list" where
  "servicesForIngress all nodeID inputs =
     filter (\<lambda>s. list_ex (\<lambda>i. si_slug i = sv_slug s \<and> list_ex (\<lambda>id. id = nodeID) (si_ingress_nodes i)) inputs) all"

section \<open>Services\<close>

type_synonym node_map = "string \<rightharpoonup> node_input"

definition node_map_of :: "node_input list \<Rightarrow> node_map" where
  "node_map_of ns = foldl (\<lambda>m n. m(ni_id n \<mapsto> n)) Map.empty ns"

text \<open>What the loop over the services accumulates.\<close>

record compile_acc =
  ca_compiled :: "service list"
  ca_allow :: "string \<Rightarrow> entry list"
  ca_ports :: "string \<Rightarrow> int set"
  ca_warnings :: "warning list"
  ca_rules :: "string \<rightharpoonup> nat"
  ca_total :: nat

definition empty_acc :: compile_acc where
  "empty_acc = \<lparr>ca_compiled = [], ca_allow = (\<lambda>_. []), ca_ports = (\<lambda>_. {}), ca_warnings = [], ca_rules = Map.empty,
     ca_total = 0\<rparr>"

definition ingress_ips :: "node_map \<Rightarrow> (node_input \<Rightarrow> string) \<Rightarrow> string list \<Rightarrow> string list" where
  "ingress_ips nodes ip ids =
     List.map_filter (\<lambda>id. case nodes id of
        None \<Rightarrow> None
      | Some n \<Rightarrow> if \<not> ni_eligible n then None else if ip n \<noteq> [] then Some (ip n) else None) ids"

definition relay_endpoint :: "node_input \<Rightarrow> string" where
  "relay_endpoint n =
     (if ni_relay_endpoint n = [] \<and> ni_public_ipv4 n \<noteq> [] then ni_public_ipv4 n @ '':8443'' else ni_relay_endpoint n)"

text \<open>The loop over the egress members of a service.\<close>

fun compile_members :: "node_map \<Rightarrow> service_input \<Rightarrow> egress_member list \<Rightarrow> egress_target list \<Rightarrow> compile_acc
    \<Rightarrow> egress_target list \<times> compile_acc" where
  "compile_members nodes s [] targets acc = (targets, acc)"
| "compile_members nodes s (m # ms) targets acc =
     (case nodes (em_node_id m) of
        None \<Rightarrow> compile_members nodes s ms targets acc
      | Some n \<Rightarrow>
          if \<not> ni_eligible n then compile_members nodes s ms targets acc
          else let ep = relay_endpoint n in
            if ep = [] then
              compile_members nodes s ms targets
                (acc\<lparr>ca_warnings := ca_warnings acc @ [NoRelayEndpoint (ni_name n)]\<rparr>)
            else
              compile_members nodes s ms
                (targets @ [\<lparr>et_node_id = ni_id n, et_name = ni_name n, et_endpoint = ep,
                   et_sni = orDefault (ni_relay_sni n) (ni_name n), et_priority = em_priority m, et_weight = em_weight m\<rparr>])
                (acc\<lparr>ca_allow := (ca_allow acc)(ni_id n := ca_allow acc (ni_id n) @ si_entries s),
                     ca_ports := (ca_ports acc)(ni_id n := ca_ports acc (ni_id n) \<union> set (portsOrDefault (si_allowed_ports s)))\<rparr>))"

definition finish_policy :: "service_input \<Rightarrow> egress_target list \<Rightarrow> egress_policy" where
  "finish_policy s targets =
     (let p = si_policy s in
      p\<lparr>ep_mode := orDefault (si_egress_mode s) ''primary_fallback'',
        ep_targets := sort_key et_priority targets,
        ep_fail_threshold := (if ep_fail_threshold p = 0 then 3 else ep_fail_threshold p),
        ep_rise_threshold := (if ep_rise_threshold p = 0 then 2 else ep_rise_threshold p),
        ep_probe_interval := (if ep_probe_interval p = 0 then 30 else ep_probe_interval p)\<rparr>)"

text \<open>The warnings of a service, its compiled form, and its entry into the accumulator.\<close>

definition service_warnings :: "node_map \<Rightarrow> service_input \<Rightarrow> compile_acc \<Rightarrow> compile_acc" where
  "service_warnings nodes s acc0 =
     (let acc1 = (if length (si_entries s) = 0
                  then acc0\<lparr>ca_warnings := ca_warnings acc0 @ [EmptyRuleSet (si_slug s)]\<rparr> else acc0)
      in if length (ingress_ips nodes ni_public_ipv4 (si_ingress_nodes s)) = 0
         then acc1\<lparr>ca_warnings := ca_warnings acc1 @ [NoIngressV4 (si_slug s)]\<rparr> else acc1)"

definition compiled_service :: "node_map \<Rightarrow> service_input \<Rightarrow> egress_target list \<Rightarrow> service" where
  "compiled_service nodes s targets =
     \<lparr>sv_slug = si_slug s, sv_name = si_name s, sv_priority = si_priority s,
      sv_ttl = clampTTL (si_ttl s), sv_allowed_ports = portsOrDefault (si_allowed_ports s),
      sv_udp_mode = orDefault (si_udp_mode s) ''disabled_fallback'',
      sv_match = new_set (si_entries s), sv_rule_set_hash = si_rule_set_hash s,
      sv_ingress_v4 = sort (ingress_ips nodes ni_public_ipv4 (si_ingress_nodes s)),
      sv_ingress_v6 = sort (ingress_ips nodes ni_public_ipv6 (si_ingress_nodes s)),
      sv_egress = finish_policy s targets\<rparr>"

definition add_service :: "service_input \<Rightarrow> service \<Rightarrow> compile_acc \<Rightarrow> compile_acc" where
  "add_service s cs acc =
     acc\<lparr>ca_compiled := ca_compiled acc @ [cs],
         ca_rules := (ca_rules acc)(si_slug s \<mapsto> length (si_entries s)),
         ca_total := ca_total acc + length (si_entries s)\<rparr>"

definition compile_service :: "node_map \<Rightarrow> service_input \<Rightarrow> compile_acc \<Rightarrow> compile_error + compile_acc" where
  "compile_service nodes s acc =
     (case compile_members nodes s (si_egress_members s) [] (service_warnings nodes s acc) of (targets, acc') \<Rightarrow>
        if length targets = 0 then Inl (NoEgressFor (si_slug s))
        else Inr (add_service s (compiled_service nodes s targets) acc'))"

fun compile_services :: "node_map \<Rightarrow> service_input list \<Rightarrow> compile_acc \<Rightarrow> compile_error + compile_acc" where
  "compile_services nodes [] acc = Inr acc"
| "compile_services nodes (s # ss) acc =
     bindE (compile_service nodes s acc) (\<lambda>acc'. compile_services nodes ss acc')"

section \<open>Nodes\<close>

definition lab_note :: string where
  "lab_note = ''LAB MODE: private and loopback destinations are reachable; never use this configuration in production''"

definition aaaa_note :: string where
  "aaaa_note = ''AAAA publication disabled: this ingress has no IPv6 address''"

definition base_config :: "compile_input \<Rightarrow> node_input \<Rightarrow> node_config" where
  "base_config inp n = zero_config\<lparr>nc_schema_version := 1, nc_revision_id := ci_revision_id inp,
     nc_sequence := ci_sequence inp, nc_node_id := ni_id n, nc_node_name := ni_name n, nc_role := ni_role n,
     nc_log_level := ci_log_level inp\<rparr>"

text \<open>The configuration of one node before the lab note; \<open>compiled\<close> is sorted by slug.\<close>

definition role_config :: "compile_input \<Rightarrow> service list \<Rightarrow> compile_acc \<Rightarrow> node_input \<Rightarrow> compile_error + node_config" where
  "role_config inp compiled acc n =
     (let cfg = base_config inp n in
      if ni_role n = ''ingress'' then
        let off = dc_publish_aaaa (ci_dns inp) \<and> ni_public_ipv6 n = [] in
        Inr (cfg\<lparr>nc_services := servicesForIngress compiled (ni_id n) (ci_services inp),
                 nc_dns := (if off then (ci_dns inp)\<lparr>dc_publish_aaaa := False\<rparr> else ci_dns inp),
                 nc_ingress := ci_ingress inp,
                 nc_notes := (if off then [aaaa_note] else [])\<rparr>)
      else if ni_role n = ''egress'' then
        Inr (cfg\<lparr>nc_egress := (ci_egress_tuning inp)\<lparr>ec_allow := new_set (Merge (ca_allow acc (ni_id n)) []),
                   ec_allowed_ports := sorted_list_of_set (ca_ports acc (ni_id n)),
                   ec_allow_private_destinations := ci_lab_mode inp\<rparr>\<rparr>)
      else Inl (UnknownRole (ni_name n) (ni_role n)))"

definition node_config_for :: "compile_input \<Rightarrow> service list \<Rightarrow> compile_acc \<Rightarrow> node_input \<Rightarrow> compile_error + node_config" where
  "node_config_for inp compiled acc n =
     bindE (role_config inp compiled acc n) (\<lambda>cfg.
       Inr (if ci_lab_mode inp then cfg\<lparr>nc_notes := nc_notes cfg @ [lab_note]\<rparr> else cfg))"

fun compile_nodes :: "wire_lib \<Rightarrow> compile_input \<Rightarrow> service list \<Rightarrow> compile_acc \<Rightarrow> node_input list
    \<Rightarrow> (string \<rightharpoonup> bytes) \<times> (string \<rightharpoonup> node_config) \<Rightarrow> compile_error + (string \<rightharpoonup> bytes) \<times> (string \<rightharpoonup> node_config)" where
  "compile_nodes wl inp compiled acc [] out = Inr out"
| "compile_nodes wl inp compiled acc (n # ns) out =
     bindE (node_config_for inp compiled acc n) (\<lambda>cfg.
       case Canonical wl cfg of
         None \<Rightarrow> Inl (RenderFailed (ni_name n))
       | Some b \<Rightarrow> compile_nodes wl inp compiled acc ns ((fst out)(ni_id n \<mapsto> b), (snd out)(ni_id n \<mapsto> cfg)))"

definition ed25519_private_key_size :: nat where
  "ed25519_private_key_size = 64"

definition artifact_refs :: "wire_lib \<Rightarrow> (string \<rightharpoonup> bytes) \<Rightarrow> string list \<Rightarrow> artifact_ref list" where
  "artifact_refs wl arts ids =
     map (\<lambda>id. let b = the (arts id) in
        \<lparr>ar_node_id = id, ar_kind = ArtifactKind, ar_path = ''config.json'', ar_sha256 = SHA256Hex wl b, ar_size = int (length b)\<rparr>) ids"

definition model_hash_input :: "artifact_ref list \<Rightarrow> string" where
  "model_hash_input refs = concat (map (\<lambda>r. ar_node_id r @ '':'' @ ar_sha256 r @ [CHR 0x0A]) refs)"

definition build_manifest :: "wire_lib \<Rightarrow> int \<Rightarrow> compile_input \<Rightarrow> (string \<rightharpoonup> bytes) \<Rightarrow> manifest" where
  "build_manifest wl now inp arts =
     (let ids = sort (filter (\<lambda>id. arts id \<noteq> None) (keep_first {} (map ni_id (ci_nodes inp))));
          refs = artifact_refs wl arts ids;
          man = \<lparr>mf_revision_id = ci_revision_id inp, mf_sequence = ci_sequence inp, mf_created_at = now,
                 mf_compiler_version = CompilerVersion, mf_model_sha256 = SHA256Hex wl (bytes_of_string (model_hash_input refs)),
                 mf_min_agent_version = orDefault (ci_min_agent_ver inp) ''1.0.0'', mf_artifacts = refs, mf_signature = []\<rparr>
      in if length (ci_signing_key inp) = ed25519_private_key_size
         then man\<lparr>mf_signature := b64_encode (ed25519_sign wl (ci_signing_key inp) (SigningPayload wl man))\<rparr> else man)"

definition egress_warnings :: "compile_acc \<Rightarrow> node_input list \<Rightarrow> warning list" where
  "egress_warnings acc ns =
     map (\<lambda>n. EmptyAllowlist (ni_name n))
       (filter (\<lambda>n. ni_role n = ''egress'' \<and> length (Merge (ca_allow acc (ni_id n)) []) = 0) ns)"

definition Compile :: "wire_lib \<Rightarrow> int \<Rightarrow> compile_input \<Rightarrow> compile_error + compile_output" where
  "Compile wl now inp =
     (if ci_revision_id inp = [] then Inl RevisionRequired
      else
        let nodes = node_map_of (ci_nodes inp); conflicts = detectConflicts (ci_services inp) in
        if length conflicts > 0 then Inl (ConflictError conflicts)
        else bindE (compile_services nodes (ci_services inp) empty_acc) (\<lambda>acc.
          let compiled = sort_key sv_slug (ca_compiled acc) in
          bindE (compile_nodes wl inp compiled acc (ci_nodes inp) (Map.empty, Map.empty)) (\<lambda>out.
            Inr \<lparr>co_manifest = build_manifest wl now inp (fst out), co_artifacts = fst out, co_configs = snd out,
                 co_warnings = ca_warnings acc @ egress_warnings acc (ci_nodes inp),
                 co_summary = \<lparr>su_services = length compiled,
                    su_ingress_nodes = length (filter (\<lambda>n. ni_role n = ''ingress'') (ci_nodes inp)),
                    su_egress_nodes = length (filter (\<lambda>n. ni_role n = ''egress'') (ci_nodes inp)),
                    su_total_rules = ca_total acc, su_rules_by_service = ca_rules acc,
                    su_lab_mode = ci_lab_mode inp\<rparr>\<rparr>)))"

definition VerifyManifest :: "wire_lib \<Rightarrow> manifest \<Rightarrow> bytes \<Rightarrow> verify_error option" where
  "VerifyManifest wl m pub = Verify wl m pub"

section \<open>What the loops compute\<close>

lemma node_map_of_id: "node_map_of ns nid = Some n \<Longrightarrow> ni_id n = nid \<and> n \<in> set ns"
proof (induction ns rule: rev_induct)
  case (snoc x xs)
  then show ?case by (auto simp: node_map_of_def split: if_splits)
qed (simp add: node_map_of_def)

text \<open>Member \<open>m\<close> of a service resolves to node \<open>n\<close>, and a service sends traffic to node \<open>nid\<close>.\<close>

definition usable :: "node_map \<Rightarrow> egress_member \<Rightarrow> node_input \<Rightarrow> bool" where
  "usable nodes m n \<longleftrightarrow> nodes (em_node_id m) = Some n \<and> ni_eligible n \<and> relay_endpoint n \<noteq> []"

definition hits :: "node_map \<Rightarrow> egress_member list \<Rightarrow> string \<Rightarrow> bool" where
  "hits nodes ms nid \<longleftrightarrow> (\<exists>m\<in>set ms. \<exists>n. usable nodes m n \<and> ni_id n = nid)"

definition routes_to :: "node_map \<Rightarrow> service_input \<Rightarrow> string \<Rightarrow> bool" where
  "routes_to nodes s nid \<longleftrightarrow> hits nodes (si_egress_members s) nid"

lemma hits_simps:
  "\<not> hits nodes [] nid"
  "usable nodes m n \<Longrightarrow> hits nodes (m # ms) nid \<longleftrightarrow> ni_id n = nid \<or> hits nodes ms nid"
  "\<not> usable nodes m (the (nodes (em_node_id m))) \<Longrightarrow> hits nodes (m # ms) nid \<longleftrightarrow> hits nodes ms nid"
  by (auto simp: hits_def usable_def)

lemma compile_members_spec:
  "compile_members nodes s ms ts acc = (ts', acc') \<Longrightarrow>
   et_node_id ` set ts' = et_node_id ` set ts \<union> {nid. hits nodes ms nid} \<and>
   (\<forall>nid. set (ca_allow acc' nid) = set (ca_allow acc nid) \<union> (if hits nodes ms nid then set (si_entries s) else {})) \<and>
   (\<forall>nid. ca_ports acc' nid = ca_ports acc nid \<union>
      (if hits nodes ms nid then set (portsOrDefault (si_allowed_ports s)) else {})) \<and>
   ca_compiled acc' = ca_compiled acc"
proof (induction ms arbitrary: ts acc)
  case Nil
  then show ?case by (simp add: hits_simps)
next
  case (Cons m ms)
  show ?case
  proof (cases "usable nodes m (the (nodes (em_node_id m)))")
    case False
    note h = hits_simps(3) [OF False]
    show ?thesis
    proof (cases "nodes (em_node_id m)")
      case None
      with Cons.prems Cons.IH [of ts acc] show ?thesis by (simp add: h)
    next
      case (Some n)
      with False consider "\<not> ni_eligible n" | "ni_eligible n" "relay_endpoint n = []" by (auto simp: usable_def)
      then show ?thesis
        by cases (use Some Cons.prems Cons.IH in \<open>auto simp: h Let_def\<close>)
    qed
  next
    case True
    then obtain n where n: "nodes (em_node_id m) = Some n" "ni_eligible n" "relay_endpoint n \<noteq> []" "usable nodes m n"
      by (auto simp: usable_def)
    note h = hits_simps(2) [OF n(4)]
    let ?t = "\<lparr>et_node_id = ni_id n, et_name = ni_name n, et_endpoint = relay_endpoint n,
      et_sni = orDefault (ni_relay_sni n) (ni_name n), et_priority = em_priority m, et_weight = em_weight m\<rparr>"
    let ?acc = "acc\<lparr>ca_allow := (ca_allow acc)(ni_id n := ca_allow acc (ni_id n) @ si_entries s),
      ca_ports := (ca_ports acc)(ni_id n := ca_ports acc (ni_id n) \<union> set (portsOrDefault (si_allowed_ports s)))\<rparr>"
    have "compile_members nodes s ms (ts @ [?t]) ?acc = (ts', acc')"
      using Cons.prems n by (simp add: Let_def)
    from Cons.IH [OF this] show ?thesis by (auto simp: h)
  qed
qed

text \<open>How a compiled service relates to its input.\<close>

definition compiled_from :: "node_map \<Rightarrow> service_input \<Rightarrow> service \<Rightarrow> bool" where
  "compiled_from nodes i s \<longleftrightarrow> sv_slug s = si_slug i \<and> sv_priority s = si_priority i \<and>
     sv_match s = new_set (si_entries i) \<and> sv_allowed_ports s = portsOrDefault (si_allowed_ports i) \<and>
     sv_ttl s = clampTTL (si_ttl i) \<and>
     et_node_id ` set (ep_targets (sv_egress s)) = {nid. routes_to nodes i nid} \<and> ep_targets (sv_egress s) \<noteq> []"

lemma service_warnings_fields [simp]:
  "ca_compiled (service_warnings nodes s acc) = ca_compiled acc" "ca_allow (service_warnings nodes s acc) = ca_allow acc"
  "ca_ports (service_warnings nodes s acc) = ca_ports acc"
  by (simp_all add: service_warnings_def Let_def)

lemma compile_service_spec:
  assumes "compile_service nodes s acc = Inr acc'"
  obtains cs where "ca_compiled acc' = ca_compiled acc @ [cs]" and "compiled_from nodes s cs"
    and "\<forall>nid. set (ca_allow acc' nid) = set (ca_allow acc nid) \<union> (if routes_to nodes s nid then set (si_entries s) else {})"
    and "\<forall>nid. ca_ports acc' nid = ca_ports acc nid \<union> (if routes_to nodes s nid then set (portsOrDefault (si_allowed_ports s)) else {})"
proof -
  obtain ts acc3 where m: "compile_members nodes s (si_egress_members s) [] (service_warnings nodes s acc) = (ts, acc3)"
    by fastforce
  note spec = compile_members_spec [OF m, folded routes_to_def]
  from assms m have ts: "ts \<noteq> []" and a: "acc' = add_service s (compiled_service nodes s ts) acc3"
    by (auto simp: compile_service_def split: if_splits)
  have "compiled_from nodes s (compiled_service nodes s ts)"
    using spec ts by (simp add: compiled_from_def compiled_service_def finish_policy_def Let_def)
      (metis length_0_conv length_sort_key)
  with spec a show thesis by (intro that [of "compiled_service nodes s ts"]) (simp_all add: add_service_def)
qed

lemma compile_services_spec:
  "compile_services nodes ss acc = Inr acc' \<Longrightarrow>
   \<exists>cs. ca_compiled acc' = ca_compiled acc @ cs \<and> list_all2 (compiled_from nodes) ss cs \<and>
     (\<forall>nid. set (ca_allow acc' nid) = set (ca_allow acc nid) \<union> (\<Union>s\<in>{s\<in>set ss. routes_to nodes s nid}. set (si_entries s))) \<and>
     (\<forall>nid. ca_ports acc' nid = ca_ports acc nid \<union>
        (\<Union>s\<in>{s\<in>set ss. routes_to nodes s nid}. set (portsOrDefault (si_allowed_ports s))))"
proof (induction ss arbitrary: acc)
  case (Cons s ss)
  then obtain acc1 where 1: "compile_service nodes s acc = Inr acc1" and 2: "compile_services nodes ss acc1 = Inr acc'"
    by (auto simp: bindE_eq_Inr)
  from 1 obtain c where c: "ca_compiled acc1 = ca_compiled acc @ [c]" "compiled_from nodes s c"
    "\<forall>nid. set (ca_allow acc1 nid) = set (ca_allow acc nid) \<union> (if routes_to nodes s nid then set (si_entries s) else {})"
    "\<forall>nid. ca_ports acc1 nid = ca_ports acc nid \<union> (if routes_to nodes s nid then set (portsOrDefault (si_allowed_ports s)) else {})"
    by (rule compile_service_spec)
  from Cons.IH [OF 2] obtain cs where cs: "ca_compiled acc' = ca_compiled acc1 @ cs" "list_all2 (compiled_from nodes) ss cs"
    "\<And>nid. set (ca_allow acc' nid) = set (ca_allow acc1 nid) \<union> (\<Union>s\<in>{s\<in>set ss. routes_to nodes s nid}. set (si_entries s))"
    "\<And>nid. ca_ports acc' nid = ca_ports acc1 nid \<union> (\<Union>s\<in>{s\<in>set ss. routes_to nodes s nid}. set (portsOrDefault (si_allowed_ports s)))"
    by blast
  have split: "{x \<in> set (s # ss). routes_to nodes x nid} =
      (if routes_to nodes s nid then {s} else {}) \<union> {x \<in> set ss. routes_to nodes x nid}" for nid
    by auto
  show ?case
    using c cs unfolding split by (intro exI [of _ "c # cs"]) auto
qed simp

lemma compile_nodes_spec:
  "compile_nodes wl inp compiled acc ns out = Inr (arts, cfgs) \<Longrightarrow>
   (cfgs nid = snd out nid \<and> arts nid = fst out nid \<or>
    (\<exists>n\<in>set ns. ni_id n = nid \<and> (\<exists>cfg. cfgs nid = Some cfg \<and> node_config_for inp compiled acc n = Inr cfg \<and>
       arts nid = Canonical wl cfg \<and> Canonical wl cfg \<noteq> None)))"
proof (induction ns arbitrary: out)
  case (Cons n ns)
  then obtain cfg b where c: "node_config_for inp compiled acc n = Inr cfg" "Canonical wl cfg = Some b"
    and rec: "compile_nodes wl inp compiled acc ns ((fst out)(ni_id n \<mapsto> b), (snd out)(ni_id n \<mapsto> cfg)) = Inr (arts, cfgs)"
    by (auto simp: bindE_eq_Inr split: option.splits)
  from Cons.IH [OF rec] c show ?case by (auto split: if_splits)
qed auto

lemma compile_nodes_dom:
  "compile_nodes wl inp compiled acc ns out = Inr (arts, cfgs) \<Longrightarrow>
   dom arts = dom (fst out) \<union> ni_id ` set ns \<and> dom cfgs = dom (snd out) \<union> ni_id ` set ns"
proof (induction ns arbitrary: out)
  case (Cons n ns)
  then obtain cfg b where
    rec: "compile_nodes wl inp compiled acc ns ((fst out)(ni_id n \<mapsto> b), (snd out)(ni_id n \<mapsto> cfg)) = Inr (arts, cfgs)"
    by (auto simp: bindE_eq_Inr split: option.splits)
  from Cons.IH [OF rec] show ?case by auto
qed auto

lemma Compile_Inr:
  assumes "Compile wl now inp = Inr out"
  obtains acc compiled where "detectConflicts (ci_services inp) = []"
    and "compile_services (node_map_of (ci_nodes inp)) (ci_services inp) empty_acc = Inr acc"
    and "compiled = sort_key sv_slug (ca_compiled acc)"
    and "compile_nodes wl inp compiled acc (ci_nodes inp) (Map.empty, Map.empty) = Inr (co_artifacts out, co_configs out)"
    and "co_manifest out = build_manifest wl now inp (co_artifacts out)"
  using assms by (auto simp: Compile_def Let_def bindE_eq_Inr split: if_splits)

text \<open>The configurations of a compiled revision, by role.\<close>

lemma config_of_node:
  assumes "Compile wl now inp = Inr out" and "co_configs out nid = Some cfg"
  obtains n acc compiled where "n \<in> set (ci_nodes inp)" and "ni_id n = nid"
    and "compile_services (node_map_of (ci_nodes inp)) (ci_services inp) empty_acc = Inr acc"
    and "compiled = sort_key sv_slug (ca_compiled acc)"
    and "node_config_for inp compiled acc n = Inr cfg" and "co_artifacts out nid = Canonical wl cfg"
proof -
  obtain acc compiled where c: "compile_services (node_map_of (ci_nodes inp)) (ci_services inp) empty_acc = Inr acc"
    "compiled = sort_key sv_slug (ca_compiled acc)"
    "compile_nodes wl inp compiled acc (ci_nodes inp) (Map.empty, Map.empty) = Inr (co_artifacts out, co_configs out)"
    using Compile_Inr [OF assms(1)] by metis
  from compile_nodes_spec [OF c(3), of nid] assms(2) that c(1,2) show thesis by fastforce
qed

lemma egress_config:
  assumes "node_config_for inp compiled acc n = Inr cfg" and "nc_role cfg = ''egress''"
  shows "nc_egress cfg = (ci_egress_tuning inp)\<lparr>ec_allow := new_set (Merge (ca_allow acc (ni_id n)) []),
           ec_allowed_ports := sorted_list_of_set (ca_ports acc (ni_id n)),
           ec_allow_private_destinations := ci_lab_mode inp\<rparr>"
proof -
  from assms have "ni_role n = ''egress''"
    by (auto simp: node_config_for_def role_config_def base_config_def bindE_eq_Inr Let_def split: if_splits)
  with assms show ?thesis
    by (auto simp: node_config_for_def role_config_def base_config_def bindE_eq_Inr Let_def split: if_splits)
qed

lemma ingress_services:
  assumes "node_config_for inp compiled acc n = Inr cfg" and "svc \<in> set (nc_services cfg)"
  shows "svc \<in> set compiled"
  using assms
  by (auto simp: node_config_for_def role_config_def base_config_def bindE_eq_Inr Let_def zero_config_def
      servicesForIngress_def split: if_splits)

lemma portsOrDefault_not_Nil [simp]: "portsOrDefault p \<noteq> []"
  by (simp add: portsOrDefault_def) (metis length_0_conv length_sort)

text \<open>The traffic services of a revision send to node \<open>nid\<close>.\<close>

definition senders :: "compile_input \<Rightarrow> string \<Rightarrow> service_input set" where
  "senders inp nid = {s \<in> set (ci_services inp). routes_to (node_map_of (ci_nodes inp)) s nid}"

lemma egress_allow_iff:
  assumes "Compile wl now inp = Inr out" and "co_configs out nid = Some cfg" and "nc_role cfg = ''egress''"
  shows "Allowed lib (Apply_relay lib cfg r) host port \<longleftrightarrow>
     host \<noteq> [] \<and> (\<exists>s\<in>senders inp nid. \<exists>e\<in>set (si_entries s). covers lib e host) \<and>
     (\<exists>s\<in>senders inp nid. port \<in> set (portsOrDefault (si_allowed_ports s)))"
    and "ec_allow_private_destinations (nc_egress cfg) = ci_lab_mode inp"
proof -
  obtain n acc compiled where n: "ni_id n = nid"
    and acc: "compile_services (node_map_of (ci_nodes inp)) (ci_services inp) empty_acc = Inr acc"
    and cfg: "node_config_for inp compiled acc n = Inr cfg"
    by (rule config_of_node [OF assms(1,2)])
  note eg = egress_config [OF cfg assms(3)]
  from compile_services_spec [OF acc] have
    allow: "set (ca_allow acc nid) = (\<Union>s\<in>senders inp nid. set (si_entries s))" and
    ports: "ca_ports acc nid = (\<Union>s\<in>senders inp nid. set (portsOrDefault (si_allowed_ports s)))"
    by (auto simp: empty_acc_def senders_def)
  have fin: "finite (ca_ports acc nid)" unfolding ports by (simp add: senders_def)
  have "match_host lib (rl_allow (Apply_relay lib cfg r)) host \<longleftrightarrow>
      host \<noteq> [] \<and> (\<exists>s\<in>senders inp nid. \<exists>e\<in>set (si_entries s). covers lib e host)"
    using allow by (simp add: Apply_relay_def Let_def eg n match_new_set)
  moreover have "port \<in> rl_ports (Apply_relay lib cfg r) \<longleftrightarrow>
      (\<exists>s\<in>senders inp nid. port \<in> set (portsOrDefault (si_allowed_ports s)))" if "senders inp nid \<noteq> {}"
  proof -
    have "ca_ports acc nid \<noteq> {}" using that unfolding ports by auto
    then show ?thesis using fin ports by (simp add: Apply_relay_def Let_def eg n)
  qed
  ultimately show "Allowed lib (Apply_relay lib cfg r) host port \<longleftrightarrow>
     host \<noteq> [] \<and> (\<exists>s\<in>senders inp nid. \<exists>e\<in>set (si_entries s). covers lib e host) \<and>
     (\<exists>s\<in>senders inp nid. port \<in> set (portsOrDefault (si_allowed_ports s)))"
    unfolding Allowed_def by blast
  show "ec_allow_private_destinations (nc_egress cfg) = ci_lab_mode inp" by (simp add: eg)
qed

lemma service_of_config:
  assumes "Compile wl now inp = Inr out" and "co_configs out nid = Some cfg" and "svc \<in> set (nc_services cfg)"
  obtains s where "s \<in> set (ci_services inp)" and "compiled_from (node_map_of (ci_nodes inp)) s svc"
proof -
  obtain n acc compiled where
    acc: "compile_services (node_map_of (ci_nodes inp)) (ci_services inp) empty_acc = Inr acc"
    and comp: "compiled = sort_key sv_slug (ca_compiled acc)" and cfg: "node_config_for inp compiled acc n = Inr cfg"
    by (rule config_of_node [OF assms(1,2)])
  have "svc \<in> set (ca_compiled acc)" using ingress_services [OF cfg assms(3)] comp by simp
  moreover from compile_services_spec [OF acc] have
    "list_all2 (compiled_from (node_map_of (ci_nodes inp))) (ci_services inp) (ca_compiled acc)"
    by (auto simp: empty_acc_def)
  ultimately show thesis using that by (metis in_set_conv_nth list_all2_conv_all_nth)
qed

section \<open>Conflicts\<close>

lemma top_priority_max: "top_priority tp os = Max (insert tp (snd ` set os))"
proof (induction tp os rule: top_priority.induct)
  case (2 tp w os)
  have "Max (insert (max tp (snd w)) (snd ` set os)) = Max (insert tp (insert (snd w) (snd ` set os)))"
    by (cases "os = []") (simp_all add: max.assoc)
  moreover have "(if snd w > tp then snd w else tp) = max tp (snd w)" by (simp add: max_def)
  ultimately show ?case using "2.IH" by simp
qed simp

definition top_claims :: "service_input list \<Rightarrow> entry \<Rightarrow> (string \<times> int) list" where
  "top_claims svcs e = filter (\<lambda>w. snd w = Max (snd ` set (owners svcs e))) (owners svcs e)"

lemma conflict_of_None: "conflict_of svcs e = None \<longleftrightarrow> length (top_claims svcs e) \<le> 1"
proof (cases "owners svcs e")
  case (Cons w ws)
  have t: "top_priority (snd (owners svcs e ! 0)) (owners svcs e) = Max (snd ` set (owners svcs e))"
    unfolding top_priority_max by (simp add: Cons insert_absorb)
  have "length (top_claims svcs e) \<le> length (owners svcs e)" unfolding top_claims_def by (rule length_filter_le)
  then show ?thesis
    unfolding conflict_of_def Let_def t top_claims_def [symmetric] by (cases "length (owners svcs e) < 2") auto
qed (simp add: conflict_of_def top_claims_def)

lemma owners_Nil_iff: "owners svcs e = [] \<longleftrightarrow> (\<forall>s\<in>set svcs. e \<notin> set (si_entries s))"
  by (auto simp: owners_def filter_empty_conv)

lemma map_filter_Nil: "List.map_filter f xs = [] \<longleftrightarrow> (\<forall>x\<in>set xs. f x = None)"
  by (induction xs) (auto simp: List.map_filter_def split: option.splits)

lemma detectConflicts_Nil: "detectConflicts svcs = [] \<longleftrightarrow> (\<forall>e. length (top_claims svcs e) \<le> 1)"
proof -
  have "detectConflicts svcs = [] \<longleftrightarrow> (\<forall>e\<in>set (concat (map si_entries svcs)). conflict_of svcs e = None)"
    unfolding detectConflicts_def by (metis (no_types, lifting) Diff_empty length_0_conv length_sort_key map_filter_Nil set_keep_first)
  also have "\<dots> \<longleftrightarrow> (\<forall>e. conflict_of svcs e = None)"
  proof (intro iffI ballI allI)
    fix e
    assume all: "\<forall>e\<in>set (concat (map si_entries svcs)). conflict_of svcs e = None"
    show "conflict_of svcs e = None"
    proof (cases "e \<in> set (concat (map si_entries svcs))")
      case False
      then have "owners svcs e = []" by (simp add: owners_Nil_iff)
      then show ?thesis by (simp add: conflict_of_def)
    qed (use all in blast)
  qed simp
  finally show ?thesis by (simp add: conflict_of_None)
qed

text \<open>Two services at different positions that hold an entry at its top priority make a conflict.\<close>

lemma top_claims_two:
  assumes "svcs = a @ x # b @ y # c" and "e \<in> set (si_entries x)" and "e \<in> set (si_entries y)"
    and "si_priority x = Max (snd ` set (owners svcs e))" and "si_priority y = Max (snd ` set (owners svcs e))"
  shows "2 \<le> length (top_claims svcs e)"
proof -
  define M where "M = Max (snd ` set (owners svcs e))"
  have pos: "1 \<le> length (filter (\<lambda>w. snd w = M) (map (\<lambda>_. (si_slug s, si_priority s)) (filter (\<lambda>z. z = e) (si_entries s))))"
    if "e \<in> set (si_entries s)" "si_priority s = M" for s
    using that by (auto simp: filter_map comp_def Suc_le_eq filter_empty_conv)
  have t: "top_claims svcs e = filter (\<lambda>w. snd w = M) (owners svcs e)" by (simp add: top_claims_def M_def)
  have "length (top_claims svcs e) =
      (\<Sum>s\<leftarrow>svcs. length (filter (\<lambda>w. snd w = M) (map (\<lambda>_. (si_slug s, si_priority s)) (filter (\<lambda>z. z = e) (si_entries s)))))"
    unfolding t owners_def filter_concat length_concat map_map comp_def ..
  also have "\<dots> \<ge> 2" using pos [OF assms(2)] pos [OF assms(3)] assms(4,5) by (simp add: assms(1) M_def)
  finally show ?thesis .
qed

lemma owners_priority: "s \<in> set svcs \<Longrightarrow> e \<in> set (si_entries s) \<Longrightarrow> si_priority s \<in> snd ` set (owners svcs e)"
  by (force simp: owners_def)

lemma owners_from: "w \<in> set (owners svcs e) \<Longrightarrow> \<exists>s\<in>set svcs. e \<in> set (si_entries s) \<and> snd w = si_priority s"
  by (auto simp: owners_def)

definition svc_key :: "domain_lib \<Rightarrow> string \<Rightarrow> service_input \<Rightarrow> int \<times> int" where
  "svc_key lib host s = (specificity lib (compile_set lib (new_set (si_entries s))) host, si_priority s)"

text \<open>Equal keys of two rule sets without regular expressions come from one entry both hold.\<close>

lemma shared_entry:
  assumes "\<And>v. Entry KindRegex v \<notin> set es" and "\<And>v. Entry KindRegex v \<notin> set es'"
    and "0 \<le> specificity lib (compile_set lib (new_set es)) h"
    and "specificity lib (compile_set lib (new_set es')) h = specificity lib (compile_set lib (new_set es)) h"
  obtains e where "e \<in> set es" and "e \<in> set es'"
    and "\<And>es''. e \<in> set es'' \<Longrightarrow> specificity lib (compile_set lib (new_set es)) h \<le> specificity lib (compile_set lib (new_set es'')) h"
proof -
  have h: "h \<noteq> []" using assms(3) by (auto simp: specificity_def compile_set_def)
  have le: "count_list x CHR ''.'' \<le> count_list h CHR ''.''" if "label_suffix x h" for x
    using label_suffix_dots(1) [OF that label_suffix_refl] label_suffix_length [OF that] by simp
  have ge: "0 \<le> specificity lib (compile_set lib (new_set es')) h" using assms(3,4) by simp
  from specificity_entry [OF assms(1,3)] specificity_entry [OF assms(2) ge] show thesis
  proof (elim disjE exE conjE)
    assume "Entry KindExact h \<in> set es" "Entry KindExact h \<in> set es'"
      "specificity lib (compile_set lib (new_set es)) h = 1000"
    then show thesis using specificity_lower(1) [OF h] by (intro that [of "Entry KindExact h"]) auto
  next
    fix x y
    assume x: "Entry KindSuffix x \<in> set es" "label_suffix x h"
      "specificity lib (compile_set lib (new_set es)) h = 100 - int (count_list h CHR ''.'') + int (count_list x CHR ''.'')"
      and y: "Entry KindSuffix y \<in> set es'" "label_suffix y h"
      "specificity lib (compile_set lib (new_set es')) h = 100 - int (count_list h CHR ''.'') + int (count_list y CHR ''.'')"
    from x y assms(4) have "x = y" using label_suffix_dots(2) by auto
    with x y show thesis using specificity_lower(2) [OF h _ x(2)] by (intro that [of "Entry KindSuffix x"]) auto
  qed (use assms(4) le in force)+
qed

lemma unambiguous_split:
  assumes conf: "detectConflicts svcs = []"
    and rx: "\<And>s v. s \<in> set svcs \<Longrightarrow> Entry KindRegex v \<notin> set (si_entries s)"
    and sp: "svcs = a @ x # b @ y # c" and nn: "0 \<le> fst (svc_key lib host x)"
    and best: "\<And>s. s \<in> set svcs \<Longrightarrow> svc_key lib host s \<le> svc_key lib host x"
    and eq: "svc_key lib host y = svc_key lib host x"
  shows False
proof -
  have mem: "x \<in> set svcs" "y \<in> set svcs" by (simp_all add: sp)
  obtain e where e: "e \<in> set (si_entries x)" "e \<in> set (si_entries y)"
    and lower: "\<And>es''. e \<in> set es'' \<Longrightarrow> specificity lib (compile_set lib (new_set (si_entries x))) host
       \<le> specificity lib (compile_set lib (new_set es'')) host"
    using shared_entry [of "si_entries x" "si_entries y" lib host] rx mem nn eq unfolding svc_key_def by auto
  have top: "si_priority x = Max (snd ` set (owners svcs e))"
  proof (rule Max_eqI [symmetric])
    show "si_priority x \<in> snd ` set (owners svcs e)" by (rule owners_priority [OF mem(1) e(1)])
    fix q assume "q \<in> snd ` set (owners svcs e)"
    then obtain s where s: "s \<in> set svcs" "e \<in> set (si_entries s)" "q = si_priority s" using owners_from by blast
    from best [OF s(1)] lower [OF s(2)] s(3) show "q \<le> si_priority x" by (auto simp: svc_key_def)
  qed simp
  have "si_priority y = si_priority x" using eq by (simp add: svc_key_def)
  with top_claims_two [OF sp e] top have "2 \<le> length (top_claims svcs e)" by simp
  moreover have "length (top_claims svcs e) \<le> 1" using conf by (simp add: detectConflicts_Nil)
  ultimately show False by linarith
qed

lemma build_manifest_signed:
  assumes "length (ci_signing_key inp) = 64"
  shows "\<exists>man. build_manifest wl now inp arts =
    man\<lparr>mf_signature := b64_encode (ed25519_sign wl (ci_signing_key inp) (SigningPayload wl man))\<rparr>"
  unfolding build_manifest_def Let_def ed25519_private_key_size_def assms by (subst if_P [OF refl]) blast

lemma routes_allowed:
  assumes "Compile wl now inp = Inr out"
    and "co_configs out i = Some ci" and "svc \<in> set (nc_services ci)"
    and "t \<in> set (ep_targets (sv_egress svc))"
    and "co_configs out (et_node_id t) = Some ce" and "nc_role ce = ''egress''"
    and "match_host lib (compile_set lib (sv_match svc)) host" and "port \<in> set (sv_allowed_ports svc)"
  shows "Allowed lib (Apply_relay lib ce r) host port"
proof -
  obtain s where s: "s \<in> set (ci_services inp)" and c: "compiled_from (node_map_of (ci_nodes inp)) s svc"
    by (rule service_of_config [OF assms(1-3)])
  from c assms(4) have "s \<in> senders inp (et_node_id t)" using s by (auto simp: compiled_from_def senders_def)
  moreover from c assms(7) have "host \<noteq> [] \<and> (\<exists>e\<in>set (si_entries s). covers lib e host)"
    by (simp add: compiled_from_def match_new_set)
  moreover from c assms(8) have "port \<in> set (portsOrDefault (si_allowed_ports s))" by (simp add: compiled_from_def)
  ultimately show ?thesis using egress_allow_iff(1) [OF assms(1,5,6), of lib r host port] by blast
qed

section \<open>Properties\<close>

text \<open>
  One rule set drives routing and the allowlist: in a compiled revision, if an ingress
  node's service matches a host and allows a port, then every egress node that service may be sent
  to, once it runs its own configuration of the same revision, allows that host and port.
\<close>

theorem compiled_routes_are_allowed:
  assumes "Compile wl now inp = Inr out"
    and "co_configs out i = Some ci" and "svc \<in> set (nc_services ci)"
    and "t \<in> set (ep_targets (sv_egress svc))"
    and "co_configs out (et_node_id t) = Some ce" and "nc_role ce = ''egress''"
    and "match_host lib (compile_set lib (sv_match svc)) host" and "port \<in> set (sv_allowed_ports svc)"
  shows "Allowed lib (Apply_relay lib ce r) host port"
  by (rule routes_allowed [OF assms])

definition demo_node :: "string \<Rightarrow> string \<Rightarrow> node_input" where
  "demo_node nid role = \<lparr>ni_id = nid, ni_name = nid, ni_role = role, ni_public_ipv4 = ''192.0.2.1'', ni_public_ipv6 = [],
     ni_relay_endpoint = [], ni_relay_sni = [], ni_eligible = True\<rparr>"

definition demo_service :: "string \<Rightarrow> int \<Rightarrow> string list \<Rightarrow> service_input" where
  "demo_service slug prio ing = \<lparr>si_id = slug, si_slug = slug, si_name = slug, si_priority = prio, si_ttl = 60,
     si_allowed_ports = [], si_udp_mode = [], si_entries = [Entry KindSuffix ''tv.a.com''], si_rule_set_hash = [],
     si_ingress_nodes = ing, si_ingress_mode = [],
     si_egress_members = [\<lparr>em_node_id = ''e1'', em_priority = 0, em_weight = 1\<rparr>], si_egress_mode = [],
     si_policy = zero_policy\<rparr>"

definition demo_input :: "service_input list \<Rightarrow> compile_input" where
  "demo_input svcs = \<lparr>ci_revision_id = ''r1'', ci_sequence = 1, ci_services = svcs,
     ci_nodes = [demo_node ''i1'' ''ingress'', demo_node ''e1'' ''egress''], ci_dns = zero_dns, ci_ingress = zero_ingress,
     ci_egress_tuning = zero_egress, ci_min_agent_ver = [], ci_lab_mode = False, ci_log_level = [],
     ci_signing_key = replicate 64 0\<rparr>"

definition demo_state :: compile_input where
  "demo_state = demo_input [demo_service ''tv'' 1 [''i1'']]"

lemma demo_compiles:
  "case Compile demo_wire 0 demo_state of
     Inr out \<Rightarrow>
       (case co_configs out ''i1'' of
          Some ci \<Rightarrow>
            (case nc_services ci of
               [svc] \<Rightarrow> map et_node_id (ep_targets (sv_egress svc)) = [''e1''] \<and> sv_allowed_ports svc = [443] \<and>
                 match_host plain_lib (compile_set plain_lib (sv_match svc)) ''x.tv.a.com''
             | _ \<Rightarrow> False)
        | None \<Rightarrow> False) \<and>
       (case co_configs out ''e1'' of Some ce \<Rightarrow> nc_role ce = ''egress'' | None \<Rightarrow> False)
   | Inl _ \<Rightarrow> False"
  by code_simp

lemma demo_output:
  obtains out ci svc t ce where "Compile demo_wire 0 demo_state = Inr out" and "co_configs out ''i1'' = Some ci"
    and "svc \<in> set (nc_services ci)" and "t \<in> set (ep_targets (sv_egress svc))" and "et_node_id t = ''e1''"
    and "co_configs out ''e1'' = Some ce" and "nc_role ce = ''egress''"
    and "match_host plain_lib (compile_set plain_lib (sv_match svc)) ''x.tv.a.com''" and "443 \<in> set (sv_allowed_ports svc)"
  using demo_compiles by (auto split: sum.splits option.splits list.splits)

theorem compiled_routes_are_allowed_witness:
  "\<exists>out ce. Compile demo_wire 0 demo_state = Inr out \<and> co_configs out ''e1'' = Some ce \<and>
     Allowed plain_lib (Apply_relay plain_lib ce zero_relay) ''x.tv.a.com'' 443"
proof -
  obtain out ci svc t ce where c: "Compile demo_wire 0 demo_state = Inr out" "co_configs out ''i1'' = Some ci"
    "svc \<in> set (nc_services ci)" "t \<in> set (ep_targets (sv_egress svc))" "et_node_id t = ''e1''"
    "co_configs out ''e1'' = Some ce" "nc_role ce = ''egress''"
    "match_host plain_lib (compile_set plain_lib (sv_match svc)) ''x.tv.a.com''" "443 \<in> set (sv_allowed_ports svc)"
    by (rule demo_output)
  have "co_configs out (et_node_id t) = Some ce" using c(5,6) by simp
  from compiled_routes_are_allowed [OF c(1-4) this c(7-9), of zero_relay] c(1,6) show ?thesis by blast
qed

text \<open>
  Property C7. The allowlist of an egress node is exactly what the revision sends through it: a host is
  covered by a rule of some service routed to the node, and the port is one of some such service; and
  private destinations are opened only in lab mode. (Hosts and ports are united separately, so a
  host of one service is also allowed on a port of another service routed to the same node.)
\<close>

theorem egress_allowlist_exact:
  assumes "Compile wl now inp = Inr out" and "co_configs out nid = Some cfg" and "nc_role cfg = ''egress''"
  shows "(Allowed lib (Apply_relay lib cfg r) host port \<longleftrightarrow>
     host \<noteq> [] \<and> (\<exists>s\<in>senders inp nid. \<exists>e\<in>set (si_entries s). covers lib e host) \<and>
     (\<exists>s\<in>senders inp nid. port \<in> set (portsOrDefault (si_allowed_ports s)))) \<and>
    ec_allow_private_destinations (nc_egress cfg) = ci_lab_mode inp"
  using egress_allow_iff [OF assms] by blast

theorem egress_allowlist_exact_witness:
  "\<exists>out ce. Compile demo_wire 0 demo_state = Inr out \<and> co_configs out ''e1'' = Some ce \<and>
     \<not> Allowed plain_lib (Apply_relay plain_lib ce zero_relay) ''x.tv.a.com'' 22 \<and>
     \<not> ec_allow_private_destinations (nc_egress ce)"
proof -
  obtain out ci svc t ce where c: "Compile demo_wire 0 demo_state = Inr out" "co_configs out ''e1'' = Some ce"
    "nc_role ce = ''egress''" by (rule demo_output)
  have "22 \<notin> set (portsOrDefault (si_allowed_ports s))" if "s \<in> senders demo_state ''e1''" for s
    using that by (auto simp: senders_def demo_state_def demo_input_def demo_service_def portsOrDefault_def)
  moreover have "\<not> ci_lab_mode demo_state" by (simp add: demo_state_def demo_input_def)
  ultimately show ?thesis
    using egress_allowlist_exact [OF c, of plain_lib zero_relay "''x.tv.a.com''" 22] c(1,2) by blast
qed

text \<open>
  Conflict detection accepts a set of services exactly when no entry is claimed more than
  once at the highest priority it is claimed with.
\<close>

theorem detectConflicts_correct: "detectConflicts svcs = [] \<longleftrightarrow> (\<forall>e. length (top_claims svcs e) \<le> 1)"
  by (rule detectConflicts_Nil)

text \<open>
  Accepted rules route without ambiguity: when conflict detection passes and no service
  uses regular expressions, at most one position of the list of services reaches the greatest
  specificity and priority for a host, so the order of the routing table does not decide.
\<close>

theorem accepted_routing_unambiguous:
  assumes "detectConflicts svcs = []" and "\<And>s v. s \<in> set svcs \<Longrightarrow> Entry KindRegex v \<notin> set (si_entries s)"
    and "i < length svcs" and "j < length svcs" and "0 \<le> fst (svc_key lib host (svcs ! i))"
    and "\<And>s. s \<in> set svcs \<Longrightarrow> svc_key lib host s \<le> svc_key lib host (svcs ! i)"
    and "svc_key lib host (svcs ! j) = svc_key lib host (svcs ! i)"
  shows "i = j"
proof -
  have split: "svcs = take m svcs @ svcs ! m # take (k - Suc m) (drop (Suc m) svcs) @ svcs ! k # drop (Suc k) svcs"
    if "m < k" "k < length svcs" for m k
  proof -
    have "drop (Suc m) svcs = take (k - Suc m) (drop (Suc m) svcs) @ drop (k - Suc m) (drop (Suc m) svcs)"
      by (simp only: append_take_drop_id)
    also have "drop (k - Suc m) (drop (Suc m) svcs) = drop k svcs" using that by simp
    also have "drop k svcs = svcs ! k # drop (Suc k) svcs" using that by (simp add: Cons_nth_drop_Suc)
    finally show ?thesis using that id_take_nth_drop [of m svcs] by simp
  qed
  show ?thesis
  proof (rule linorder_cases [of i j])
    assume "i < j"
    from unambiguous_split [OF assms(1,2) split [OF this assms(4)] assms(5,6,7)] show ?thesis by blast
  next
    assume "j < i"
    have nn: "0 \<le> fst (svc_key lib host (svcs ! j))" using assms(5,7) by simp
    have best: "svc_key lib host s \<le> svc_key lib host (svcs ! j)" if "s \<in> set svcs" for s using assms(6,7) that by simp
    from unambiguous_split [OF assms(1,2) split [OF \<open>j < i\<close> assms(3)] nn best assms(7) [symmetric]] show ?thesis by blast
  qed
qed

theorem accepted_routing_unambiguous_witness:
  "detectConflicts [demo_service ''a'' 5 [], demo_service ''b'' 6 []] = [] \<and>
   svc_key plain_lib ''x.tv.a.com'' (demo_service ''a'' 5 []) \<noteq> svc_key plain_lib ''x.tv.a.com'' (demo_service ''b'' 6 [])"
proof -
  let ?ss = "[demo_service ''a'' 5 [], demo_service ''b'' 6 []]"
  have d: "detectConflicts ?ss = []" by code_simp
  have k: "svc_key plain_lib ''x.tv.a.com'' (demo_service ''a'' 5 []) = (99, 5)"
    "svc_key plain_lib ''x.tv.a.com'' (demo_service ''b'' 6 []) = (99, 6)"
    by (code_simp, code_simp)
  have rx: "Entry KindRegex v \<notin> set (si_entries s)" if "s \<in> set ?ss" for s v
    using that by (auto simp: demo_service_def kind_defs)
  have "0 = (1 :: nat)" if "svc_key plain_lib ''x.tv.a.com'' (?ss ! 0) = svc_key plain_lib ''x.tv.a.com'' (?ss ! 1)"
    using accepted_routing_unambiguous [OF d rx, of 1 0 plain_lib "''x.tv.a.com''"] that k by simp
  with d show ?thesis by auto
qed

text \<open>
  Conflict detection looks at all services of a revision while an ingress node routes
  among its own: with a third service of higher priority elsewhere claiming the same rule, a revision
  compiles in which two services of one node tie in specificity and priority for a host, and the
  order of their slugs decides.
\<close>

theorem node_level_tie_undetected:
  "case Compile demo_wire 0 (demo_input [demo_service ''a'' 5 [''i1''], demo_service ''b'' 5 [''i1''], demo_service ''c'' 9 []]) of
     Inr out \<Rightarrow>
       (case co_configs out ''i1'' of
          Some ci \<Rightarrow> map sv_slug (nc_services ci) = [''a'', ''b''] \<and>
            map (svc_spec plain_lib ''x.tv.a.com'') (nc_services ci) = [99, 99] \<and>
            map sv_priority (nc_services ci) = [5, 5]
        | None \<Rightarrow> False)
   | Inl _ \<Rightarrow> False"
  by code_simp

text \<open>
  Property C31. The signed manifest binds the revision: it lists exactly the nodes of the revision, each
  once and in order, with the hash and size of the artifact that node receives, and, when the panel
  holds a signing key, verifies under the matching public key.
\<close>

theorem manifest_binds_artifacts:
  assumes "Compile wl now inp = Inr out"
    and "\<And>msg. ed25519_verify wl pub msg (ed25519_sign wl (ci_signing_key inp) msg)"
    and "length (ci_signing_key inp) = 64" and "length pub = 32"
  shows "sorted (map ar_node_id (mf_artifacts (co_manifest out))) \<and> distinct (map ar_node_id (mf_artifacts (co_manifest out))) \<and>
    ar_node_id ` set (mf_artifacts (co_manifest out)) = ni_id ` set (ci_nodes inp) \<and>
    (\<forall>a\<in>set (mf_artifacts (co_manifest out)). \<exists>b. co_artifacts out (ar_node_id a) = Some b \<and>
       ar_sha256 a = SHA256Hex wl b \<and> ar_size a = int (length b)) \<and>
    VerifyManifest wl (co_manifest out) pub = None"
proof -
  obtain acc compiled where c: "compile_nodes wl inp compiled acc (ci_nodes inp) (Map.empty, Map.empty) = Inr (co_artifacts out, co_configs out)"
    "co_manifest out = build_manifest wl now inp (co_artifacts out)"
    using Compile_Inr [OF assms(1)] by metis
  have d: "dom (co_artifacts out) = ni_id ` set (ci_nodes inp)" using compile_nodes_dom [OF c(1)] by simp
  define ids where "ids = sort (filter (\<lambda>id. co_artifacts out id \<noteq> None) (keep_first {} (map ni_id (ci_nodes inp))))"
  have refs: "mf_artifacts (co_manifest out) = artifact_refs wl (co_artifacts out) ids"
    by (simp add: c(2) build_manifest_def Let_def ids_def)
  have ids: "map ar_node_id (artifact_refs wl (co_artifacts out) ids) = ids"
    by (simp add: artifact_refs_def Let_def comp_def)
  have set_ids: "set ids = ni_id ` set (ci_nodes inp)" using d by (auto simp: ids_def dom_def)
  obtain man where "co_manifest out = man\<lparr>mf_signature := b64_encode (ed25519_sign wl (ci_signing_key inp) (SigningPayload wl man))\<rparr>"
    using build_manifest_signed [OF assms(3)] c(2) by metis
  then have "VerifyManifest wl (co_manifest out) pub = None"
    using assms(2,4) by (simp add: VerifyManifest_def Verify_None_iff)
  moreover have "\<exists>b. co_artifacts out (ar_node_id a) = Some b \<and> ar_sha256 a = SHA256Hex wl b \<and> ar_size a = int (length b)"
    if a: "a \<in> set (artifact_refs wl (co_artifacts out) ids)" for a
  proof -
    from a obtain nid where nid: "nid \<in> set ids" "ar_node_id a = nid" "ar_sha256 a = SHA256Hex wl (the (co_artifacts out nid))"
      "ar_size a = int (length (the (co_artifacts out nid)))" by (auto simp: artifact_refs_def Let_def)
    with set_ids d obtain b where "co_artifacts out nid = Some b" by blast
    with nid show ?thesis by simp
  qed
  moreover have "sorted ids" "distinct ids" by (simp_all add: ids_def)
  moreover have "ar_node_id ` set (artifact_refs wl (co_artifacts out) ids) = ni_id ` set (ci_nodes inp)"
    using ids set_ids by (metis list.set_map)
  ultimately show ?thesis unfolding refs ids by blast
qed

theorem manifest_binds_artifacts_witness:
  "\<exists>out. Compile demo_wire 0 demo_state = Inr out \<and> VerifyManifest demo_wire (co_manifest out) (replicate 32 0) = None"
proof -
  obtain out where c: "Compile demo_wire 0 demo_state = Inr out" by (rule demo_output)
  have v: "ed25519_verify demo_wire (replicate 32 0) msg (ed25519_sign demo_wire (ci_signing_key demo_state) msg)" for msg
    by (simp add: demo_wire_def)
  show ?thesis
    using manifest_binds_artifacts [OF c v] c by (simp add: demo_state_def demo_input_def)
qed

end
