(* ===== verification/Log_Control.thy ===== *)
theory Log_Control
  imports Go_Prelude "HOL-Library.AList"
begin

text \<open>
  Log level and log throttle (\<open>shared/logging/logging.go\<close>). A \<open>slog.Level\<close> is an integer (debug -4,
  info 0, warn 4, error 8). \<open>Set_level\<close> returns, beside the error and the new level, the records it
  prints itself: a record is printed when its level reaches the one in force at that moment. The
  throttle keeps an association list for its map of counters (one entry per key) and returns the
  record it forwards to the wrapped handler, if any; times are nanoseconds.
\<close>

section \<open>Levels\<close>

definition LevelDebug :: int where "LevelDebug = -4"
definition LevelInfo :: int where "LevelInfo = 0"
definition LevelWarn :: int where "LevelWarn = 4"
definition LevelError :: int where "LevelError = 8"

lemmas level_defs = LevelDebug_def LevelInfo_def LevelWarn_def LevelError_def

text \<open>\<open>slog.Level.String\<close>: the name of the nearest level below, with the distance to it.\<close>

definition level_text :: "int \<Rightarrow> string" where
  "level_text l =
     (let str = (\<lambda>base d. if d = 0 then base else base @ (if d < 0 then dec_int d else ''+'' @ dec_int d)) in
      if l < LevelInfo then str ''DEBUG'' (l - LevelDebug)
      else if l < LevelWarn then str ''INFO'' (l - LevelInfo)
      else if l < LevelError then str ''WARN'' (l - LevelWarn)
      else str ''ERROR'' (l - LevelError))"

definition Parse_level :: "(string \<Rightarrow> string) \<Rightarrow> string \<Rightarrow> int \<times> string option" where
  "Parse_level u s =
     (let t = to_lower u (trim_space s) in
      if t = [] \<or> t = ''info'' then (LevelInfo, None)
      else if t = ''debug'' then (LevelDebug, None)
      else if t = ''warn'' \<or> t = ''warning'' then (LevelWarn, None)
      else if t = ''error'' then (LevelError, None)
      else (LevelInfo, Some s))"

record log_level =
  lv_v :: int
  lv_local :: bool

text \<open>A record printed at the level of the process.\<close>

definition print_at :: "int \<Rightarrow> int \<Rightarrow> string \<Rightarrow> (int \<times> string) list" where
  "print_at v l m = (if v \<le> l then [(l, m)] else [])"

definition Setup :: "(string \<Rightarrow> string) \<Rightarrow> string option \<Rightarrow> log_level \<times> (int \<times> string) list" where
  "Setup u env_var =
     (let env = (case env_var of None \<Rightarrow> [] | Some s \<Rightarrow> s);
          ok = (env_var \<noteq> None)
      in case Parse_level u env of (l, err) \<Rightarrow>
        let lv = \<lparr>lv_v = l, lv_local = ok \<and> trim_space env \<noteq> []\<rparr> in
        case err of
          None \<Rightarrow> (lv, [])
        | Some _ \<Rightarrow> (lv\<lparr>lv_local := False\<rparr>, print_at l LevelWarn ''ignoring LOG_LEVEL, falling back to info''))"

definition level_String :: "(string \<Rightarrow> string) \<Rightarrow> log_level \<Rightarrow> string" where
  "level_String u lv = to_lower u (level_text (lv_v lv))"

definition Local :: "log_level \<Rightarrow> bool" where
  "Local lv = lv_local lv"

definition Set_level :: "(string \<Rightarrow> string) \<Rightarrow> string \<Rightarrow> log_level \<Rightarrow> string option \<times> log_level \<times> (int \<times> string) list" where
  "Set_level u s lv =
     (case Parse_level u s of
        (_, Some e) \<Rightarrow> (Some e, lv, [])
      | (l, None) \<Rightarrow>
          let old = lv_v lv; say = (\<lambda>v. print_at v LevelInfo ''log level changed'') in
          if old = l then (None, lv, [])
          else if l < old then let lv' = lv\<lparr>lv_v := l\<rparr> in (None, lv', say (lv_v lv'))
          else (None, lv\<lparr>lv_v := l\<rparr>, say (lv_v lv)))"

definition Follow :: "(string \<Rightarrow> string) \<Rightarrow> string \<Rightarrow> log_level \<Rightarrow> log_level \<times> (int \<times> string) list" where
  "Follow u s lv =
     (if s = [] \<or> lv_local lv then (lv, [])
      else case Set_level u s lv of
             (None, lv', out) \<Rightarrow> (lv', out)
           | (Some _, lv', out) \<Rightarrow>
               (lv', out @ print_at (lv_v lv') LevelWarn ''ignoring log level from the control plane''))"

section \<open>The throttle\<close>

definition Window :: int where "Window = 60 * 10 ^ 9"
definition maxKeys :: nat where "maxKeys = 1024"

record log_record =
  lr_time :: int
  lr_level :: int
  lr_message :: string
  lr_attrs :: "(string \<times> nat) list"

record log_counter =
  cnt_first :: int
  cnt_dropped :: nat

record throttle =
  th_window :: int
  th_seen :: "(string \<times> log_counter) list"

definition NewThrottle :: "int \<Rightarrow> throttle" where
  "NewThrottle window = \<lparr>th_window = window, th_seen = []\<rparr>"

definition log_key :: "log_record \<Rightarrow> string" where
  "log_key r = level_text (lr_level r) @ [CHR 0x00] @ lr_message r"

text \<open>The record that ends a run of suppressed ones: the counter restarts and tells their number.\<close>

definition forward_record :: "nat \<Rightarrow> log_record \<Rightarrow> throttle \<Rightarrow> log_record option \<times> throttle" where
  "forward_record dropped r t =
     (let seen = (if length (th_seen t) > maxKeys then [] else th_seen t);
          t' = t\<lparr>th_seen := AList.update (log_key r) \<lparr>cnt_first = lr_time r, cnt_dropped = 0\<rparr> seen\<rparr>
      in (Some (if dropped > 0 then r\<lparr>lr_attrs := lr_attrs r @ [(''suppressed'', dropped)]\<rparr> else r), t'))"

definition Handle_log :: "log_record \<Rightarrow> throttle \<Rightarrow> log_record option \<times> throttle" where
  "Handle_log r t =
     (if lr_level r < LevelInfo then (Some r, t)
      else case map_of (th_seen t) (log_key r) of
        Some c \<Rightarrow>
          if lr_time r - cnt_first c < th_window t
          then (None, t\<lparr>th_seen := AList.update (log_key r) (c\<lparr>cnt_dropped := cnt_dropped c + 1\<rparr>) (th_seen t)\<rparr>)
          else forward_record (cnt_dropped c) r t
      | None \<Rightarrow> forward_record 0 r t)"

fun handle_all :: "log_record list \<Rightarrow> throttle \<Rightarrow> log_record list \<times> throttle" where
  "handle_all [] t = ([], t)"
| "handle_all (r # rs) t =
     (case Handle_log r t of (o1, t1) \<Rightarrow>
        case handle_all rs t1 of (os, t2) \<Rightarrow> ((case o1 of None \<Rightarrow> os | Some x \<Rightarrow> x # os), t2))"

section \<open>Lemmas\<close>

definition counted :: "string \<Rightarrow> log_record \<Rightarrow> bool" where
  "counted k r \<longleftrightarrow> LevelInfo \<le> lr_level r \<and> log_key r = k"

definition suppressed :: "log_record \<Rightarrow> nat" where
  "suppressed r = sum_list (map snd (filter (\<lambda>a. fst a = ''suppressed'') (lr_attrs r)))"

definition pending :: "throttle \<Rightarrow> string \<Rightarrow> nat" where
  "pending t k = (case map_of (th_seen t) k of None \<Rightarrow> 0 | Some c \<Rightarrow> cnt_dropped c)"

text \<open>The keys of a throttle stay within \<open>K\<close>, too few of them to reset the map.\<close>

definition throttle_ok :: "string set \<Rightarrow> throttle \<Rightarrow> bool" where
  "throttle_ok K t \<longleftrightarrow> distinct (map fst (th_seen t)) \<and> fst ` set (th_seen t) \<subseteq> K \<and> finite K \<and> card K \<le> maxKeys"

lemma throttle_ok_length: "throttle_ok K t \<Longrightarrow> length (th_seen t) \<le> maxKeys"
  using card_mono [of K "set (map fst (th_seen t))"] distinct_card [of "map fst (th_seen t)"]
  by (auto simp: throttle_ok_def)

lemma forward_record_eq:
  assumes "throttle_ok K t"
  shows "forward_record d r t =
    (Some (if d > 0 then r\<lparr>lr_attrs := lr_attrs r @ [(''suppressed'', d)]\<rparr> else r),
     t\<lparr>th_seen := AList.update (log_key r) \<lparr>cnt_first = lr_time r, cnt_dropped = 0\<rparr> (th_seen t)\<rparr>)"
  using throttle_ok_length [OF assms] by (simp add: forward_record_def Let_def)

lemma throttle_ok_update:
  "throttle_ok K t \<Longrightarrow> k \<in> K \<Longrightarrow> throttle_ok K (t\<lparr>th_seen := AList.update k v (th_seen t)\<rparr>)"
  by (auto simp: throttle_ok_def distinct_update dom_update)

lemma log_key_attrs [simp]: "log_key (r\<lparr>lr_attrs := as\<rparr>) = log_key r" "counted k (r\<lparr>lr_attrs := as\<rparr>) = counted k r"
  by (simp_all add: log_key_def counted_def)

lemma suppressed_append [simp]:
  "suppressed (r\<lparr>lr_attrs := lr_attrs r @ [(''suppressed'', d)]\<rparr>) = suppressed r + d"
  by (simp add: suppressed_def)

lemma pending_update [simp]:
  "pending (t\<lparr>th_seen := AList.update k c (th_seen t)\<rparr>) k' = (if k' = k then cnt_dropped c else pending t k')"
  by (simp add: pending_def update_conv)

lemma Handle_log_cases:
  assumes "throttle_ok K t" and "Handle_log r t = (x, t')"
  obtains (below) "lr_level r < LevelInfo" and "x = Some r" and "t' = t"
  | (drop) c where "LevelInfo \<le> lr_level r" and "map_of (th_seen t) (log_key r) = Some c" and "x = None"
      and "t' = t\<lparr>th_seen := AList.update (log_key r) (c\<lparr>cnt_dropped := cnt_dropped c + 1\<rparr>) (th_seen t)\<rparr>"
  | (pass) "LevelInfo \<le> lr_level r"
      and "\<And>c. map_of (th_seen t) (log_key r) = Some c \<Longrightarrow> th_window t \<le> lr_time r - cnt_first c"
      and "x = Some (if pending t (log_key r) > 0
        then r\<lparr>lr_attrs := lr_attrs r @ [(''suppressed'', pending t (log_key r))]\<rparr> else r)"
      and "t' = t\<lparr>th_seen := AList.update (log_key r) \<lparr>cnt_first = lr_time r, cnt_dropped = 0\<rparr> (th_seen t)\<rparr>"
proof (cases "lr_level r < LevelInfo")
  case True
  with assms(2) below show thesis by (simp add: Handle_log_def)
next
  case False
  show thesis
  proof (cases "map_of (th_seen t) (log_key r)")
    case None
    with False assms(2) pass show thesis by (simp add: Handle_log_def forward_record_eq [OF assms(1)] pending_def)
  next
    case (Some c)
    then have p: "pending t (log_key r) = cnt_dropped c" by (simp add: pending_def)
    show thesis
    proof (cases "lr_time r - cnt_first c < th_window t")
      case True
      with False Some assms(2) drop [of c] show thesis by (simp add: Handle_log_def)
    next
      case le: False
      with False Some assms(2) p show thesis by (intro pass) (auto simp: Handle_log_def forward_record_eq [OF assms(1)])
    qed
  qed
qed

lemma Handle_log_step:
  assumes "throttle_ok K t" and "LevelInfo \<le> lr_level r \<Longrightarrow> log_key r \<in> K" and "suppressed r = 0"
    and "Handle_log r t = (x, t')"
  shows "throttle_ok K t' \<and> th_window t' = th_window t \<and>
    (\<forall>k. (if counted k r then 1 else 0) + pending t k =
       (case x of None \<Rightarrow> 0 | Some y \<Rightarrow> if counted k y then Suc (suppressed y) else 0) + pending t' k)"
  using assms(1,4)
proof (cases rule: Handle_log_cases)
  case below
  with assms show ?thesis by (simp add: counted_def)
next
  case (drop c)
  then have "pending t (log_key r) = cnt_dropped c" by (simp add: pending_def)
  with drop assms(1,2) show ?thesis by (simp add: counted_def throttle_ok_update)
next
  case pass
  with assms(1-3) show ?thesis by (simp add: throttle_ok_update) (simp add: counted_def)
qed

text \<open>The counter of a key holds the time of the last forwarded record of that key.\<close>

lemma Handle_log_times:
  assumes "throttle_ok K t" and "Handle_log r t = (x, t')"
  shows "(\<forall>y c. x = Some y \<longrightarrow> counted k y \<longrightarrow> map_of (th_seen t) k = Some c \<longrightarrow> th_window t \<le> lr_time y - cnt_first c) \<and>
    map_option cnt_first (map_of (th_seen t') k) =
      (case x of Some y \<Rightarrow> if counted k y then Some (lr_time y) else map_option cnt_first (map_of (th_seen t) k)
       | None \<Rightarrow> map_option cnt_first (map_of (th_seen t) k))"
  using assms
proof (cases rule: Handle_log_cases)
  case below
  then show ?thesis by (simp add: counted_def)
next
  case (drop c)
  then show ?thesis by (simp add: update_conv)
next
  case pass
  then show ?thesis by (auto simp: update_conv counted_def split: if_splits)
qed

lemma handle_all_account:
  assumes "throttle_ok K t" and "\<And>r. r \<in> set rs \<Longrightarrow> LevelInfo \<le> lr_level r \<Longrightarrow> log_key r \<in> K"
    and "\<And>r. r \<in> set rs \<Longrightarrow> suppressed r = 0" and "handle_all rs t = (os, t')"
  shows "length (filter (counted k) rs) + pending t k =
    sum_list (map (\<lambda>y. Suc (suppressed y)) (filter (counted k) os)) + pending t' k"
  using assms
proof (induction rs arbitrary: t os)
  case (Cons r rs)
  from Cons.prems(4) obtain x t1 os1 where h: "Handle_log r t = (x, t1)" and a: "handle_all rs t1 = (os1, t')"
    and os: "os = (case x of None \<Rightarrow> os1 | Some y \<Rightarrow> y # os1)" by (auto split: prod.splits)
  from Handle_log_step [OF Cons.prems(1) _ _ h] Cons.prems(2,3) have st: "throttle_ok K t1"
    "(if counted k r then 1 else 0) + pending t k =
       (case x of None \<Rightarrow> 0 | Some y \<Rightarrow> if counted k y then Suc (suppressed y) else 0) + pending t1 k"
    by (metis list.set_intros(1))+
  from Cons.IH [OF st(1) _ _ a] Cons.prems(2,3) have "length (filter (counted k) rs) + pending t1 k =
    sum_list (map (\<lambda>y. Suc (suppressed y)) (filter (counted k) os1)) + pending t' k" by simp
  with st(2) os show ?case by (cases x) (auto split: if_splits)
qed simp

lemma handle_all_spaced:
  assumes "throttle_ok K t" and "\<And>r. r \<in> set rs \<Longrightarrow> LevelInfo \<le> lr_level r \<Longrightarrow> log_key r \<in> K"
    and "\<And>r. r \<in> set rs \<Longrightarrow> suppressed r = 0" and "handle_all rs t = (os, t')" and "0 \<le> th_window t"
  shows "sorted_wrt (\<lambda>a b. th_window t \<le> lr_time b - lr_time a) (filter (counted k) os) \<and>
    (\<forall>c. map_of (th_seen t) k = Some c \<longrightarrow> (\<forall>y\<in>set (filter (counted k) os). th_window t \<le> lr_time y - cnt_first c))"
  using assms
proof (induction rs arbitrary: t os)
  case (Cons r rs)
  from Cons.prems(4) obtain x t1 os1 where h: "Handle_log r t = (x, t1)" and a: "handle_all rs t1 = (os1, t')"
    and os: "os = (case x of None \<Rightarrow> os1 | Some y \<Rightarrow> y # os1)" by (auto split: prod.splits)
  from Handle_log_step [OF Cons.prems(1) _ _ h] Cons.prems(2,3) have st: "throttle_ok K t1" "th_window t1 = th_window t"
    by (metis list.set_intros(1))+
  have ih: "sorted_wrt (\<lambda>a b. th_window t \<le> lr_time b - lr_time a) (filter (counted k) os1)"
    "map_of (th_seen t1) k = Some c \<Longrightarrow> y \<in> set os1 \<Longrightarrow> counted k y \<Longrightarrow> th_window t \<le> lr_time y - cnt_first c" for c y
    using Cons.IH [OF st(1) _ _ a] Cons.prems(2,3,5) st(2) by auto
  note tm = Handle_log_times [OF Cons.prems(1) h, of k]
  show ?case
  proof (cases "\<exists>y. x = Some y \<and> counted k y")
    case True
    then obtain y where y: "x = Some y" "counted k y" by blast
    with tm obtain c1 where c1: "map_of (th_seen t1) k = Some c1" "cnt_first c1 = lr_time y" by auto
    with ih(2) [OF c1(1)] have after: "th_window t \<le> lr_time z - lr_time y" if "z \<in> set os1" "counted k z" for z
      using that by simp
    then have "th_window t \<le> lr_time z - cnt_first c"
      if "map_of (th_seen t) k = Some c" "z \<in> set os1" "counted k z" for c z
      using tm y that Cons.prems(5) by fastforce
    with after ih(1) tm y os show ?thesis by auto
  next
    case False
    with tm have "map_option cnt_first (map_of (th_seen t1) k) = map_option cnt_first (map_of (th_seen t) k)"
      by (auto split: option.splits)
    then have "th_window t \<le> lr_time z - cnt_first c"
      if "map_of (th_seen t) k = Some c" "z \<in> set os1" "counted k z" for c z
      using ih(2) that by (cases "map_of (th_seen t1) k") fastforce+
    with ih(1) False os show ?thesis by (cases x) auto
  qed
qed simp

section \<open>Properties\<close>

text \<open>
  The throttle loses nothing it does not account for and is quiet: over any sequence of
  records with at most 1024 different keys, for every key the number of records logged is the
  number forwarded plus the suppressed counts these carry plus the count still pending, and any two
  forwarded records of one key are at least a window apart. Below info, nothing is suppressed.
\<close>

theorem throttle_correct:
  assumes "handle_all rs (NewThrottle w) = (os, t)" and "0 \<le> w"
    and "card (log_key ` set rs) \<le> maxKeys" and "\<And>r. r \<in> set rs \<Longrightarrow> suppressed r = 0"
  shows "length (filter (counted k) rs) =
      sum_list (map (\<lambda>y. Suc (suppressed y)) (filter (counted k) os)) + pending t k \<and>
    sorted_wrt (\<lambda>a b. w \<le> lr_time b - lr_time a) (filter (counted k) os) \<and>
    (lr_level r0 < LevelInfo \<longrightarrow> Handle_log r0 t = (Some r0, t))"
proof -
  have ok: "throttle_ok (log_key ` set rs) (NewThrottle w)" using assms(3) by (simp add: throttle_ok_def NewThrottle_def)
  from handle_all_account [OF ok _ assms(4,1)] handle_all_spaced [OF ok _ assms(4,1)] assms(2) show ?thesis
    by (simp add: NewThrottle_def pending_def Handle_log_def)
qed

definition demo_log :: "int \<Rightarrow> log_record" where
  "demo_log i = \<lparr>lr_time = i, lr_level = LevelWarn, lr_message = ''x'', lr_attrs = []\<rparr>"

theorem throttle_correct_witness:
  "\<exists>os t. handle_all [demo_log 0, demo_log 1, demo_log 70] (NewThrottle 60) = (os, t) \<and> length os = 2 \<and>
     3 = sum_list (map (\<lambda>y. Suc (suppressed y)) (filter (counted (log_key (demo_log 0))) os)) + pending t (log_key (demo_log 0))"
proof -
  let ?rs = "[demo_log 0, demo_log 1, demo_log 70]"
  obtain os t where h: "handle_all ?rs (NewThrottle 60) = (os, t)" by fastforce
  have k: "log_key (demo_log a) = log_key (demo_log 0)" for a by (simp add: demo_log_def log_key_def)
  have "log_key ` set ?rs = {log_key (demo_log 0)}" using k by auto
  then have c: "card (log_key ` set ?rs) \<le> maxKeys" by (simp add: maxKeys_def)
  have z: "suppressed r = 0" if "r \<in> set ?rs" for r using that by (auto simp: demo_log_def suppressed_def)
  have n: "length (filter (counted (log_key (demo_log 0))) ?rs) = 3" using k by (simp add: counted_def) (simp add: demo_log_def level_defs)
  have "length (fst (handle_all ?rs (NewThrottle 60))) = 2" by code_simp
  with throttle_correct [OF h _ c z, of "log_key (demo_log 0)"] n h show ?thesis by simp
qed

text \<open>
  A pushed log level is followed exactly when the node has no local level of its own and
  the value is a known one; otherwise the level is unchanged. A level that does change leaves a
  record exactly when the lower of the two levels is info or below: switching between warn and
  error prints nothing.
\<close>

theorem Follow_correct:
  "lv_v (fst (Follow u s lv)) =
     (if s \<noteq> [] \<and> \<not> lv_local lv \<and> snd (Parse_level u s) = None then fst (Parse_level u s) else lv_v lv) \<and>
   lv_local (fst (Follow u s lv)) = lv_local lv \<and>
   ((LevelInfo, ''log level changed'') \<in> set (snd (Follow u s lv)) \<longleftrightarrow>
     lv_v (fst (Follow u s lv)) \<noteq> lv_v lv \<and> min (lv_v lv) (lv_v (fst (Follow u s lv))) \<le> LevelInfo)"
  by (cases "Parse_level u s"; cases "snd (Parse_level u s)")
    (auto simp: Follow_def Set_level_def print_at_def Let_def level_defs min_def)

end
