(* ===== verification/Go_Files.thy ===== *)
theory Go_Files
  imports Go_Prelude "HOL-Library.AList"
begin

text \<open>
  The part of Go's \<open>os\<close> package the node programs use, over an explicit file system. A path is the
  list of its components, so \<open>filepath.Join\<close> appends one, \<open>filepath.Dir\<close> drops the last, and a link
  target is a path from the root. Opening follows links (at most 40, as Linux does); \<open>Remove\<close>,
  \<open>Rename\<close>, \<open>Symlink\<close> and \<open>Readlink\<close> act on the entry itself.

  Every system call that changes the file system is numbered, and \<open>fs_fail\<close> says which of them fail:
  a failed call changes nothing, except that a failed write leaves the given number of bytes. Since
  every later call may fail as well, the states after a crash are among the states after failures.
\<close>

type_synonym path = "string list"

datatype fnode = FFile bytes | FDir | FLink path

record fs =
  fs_nodes :: "(path \<times> fnode) list"
  fs_ops :: nat
  fs_fail :: "nat \<Rightarrow> nat option"

definition fs_node :: "fs \<Rightarrow> path \<Rightarrow> fnode option" where
  "fs_node f p = (if p = [] then Some FDir else map_of (fs_nodes f) p)"

text \<open>Following links: \<open>n\<close> more links may be followed, \<open>cur\<close> is resolved, the rest is to do.\<close>

fun walk :: "nat \<Rightarrow> fs \<Rightarrow> path \<Rightarrow> path \<Rightarrow> path option" where
  "walk n f cur [] = Some cur"
| "walk n f cur (c # cs) =
     (case fs_node f (cur @ [c]) of
        Some (FLink t) \<Rightarrow> (case n of 0 \<Rightarrow> None | Suc m \<Rightarrow> walk m f [] (t @ cs))
      | _ \<Rightarrow> walk n f (cur @ [c]) cs)"

definition real_path :: "fs \<Rightarrow> path \<Rightarrow> path option" where
  "real_path f p = walk 40 f [] p"

text \<open>The entry a path names without following a link in its last component.\<close>

definition entry_path :: "fs \<Rightarrow> path \<Rightarrow> path option" where
  "entry_path f p = (if p = [] then Some [] else map_option (\<lambda>d. d @ [last p]) (real_path f (butlast p)))"

definition stat :: "fs \<Rightarrow> path \<Rightarrow> fnode option" where
  "stat f p = Option.bind (real_path f p) (fs_node f)"

definition lstat :: "fs \<Rightarrow> path \<Rightarrow> fnode option" where
  "lstat f p = Option.bind (entry_path f p) (fs_node f)"

section \<open>Reading\<close>

definition os_read_file :: "fs \<Rightarrow> path \<Rightarrow> bytes option" where
  "os_read_file f p = (case stat f p of Some (FFile b) \<Rightarrow> Some b | _ \<Rightarrow> None)"

definition os_readlink :: "fs \<Rightarrow> path \<Rightarrow> path option" where
  "os_readlink f p = (case lstat f p of Some (FLink t) \<Rightarrow> Some t | _ \<Rightarrow> None)"

text \<open>\<open>os.ReadDir\<close>: the names in a directory in order, with whether each is itself a directory.\<close>

definition os_read_dir :: "fs \<Rightarrow> path \<Rightarrow> (string \<times> bool) list option" where
  "os_read_dir f p =
     (case (real_path f p, stat f p) of
        (Some d, Some FDir) \<Rightarrow>
          Some (map (\<lambda>n. (n, fs_node f (d @ [n]) = Some FDir))
            (sort (remdups (map last (filter (\<lambda>q. q \<noteq> [] \<and> butlast q = d) (map fst (fs_nodes f)))))))
      | _ \<Rightarrow> None)"

section \<open>Changing\<close>

definition tick :: "fs \<Rightarrow> fs" where
  "tick f = f\<lparr>fs_ops := Suc (fs_ops f)\<rparr>"

definition set_node :: "path \<Rightarrow> fnode \<Rightarrow> fs \<Rightarrow> fs" where
  "set_node p n f = f\<lparr>fs_nodes := AList.update p n (fs_nodes f)\<rparr>"

definition del_nodes :: "(path \<Rightarrow> bool) \<Rightarrow> fs \<Rightarrow> fs" where
  "del_nodes P f = f\<lparr>fs_nodes := filter (\<lambda>e. \<not> P (fst e)) (fs_nodes f)\<rparr>"

text \<open>One system call: \<open>what\<close> is the change, \<^term>\<open>None\<close> when the call is refused.\<close>

definition syscall :: "(fs \<Rightarrow> fs option) \<Rightarrow> fs \<Rightarrow> bool \<times> fs" where
  "syscall what f =
     (case fs_fail f (fs_ops f) of
        Some _ \<Rightarrow> (False, tick f)
      | None \<Rightarrow> (case what f of None \<Rightarrow> (False, tick f) | Some f' \<Rightarrow> (True, tick f')))"

definition sys_mkdir :: "path \<Rightarrow> fs \<Rightarrow> bool \<times> fs" where
  "sys_mkdir p = syscall (\<lambda>f.
     case entry_path f p of
       Some q \<Rightarrow> if fs_node f q = None \<and> fs_node f (butlast q) = Some FDir then Some (set_node q FDir f) else None
     | None \<Rightarrow> None)"

text \<open>\<open>os.MkdirAll\<close>: the missing directories of a path, from the top.\<close>

fun mkdir_all_from :: "path \<Rightarrow> path \<Rightarrow> fs \<Rightarrow> bool \<times> fs" where
  "mkdir_all_from cur [] f = (True, f)"
| "mkdir_all_from cur (c # cs) f =
     (case stat f (cur @ [c]) of
        Some FDir \<Rightarrow> mkdir_all_from (cur @ [c]) cs f
      | Some _ \<Rightarrow> (False, f)
      | None \<Rightarrow> (case sys_mkdir (cur @ [c]) f of (ok, f1) \<Rightarrow> if ok then mkdir_all_from (cur @ [c]) cs f1 else (False, f1)))"

definition os_mkdir_all :: "path \<Rightarrow> fs \<Rightarrow> bool \<times> fs" where
  "os_mkdir_all p = mkdir_all_from [] p"

definition sys_open_trunc :: "path \<Rightarrow> fs \<Rightarrow> bool \<times> fs" where
  "sys_open_trunc p = syscall (\<lambda>f.
     case real_path f p of
       Some q \<Rightarrow> if fs_node f q \<noteq> Some FDir \<and> fs_node f (butlast q) = Some FDir then Some (set_node q (FFile []) f) else None
     | None \<Rightarrow> None)"

definition sys_write :: "path \<Rightarrow> bytes \<Rightarrow> fs \<Rightarrow> bool \<times> fs" where
  "sys_write p b f =
     (case real_path f p of
        None \<Rightarrow> (False, tick f)
      | Some q \<Rightarrow>
          (case fs_fail f (fs_ops f) of
             Some n \<Rightarrow> (False, tick (set_node q (FFile (take n b)) f))
           | None \<Rightarrow> (True, tick (set_node q (FFile b) f))))"

definition os_write_file :: "path \<Rightarrow> bytes \<Rightarrow> fs \<Rightarrow> bool \<times> fs" where
  "os_write_file p b f = (case sys_open_trunc p f of (ok, f1) \<Rightarrow> if ok then sys_write p b f1 else (False, f1))"

definition os_remove :: "path \<Rightarrow> fs \<Rightarrow> bool \<times> fs" where
  "os_remove p = syscall (\<lambda>f.
     case entry_path f p of
       Some q \<Rightarrow> if fs_node f q \<noteq> None \<and> (fs_node f q = Some FDir \<longrightarrow> os_read_dir f q = Some []) then Some (del_nodes (\<lambda>x. x = q) f) else None
     | None \<Rightarrow> None)"

definition os_symlink :: "path \<Rightarrow> path \<Rightarrow> fs \<Rightarrow> bool \<times> fs" where
  "os_symlink target p = syscall (\<lambda>f.
     case entry_path f p of
       Some q \<Rightarrow> if fs_node f q = None \<and> fs_node f (butlast q) = Some FDir then Some (set_node q (FLink target) f) else None
     | None \<Rightarrow> None)"

text \<open>\<open>os.Rename\<close> of a file or link; an existing directory is not replaced.\<close>

definition os_rename :: "path \<Rightarrow> path \<Rightarrow> fs \<Rightarrow> bool \<times> fs" where
  "os_rename a b = syscall (\<lambda>f.
     case (entry_path f a, entry_path f b) of
       (Some p, Some q) \<Rightarrow>
         (case fs_node f p of
            Some n \<Rightarrow>
              if n \<noteq> FDir \<and> fs_node f q \<noteq> Some FDir \<and> fs_node f (butlast q) = Some FDir
              then Some (set_node q n (del_nodes (\<lambda>x. x = p) f)) else None
          | None \<Rightarrow> None)
     | _ \<Rightarrow> None)"

definition os_remove_all :: "path \<Rightarrow> fs \<Rightarrow> bool \<times> fs" where
  "os_remove_all p = syscall (\<lambda>f.
     case entry_path f p of Some q \<Rightarrow> Some (del_nodes (\<lambda>x. take (length q) x = q) f) | None \<Rightarrow> None)"

section \<open>Lemmas\<close>

lemma fs_node_tick [simp]: "fs_node (tick f) = fs_node f"
  by (simp add: tick_def fs_node_def fun_eq_iff)

lemma fs_node_set_node [simp]: "fs_node (set_node q n f) p = (if p = q \<and> p \<noteq> [] then Some n else fs_node f p)"
  by (auto simp: set_node_def fs_node_def update_conv)

lemma map_of_filter_key: "map_of (filter (\<lambda>e. P (fst e)) xs) k = (if P k then map_of xs k else None)"
  by (induction xs) auto

lemma fs_node_del_nodes [simp]: "fs_node (del_nodes P f) p = (if p \<noteq> [] \<and> P p then None else fs_node f p)"
  by (simp add: del_nodes_def fs_node_def map_of_filter_key [of "\<lambda>k. \<not> P k"])

lemma walk_cong: "fs_node f = fs_node g \<Longrightarrow> walk n f cur p = walk n g cur p"
  by (induction n f cur p rule: walk.induct) (auto split: option.splits fnode.splits nat.splits)

lemma real_path_cong: "fs_node f = fs_node g \<Longrightarrow> real_path f = real_path g"
  by (auto simp: real_path_def fun_eq_iff intro: walk_cong)

text \<open>A path none of whose prefixes is a link names itself.\<close>

definition plain :: "fs \<Rightarrow> path \<Rightarrow> bool" where
  "plain f p \<longleftrightarrow> (\<forall>k t. fs_node f (take k p) \<noteq> Some (FLink t))"

lemma walk_plain:
  assumes "\<And>k t. fs_node f (cur @ take k p) \<noteq> Some (FLink t)"
  shows "walk n f cur p = Some (cur @ p)"
  using assms
proof (induction p arbitrary: cur)
  case (Cons c cs)
  have "fs_node f (cur @ [c]) \<noteq> Some (FLink t)" for t using Cons.prems [of 1 t] by simp
  moreover have "fs_node f ((cur @ [c]) @ take k cs) \<noteq> Some (FLink t)" for k t using Cons.prems [of "Suc k" t] by simp
  from Cons.IH [OF this] have "walk n f (cur @ [c]) cs = Some (cur @ c # cs)" by simp
  ultimately show ?case by (auto split: option.splits fnode.splits)
qed simp

lemma real_path_plain: "plain f p \<Longrightarrow> real_path f p = Some p"
  using walk_plain [of f "[]" p 40] by (simp add: real_path_def plain_def)

lemma plain_butlast: "plain f p \<Longrightarrow> plain f (butlast p)"
  by (simp add: plain_def butlast_conv_take)

lemma entry_path_plain: "plain f (butlast p) \<Longrightarrow> entry_path f p = Some p"
  by (simp add: entry_path_def real_path_plain)

text \<open>A link in the middle of a path, with nothing but itself in the way.\<close>

lemma walk_through_link:
  assumes "plain f d" and "fs_node f (d @ [c]) = Some (FLink t)" and "plain f (t @ cs)"
  shows "real_path f (d @ c # cs) = Some (t @ cs)"
proof -
  have "walk n f cur (e @ c # cs) = Some (t @ cs)"
    if "n > 0" and "cur @ e = d" and "\<And>k t. fs_node f (cur @ take k e) \<noteq> Some (FLink t)" for n cur e
    using that
  proof (induction e arbitrary: cur)
    case Nil
    then obtain m where "n = Suc m" by (cases n) auto
    with Nil assms(2,3) walk_plain [of f "[]" "t @ cs" m] show ?case by (simp add: plain_def)
  next
    case (Cons x e)
    have "fs_node f (cur @ [x]) \<noteq> Some (FLink t)" for t using Cons.prems(3) [of 1 t] by simp
    moreover have "fs_node f ((cur @ [x]) @ take k e) \<noteq> Some (FLink t)" for k t using Cons.prems(3) [of "Suc k" t] by simp
    with Cons.IH [of "cur @ [x]"] Cons.prems have "walk n f (cur @ [x]) (e @ c # cs) = Some (t @ cs)" by simp
    ultimately show ?case by (auto split: option.splits fnode.splits)
  qed
  from this [of 40 "[]" d] assms(1) show ?thesis by (simp add: real_path_def plain_def)
qed

lemma fs_fail_simps [simp]: "fs_fail (tick f) = fs_fail f" "fs_fail (set_node p n f) = fs_fail f" "fs_fail (del_nodes P f) = fs_fail f"
  by (simp_all add: tick_def set_node_def del_nodes_def)

lemma plain_cong: "(\<And>p t. fs_node g p = Some (FLink t) \<Longrightarrow> fs_node f p = Some (FLink t)) \<Longrightarrow> plain f p \<Longrightarrow> plain g p"
  by (auto simp: plain_def)

lemma plain_parent [simp]: "plain f (p @ [c]) \<Longrightarrow> plain f p"
  using plain_butlast [of f "p @ [c]"] by simp

lemma plain_append: "plain f (p @ q) \<Longrightarrow> plain f p"
  unfolding plain_def
proof (intro allI notI)
  fix k t
  assume pq: "\<forall>k t. fs_node f (take k (p @ q)) \<noteq> Some (FLink t)" and l: "fs_node f (take k p) = Some (FLink t)"
  have "take k p = take (min k (length p)) (p @ q)" by (simp add: min_def)
  with pq l show False by metis
qed

text \<open>\<open>MkdirAll\<close> on a plain path only adds directories along the path.\<close>

definition dirs_added :: "path \<Rightarrow> fs \<Rightarrow> fs \<Rightarrow> bool" where
  "dirs_added p f g \<longleftrightarrow> fs_fail g = fs_fail f \<and>
     (\<forall>q. fs_node g q = fs_node f q \<or> fs_node f q = None \<and> fs_node g q = Some FDir \<and> (\<exists>k. q = take k p))"

lemma dirs_added_trans: "dirs_added p f g \<Longrightarrow> dirs_added p g h \<Longrightarrow> dirs_added p f h"
  unfolding dirs_added_def by metis

lemma syscall_cases:
  assumes "syscall what f = (ok, g)"
  obtains (failed) "\<not> ok" and "g = tick f" and "fs_fail f (fs_ops f) \<noteq> None \<or> what f = None"
  | (success) f' where "ok" and "what f = Some f'" and "g = tick f'"
  using assms by (auto simp: syscall_def split: option.splits)

lemma dirs_added_link: "dirs_added p f g \<Longrightarrow> fs_node g q = Some (FLink t) \<Longrightarrow> fs_node f q = Some (FLink t)"
  unfolding dirs_added_def by (metis fnode.distinct(5) option.inject)

lemma dirs_added_kept: "dirs_added p f g \<Longrightarrow> fs_node f q \<noteq> None \<or> (\<forall>k. q \<noteq> take k p) \<Longrightarrow> fs_node g q = fs_node f q"
  unfolding dirs_added_def by metis

lemma plain_dirs_added: "dirs_added p f g \<Longrightarrow> plain f q \<Longrightarrow> plain g q"
  by (rule plain_cong) (rule dirs_added_link)

lemma dirs_added_tick: "dirs_added p f (tick f)"
  by (simp add: dirs_added_def)

lemma sys_mkdir_plain:
  assumes "plain f (p @ [c])" and "sys_mkdir (p @ [c]) f = (ok, g)"
  shows "dirs_added (p @ c # cs) f g \<and> (ok \<longrightarrow> fs_node g (p @ [c]) = Some FDir)"
proof -
  have e: "entry_path f (p @ [c]) = Some (p @ [c])" using assms(1) by (simp add: entry_path_plain)
  have t: "\<exists>k. p @ [c] = take k (p @ c # cs)" by (rule exI [of _ "Suc (length p)"]) simp
  from assms(2) [unfolded sys_mkdir_def] show ?thesis
  proof (cases rule: syscall_cases)
    case (success f')
    then have "fs_node f (p @ [c]) = None" and "g = tick (set_node (p @ [c]) FDir f)"
      by (auto simp: e split: if_splits)
    then show ?thesis using t unfolding dirs_added_def by auto
  qed (simp add: dirs_added_tick)
qed

lemma mkdir_all_from_plain:
  assumes "plain f (cur @ p)" and "mkdir_all_from cur p f = (ok, g)"
  shows "dirs_added (cur @ p) f g \<and> (ok \<longrightarrow> (p = [] \<or> fs_node g (cur @ p) = Some FDir))"
  using assms
proof (induction p arbitrary: cur f)
  case (Cons c cs)
  have pl: "plain f (cur @ [c])" using plain_append [of f "cur @ [c]" cs] Cons.prems(1) by simp
  then have st: "stat f (cur @ [c]) = fs_node f (cur @ [c])" by (simp add: stat_def real_path_plain)
  have ih: "dirs_added (cur @ c # cs) h g \<and> (ok \<longrightarrow> fs_node g (cur @ c # cs) = Some FDir)"
    if "mkdir_all_from (cur @ [c]) cs h = (ok, g)" "plain h (cur @ c # cs)" "fs_node h (cur @ [c]) = Some FDir" for h
  proof (cases "cs = []")
    case False
    then show ?thesis using Cons.IH [of h "cur @ [c]"] that by simp
  qed (use that in \<open>simp add: dirs_added_def\<close>)
  consider (dir) "fs_node f (cur @ [c]) = Some FDir" | (other) n where "fs_node f (cur @ [c]) = Some n" "n \<noteq> FDir"
    | (none) "fs_node f (cur @ [c]) = None" by (cases "fs_node f (cur @ [c])") auto
  then show ?case
  proof cases
    case dir
    with ih [of f] Cons.prems st show ?thesis by simp
  next
    case other
    with Cons.prems(2) st have "g = f" "\<not> ok" by (cases n, auto)+
    then show ?thesis by (simp add: dirs_added_def)
  next
    case none
    obtain ok1 f1 where m: "sys_mkdir (cur @ [c]) f = (ok1, f1)" by fastforce
    from sys_mkdir_plain [OF pl m, of cs] have d1: "dirs_added (cur @ c # cs) f f1" "ok1 \<longrightarrow> fs_node f1 (cur @ [c]) = Some FDir"
      by auto
    have "plain f1 (cur @ c # cs)"
      by (rule plain_dirs_added [OF d1(1) Cons.prems(1)])
    with ih [of f1] d1 Cons.prems(2) none st m show ?thesis by (cases ok1) (auto intro: dirs_added_trans)
  qed
qed (simp add: dirs_added_def)

lemma os_mkdir_all_plain:
  assumes "plain f p" and "os_mkdir_all p f = (ok, g)"
  shows "dirs_added p f g" and "ok \<Longrightarrow> fs_node g p = Some FDir"
  using mkdir_all_from_plain [of f "[]" p ok g] assms by (auto simp: os_mkdir_all_def fs_node_def)

text \<open>A change confined to some paths.\<close>

definition only_at :: "path set \<Rightarrow> fs \<Rightarrow> fs \<Rightarrow> bool" where
  "only_at S f g \<longleftrightarrow> fs_fail g = fs_fail f \<and> (\<forall>q. q \<notin> S \<longrightarrow> fs_node g q = fs_node f q)"

lemma only_at_node: "only_at S f g \<Longrightarrow> q \<notin> S \<Longrightarrow> fs_node g q = fs_node f q"
  by (simp add: only_at_def)

lemma only_at_trans: "only_at S f g \<Longrightarrow> only_at T g h \<Longrightarrow> only_at (S \<union> T) f h"
  by (simp add: only_at_def)

lemma only_at_mono: "only_at S f g \<Longrightarrow> S \<subseteq> T \<Longrightarrow> only_at T f g"
  by (auto simp: only_at_def)

lemma only_at_simps [simp]: "only_at S f f" "only_at S f (tick g) = only_at S f g" "q \<in> S \<Longrightarrow> only_at S f (set_node q n g) = only_at S f g"
  by (auto simp: only_at_def)

lemma syscall_only_at:
  assumes "syscall what f = (ok, g)" and "\<And>f'. what f = Some f' \<Longrightarrow> only_at S f f'"
  shows "only_at S f g"
  using assms(1) by (cases rule: syscall_cases) (simp_all add: assms(2))

lemma os_write_file_plain:
  assumes "plain f p" and "p \<noteq> []" and "os_write_file p b f = (ok, g)"
  shows "only_at {p} f g" and "ok \<Longrightarrow> fs_node g p = Some (FFile b)" and "fs_node g p = fs_node f p \<or> (\<exists>b'. fs_node g p = Some (FFile b'))"
proof -
  obtain ok1 f1 where o: "sys_open_trunc p f = (ok1, f1)" by fastforce
  have "only_at {p} f g \<and> (ok \<longrightarrow> fs_node g p = Some (FFile b)) \<and> (fs_node g p = fs_node f p \<or> (\<exists>b'. fs_node g p = Some (FFile b')))"
    using o [unfolded sys_open_trunc_def]
  proof (cases rule: syscall_cases)
    case failed
    with assms(3) o have "g = tick f" "\<not> ok" by (auto simp: os_write_file_def)
    then show ?thesis by simp
  next
    case (success f')
    then have f1: "f1 = tick (set_node p (FFile []) f)" and k: "ok1" by (auto simp: real_path_plain [OF assms(1)] split: if_splits)
    have "real_path f1 p = Some p"
      by (rule real_path_plain, rule plain_cong [OF _ assms(1)]) (simp add: f1 split: if_splits)
    with assms(2,3) o f1 k show ?thesis
      by (auto simp: os_write_file_def sys_write_def split: option.splits)
  qed
  then show "only_at {p} f g" and "ok \<Longrightarrow> fs_node g p = Some (FFile b)"
    and "fs_node g p = fs_node f p \<or> (\<exists>b'. fs_node g p = Some (FFile b'))" by auto
qed

lemma os_remove_plain:
  assumes "plain f d" and "os_remove (d @ [c]) f = (ok, g)"
  shows "only_at {d @ [c]} f g" and "fs_node g (d @ [c]) = None \<or> fs_node g (d @ [c]) = fs_node f (d @ [c])"
proof -
  have e: "entry_path f (d @ [c]) = Some (d @ [c])" using assms(1) by (simp add: entry_path_plain)
  show "only_at {d @ [c]} f g" "fs_node g (d @ [c]) = None \<or> fs_node g (d @ [c]) = fs_node f (d @ [c])"
    using assms(2) unfolding os_remove_def
    by (cases rule: syscall_cases; auto simp: e only_at_def split: if_splits)+
qed

lemma os_symlink_plain:
  assumes "plain f d" and "os_symlink t (d @ [c]) f = (ok, g)"
  shows "only_at {d @ [c]} f g"
    and "if ok then fs_node g (d @ [c]) = Some (FLink t) else fs_node g (d @ [c]) = fs_node f (d @ [c])"
proof -
  have e: "entry_path f (d @ [c]) = Some (d @ [c])" using assms(1) by (simp add: entry_path_plain)
  show "only_at {d @ [c]} f g"
    "if ok then fs_node g (d @ [c]) = Some (FLink t) else fs_node g (d @ [c]) = fs_node f (d @ [c])"
    using assms(2) unfolding os_symlink_def
    by (cases rule: syscall_cases; auto simp: e split: if_splits)+
qed

lemma os_rename_plain:
  assumes "plain f d" and "os_rename (d @ [a]) (d @ [b]) f = (ok, g)" and "a \<noteq> b"
  shows "only_at {d @ [a], d @ [b]} f g"
    and "if ok then fs_node g (d @ [b]) = fs_node f (d @ [a]) \<and> fs_node g (d @ [a]) = None
      else fs_node g = fs_node f"
proof -
  have e: "entry_path f (d @ [x]) = Some (d @ [x])" for x using assms(1) by (simp add: entry_path_plain)
  show "only_at {d @ [a], d @ [b]} f g"
    "if ok then fs_node g (d @ [b]) = fs_node f (d @ [a]) \<and> fs_node g (d @ [a]) = None else fs_node g = fs_node f"
    using assms(2,3) unfolding os_rename_def
    by (cases rule: syscall_cases; auto simp: e only_at_def split: if_splits option.splits)+
qed

lemma os_remove_all_plain:
  assumes "plain f d" and "os_remove_all (d @ [c]) f = (ok, g)"
  shows "fs_fail g = fs_fail f"
    and "fs_node g q = fs_node f q \<or> fs_node g q = None \<and> take (length d + 1) q = d @ [c]"
proof -
  have e: "entry_path f (d @ [c]) = Some (d @ [c])" using assms(1) by (simp add: entry_path_plain)
  show "fs_fail g = fs_fail f" "fs_node g q = fs_node f q \<or> fs_node g q = None \<and> take (length d + 1) q = d @ [c]"
    using assms(2) unfolding os_remove_all_def
    by (cases rule: syscall_cases; auto simp: e split: if_splits)+
qed

text \<open>Without failing system calls, the operations succeed where Unix lets them.\<close>

definition no_failure :: "fs \<Rightarrow> bool" where
  "no_failure f \<longleftrightarrow> fs_fail f = (\<lambda>_. None)"

lemma syscall_no_failure: "no_failure f \<Longrightarrow> what f = Some f' \<Longrightarrow> syscall what f = (True, tick f')"
  by (simp add: syscall_def no_failure_def)

lemma mkdir_all_from_succeeds:
  assumes "plain f (cur @ p)" and "no_failure f" and "\<And>k. k < length p \<Longrightarrow> fs_node f (cur @ take k p) = Some FDir"
    and "fs_node f (cur @ p) \<in> {None, Some FDir}"
  shows "fst (mkdir_all_from cur p f)"
  using assms
proof (induction p arbitrary: cur)
  case (Cons c cs)
  have pl: "plain f (cur @ [c])" using plain_append [of f "cur @ [c]" cs] Cons.prems(1) by simp
  then have st: "stat f (cur @ [c]) = fs_node f (cur @ [c])" by (simp add: stat_def real_path_plain)
  show ?case
  proof (cases "cs = []")
    case True
    have e: "entry_path f (cur @ [c]) = Some (cur @ [c])" using pl by (simp add: entry_path_plain)
    have "fs_node f cur = Some FDir" using Cons.prems(3) [of 0] by simp
    then have "fst (sys_mkdir (cur @ [c]) f)" if "fs_node f (cur @ [c]) = None"
      using that e Cons.prems(2) by (simp add: sys_mkdir_def syscall_no_failure)
    with st Cons.prems(4) True show ?thesis by (auto split: prod.splits)
  next
    case False
    have "fs_node f (cur @ [c]) = Some FDir" using Cons.prems(3) [of 1] False by simp
    moreover have "fst (mkdir_all_from (cur @ [c]) cs f)"
      using Cons.IH [of "cur @ [c]"] Cons.prems(1,2,4) Cons.prems(3) [of "Suc k" for k] by simp
    ultimately show ?thesis using st by simp
  qed
qed simp

lemma os_write_file_succeeds:
  assumes "plain f p" and "no_failure f" and "p \<noteq> []" and "fs_node f p \<noteq> Some FDir" and "fs_node f (butlast p) = Some FDir"
  shows "fst (os_write_file p b f)"
proof -
  have o: "sys_open_trunc p f = (True, tick (set_node p (FFile []) f))"
    unfolding sys_open_trunc_def by (rule syscall_no_failure [OF assms(2)]) (simp add: assms real_path_plain)
  have "real_path (tick (set_node p (FFile []) f)) p = Some p"
    by (rule real_path_plain, rule plain_cong [OF _ assms(1)]) (simp split: if_splits)
  with o assms(2) show ?thesis by (simp add: os_write_file_def sys_write_def no_failure_def)
qed

end
