(* ===== verification/Node_Agent.thy ===== *)
theory Node_Agent
  imports Artifact_Model Log_Control Go_Files
begin

text \<open>
  The node agent (\<open>agent/internal/agentcore\<close>): enrolment from a bundle, the push handler that stages a
  configuration and swaps the \<open>active\<close> link, health reporting with its probes, and pruning of old
  revisions. The agent's record holds the file system it works on, and every operation returns the
  agent it leaves behind. JSON of the persisted state, certificate parsing, dialling, modification
  times and the clock are arguments. Revision identifiers are single path components, as the panel
  generates them.
\<close>

section \<open>State\<close>

record agent_config =
  cf_state_dir :: path
  cf_listen_addr :: string
  cf_role :: string
  cf_keep_revisions :: int
  cf_level :: "log_level option"
  cf_tls_dir :: path
  cf_acme_http_addr :: string

record agent_state =
  st_node_id :: string
  st_name :: string
  st_role :: string
  st_applied_revision :: string
  st_applied_sequence :: int
  st_applied_sha256 :: string
  st_previous_revision :: string
  st_last_applied_at :: int

record agent =
  ag_cfg :: agent_config
  ag_started :: int
  ag_state :: agent_state
  ag_panel_fp :: string
  ag_degraded :: bool
  ag_last_err :: string
  ag_fs :: fs

definition zero_state :: agent_state where
  "zero_state = \<lparr>st_node_id = [], st_name = [], st_role = [], st_applied_revision = [], st_applied_sequence = 0,
     st_applied_sha256 = [], st_previous_revision = [], st_last_applied_at = 0\<rparr>"

record agent_lib =
  al_wire :: wire_lib
  al_lower :: "string \<Rightarrow> string"
  al_json_state :: "agent_state \<Rightarrow> bytes"
  al_json_state_into :: "bytes \<Rightarrow> agent_state \<Rightarrow> agent_state"   \<comment> \<open>json.Unmarshal into the state, errors ignored\<close>

datatype validate_error =
    UnsupportedSchema int | OtherNode string | OtherRole string string | NoServices | NoEgressTarget string
  | NoIngressAddress string | EmptyPorts | UnknownNodeRole string

datatype agent_error =
    BundleError bundle_error | AlreadyProvisioned string | BundleRole string string | FileError
  | NotProvisioned | BadKeyPair | BadCA | NoClientCert | NotPinnedPanel | ReadBody | InvalidJSON
  | Invalid validate_error

section \<open>Paths and files\<close>

definition path_join :: "path \<Rightarrow> string \<Rightarrow> path" where
  "path_join p s = (if s = [] then p else p @ [s])"

definition identityDir :: "agent_config \<Rightarrow> path" where "identityDir c = cf_state_dir c @ [''identity'']"
definition revisionsDir :: "agent_config \<Rightarrow> path" where "revisionsDir c = cf_state_dir c @ [''revisions'']"
definition activeLink :: "agent_config \<Rightarrow> path" where "activeLink c = cf_state_dir c @ [''active'']"
definition previousLink :: "agent_config \<Rightarrow> path" where "previousLink c = cf_state_dir c @ [''previous'']"
definition statePath :: "agent_config \<Rightarrow> path" where "statePath c = cf_state_dir c @ [''state.json'']"
definition certPath :: "agent_config \<Rightarrow> path" where "certPath c = identityDir c @ [''node.crt'']"
definition keyPath :: "agent_config \<Rightarrow> path" where "keyPath c = identityDir c @ [''node.key'']"
definition caPath :: "agent_config \<Rightarrow> path" where "caPath c = identityDir c @ [''ca.crt'']"
definition panelFPPath :: "agent_config \<Rightarrow> path" where "panelFPPath c = identityDir c @ [''panel.fp'']"

lemmas path_defs = identityDir_def revisionsDir_def activeLink_def previousLink_def statePath_def certPath_def keyPath_def
  caPath_def panelFPPath_def

definition dot_tmp :: "path \<Rightarrow> path" where
  "dot_tmp p = butlast p @ [last p @ ''.tmp'']"

definition fileExists :: "fs \<Rightarrow> path \<Rightarrow> bool" where
  "fileExists f p = (case stat f p of None \<Rightarrow> False | Some n \<Rightarrow> n \<noteq> FDir)"

definition writeFile :: "path \<Rightarrow> bytes \<Rightarrow> fs \<Rightarrow> bool \<times> fs" where
  "writeFile p b f = (case os_mkdir_all (butlast p) f of (ok, f1) \<Rightarrow> if ok then os_write_file p b f1 else (False, f1))"

definition writeFileAtomic :: "path \<Rightarrow> bytes \<Rightarrow> fs \<Rightarrow> bool \<times> fs" where
  "writeFileAtomic p b f =
     (case writeFile (dot_tmp p) b f of (ok, f1) \<Rightarrow> if ok then os_rename (dot_tmp p) p f1 else (False, f1))"

definition swapSymlink :: "path \<Rightarrow> path \<Rightarrow> fs \<Rightarrow> bool \<times> fs" where
  "swapSymlink link target f =
     (case os_symlink target (dot_tmp link) (snd (os_remove (dot_tmp link) f)) of (ok, f1) \<Rightarrow>
        if ok then os_rename (dot_tmp link) link f1 else (False, f1))"

section \<open>Start and enrolment\<close>

fun mkdirs :: "path list \<Rightarrow> fs \<Rightarrow> bool \<times> fs" where
  "mkdirs [] f = (True, f)"
| "mkdirs (d # ds) f = (case os_mkdir_all d f of (ok, f1) \<Rightarrow> if ok then mkdirs ds f1 else (False, f1))"

definition loadState :: "agent_lib \<Rightarrow> agent \<Rightarrow> agent" where
  "loadState al a =
     (case os_read_file (ag_fs a) (statePath (ag_cfg a)) of
        None \<Rightarrow> a
      | Some b \<Rightarrow> a\<lparr>ag_state := al_json_state_into al b (ag_state a)\<rparr>)"

definition saveState :: "agent_lib \<Rightarrow> agent \<Rightarrow> bool \<times> agent" where
  "saveState al a =
     (case writeFileAtomic (statePath (ag_cfg a)) (al_json_state al (ag_state a)) (ag_fs a) of
        (ok, f) \<Rightarrow> (ok, a\<lparr>ag_fs := f\<rparr>))"

definition New_agent :: "agent_lib \<Rightarrow> int \<Rightarrow> agent_config \<Rightarrow> fs \<Rightarrow> agent option \<times> fs" where
  "New_agent al now cfg0 f =
     (let cfg1 = (if cf_keep_revisions cfg0 \<le> 0 then cfg0\<lparr>cf_keep_revisions := 3\<rparr> else cfg0);
          cfg = (if cf_listen_addr cfg1 = [] then cfg1\<lparr>cf_listen_addr := '':3333''\<rparr> else cfg1)
      in case mkdirs [cf_state_dir cfg, identityDir cfg, revisionsDir cfg] f of
           (False, f1) \<Rightarrow> (None, f1)
         | (True, f1) \<Rightarrow>
             (Some (loadState al \<lparr>ag_cfg = cfg, ag_started = now, ag_state = zero_state, ag_panel_fp = [],
                ag_degraded = False, ag_last_err = [], ag_fs = f1\<rparr>), f1))"

definition Provisioned :: "agent \<Rightarrow> bool" where
  "Provisioned a \<longleftrightarrow> fileExists (ag_fs a) (certPath (ag_cfg a)) \<and> fileExists (ag_fs a) (keyPath (ag_cfg a)) \<and>
     fileExists (ag_fs a) (caPath (ag_cfg a)) \<and> fileExists (ag_fs a) (panelFPPath (ag_cfg a))"

text \<open>The writes of a list of files, ended by the first failure.\<close>

fun write_files :: "(path \<times> string) list \<Rightarrow> fs \<Rightarrow> bool \<times> fs" where
  "write_files [] f = (True, f)"
| "write_files ((p, s) # rest) f =
     (case writeFile p (bytes_of_string s) f of (ok, f1) \<Rightarrow> if ok then write_files rest f1 else (False, f1))"

definition LoadBundle :: "agent_lib \<Rightarrow> string \<Rightarrow> agent \<Rightarrow> agent_error option \<times> agent" where
  "LoadBundle al encoded a =
     (case DecodeBundle (al_wire al) encoded of
        Inl e \<Rightarrow> (Some (BundleError e), a)
      | Inr b \<Rightarrow>
          if Provisioned a then
            if st_node_id (ag_state a) \<noteq> [] \<and> st_node_id (ag_state a) \<noteq> bd_node_id b
            then (Some (AlreadyProvisioned (st_node_id (ag_state a))), a) else (None, a)
          else if cf_role (ag_cfg a) \<noteq> [] \<and> bd_role b \<noteq> cf_role (ag_cfg a)
          then (Some (BundleRole (bd_role b) (cf_role (ag_cfg a))), a)
          else case write_files [(keyPath (ag_cfg a), bd_node_key_pem b), (certPath (ag_cfg a), bd_node_cert_pem b),
                 (caPath (ag_cfg a), bd_ca_cert_pem b), (panelFPPath (ag_cfg a), bd_panel_client_fp b)] (ag_fs a) of
            (False, f) \<Rightarrow> (Some FileError, a\<lparr>ag_fs := f\<rparr>)
          | (True, f) \<Rightarrow>
              let a1 = a\<lparr>ag_fs := f, ag_state := (ag_state a)\<lparr>st_node_id := bd_node_id b, st_name := bd_name b, st_role := bd_role b\<rparr>\<rparr>
              in (None, snd (saveState al a1)))"

text \<open>\<open>Serve\<close> up to the listener: identity, pinned fingerprint and certificate authority.\<close>

definition Serve_start :: "(bytes \<Rightarrow> bytes \<Rightarrow> bool) \<Rightarrow> (bytes \<Rightarrow> bool) \<Rightarrow> agent \<Rightarrow> agent_error option \<times> agent" where
  "Serve_start key_pair_ok ca_ok a =
     (if \<not> Provisioned a then (Some NotProvisioned, a)
      else case os_read_file (ag_fs a) (panelFPPath (ag_cfg a)) of
        None \<Rightarrow> (Some FileError, a)
      | Some fp \<Rightarrow>
          let a1 = a\<lparr>ag_panel_fp := string_of_bytes fp\<rparr> in
          (case (os_read_file (ag_fs a) (certPath (ag_cfg a)), os_read_file (ag_fs a) (keyPath (ag_cfg a))) of
             (Some crt, Some key) \<Rightarrow>
               if \<not> key_pair_ok crt key then (Some BadKeyPair, a1)
               else (case os_read_file (ag_fs a) (caPath (ag_cfg a)) of
                       None \<Rightarrow> (Some FileError, a1)
                     | Some ca \<Rightarrow> if ca_ok ca then (None, a1) else (Some BadCA, a1))
           | _ \<Rightarrow> (Some BadKeyPair, a1)))"

definition pinPanel :: "agent_lib \<Rightarrow> bytes list \<Rightarrow> agent \<Rightarrow> agent_error option" where
  "pinPanel al peer_certs a =
     (case peer_certs of
        [] \<Rightarrow> Some NoClientCert
      | raw # _ \<Rightarrow>
          let got = hex_encode (sha256_sum (al_wire al) raw) in
          if bytes_of_string got \<noteq> bytes_of_string (ag_panel_fp a) then Some NotPinnedPanel else None)"

section \<open>Pushes\<close>

definition validate_service :: "service \<Rightarrow> validate_error option" where
  "validate_service s =
     (if length (ep_targets (sv_egress s)) = 0 then Some (NoEgressTarget (sv_slug s))
      else if length (sv_ingress_v4 s) = 0 \<and> length (sv_ingress_v6 s) = 0 then Some (NoIngressAddress (sv_slug s))
      else None)"

fun validate_services :: "service list \<Rightarrow> validate_error option" where
  "validate_services [] = None"
| "validate_services (s # ss) = (case validate_service s of Some e \<Rightarrow> Some e | None \<Rightarrow> validate_services ss)"

definition validate :: "node_config \<Rightarrow> string \<Rightarrow> string \<Rightarrow> validate_error option" where
  "validate c node_id role =
     (if nc_schema_version c \<noteq> 1 then Some (UnsupportedSchema (nc_schema_version c))
      else if node_id \<noteq> [] \<and> nc_node_id c \<noteq> node_id then Some (OtherNode (nc_node_id c))
      else if role \<noteq> [] \<and> nc_role c \<noteq> role then Some (OtherRole (nc_role c) role)
      else if nc_role c = ''ingress'' then
        if length (nc_services c) = 0 then Some NoServices else validate_services (nc_services c)
      else if nc_role c = ''egress'' then
        if length (ec_allowed_ports (nc_egress c)) = 0 then Some EmptyPorts else None
      else Some (UnknownNodeRole (nc_role c)))"

definition setErr :: "string \<Rightarrow> agent \<Rightarrow> agent" where
  "setErr code a = a\<lparr>ag_degraded := True, ag_last_err := code\<rparr>"

definition statusLocked :: "agent \<Rightarrow> string" where
  "statusLocked a = (if ag_degraded a then ''degraded'' else ''healthy'')"

record ack =
  ak_revision :: string
  ak_sequence :: int
  ak_status :: string

definition ackConfig :: "agent \<Rightarrow> ack" where
  "ackConfig a = \<lparr>ak_revision = st_applied_revision (ag_state a), ak_sequence = st_applied_sequence (ag_state a),
     ak_status = statusLocked a\<rparr>"

text \<open>The removals of \<open>pruneRevisions\<close>, whose errors are ignored.\<close>

fun remove_names :: "path \<Rightarrow> string list \<Rightarrow> fs \<Rightarrow> fs" where
  "remove_names d [] f = f"
| "remove_names d (n # ns) f = remove_names d ns (snd (os_remove_all (d @ [n]) f))"

definition prunable :: "(string \<Rightarrow> int option) \<Rightarrow> string set \<Rightarrow> (string \<times> bool) list \<Rightarrow> (string \<times> int) list" where
  "prunable mtime prot entries =
     sort_key (\<lambda>x. - snd x)
       (map (\<lambda>e. (fst e, the (mtime (fst e)))) (filter (\<lambda>e. snd e \<and> fst e \<notin> prot \<and> mtime (fst e) \<noteq> None) entries))"

definition pruneRevisions :: "(string \<Rightarrow> int option) \<Rightarrow> agent \<Rightarrow> agent" where
  "pruneRevisions mtime a =
     (case os_read_dir (ag_fs a) (revisionsDir (ag_cfg a)) of
        None \<Rightarrow> a
      | Some entries \<Rightarrow>
          let prot = {st_applied_revision (ag_state a), st_previous_revision (ag_state a)};
              items = prunable mtime prot entries;
              keep0 = cf_keep_revisions (ag_cfg a) - int (card prot);
              keep = (if keep0 < 0 then 0 else keep0)
          in a\<lparr>ag_fs := remove_names (revisionsDir (ag_cfg a)) (map fst (drop (nat keep) items)) (ag_fs a)\<rparr>)"

text \<open>The disk part of \<open>handleConfig\<close>: stage the revision, then swap the links.\<close>

definition stage :: "agent_config \<Rightarrow> string \<Rightarrow> bytes \<Rightarrow> fs \<Rightarrow> bool \<times> fs" where
  "stage c rid raw f =
     (let dir = path_join (revisionsDir c) rid in
      case os_mkdir_all dir f of
        (False, f1) \<Rightarrow> (False, f1)
      | (True, f1) \<Rightarrow>
          (case writeFile (dir @ [''config.json'']) raw f1 of
             (False, f2) \<Rightarrow> (False, f2)
           | (True, f2) \<Rightarrow>
               let prev = os_readlink f2 (activeLink c) in
               (case swapSymlink (activeLink c) dir f2 of
                  (False, f3) \<Rightarrow> (False, f3)
                | (True, f3) \<Rightarrow>
                    (True, case prev of None \<Rightarrow> f3 | Some t \<Rightarrow> if t = [] then f3 else snd (swapSymlink (previousLink c) t f3)))))"

definition adopt :: "agent_lib \<Rightarrow> int \<Rightarrow> (string \<Rightarrow> int option) \<Rightarrow> node_config \<Rightarrow> string \<Rightarrow> agent \<Rightarrow> agent" where
  "adopt al now mtime cfg got a =
     (let st = ag_state a;
          a1 = a\<lparr>ag_state := st\<lparr>st_previous_revision := st_applied_revision st, st_applied_revision := nc_revision_id cfg,
                   st_applied_sequence := nc_sequence cfg, st_applied_sha256 := got, st_last_applied_at := now\<rparr>,
                 ag_degraded := False, ag_last_err := []\<rparr>;
          a2 = pruneRevisions mtime (snd (saveState al a1))
      in case cf_level (ag_cfg a2) of
           None \<Rightarrow> a2
         | Some lv \<Rightarrow> a2\<lparr>ag_cfg := (ag_cfg a2)\<lparr>cf_level := Some (fst (Follow (al_lower al) (nc_log_level cfg) lv))\<rparr>\<rparr>)"

definition readAll :: "bytes option \<Rightarrow> int \<Rightarrow> bytes option" where
  "readAll body m = map_option (\<lambda>b. if int (length b) \<le> m then b else take (nat m) b) body"

definition handleConfig :: "agent_lib \<Rightarrow> int \<Rightarrow> (string \<Rightarrow> int option) \<Rightarrow> bytes option \<Rightarrow> agent \<Rightarrow> (agent_error + ack) \<times> agent" where
  "handleConfig al now mtime body a =
     (case readAll body (64 * 2 ^ 20) of
        None \<Rightarrow> (Inl ReadBody, a)
      | Some raw \<Rightarrow>
          (case json_config_parse (al_wire al) raw of
             None \<Rightarrow> (Inl InvalidJSON, setErr ''invalid_json'' a)
           | Some cfg \<Rightarrow>
               (case validate cfg (st_node_id (ag_state a)) (st_role (ag_state a)) of
                  Some e \<Rightarrow> (Inl (Invalid e), setErr ''validation_failed'' a)
                | None \<Rightarrow>
                    let got = hex_encode (sha256_sum (al_wire al) raw) in
                    if nc_revision_id cfg = st_applied_revision (ag_state a) \<and> got = st_applied_sha256 (ag_state a)
                    then (Inr (ackConfig a), a)
                    else (case stage (ag_cfg a) (nc_revision_id cfg) raw (ag_fs a) of
                            (False, f) \<Rightarrow> (Inl FileError, a\<lparr>ag_fs := f\<rparr>)
                          | (True, f) \<Rightarrow>
                              let a' = adopt al now mtime cfg got (a\<lparr>ag_fs := f\<rparr>) in (Inr (ackConfig a'), a')))))"

definition ActiveConfig :: "agent_lib \<Rightarrow> agent \<Rightarrow> node_config option" where
  "ActiveConfig al a =
     Option.bind (os_read_file (ag_fs a) (activeLink (ag_cfg a) @ [''config.json''])) (json_config_parse (al_wire al))"

definition wrap_status :: "(agent_error + 'a) \<Rightarrow> int" where
  "wrap_status r = (case r of Inl _ \<Rightarrow> 400 | Inr _ \<Rightarrow> 200)"

section \<open>Health\<close>

definition dialOK :: "(string \<Rightarrow> bool) \<Rightarrow> string \<Rightarrow> bool" where
  "dialOK dials ad \<longleftrightarrow> ad \<noteq> [] \<and> dials ad"

text \<open>The two loops of \<open>ingressCanReachEgress\<close>, over the endpoints in order.\<close>

fun reach_loop :: "(string \<Rightarrow> bool) \<Rightarrow> string set \<Rightarrow> bool \<Rightarrow> string list \<Rightarrow> bool" where
  "reach_loop dials seen tried [] = (\<not> tried)"
| "reach_loop dials seen tried (e # es) =
     (if e = [] \<or> e \<in> seen then reach_loop dials seen tried es
      else if dialOK dials e then True
      else reach_loop dials (insert e seen) True es)"

definition ingressCanReachEgress :: "(string \<Rightarrow> bool) \<Rightarrow> node_config \<Rightarrow> bool" where
  "ingressCanReachEgress dials c =
     reach_loop dials {} False (concat (map (\<lambda>s. map et_endpoint (ep_targets (sv_egress s))) (nc_services c)))"

text \<open>The decoded PEM blocks of a file, each with its type and its expiry when it parses.\<close>

fun earliest_expiry :: "int option \<Rightarrow> (string \<times> int option) list \<Rightarrow> int option" where
  "earliest_expiry e [] = e"
| "earliest_expiry e ((ty, na) # bs) =
     (if ty \<noteq> ''CERTIFICATE'' then earliest_expiry e bs
      else case na of
        None \<Rightarrow> earliest_expiry e bs
      | Some x \<Rightarrow> earliest_expiry (case e of None \<Rightarrow> Some x | Some y \<Rightarrow> if x < y then Some x else Some y) bs)"

definition day_ns :: int where "day_ns = 24 * 3600 * 10 ^ 9"

definition certDaysLeft :: "(bytes \<Rightarrow> (string \<times> int option) list) \<Rightarrow> int \<Rightarrow> fs \<Rightarrow> path \<Rightarrow> int" where
  "certDaysLeft pem_blocks now f p =
     (case os_read_file f p of
        None \<Rightarrow> -1
      | Some b \<Rightarrow>
          (case earliest_expiry None (pem_blocks b) of
             None \<Rightarrow> -1
           | Some x \<Rightarrow> let d = x - now in if 0 \<le> d then d div day_ns else - (- d div day_ns)))"

definition probe_health :: "agent_lib \<Rightarrow> (string \<Rightarrow> bool) \<Rightarrow> (bytes \<Rightarrow> (string \<times> int option) list) \<Rightarrow> int \<Rightarrow> agent \<Rightarrow> health \<Rightarrow> health" where
  "probe_health al dials pem_blocks now a h =
     (case ActiveConfig al a of
        None \<Rightarrow> h
      | Some cfg \<Rightarrow>
          if nc_role cfg = ''ingress'' then
            h\<lparr>hl_upstream_ok := dialOK dials (dc_upstream (nc_dns cfg)), hl_egress_reachable := ingressCanReachEgress dials cfg,
              hl_cert_days_left := certDaysLeft pem_blocks now (ag_fs a) (certPath (ag_cfg a))\<rparr>
          else if nc_role cfg = ''egress'' then h\<lparr>hl_upstream_ok := dialOK dials (ec_resolver (nc_egress cfg))\<rparr>
          else h)"

definition agent_version :: string where "agent_version = ''2.0.2''"

definition handleHealth :: "agent_lib \<Rightarrow> (string \<Rightarrow> bool) \<Rightarrow> (bytes \<Rightarrow> (string \<times> int option) list) \<Rightarrow> int \<Rightarrow> agent \<Rightarrow> health" where
  "handleHealth al dials pem_blocks now a =
     probe_health al dials pem_blocks now a
       \<lparr>hl_applied_revision_id = st_applied_revision (ag_state a), hl_applied_sequence = st_applied_sequence (ag_state a),
        hl_status = statusLocked a, hl_role = st_role (ag_state a), hl_version = agent_version,
        hl_uptime_s = (now - ag_started a) div 10 ^ 9, hl_last_err = ag_last_err a, hl_queries_per_sec = 0,
        hl_reject_rate = 0, hl_upstream_ok = False, hl_egress_reachable = False, hl_cert_days_left = 0,
        hl_allowlist_denials = 0, hl_resolve_errors = 0\<rparr>"

section \<open>The layout of the state directory\<close>

definition link_names :: "string set" where
  "link_names = {''active'', ''active.tmp'', ''previous'', ''previous.tmp''}"

text \<open>The invariant: the only links are the ones the agent makes, and they lead to revisions.\<close>

definition links_ok :: "agent_config \<Rightarrow> fs \<Rightarrow> bool" where
  "links_ok c f \<longleftrightarrow> (\<forall>p t. fs_node f p = Some (FLink t) \<longrightarrow>
     (\<exists>n\<in>link_names. p = cf_state_dir c @ [n]) \<and> (\<exists>r. r \<noteq> [] \<and> t = revisionsDir c @ [r]))"

lemma links_okI:
  assumes "links_ok c f"
    and "\<And>p t. fs_node g p = Some (FLink t) \<Longrightarrow> fs_node f p = Some (FLink t) \<or>
      (\<exists>n\<in>link_names. p = cf_state_dir c @ [n]) \<and> (\<exists>r. r \<noteq> [] \<and> t = revisionsDir c @ [r])"
  shows "links_ok c g"
  unfolding links_ok_def using assms(1) [unfolded links_ok_def] assms(2) by blast

lemma plain_state_dir: "links_ok c f \<Longrightarrow> plain f (cf_state_dir c)"
  unfolding plain_def
proof (intro allI notI)
  fix k t
  assume "links_ok c f" and "fs_node f (take k (cf_state_dir c)) = Some (FLink t)"
  then obtain n where "take k (cf_state_dir c) = cf_state_dir c @ [n]" by (auto simp: links_ok_def)
  then have "length (take k (cf_state_dir c)) = length (cf_state_dir c) + 1" by simp
  then show False by simp
qed

lemma plain_under: "links_ok c f \<Longrightarrow> n \<notin> link_names \<Longrightarrow> plain f (cf_state_dir c @ n # ps)"
  unfolding plain_def
proof (intro allI notI)
  fix k t
  let ?d = "cf_state_dir c"
  assume l: "links_ok c f" "n \<notin> link_names" and "fs_node f (take k (?d @ n # ps)) = Some (FLink t)"
  then obtain m where m: "m \<in> link_names" "take k (?d @ n # ps) = ?d @ [m]" by (auto simp: links_ok_def)
  then have "length (take k (?d @ n # ps)) = Suc (length ?d)" by simp
  then have "length ?d < k" by auto
  then have "take k (?d @ n # ps) ! length ?d = n" by (simp add: nth_append)
  with m l(2) show False by simp
qed

lemma revisions_plain: "links_ok c f \<Longrightarrow> plain f (revisionsDir c @ ps)"
  using plain_under [of c f "''revisions''" ps] by (simp add: revisionsDir_def link_names_def)

lemma take_neq_longer: "take k d \<noteq> d @ [x]"
proof
  assume "take k d = d @ [x]"
  then have "length (take k d) = Suc (length d)" by simp
  then show False by simp
qed

definition active_raw :: "agent_config \<Rightarrow> fs \<Rightarrow> bytes option" where
  "active_raw c f = os_read_file f (activeLink c @ [''config.json''])"

definition file_at :: "fs \<Rightarrow> path \<Rightarrow> bytes option" where
  "file_at f p = (case fs_node f p of Some (FFile b) \<Rightarrow> Some b | _ \<Rightarrow> None)"

lemma active_raw_eq:
  assumes "links_ok c f"
  shows "active_raw c f = (case fs_node f (activeLink c) of Some (FLink t) \<Rightarrow> file_at f (t @ [''config.json''])
    | _ \<Rightarrow> file_at f (activeLink c @ [''config.json'']))"
proof (cases "\<exists>t. fs_node f (activeLink c) = Some (FLink t)")
  case True
  then obtain t where t: "fs_node f (cf_state_dir c @ [''active'']) = Some (FLink t)" by (auto simp: activeLink_def)
  then obtain r where r: "t = revisionsDir c @ [r]" using assms unfolding links_ok_def by blast
  have "plain f (t @ [''config.json''])" using revisions_plain [OF assms, of "[r, ''config.json'']"] r by simp
  from walk_through_link [OF plain_state_dir [OF assms] t this] t show ?thesis
    by (simp add: active_raw_def activeLink_def os_read_file_def stat_def file_at_def)
next
  case False
  have "plain f (activeLink c @ [''config.json''])"
    unfolding plain_def
  proof (intro allI notI)
    fix k t
    assume lk: "fs_node f (take k (activeLink c @ [''config.json''])) = Some (FLink t)"
    then obtain n where n: "take k (activeLink c @ [''config.json'']) = cf_state_dir c @ [n]"
      using assms unfolding links_ok_def by blast
    then have "take k (activeLink c @ [''config.json'']) = activeLink c"
      by (cases "k \<le> length (activeLink c)") (auto simp: activeLink_def take_Cons' take_neq_longer split: if_splits)
    with lk False show False by simp
  qed
  with False show ?thesis
    by (auto simp: active_raw_def os_read_file_def stat_def file_at_def real_path_plain split: option.splits fnode.splits)
qed

lemma plain_only_at: "only_at S f g \<Longrightarrow> (\<And>k. take k p \<notin> S) \<Longrightarrow> plain f p \<Longrightarrow> plain g p"
  by (simp add: plain_def only_at_def)

lemma swapSymlink_plain:
  assumes "plain f d" and "swapSymlink (d @ [n]) t f = (ok, g)"
  shows "only_at {d @ [n], d @ [n @ ''.tmp'']} f g"
    and "fs_node g (d @ [n]) = (if ok then Some (FLink t) else fs_node f (d @ [n]))"
    and "fs_node g (d @ [n @ ''.tmp'']) \<in> {None, fs_node f (d @ [n @ ''.tmp'']), Some (FLink t)}"
proof -
  let ?tmp = "d @ [n @ ''.tmp'']"
  obtain k1 f1 where r: "os_remove ?tmp f = (k1, f1)" by fastforce
  obtain k2 f2 where l: "os_symlink t ?tmp f1 = (k2, f2)" by fastforce
  note R = os_remove_plain [OF assms(1) r]
  have p1: "plain f1 d" by (rule plain_only_at [OF R(1) _ assms(1)]) (simp add: take_neq_longer)
  note L = os_symlink_plain [OF p1 l]
  have p2: "plain f2 d" by (rule plain_only_at [OF L(1) _ p1]) (simp add: take_neq_longer)
  have o12: "only_at {?tmp} f f2" using only_at_trans [OF R(1) L(1)] by simp
  have "only_at {d @ [n], ?tmp} f g \<and> fs_node g (d @ [n]) = (if ok then Some (FLink t) else fs_node f (d @ [n])) \<and>
    fs_node g ?tmp \<in> {None, fs_node f ?tmp, Some (FLink t)}"
  proof (cases k2)
    case False
    with assms(2) r l have "g = f2" "\<not> ok" by (simp_all add: swapSymlink_def dot_tmp_def)
    with o12 L(2) R(2) False show ?thesis by (auto simp: only_at_def)
  next
    case True
    with assms(2) r l have m: "os_rename ?tmp (d @ [n]) f2 = (ok, g)" by (simp add: swapSymlink_def dot_tmp_def)
    have ne: "n @ ''.tmp'' \<noteq> n" by simp
    note M = os_rename_plain [OF p2 m ne]
    have "only_at {d @ [n], ?tmp} f g" by (rule only_at_mono [OF only_at_trans [OF o12 M(1)]]) auto
    with M(2) L(2) True only_at_node [OF o12, of "d @ [n]"] show ?thesis by (auto split: if_splits)
  qed
  then show "only_at {d @ [n], ?tmp} f g" and "fs_node g (d @ [n]) = (if ok then Some (FLink t) else fs_node f (d @ [n]))"
    and "fs_node g ?tmp \<in> {None, fs_node f ?tmp, Some (FLink t)}" by blast+
qed

lemma writeFile_plain:
  assumes "plain f (p @ [n])" and "writeFile (p @ [n]) b f = (ok, g)"
  obtains f1 where "dirs_added p f f1" and "only_at {p @ [n]} f1 g"
    and "ok \<Longrightarrow> fs_node g (p @ [n]) = Some (FFile b) \<and> fs_node g p = Some FDir"
    and "fs_node g (p @ [n]) = fs_node f1 (p @ [n]) \<or> (\<exists>b'. fs_node g (p @ [n]) = Some (FFile b'))"
proof -
  obtain k1 f1 where m: "os_mkdir_all p f = (k1, f1)" by fastforce
  note M = os_mkdir_all_plain [OF plain_parent [OF assms(1)] m]
  have p1: "plain f1 (p @ [n])" by (rule plain_dirs_added [OF M(1) assms(1)])
  show thesis
  proof (cases k1)
    case False
    with assms(2) m M(1) that [of f1] show thesis by (simp add: writeFile_def)
  next
    case True
    with assms(2) m have w: "os_write_file (p @ [n]) b f1 = (ok, g)" by (simp add: writeFile_def)
    from os_write_file_plain [OF p1 _ w] M True that [of f1] show thesis by (auto simp: only_at_def)
  qed
qed

section \<open>What a push leaves behind\<close>

abbreviation rev_dir :: "agent_config \<Rightarrow> string \<Rightarrow> path" where
  "rev_dir c rid \<equiv> revisionsDir c @ [rid]"

lemma active_neq_revision [simp]:
  "activeLink c \<noteq> rev_dir c r" "activeLink c \<noteq> rev_dir c r @ x" "rev_dir c r \<noteq> activeLink c"
  "activeLink c @ [y] \<noteq> rev_dir c r @ [z]" "cf_state_dir c @ [n] \<noteq> rev_dir c r @ x" "cf_state_dir c @ [n] \<noteq> rev_dir c r"
  by (simp_all add: activeLink_def revisionsDir_def)

text \<open>Staging the files of a revision touches nothing the active configuration depends on.\<close>

definition staged :: "agent_config \<Rightarrow> string \<Rightarrow> fs \<Rightarrow> fs \<Rightarrow> bool" where
  "staged c rid f g \<longleftrightarrow> links_ok c g \<and>
     (\<forall>q. q \<noteq> rev_dir c rid @ [''config.json''] \<longrightarrow> fs_node g q = fs_node f q \<or> fs_node f q = None \<and> fs_node g q = Some FDir \<and>
        (\<exists>k. q = take k (rev_dir c rid)))"

lemma staged_active:
  assumes "staged c rid f g"
  shows "fs_node g (activeLink c) = fs_node f (activeLink c)"
proof -
  have "activeLink c \<noteq> take k (rev_dir c rid)" for k
  proof
    assume e: "activeLink c = take k (rev_dir c rid)"
    then have "length (activeLink c) = length (take k (rev_dir c rid))" by simp
    then have "k = Suc (length (cf_state_dir c)) \<or> Suc (length (cf_state_dir c)) < k" by (auto simp: activeLink_def revisionsDir_def)
    with e show False by (auto simp: activeLink_def revisionsDir_def take_Cons' split: if_splits)
  qed
  with assms show ?thesis unfolding staged_def by (metis active_neq_revision(2))
qed

lemma staged_active_raw:
  assumes "links_ok c f" and "staged c rid f g" and "fs_node f (activeLink c) \<noteq> Some (FLink (rev_dir c rid))"
  shows "active_raw c g = active_raw c f"
proof -
  have l: "links_ok c g" using assms(2) by (simp add: staged_def)
  have fa: "file_at g q = file_at f q" if "q \<noteq> rev_dir c rid @ [''config.json'']" for q
  proof -
    from assms(2) that have "fs_node g q = fs_node f q \<or> fs_node f q = None \<and> fs_node g q = Some FDir"
      unfolding staged_def by blast
    then show ?thesis by (auto simp: file_at_def)
  qed
  have "file_at g (t @ [''config.json'']) = file_at f (t @ [''config.json''])" if "fs_node f (activeLink c) = Some (FLink t)" for t
    using that assms(3) by (intro fa) auto
  moreover have "file_at g (activeLink c @ [''config.json'']) = file_at f (activeLink c @ [''config.json''])"
    by (rule fa) simp
  ultimately show ?thesis
    unfolding active_raw_eq [OF l] active_raw_eq [OF assms(1)] staged_active [OF assms(2)]
    by (auto split: option.splits fnode.splits)
qed

lemma stage_files:
  assumes "links_ok c f" and "os_mkdir_all (rev_dir c rid) f = (k, f1)"
  shows "staged c rid f f1" and "writeFile (rev_dir c rid @ [''config.json'']) raw f1 = (ok, f2) \<Longrightarrow>
    staged c rid f f2 \<and> (ok \<longrightarrow> fs_node f2 (rev_dir c rid @ [''config.json'']) = Some (FFile raw))"
proof -
  note M = os_mkdir_all_plain [OF revisions_plain [OF assms(1), of "[rid]"] assms(2)]
  have l1: "links_ok c f1" by (rule links_okI [OF assms(1)]) (use dirs_added_link [OF M(1)] in blast)
  then show "staged c rid f f1" using M(1) unfolding staged_def dirs_added_def by blast
  assume w: "writeFile (rev_dir c rid @ [''config.json'']) raw f1 = (ok, f2)"
  have p1: "plain f1 (rev_dir c rid @ [''config.json''])" using revisions_plain [OF l1, of "[rid, ''config.json'']"] by simp
  from writeFile_plain [OF p1 w] obtain h where h: "dirs_added (rev_dir c rid) f1 h"
    "only_at {rev_dir c rid @ [''config.json'']} h f2"
    "ok \<Longrightarrow> fs_node f2 (rev_dir c rid @ [''config.json'']) = Some (FFile raw)"
    "fs_node f2 (rev_dir c rid @ [''config.json'']) = fs_node h (rev_dir c rid @ [''config.json'']) \<or>
     (\<exists>b'. fs_node f2 (rev_dir c rid @ [''config.json'']) = Some (FFile b'))" by metis
  have d: "dirs_added (rev_dir c rid) f h" by (rule dirs_added_trans [OF M(1) h(1)])
  have "links_ok c f2"
  proof (rule links_okI [OF assms(1)])
    fix p t
    assume "fs_node f2 p = Some (FLink t)"
    with h(2,4) have "fs_node h p = Some (FLink t)" by (cases "p = rev_dir c rid @ [''config.json'']") (auto simp: only_at_def)
    with dirs_added_link [OF d] show "fs_node f p = Some (FLink t) \<or>
      (\<exists>n\<in>link_names. p = cf_state_dir c @ [n]) \<and> (\<exists>r. r \<noteq> [] \<and> t = revisionsDir c @ [r])" by blast
  qed
  with d h(2,3) show "staged c rid f f2 \<and> (ok \<longrightarrow> fs_node f2 (rev_dir c rid @ [''config.json'']) = Some (FFile raw))"
    unfolding staged_def dirs_added_def only_at_def by (metis insertE empty_iff)
qed

lemma swap_links_ok:
  assumes "links_ok c f" and "n = ''active'' \<or> n = ''previous''" and "swapSymlink (cf_state_dir c @ [n]) (rev_dir c r) f = (ok, g)"
    and "r \<noteq> []"
  shows "links_ok c g"
proof (rule links_okI [OF assms(1)])
  fix p t
  note S = swapSymlink_plain [OF plain_state_dir [OF assms(1)] assms(3)]
  assume p: "fs_node g p = Some (FLink t)"
  have nm: "n \<in> link_names" "n @ ''.tmp'' \<in> link_names" using assms(2) by (auto simp: link_names_def)
  show "fs_node f p = Some (FLink t) \<or> (\<exists>n\<in>link_names. p = cf_state_dir c @ [n]) \<and> (\<exists>r. r \<noteq> [] \<and> t = revisionsDir c @ [r])"
  proof (cases "p \<in> {cf_state_dir c @ [n], cf_state_dir c @ [n @ ''.tmp'']}")
    case True
    with S(2,3) p nm assms(4) show ?thesis by (auto split: if_splits)
  next
    case False
    with only_at_node [OF S(1)] p show ?thesis by metis
  qed
qed

lemma only_at_active_raw:
  assumes "links_ok c f" and "links_ok c g" and "only_at (range (\<lambda>n. cf_state_dir c @ [n])) f g"
    and "fs_node g (activeLink c) = fs_node f (activeLink c)"
  shows "active_raw c g = active_raw c f"
proof -
  have deep: "file_at g (cf_state_dir c @ n # m # ps) = file_at f (cf_state_dir c @ n # m # ps)" for n m ps
  proof -
    have "cf_state_dir c @ n # m # ps \<notin> range (\<lambda>n. cf_state_dir c @ [n])" by auto
    with only_at_node [OF assms(3)] show ?thesis by (simp add: file_at_def)
  qed
  have "file_at g (activeLink c @ [''config.json'']) = file_at f (activeLink c @ [''config.json''])"
    using deep by (simp add: activeLink_def)
  moreover have "file_at g (t @ [''config.json'']) = file_at f (t @ [''config.json''])"
    if "fs_node f (activeLink c) = Some (FLink t)" for t
  proof -
    from that assms(1) obtain r where "t = rev_dir c r" unfolding links_ok_def by blast
    then show ?thesis using deep by (simp add: revisionsDir_def)
  qed
  ultimately show ?thesis
    unfolding active_raw_eq [OF assms(1)] active_raw_eq [OF assms(2)] assms(4)
    by (auto split: option.splits fnode.splits)
qed

lemma active_raw_link:
  "links_ok c f \<Longrightarrow> fs_node f (activeLink c) = Some (FLink t) \<Longrightarrow> active_raw c f = file_at f (t @ [''config.json''])"
  by (simp add: active_raw_eq)

lemma readlink_active:
  assumes "links_ok c f" and "os_readlink f (activeLink c) = Some t"
  shows "\<exists>r. r \<noteq> [] \<and> t = rev_dir c r"
proof -
  have "entry_path f (activeLink c) = Some (activeLink c)"
    using plain_state_dir [OF assms(1)] by (simp add: entry_path_plain activeLink_def)
  with assms show ?thesis
    by (auto simp: os_readlink_def lstat_def links_ok_def split: option.splits fnode.splits)
qed

text \<open>The outcome of the disk part of a push, whatever system calls fail on the way.\<close>

definition stage_done :: "agent_config \<Rightarrow> string \<Rightarrow> bytes \<Rightarrow> fs \<Rightarrow> bool" where
  "stage_done c rid raw g \<longleftrightarrow> links_ok c g \<and> fs_node g (activeLink c) = Some (FLink (rev_dir c rid)) \<and>
     fs_node g (rev_dir c rid @ [''config.json'']) = Some (FFile raw)"

lemma stage_done_only_at:
  assumes "stage_done c rid raw f" and "links_ok c g" and "only_at S f g" and "activeLink c \<notin> S" and "rev_dir c rid @ [''config.json''] \<notin> S"
  shows "stage_done c rid raw g"
  using assms by (simp add: stage_done_def only_at_def)

lemma swap_previous:
  assumes "stage_done c rid raw f" and "r \<noteq> []"
  shows "stage_done c rid raw (snd (swapSymlink (previousLink c) (rev_dir c r) f))"
proof -
  obtain ok g where sw: "swapSymlink (cf_state_dir c @ [''previous'']) (rev_dir c r) f = (ok, g)" by fastforce
  have l: "links_ok c f" using assms(1) by (simp add: stage_done_def)
  have "stage_done c rid raw g"
    by (rule stage_done_only_at [OF assms(1) _ swapSymlink_plain(1) [OF plain_state_dir [OF l] sw]])
      (use swap_links_ok [OF l _ sw assms(2)] in \<open>auto simp: activeLink_def revisionsDir_def\<close>)
  with sw show ?thesis by (simp add: previousLink_def)
qed

lemma stage_outcome:
  assumes "links_ok c f" and "rid \<noteq> []" and "stage c rid raw f = (ok, g)"
  shows "links_ok c g" and "ok \<Longrightarrow> stage_done c rid raw g"
    and "\<not> ok \<Longrightarrow> fs_node f (activeLink c) \<noteq> Some (FLink (rev_dir c rid)) \<Longrightarrow> active_raw c g = active_raw c f"
proof -
  obtain k1 f1 where m: "os_mkdir_all (rev_dir c rid) f = (k1, f1)" by fastforce
  obtain k2 f2 where w: "writeFile (rev_dir c rid @ [''config.json'']) raw f1 = (k2, f2)" by fastforce
  obtain k3 f3 where sw: "swapSymlink (cf_state_dir c @ [''active'']) (rev_dir c rid) f2 = (k3, f3)" by fastforce
  note F = stage_files [OF assms(1) m]
  from F(2) [OF w] have s2: "staged c rid f f2" and c2: "k2 \<Longrightarrow> fs_node f2 (rev_dir c rid @ [''config.json'']) = Some (FFile raw)" by auto
  have l1: "links_ok c f1" and l2: "links_ok c f2" using F(1) s2 by (simp_all add: staged_def)
  have l3: "links_ok c f3" by (rule swap_links_ok [OF l2 _ sw assms(2)]) simp
  note S = swapSymlink_plain [OF plain_state_dir [OF l2] sw]
  have st: "stage c rid raw f = (if \<not> k1 then (False, f1) else if \<not> k2 then (False, f2) else if \<not> k3 then (False, f3)
      else (True, case os_readlink f2 (activeLink c) of None \<Rightarrow> f3 | Some t \<Rightarrow> if t = [] then f3 else snd (swapSymlink (previousLink c) t f3)))"
    using m w sw assms(2) by (simp add: stage_def path_join_def activeLink_def Let_def)
  have "(if ok then stage_done c rid raw g else links_ok c g \<and>
      (fs_node f (activeLink c) \<noteq> Some (FLink (rev_dir c rid)) \<longrightarrow> active_raw c g = active_raw c f))"
  proof (cases "k1 \<and> k2 \<and> k3")
    case True
    then have "stage_done c rid raw f3"
      using l3 S(1,2) c2 by (auto simp: stage_done_def only_at_def activeLink_def revisionsDir_def)
    with True assms(3) [unfolded st] swap_previous readlink_active [OF l2] show ?thesis
      by (auto split: option.splits if_splits)
  next
    case False
    have "active_raw c f3 = active_raw c f2" if "\<not> k3"
    proof (rule only_at_active_raw [OF l2 l3])
      show "only_at (range (\<lambda>n. cf_state_dir c @ [n])) f2 f3" by (rule only_at_mono [OF S(1)]) auto
      show "fs_node f3 (activeLink c) = fs_node f2 (activeLink c)" using S(2) that by (simp add: activeLink_def)
    qed
    with False assms(3) [unfolded st] l1 l2 l3 staged_active_raw [OF assms(1) F(1)] staged_active_raw [OF assms(1) s2]
    show ?thesis by (auto split: if_splits)
  qed
  then show "links_ok c g" and "ok \<Longrightarrow> stage_done c rid raw g"
    and "\<not> ok \<Longrightarrow> fs_node f (activeLink c) \<noteq> Some (FLink (rev_dir c rid)) \<Longrightarrow> active_raw c g = active_raw c f"
    by (auto simp: stage_done_def split: if_splits)
qed

lemma state_file_keeps:
  assumes "links_ok c f" and "writeFileAtomic (statePath c) b f = (ok, g)"
  shows "links_ok c g"
    and "fs_node f q \<noteq> None \<Longrightarrow> q \<noteq> statePath c \<Longrightarrow> q \<noteq> dot_tmp (statePath c) \<Longrightarrow> fs_node g q = fs_node f q"
proof -
  let ?d = "cf_state_dir c" and ?t = "''state.json.tmp''" and ?s = "''state.json''"
  have tmp: "dot_tmp (statePath c) = ?d @ [?t]" by (simp add: dot_tmp_def statePath_def)
  obtain k f1 where w: "writeFile (?d @ [?t]) b f = (k, f1)" by fastforce
  have "plain f (?d @ [?t])" by (rule plain_under [OF assms(1)]) (simp add: link_names_def)
  from writeFile_plain [OF this w] obtain h where h: "dirs_added ?d f h" "only_at {?d @ [?t]} h f1"
    "fs_node f1 (?d @ [?t]) = fs_node h (?d @ [?t]) \<or> (\<exists>b'. fs_node f1 (?d @ [?t]) = Some (FFile b'))" by metis
  have l1: "links_ok c f1"
  proof (rule links_okI [OF assms(1)])
    fix p t
    assume "fs_node f1 p = Some (FLink t)"
    with h(2,3) have "fs_node h p = Some (FLink t)" by (cases "p = ?d @ [?t]") (auto simp: only_at_def)
    with dirs_added_link [OF h(1)] show "fs_node f p = Some (FLink t) \<or>
      (\<exists>n\<in>link_names. p = ?d @ [n]) \<and> (\<exists>r. r \<noteq> [] \<and> t = revisionsDir c @ [r])" by blast
  qed
  have keep1: "fs_node f1 q = fs_node f q" if "fs_node f q \<noteq> None" "q \<noteq> ?d @ [?t]" for q
    using only_at_node [OF h(2)] dirs_added_kept [OF h(1)] that by simp
  have "links_ok c g \<and> (\<forall>q. q \<noteq> ?d @ [?s] \<longrightarrow> q \<noteq> ?d @ [?t] \<longrightarrow> fs_node g q = fs_node f1 q)"
  proof (cases k)
    case False
    with assms(2) w tmp l1 show ?thesis by (simp add: writeFileAtomic_def)
  next
    case True
    with assms(2) w tmp have r: "os_rename (?d @ [?t]) (?d @ [?s]) f1 = (ok, g)"
      by (simp add: writeFileAtomic_def statePath_def)
    note R = os_rename_plain [OF plain_state_dir [OF l1] r]
    have no: "fs_node f1 (?d @ [?t]) \<noteq> Some (FLink t)" for t
      using l1 by (auto simp: links_ok_def link_names_def)
    have "links_ok c g"
    proof (rule links_okI [OF l1])
      fix p t
      assume "fs_node g p = Some (FLink t)"
      with R no show "fs_node f1 p = Some (FLink t) \<or>
        (\<exists>n\<in>link_names. p = ?d @ [n]) \<and> (\<exists>r. r \<noteq> [] \<and> t = revisionsDir c @ [r])"
        by (cases "p \<in> {?d @ [?t], ?d @ [?s]}") (auto simp: only_at_def split: if_splits)
    qed
    with R(1) show ?thesis by (auto simp: only_at_def)
  qed
  with keep1 tmp show "links_ok c g"
    and "fs_node f q \<noteq> None \<Longrightarrow> q \<noteq> statePath c \<Longrightarrow> q \<noteq> dot_tmp (statePath c) \<Longrightarrow> fs_node g q = fs_node f q"
    by (auto simp: statePath_def)
qed

lemma saveState_keeps:
  assumes "stage_done (ag_cfg a) rid raw (ag_fs a)"
  shows "stage_done (ag_cfg a) rid raw (ag_fs (snd (saveState al a)))" and "ag_cfg (snd (saveState al a)) = ag_cfg a"
    and "ag_state (snd (saveState al a)) = ag_state a" and "ag_degraded (snd (saveState al a)) = ag_degraded a"
proof -
  obtain ok g where w: "writeFileAtomic (statePath (ag_cfg a)) (al_json_state al (ag_state a)) (ag_fs a) = (ok, g)" by fastforce
  have l: "links_ok (ag_cfg a) (ag_fs a)" using assms by (simp add: stage_done_def)
  from state_file_keeps [OF l w] assms have "stage_done (ag_cfg a) rid raw g"
    unfolding stage_done_def by (simp add: statePath_def activeLink_def revisionsDir_def dot_tmp_def)
  with w show "stage_done (ag_cfg a) rid raw (ag_fs (snd (saveState al a)))" and "ag_cfg (snd (saveState al a)) = ag_cfg a"
    and "ag_state (snd (saveState al a)) = ag_state a" and "ag_degraded (snd (saveState al a)) = ag_degraded a"
    by (simp_all add: saveState_def)
qed

lemma remove_names_keeps:
  assumes "links_ok c f"
  shows "links_ok c (remove_names (revisionsDir c) ns f) \<and>
    (fs_node (remove_names (revisionsDir c) ns f) q = fs_node f q \<or>
     fs_node (remove_names (revisionsDir c) ns f) q = None \<and> (\<exists>n\<in>set ns. take (length (revisionsDir c) + 1) q = rev_dir c n))"
  using assms
proof (induction ns arbitrary: f)
  case (Cons n ns)
  obtain ok g where r: "os_remove_all (rev_dir c n) f = (ok, g)" by fastforce
  have "plain f (revisionsDir c)" using revisions_plain [OF Cons.prems, of "[]"] by simp
  note R = os_remove_all_plain(2) [OF this r]
  have "links_ok c g" by (rule links_okI [OF Cons.prems]) (use R in \<open>metis option.distinct(1)\<close>)
  from Cons.IH [OF this] R [of q] r show ?case by auto
qed simp

lemma prunable_names: "x \<in> set (prunable mtime prot entries) \<Longrightarrow> fst x \<notin> prot \<and> (fst x, True) \<in> set entries"
  by (auto simp: prunable_def)

lemma pruneRevisions_fields [simp]:
  "ag_cfg (pruneRevisions mtime a) = ag_cfg a" "ag_state (pruneRevisions mtime a) = ag_state a"
  "ag_degraded (pruneRevisions mtime a) = ag_degraded a"
  by (simp_all add: pruneRevisions_def Let_def split: option.splits)

text \<open>Pruning keeps every path outside \<open>revisions\<close> and everything of the applied and the previous revision.\<close>

lemma pruneRevisions_keeps:
  assumes "links_ok (ag_cfg a) (ag_fs a)"
    and "\<And>n. n \<noteq> st_applied_revision (ag_state a) \<Longrightarrow> n \<noteq> st_previous_revision (ag_state a) \<Longrightarrow>
      take (length (revisionsDir (ag_cfg a)) + 1) q \<noteq> rev_dir (ag_cfg a) n"
  shows "fs_node (ag_fs (pruneRevisions mtime a)) q = fs_node (ag_fs a) q"
proof (cases "os_read_dir (ag_fs a) (revisionsDir (ag_cfg a))")
  case (Some entries)
  then obtain k where k: "ag_fs (pruneRevisions mtime a) = remove_names (revisionsDir (ag_cfg a))
      (map fst (drop k (prunable mtime {st_applied_revision (ag_state a), st_previous_revision (ag_state a)} entries))) (ag_fs a)"
    by (simp add: pruneRevisions_def Let_def)
  have "n \<noteq> st_applied_revision (ag_state a) \<and> n \<noteq> st_previous_revision (ag_state a)"
    if "n \<in> set (map fst (drop k (prunable mtime {st_applied_revision (ag_state a), st_previous_revision (ag_state a)} entries)))" for n
    using that by (auto dest!: in_set_dropD prunable_names)
  with remove_names_keeps [OF assms(1)] assms(2) show ?thesis unfolding k by metis
qed (simp add: pruneRevisions_def)

lemma pruneRevisions_links: "links_ok (ag_cfg a) (ag_fs a) \<Longrightarrow> links_ok (ag_cfg a) (ag_fs (pruneRevisions mtime a))"
  using remove_names_keeps by (auto simp: pruneRevisions_def Let_def split: option.splits)

lemma adopt_outcome:
  assumes "stage_done (ag_cfg a) (nc_revision_id cfg) raw (ag_fs a)"
  shows "stage_done (ag_cfg a) (nc_revision_id cfg) raw (ag_fs (adopt al now mtime cfg got a))"
    and "ag_state (adopt al now mtime cfg got a) =
      (ag_state a)\<lparr>st_previous_revision := st_applied_revision (ag_state a), st_applied_revision := nc_revision_id cfg,
         st_applied_sequence := nc_sequence cfg, st_applied_sha256 := got, st_last_applied_at := now\<rparr>"
    and "ag_degraded (adopt al now mtime cfg got a) = False"
    and "cf_state_dir (ag_cfg (adopt al now mtime cfg got a)) = cf_state_dir (ag_cfg a)"
proof -
  let ?c = "ag_cfg a" and ?rid = "nc_revision_id cfg"
  define a1 where "a1 = a\<lparr>ag_state := (ag_state a)\<lparr>st_previous_revision := st_applied_revision (ag_state a), st_applied_revision := ?rid,
     st_applied_sequence := nc_sequence cfg, st_applied_sha256 := got, st_last_applied_at := now\<rparr>, ag_degraded := False, ag_last_err := []\<rparr>"
  define a2 where "a2 = snd (saveState al a1)"
  have a1: "ag_cfg a1 = ?c" "ag_fs a1 = ag_fs a" by (simp_all add: a1_def)
  with assms have "stage_done (ag_cfg a1) ?rid raw (ag_fs a1)" by simp
  from saveState_keeps [OF this, of al] a1 have a2: "stage_done ?c ?rid raw (ag_fs a2)" "ag_cfg a2 = ?c" "ag_state a2 = ag_state a1"
    "ag_degraded a2 = False" by (simp_all add: a2_def a1_def)
  have l2: "links_ok (ag_cfg a2) (ag_fs a2)" using a2 by (simp add: stage_done_def)
  have keep: "fs_node (ag_fs (pruneRevisions mtime a2)) q = fs_node (ag_fs a2) q"
    if "q = activeLink ?c \<or> q = rev_dir ?c ?rid @ [''config.json'']" for q
    by (rule pruneRevisions_keeps [OF l2]) (use that a2 in \<open>auto simp: a1_def activeLink_def revisionsDir_def\<close>)
  with a2 pruneRevisions_links [OF l2] have p: "stage_done ?c ?rid raw (ag_fs (pruneRevisions mtime a2))"
    by (simp add: stage_done_def)
  have e: "adopt al now mtime cfg got a = (case cf_level (ag_cfg (pruneRevisions mtime a2)) of None \<Rightarrow> pruneRevisions mtime a2
     | Some lv \<Rightarrow> (pruneRevisions mtime a2)\<lparr>ag_cfg := (ag_cfg (pruneRevisions mtime a2))\<lparr>cf_level := Some (fst (Follow (al_lower al) (nc_log_level cfg) lv))\<rparr>\<rparr>)"
    unfolding adopt_def Let_def a2_def a1_def ..
  show "stage_done ?c ?rid raw (ag_fs (adopt al now mtime cfg got a))" using p by (simp add: e split: option.splits)
  show "ag_state (adopt al now mtime cfg got a) = (ag_state a)\<lparr>st_previous_revision := st_applied_revision (ag_state a), st_applied_revision := ?rid,
     st_applied_sequence := nc_sequence cfg, st_applied_sha256 := got, st_last_applied_at := now\<rparr>"
    using a2 by (simp add: e a1_def split: option.splits)
  show "ag_degraded (adopt al now mtime cfg got a) = False" "cf_state_dir (ag_cfg (adopt al now mtime cfg got a)) = cf_state_dir ?c"
    using a2 by (simp_all add: e split: option.splits)
qed

section \<open>Pushes succeed on a sound disk\<close>

definition disk_ready :: "agent_config \<Rightarrow> string \<Rightarrow> fs \<Rightarrow> bool" where
  "disk_ready c rid f \<longleftrightarrow> links_ok c f \<and> no_failure f \<and> (\<forall>k. fs_node f (take k (revisionsDir c)) = Some FDir) \<and>
     fs_node f (rev_dir c rid) \<in> {None, Some FDir} \<and> fs_node f (rev_dir c rid @ [''config.json'']) \<noteq> Some FDir \<and>
     (\<forall>n\<in>link_names. fs_node f (cf_state_dir c @ [n]) \<noteq> Some FDir)"

lemma swapSymlink_succeeds:
  assumes "plain f d" and "no_failure f" and "fs_node f d = Some FDir" and "fs_node f (d @ [n]) \<noteq> Some FDir"
    and "fs_node f (d @ [n @ ''.tmp'']) \<noteq> Some FDir"
  shows "fst (swapSymlink (d @ [n]) t f)"
proof -
  let ?tmp = "d @ [n @ ''.tmp'']"
  obtain k1 f1 where r: "os_remove ?tmp f = (k1, f1)" by fastforce
  note R = os_remove_plain [OF assms(1) r]
  have e: "entry_path f (d @ [x]) = Some (d @ [x])" for x using assms(1) by (simp add: entry_path_plain)
  have n1: "fs_node f1 ?tmp = None"
    using r assms(2,5) by (cases "fs_node f ?tmp") (auto simp: os_remove_def syscall_def no_failure_def e split: if_splits)
  have f1: "no_failure f1" "plain f1 d" "fs_node f1 d = Some FDir" "fs_node f1 (d @ [n]) \<noteq> Some FDir"
    using R(1) assms plain_only_at [OF R(1) _ assms(1)] by (simp_all add: only_at_def no_failure_def take_neq_longer)
  have e1: "entry_path f1 (d @ [x]) = Some (d @ [x])" for x using f1(2) by (simp add: entry_path_plain)
  let ?f2 = "tick (set_node ?tmp (FLink t) f1)"
  have l: "os_symlink t ?tmp f1 = (True, ?f2)"
    unfolding os_symlink_def by (rule syscall_no_failure [OF f1(1)]) (simp add: e1 n1 f1(3))
  have p2: "plain ?f2 d" by (rule plain_only_at [OF _ _ f1(2), where S = "{?tmp}"]) (simp_all add: take_neq_longer)
  have e2: "entry_path ?f2 (d @ [x]) = Some (d @ [x])" for x using p2 by (simp add: entry_path_plain)
  have "no_failure ?f2" using f1(1) by (simp add: no_failure_def)
  then have "fst (os_rename ?tmp (d @ [n]) ?f2)"
    using f1 by (simp add: os_rename_def syscall_no_failure e2)
  with r l show ?thesis by (simp add: swapSymlink_def dot_tmp_def)
qed

lemma writeFile_succeeds:
  assumes "plain f (p @ [n])" and "no_failure f" and "\<And>k. fs_node f (take k p) = Some FDir" and "fs_node f (p @ [n]) \<noteq> Some FDir"
  shows "fst (writeFile (p @ [n]) b f)"
proof -
  obtain k g where m: "os_mkdir_all p f = (k, g)" by fastforce
  note M = os_mkdir_all_plain [OF plain_parent [OF assms(1)] m]
  have "fst (os_mkdir_all p f)"
    unfolding os_mkdir_all_def
    by (rule mkdir_all_from_succeeds) (use plain_parent [OF assms(1)] assms(2) assms(3) [of "length p"] assms(3) in simp_all)
  with m have k: "k" by simp
  have "fs_node g (p @ [n]) \<noteq> Some FDir"
    using assms(4) dirs_added_kept [OF M(1), of "p @ [n]"] take_neq_longer [of _ p n] by metis
  moreover have "no_failure g" using M(1) assms(2) by (simp add: dirs_added_def no_failure_def)
  ultimately have "fst (os_write_file (p @ [n]) b g)"
    using M(2) k by (intro os_write_file_succeeds plain_dirs_added [OF M(1) assms(1)]) simp_all
  with m k show ?thesis by (simp add: writeFile_def)
qed

lemma revision_not_link: "n \<in> link_names \<Longrightarrow> cf_state_dir c @ [n] \<noteq> take k (rev_dir c rid)"
proof
  assume n: "n \<in> link_names" and e: "cf_state_dir c @ [n] = take k (rev_dir c rid)"
  have "length (take k (rev_dir c rid)) = Suc (length (cf_state_dir c))" using arg_cong [OF e, of length] by simp
  then have "take k (rev_dir c rid) ! length (cf_state_dir c) = ''revisions''" by (auto simp: revisionsDir_def nth_append)
  with e [symmetric] n show False by (auto simp: link_names_def)
qed

text \<open>What the staged files leave of the directories the link swap needs.\<close>

lemma staged_ready:
  assumes "disk_ready c rid f" and "staged c rid f g"
  shows "fs_node g (cf_state_dir c) = Some FDir" and "n \<in> link_names \<Longrightarrow> fs_node g (cf_state_dir c @ [n]) \<noteq> Some FDir"
proof -
  have "fs_node f (take (length (cf_state_dir c)) (revisionsDir c)) = Some FDir" using assms(1) unfolding disk_ready_def by blast
  then have "fs_node f (cf_state_dir c) = Some FDir" by (simp add: revisionsDir_def)
  moreover have "cf_state_dir c \<noteq> rev_dir c rid @ [''config.json'']" by (simp add: revisionsDir_def)
  ultimately show "fs_node g (cf_state_dir c) = Some FDir" using assms(2) unfolding staged_def by (metis option.distinct(1))
  show "fs_node g (cf_state_dir c @ [n]) \<noteq> Some FDir" if "n \<in> link_names"
    using assms revision_not_link [OF that] that unfolding staged_def disk_ready_def by (metis active_neq_revision(5))
qed

lemma stage_succeeds:
  assumes "disk_ready c rid f" and "rid \<noteq> []"
  shows "fst (stage c rid raw f)"
proof -
  let ?dir = "rev_dir c rid" and ?cfg = "rev_dir c rid @ [''config.json'']"
  from assms(1) have l: "links_ok c f" and nf: "no_failure f" and up: "\<And>k. fs_node f (take k (revisionsDir c)) = Some FDir"
    and dir: "fs_node f ?dir \<in> {None, Some FDir}" and cf: "fs_node f ?cfg \<noteq> Some FDir" by (auto simp: disk_ready_def)
  obtain k1 f1 where m: "os_mkdir_all ?dir f = (k1, f1)" by fastforce
  obtain k2 f2 where w: "writeFile ?cfg raw f1 = (k2, f2)" by fastforce
  have pl: "plain f ?dir" by (rule revisions_plain [OF l])
  have k1: "k1" using mkdir_all_from_succeeds [of f "[]" ?dir] pl nf up dir m by (simp add: os_mkdir_all_def)
  note M = os_mkdir_all_plain [OF pl m]
  note F = stage_files [OF l m]
  have l1: "links_ok c f1" using F(1) by (simp add: staged_def)
  have pc: "plain f1 ?cfg" using revisions_plain [OF l1, of "[rid, ''config.json'']"] by simp
  have nf1: "no_failure f1" using M(1) nf by (simp add: dirs_added_def no_failure_def)
  have upd: "fs_node f1 (take k ?dir) = Some FDir" for k
  proof (cases "k \<le> length (revisionsDir c)")
    case True
    then show ?thesis using up [of k] dirs_added_kept [OF M(1), of "take k (revisionsDir c)"] by simp
  qed (use M(2) k1 in simp)
  have "fs_node f1 ?cfg \<noteq> Some FDir"
    using cf dirs_added_kept [OF M(1), of ?cfg] take_neq_longer [of _ ?dir "''config.json''"] by metis
  from writeFile_succeeds [OF pc nf1 upd this, of raw] w have k2: "k2" by simp
  have s2: "staged c rid f f2" using F(2) [OF w] by simp
  then have l2: "links_ok c f2" by (simp add: staged_def)
  obtain h where "dirs_added ?dir f1 h" "only_at {?cfg} h f2" using writeFile_plain [OF pc w] by metis
  with nf1 have nf2: "no_failure f2" by (simp add: dirs_added_def only_at_def no_failure_def)
  have "fst (swapSymlink (activeLink c) ?dir f2)"
    unfolding activeLink_def
    by (rule swapSymlink_succeeds [OF plain_state_dir [OF l2] nf2 staged_ready(1) [OF assms(1) s2]])
      (auto intro!: staged_ready(2) [OF assms(1) s2] simp: link_names_def)
  with m k1 w k2 assms(2) show ?thesis by (auto simp: stage_def path_join_def Let_def split: prod.splits)
qed

section \<open>Properties\<close>

lemma state_dir_cong:
  "cf_state_dir c' = cf_state_dir c \<Longrightarrow> links_ok c' = links_ok c \<and> active_raw c' = active_raw c \<and> activeLink c' = activeLink c"
  by (auto simp: links_ok_def active_raw_def path_defs fun_eq_iff)

lemma stage_done_raw: "stage_done c rid raw f \<Longrightarrow> active_raw c f = Some raw"
  by (simp add: stage_done_def active_raw_link file_at_def)

lemma handleConfig_valid:
  assumes "readAll body (64 * 2 ^ 20) = Some raw" and "json_config_parse (al_wire al) raw = Some cfg"
    and "validate cfg (st_node_id (ag_state a)) (st_role (ag_state a)) = None"
    and "\<not> (nc_revision_id cfg = st_applied_revision (ag_state a) \<and>
      hex_encode (sha256_sum (al_wire al) raw) = st_applied_sha256 (ag_state a))"
    and "stage (ag_cfg a) (nc_revision_id cfg) raw (ag_fs a) = (ok, f)"
  shows "handleConfig al now mtime body a =
    (if ok then let a' = adopt al now mtime cfg (hex_encode (sha256_sum (al_wire al) raw)) (a\<lparr>ag_fs := f\<rparr>) in (Inr (ackConfig a'), a')
     else (Inl FileError, a\<lparr>ag_fs := f\<rparr>))"
  using assms by (auto simp: handleConfig_def Let_def)

lemma write_files_identity:
  assumes "links_ok c f" and "write_files xs f = (True, g)" and "distinct (map fst xs)"
    and "\<And>p. p \<in> fst ` set xs \<Longrightarrow> \<exists>n. p = identityDir c @ [n]"
  shows "links_ok c g \<and> (\<forall>x\<in>set xs. fs_node g (fst x) = Some (FFile (bytes_of_string (snd x)))) \<and>
    (\<forall>q. q \<notin> fst ` set xs \<longrightarrow> fs_node f q \<noteq> None \<longrightarrow> fs_node g q = fs_node f q)"
  using assms
proof (induction xs arbitrary: f)
  case (Cons x xs)
  obtain p t where x: "x = (p, t)" by fastforce
  from Cons.prems(4) x obtain n where p: "p = identityDir c @ [n]" by force
  obtain k f1 where w: "writeFile p (bytes_of_string t) f = (k, f1)" by fastforce
  with Cons.prems(2) x have k: "k" and r: "write_files xs f1 = (True, g)" by (auto split: if_splits)
  have "plain f p" using plain_under [OF Cons.prems(1), of "''identity''" "[n]"] by (simp add: p identityDir_def link_names_def)
  with writeFile_plain [of f "identityDir c" n "bytes_of_string t" k f1] w obtain h where h: "dirs_added (identityDir c) f h" "only_at {p} h f1"
    "fs_node f1 p = Some (FFile (bytes_of_string t))" using k p by metis
  have l1: "links_ok c f1"
  proof (rule links_okI [OF Cons.prems(1)])
    fix q l
    assume "fs_node f1 q = Some (FLink l)"
    with h(2,3) have "fs_node h q = Some (FLink l)" by (cases "q = p") (auto simp: only_at_def)
    with dirs_added_link [OF h(1)] show "fs_node f q = Some (FLink l) \<or>
      (\<exists>n\<in>link_names. q = cf_state_dir c @ [n]) \<and> (\<exists>r. r \<noteq> [] \<and> l = revisionsDir c @ [r])" by blast
  qed
  have keep: "fs_node f1 q = fs_node f q" if "q \<noteq> p" "fs_node f q \<noteq> None" for q
    using only_at_node [OF h(2)] dirs_added_kept [OF h(1)] that by simp
  from Cons.IH [OF l1 r] Cons.prems(3,4) x have ih: "links_ok c g" "\<And>y. y \<in> set xs \<Longrightarrow> fs_node g (fst y) = Some (FFile (bytes_of_string (snd y)))"
    "\<And>q. q \<notin> fst ` set xs \<Longrightarrow> fs_node f1 q \<noteq> None \<Longrightarrow> fs_node g q = fs_node f1 q" by auto
  have "fs_node g p = Some (FFile (bytes_of_string t))" using ih(3) [of p] h(3) Cons.prems(3) x by auto
  with ih keep x show ?case by auto
qed auto

lemma identity_plain: "links_ok c f \<Longrightarrow> plain f (identityDir c @ ps)"
  using plain_under [of c f "''identity''" ps] by (simp add: identityDir_def link_names_def)

text \<open>
  Property C4. A push is atomic for the data plane, whatever system calls fail and wherever the agent
  stops: when the pushed revision is not the active one, a refused or failed push leaves the active
  configuration byte for byte as it was, and an acknowledged one either changed nothing (it was
  applied before) or made exactly the pushed bytes the active configuration; the layout of the
  state directory is kept in every case.
\<close>

theorem push_is_atomic:
  assumes "links_ok (ag_cfg a) (ag_fs a)" and "handleConfig al now mtime body a = (res, a')"
    and "readAll body (64 * 2 ^ 20) = Some raw"
    and "\<And>cfg. json_config_parse (al_wire al) raw = Some cfg \<Longrightarrow> nc_revision_id cfg \<noteq> [] \<and>
      fs_node (ag_fs a) (activeLink (ag_cfg a)) \<noteq> Some (FLink (rev_dir (ag_cfg a) (nc_revision_id cfg)))"
  shows "links_ok (ag_cfg a') (ag_fs a') \<and>
    (case res of
       Inl _ \<Rightarrow> active_raw (ag_cfg a') (ag_fs a') = active_raw (ag_cfg a) (ag_fs a)
     | Inr _ \<Rightarrow> a' = a \<or> active_raw (ag_cfg a') (ag_fs a') = Some raw)"
proof (cases "json_config_parse (al_wire al) raw")
  case None
  with assms show ?thesis by (auto simp: handleConfig_def setErr_def)
next
  case cfg: (Some cfg)
  obtain ok f where st: "stage (ag_cfg a) (nc_revision_id cfg) raw (ag_fs a) = (ok, f)" by fastforce
  note O = stage_outcome [OF assms(1) conjunct1 [OF assms(4) [OF cfg]] st]
  show ?thesis
  proof (cases "validate cfg (st_node_id (ag_state a)) (st_role (ag_state a)) = None \<and>
      \<not> (nc_revision_id cfg = st_applied_revision (ag_state a) \<and> hex_encode (sha256_sum (al_wire al) raw) = st_applied_sha256 (ag_state a))")
    case False
    with assms cfg show ?thesis by (auto simp: handleConfig_def setErr_def Let_def split: option.splits)
  next
    case True
    note H = handleConfig_valid [OF assms(3) cfg conjunct1 [OF True] conjunct2 [OF True] st, of now mtime]
    show ?thesis
    proof (cases ok)
      case False
      with H assms(2) O(1,3) assms(4) [OF cfg] show ?thesis by auto
    next
      case k: True
      let ?b = "a\<lparr>ag_fs := f\<rparr>"
      have "stage_done (ag_cfg ?b) (nc_revision_id cfg) raw (ag_fs ?b)" using O(2) k by simp
      note D = adopt_outcome [OF this, of al now mtime "hex_encode (sha256_sum (al_wire al) raw)"]
      from H k assms(2) have a': "a' = adopt al now mtime cfg (hex_encode (sha256_sum (al_wire al) raw)) ?b" and "\<exists>k. res = Inr k"
        by (auto simp: Let_def)
      moreover from D(1) have "links_ok (ag_cfg a) (ag_fs a')" "active_raw (ag_cfg a) (ag_fs a') = Some raw"
        unfolding a' using stage_done_raw by (auto simp: stage_done_def)
      ultimately show ?thesis using D(4) state_dir_cong [of "ag_cfg a'" "ag_cfg a"] by auto
    qed
  qed
qed

definition demo_agent_lib :: agent_lib where
  "demo_agent_lib = \<lparr>al_wire = demo_wire\<lparr>json_config_parse := (\<lambda>r. Some (zero_config\<lparr>nc_schema_version := 1,
       nc_revision_id := string_of_bytes r, nc_role := ''egress'', nc_egress := zero_egress\<lparr>ec_allowed_ports := [443]\<rparr>\<rparr>)),
       sha256_sum := (\<lambda>_. [1])\<rparr>,
     al_lower = (\<lambda>s. s), al_json_state = (\<lambda>st. bytes_of_string (st_applied_revision st)),
     al_json_state_into = (\<lambda>b st. st\<lparr>st_applied_revision := string_of_bytes b\<rparr>)\<rparr>"

definition demo_disk :: fs where
  "demo_disk = \<lparr>fs_nodes = [([''s''], FDir), ([''s'', ''revisions''], FDir)], fs_ops = 0, fs_fail = (\<lambda>_. None)\<rparr>"

definition demo_agent :: agent where
  "demo_agent = \<lparr>ag_cfg = \<lparr>cf_state_dir = [''s''], cf_listen_addr = '':3333'', cf_role = [], cf_keep_revisions = 3, cf_level = None,
       cf_tls_dir = [], cf_acme_http_addr = []\<rparr>,
     ag_started = 0, ag_state = zero_state, ag_panel_fp = [], ag_degraded = False, ag_last_err = [], ag_fs = demo_disk\<rparr>"

definition demo_push :: "(agent_error + ack) \<times> agent" where
  "demo_push = handleConfig demo_agent_lib 0 (\<lambda>_. None) (Some (bytes_of_string ''r1'')) demo_agent"

lemma demo_disk_node: "fs_node demo_disk p = (if p \<in> {[], [''s''], [''s'', ''revisions'']} then Some FDir else None)"
  by (auto simp: fs_node_def demo_disk_def)

lemma demo_agent_links: "links_ok (ag_cfg demo_agent) (ag_fs demo_agent)"
  by (simp add: links_ok_def demo_agent_def demo_disk_node)

theorem push_is_atomic_witness:
  "active_raw (ag_cfg demo_agent) (ag_fs demo_agent) = None \<and>
   active_raw (ag_cfg (snd demo_push)) (ag_fs (snd demo_push)) = Some (bytes_of_string ''r1'')"
proof -
  obtain res a' where h: "handleConfig demo_agent_lib 0 (\<lambda>_. None) (Some (bytes_of_string ''r1'')) demo_agent = (res, a')" by fastforce
  have r: "readAll (Some (bytes_of_string ''r1'')) (64 * 2 ^ 20) = Some (bytes_of_string ''r1'')" by (simp add: readAll_def)
  have k: "case fst demo_push of Inr k \<Rightarrow> ak_revision k = ''r1'' | Inl _ \<Rightarrow> False" by code_simp
  have n: "ak_revision k \<noteq> ''r1''" if "k = ackConfig demo_agent" for k
    by (simp add: that ackConfig_def demo_agent_def zero_state_def)
  have "links_ok (ag_cfg a') (ag_fs a') \<and>
    (case res of Inl _ \<Rightarrow> active_raw (ag_cfg a') (ag_fs a') = active_raw (ag_cfg demo_agent) (ag_fs demo_agent)
     | Inr _ \<Rightarrow> a' = demo_agent \<or> active_raw (ag_cfg a') (ag_fs a') = Some (bytes_of_string ''r1''))"
    by (rule push_is_atomic [OF demo_agent_links h r])
      (auto simp: demo_agent_lib_def demo_agent_def demo_disk_node activeLink_def zero_config_def)
  moreover have "a' \<noteq> demo_agent"
  proof
    assume "a' = demo_agent"
    moreover have "st_applied_revision (ag_state (snd demo_push)) = ''r1''" by code_simp
    ultimately show False using h by (simp add: demo_push_def demo_agent_def zero_state_def)
  qed
  moreover have "active_raw (ag_cfg demo_agent) (ag_fs demo_agent) = None" by code_simp
  ultimately show ?thesis using h k by (auto simp: demo_push_def split: sum.splits)
qed

text \<open>
  Property C33. On a sound disk a valid push that is new to the node is applied: it is acknowledged with
  its revision and sequence as healthy, the active configuration is the pushed one, and the revision
  that was applied before becomes the previous one.
\<close>

theorem push_applies:
  assumes "readAll body (64 * 2 ^ 20) = Some raw" and "json_config_parse (al_wire al) raw = Some cfg"
    and "validate cfg (st_node_id (ag_state a)) (st_role (ag_state a)) = None"
    and "nc_revision_id cfg \<noteq> st_applied_revision (ag_state a)" and "nc_revision_id cfg \<noteq> []"
    and "disk_ready (ag_cfg a) (nc_revision_id cfg) (ag_fs a)"
  shows "\<exists>a'. handleConfig al now mtime body a =
      (Inr \<lparr>ak_revision = nc_revision_id cfg, ak_sequence = nc_sequence cfg, ak_status = ''healthy''\<rparr>, a') \<and>
    ActiveConfig al a' = Some cfg \<and> st_previous_revision (ag_state a') = st_applied_revision (ag_state a)"
proof -
  let ?got = "hex_encode (sha256_sum (al_wire al) raw)"
  from stage_succeeds [OF assms(6,5), of raw] obtain f where st: "stage (ag_cfg a) (nc_revision_id cfg) raw (ag_fs a) = (True, f)"
    by (metis prod.collapse)
  have l: "links_ok (ag_cfg a) (ag_fs a)" using assms(6) by (simp add: disk_ready_def)
  from stage_outcome(2) [OF l assms(5) st] have "stage_done (ag_cfg (a\<lparr>ag_fs := f\<rparr>)) (nc_revision_id cfg) raw (ag_fs (a\<lparr>ag_fs := f\<rparr>))"
    by simp
  note D = adopt_outcome [OF this, of al now mtime ?got]
  have "handleConfig al now mtime body a = (Inr (ackConfig (adopt al now mtime cfg ?got (a\<lparr>ag_fs := f\<rparr>))), adopt al now mtime cfg ?got (a\<lparr>ag_fs := f\<rparr>))"
    using handleConfig_valid [OF assms(1-3) _ st] assms(4) by (simp add: Let_def)
  moreover have "active_raw (ag_cfg a) (ag_fs (adopt al now mtime cfg ?got (a\<lparr>ag_fs := f\<rparr>))) = Some raw"
    using stage_done_raw [OF D(1)] by simp
  then have "ActiveConfig al (adopt al now mtime cfg ?got (a\<lparr>ag_fs := f\<rparr>)) = Some cfg"
    using D(4) assms(2) by (simp add: ActiveConfig_def active_raw_def path_defs)
  ultimately show ?thesis using D(2,3) by (simp add: ackConfig_def statusLocked_def)
qed

theorem push_applies_witness:
  "\<exists>a' cfg. handleConfig demo_agent_lib 0 (\<lambda>_. None) (Some (bytes_of_string ''r1'')) demo_agent =
     (Inr \<lparr>ak_revision = ''r1'', ak_sequence = 0, ak_status = ''healthy''\<rparr>, a') \<and> ActiveConfig demo_agent_lib a' = Some cfg"
proof -
  let ?raw = "bytes_of_string ''r1''"
  obtain cfg where c: "json_config_parse (al_wire demo_agent_lib) ?raw = Some cfg" and
    f: "nc_revision_id cfg = ''r1''" "nc_sequence cfg = 0" "nc_schema_version cfg = 1" "nc_role cfg = ''egress''"
      "ec_allowed_ports (nc_egress cfg) = [443]"
    by (simp add: demo_agent_lib_def zero_config_def)
  have v: "validate cfg (st_node_id (ag_state demo_agent)) (st_role (ag_state demo_agent)) = None"
    using f by (simp add: validate_def demo_agent_def zero_state_def)
  have up: "fs_node demo_disk (take k [''s'', ''revisions'']) = Some FDir" for k
    by (cases k; cases "k - 1") (auto simp: demo_disk_node)
  have d: "disk_ready (ag_cfg demo_agent) (nc_revision_id cfg) (ag_fs demo_agent)"
    using demo_agent_links up f(1)
    by (simp add: disk_ready_def demo_agent_def revisionsDir_def demo_disk_node no_failure_def) (simp add: demo_disk_def link_names_def)
  have r: "readAll (Some ?raw) (64 * 2 ^ 20) = Some ?raw" by (simp add: readAll_def)
  have n: "nc_revision_id cfg \<noteq> st_applied_revision (ag_state demo_agent)" "nc_revision_id cfg \<noteq> []"
    using f by (simp_all add: demo_agent_def zero_state_def)
  from push_applies [OF r c v n d, of 0 "\<lambda>_. None"] f show ?thesis by auto
qed

text \<open>
  A push that is not acknowledged for another reason than a failing disk changes neither
  the disk nor the applied state: an unreadable body leaves the agent as it was, invalid JSON and a
  configuration that fails validation mark it degraded with their code; and whatever is acknowledged
  has passed validation for this node and role.
\<close>

theorem push_refusals:
  assumes "handleConfig al now mtime body a = (res, a')"
  shows "(res = Inl ReadBody \<longrightarrow> a' = a) \<and>
    (res = Inl InvalidJSON \<longrightarrow> a' = a\<lparr>ag_degraded := True, ag_last_err := ''invalid_json''\<rparr>) \<and>
    (\<forall>e. res = Inl (Invalid e) \<longrightarrow> a' = a\<lparr>ag_degraded := True, ag_last_err := ''validation_failed''\<rparr>) \<and>
    (\<forall>k. res = Inr k \<longrightarrow> (\<exists>raw cfg. readAll body (64 * 2 ^ 20) = Some raw \<and> json_config_parse (al_wire al) raw = Some cfg \<and>
       validate cfg (st_node_id (ag_state a)) (st_role (ag_state a)) = None))"
  using assms by (auto simp: handleConfig_def setErr_def Let_def split: option.splits prod.splits if_splits bool.splits)

theorem push_refusals_witness:
  "ag_last_err (snd (handleConfig demo_agent_lib 0 (\<lambda>_. None) (Some []) (demo_agent\<lparr>ag_state := zero_state\<lparr>st_role := ''ingress''\<rparr>\<rparr>)))
     = ''validation_failed''"
proof -
  let ?a = "demo_agent\<lparr>ag_state := zero_state\<lparr>st_role := ''ingress''\<rparr>\<rparr>"
  obtain res a' where h: "handleConfig demo_agent_lib 0 (\<lambda>_. None) (Some []) ?a = (res, a')" by fastforce
  moreover have "fst (handleConfig demo_agent_lib 0 (\<lambda>_. None) (Some []) ?a) = Inl (Invalid (OtherRole ''egress'' ''ingress''))"
    by code_simp
  ultimately show ?thesis using push_refusals [OF h] by simp
qed

text \<open>
  Pushing the revision that is already active with other bytes, or after the applied state
  was lost, rewrites the active file in place: when the write fails, the active configuration is
  left empty although the push is refused.
\<close>

theorem active_rewrite_not_atomic:
  "let a1 = snd demo_push;
       a2 = a1\<lparr>ag_state := zero_state, ag_fs := (ag_fs a1)\<lparr>fs_fail := (\<lambda>n. if n = fs_ops (ag_fs a1) + 1 then Some 0 else None)\<rparr>\<rparr>;
       (res, a3) = handleConfig demo_agent_lib 0 (\<lambda>_. None) (Some (bytes_of_string ''r1'')) a2
   in active_raw (ag_cfg a2) (ag_fs a2) = Some (bytes_of_string ''r1'') \<and> res = Inl FileError \<and>
      active_raw (ag_cfg a3) (ag_fs a3) = Some []"
  by code_simp

text \<open>
  Pruning never removes anything of the applied or the previous revision, nor anything
  outside the revisions directory, and keeps the newest of the others: whatever is removed is not
  newer than any unprotected revision that is kept.
\<close>

theorem prune_protects:
  assumes "links_ok (ag_cfg a) (ag_fs a)"
  shows "fs_node (ag_fs (pruneRevisions mtime a)) (rev_dir (ag_cfg a) (st_applied_revision (ag_state a)) @ ps) =
      fs_node (ag_fs a) (rev_dir (ag_cfg a) (st_applied_revision (ag_state a)) @ ps) \<and>
    fs_node (ag_fs (pruneRevisions mtime a)) (rev_dir (ag_cfg a) (st_previous_revision (ag_state a)) @ ps) =
      fs_node (ag_fs a) (rev_dir (ag_cfg a) (st_previous_revision (ag_state a)) @ ps) \<and>
    (take (length (revisionsDir (ag_cfg a))) q \<noteq> revisionsDir (ag_cfg a) \<longrightarrow>
      fs_node (ag_fs (pruneRevisions mtime a)) q = fs_node (ag_fs a) q) \<and>
    (\<forall>x\<in>set (take k (prunable mtime prot entries)). \<forall>y\<in>set (drop k (prunable mtime prot entries)). snd y \<le> snd x)"
proof -
  have "fs_node (ag_fs (pruneRevisions mtime a)) q = fs_node (ag_fs a) q"
    if "take (length (revisionsDir (ag_cfg a))) q \<noteq> revisionsDir (ag_cfg a)"
  proof (rule pruneRevisions_keeps [OF assms])
    fix n
    show "take (length (revisionsDir (ag_cfg a)) + 1) q \<noteq> rev_dir (ag_cfg a) n"
    proof
      assume "take (length (revisionsDir (ag_cfg a)) + 1) q = rev_dir (ag_cfg a) n"
      then have "take (length (revisionsDir (ag_cfg a))) (take (length (revisionsDir (ag_cfg a)) + 1) q) = revisionsDir (ag_cfg a)" by simp
      with that show False by (simp add: min_def)
    qed
  qed
  moreover have "sorted (map (\<lambda>x. - snd x) (prunable mtime prot entries))" by (simp add: prunable_def)
  then have "sorted_wrt (\<lambda>x y. snd y \<le> snd x) (take k (prunable mtime prot entries) @ drop k (prunable mtime prot entries))"
    by (simp add: sorted_map)
  then have "\<forall>x\<in>set (take k (prunable mtime prot entries)). \<forall>y\<in>set (drop k (prunable mtime prot entries)). snd y \<le> snd x"
    unfolding sorted_wrt_append by blast
  ultimately show ?thesis by (auto intro: pruneRevisions_keeps [OF assms])
qed

theorem prune_protects_witness:
  "fs_node (ag_fs (pruneRevisions (\<lambda>_. Some 0) demo_agent)) [''s''] = Some FDir"
  using prune_protects [OF demo_agent_links, of "\<lambda>_. Some 0" "[]" "[''s'']"]
  by (simp add: demo_agent_def demo_disk_node revisionsDir_def)



end
