(* ===== verification/Hot_Reload.thy ===== *)
theory Hot_Reload
  imports Artifact_Model
begin

text \<open>
  Hot reloading on the nodes: the configuration loader of the data-plane programs
  (\<open>node/nodecfg/loader.go\<close>) and the certificate reloader of the TLS listeners
  (\<open>shared/tlsutil/tlsutil.go\<close>). A look at a file is a \<open>file_look\<close>: its content and modification time,
  or nothing when it is missing. Each system call of the source looks at a file_look of its own,
  because the agent may replace the file in between. How a time is formatted and whether a
  key pair loads are parameters.
\<close>

type_synonym file_look = "(bytes \<times> int) option"

section \<open>Configuration loader\<close>

record loader =
  ld_cur :: "node_config option"
  ld_stamp :: string
  ld_callbacks :: nat                  \<comment> \<open>number of registered callbacks\<close>
  ld_applied :: "(nat \<times> node_config) list" \<comment> \<open>the calls made: callback and configuration\<close>

text \<open>\<open>itoa\<close> fills a buffer from the right; it is only called with sizes.\<close>

function itoa_loop :: "int \<Rightarrow> string \<Rightarrow> string" where
  "itoa_loop n b = (if n > 0 then itoa_loop (n div 10) (char_of (48 + nat (n mod 10)) # b) else b)"
  by auto
termination by (relation "measure (\<lambda>(n, b). nat n)") auto

declare itoa_loop.simps [simp del]

definition itoa :: "int \<Rightarrow> string" where
  "itoa n = (if n = 0 then ''0'' else itoa_loop n [])"

definition stampOf :: "(int \<Rightarrow> string) \<Rightarrow> bytes \<times> int \<Rightarrow> string" where
  "stampOf fmt st = fmt (snd st) @ ''/'' @ itoa (int (length (fst st)))"

definition reload :: "wire_lib \<Rightarrow> (int \<Rightarrow> string) \<Rightarrow> file_look \<Rightarrow> file_look \<Rightarrow> loader \<Rightarrow> bool \<times> loader" where
  "reload wl fmt at_read at_stat l =
     (case at_read of
        None \<Rightarrow> (False, l)
      | Some (b, _) \<Rightarrow>
          (case json_config_parse wl b of
             None \<Rightarrow> (False, l)
           | Some c \<Rightarrow>
               (True, l\<lparr>ld_cur := Some c,
                        ld_stamp := (case at_stat of None \<Rightarrow> ld_stamp l | Some st \<Rightarrow> stampOf fmt st),
                        ld_applied := ld_applied l @ map (\<lambda>i. (i, c)) [0..<ld_callbacks l]\<rparr>)))"

definition New_loader :: "wire_lib \<Rightarrow> (int \<Rightarrow> string) \<Rightarrow> file_look \<Rightarrow> file_look \<Rightarrow> loader option" where
  "New_loader wl fmt at_read at_stat =
     (case reload wl fmt at_read at_stat \<lparr>ld_cur = None, ld_stamp = [], ld_callbacks = 0, ld_applied = []\<rparr> of
        (True, l) \<Rightarrow> Some l | (False, _) \<Rightarrow> None)"

text \<open>\<open>WaitFor\<close>: one element per attempt, with whether the deadline has passed after it; the list is
  as long as the process lives.\<close>

fun WaitFor :: "wire_lib \<Rightarrow> (int \<Rightarrow> string) \<Rightarrow> (file_look \<times> file_look \<times> bool) list \<Rightarrow> loader option option" where
  "WaitFor wl fmt [] = None"
| "WaitFor wl fmt ((rd, st, late) # rest) =
     (case New_loader wl fmt rd st of
        Some l \<Rightarrow> Some (Some l)
      | None \<Rightarrow> if late then Some None else WaitFor wl fmt rest)"

definition OnApply :: "loader \<Rightarrow> loader" where
  "OnApply l = l\<lparr>ld_callbacks := Suc (ld_callbacks l)\<rparr>"

definition Get :: "loader \<Rightarrow> node_config option" where
  "Get l = ld_cur l"

text \<open>One tick of \<open>Watch\<close>.\<close>

definition watch_tick :: "wire_lib \<Rightarrow> (int \<Rightarrow> string) \<Rightarrow> file_look \<times> file_look \<times> file_look \<Rightarrow> loader \<Rightarrow> loader" where
  "watch_tick wl fmt looks l =
     (case looks of (at_check, at_read, at_stat) \<Rightarrow>
        case at_check of
          None \<Rightarrow> l
        | Some st \<Rightarrow> if stampOf fmt st = ld_stamp l then l else snd (reload wl fmt at_read at_stat l))"

section \<open>Certificate reloader\<close>

record cert_reloader =
  cr_cert :: "bytes option"
  cr_mtime :: int

text \<open>The looks are at the chain's modification time, then at chain and key when the pair is loaded.\<close>

definition cert_reload :: "(bytes \<Rightarrow> bytes \<Rightarrow> bool) \<Rightarrow> int option \<Rightarrow> bytes option \<times> bytes option \<Rightarrow> cert_reloader \<Rightarrow> bytes option \<times> cert_reloader" where
  "cert_reload pair_ok mt files r =
     (case mt of
        None \<Rightarrow> (None, r)
      | Some m \<Rightarrow>
          if cr_cert r \<noteq> None \<and> m = cr_mtime r then (cr_cert r, r)
          else (case files of
                  (Some chain, Some key) \<Rightarrow>
                    if pair_ok chain key then (Some chain, \<lparr>cr_cert = Some chain, cr_mtime = m\<rparr>) else (None, r)
                | _ \<Rightarrow> (None, r)))"

definition cert_get :: "(bytes \<Rightarrow> bytes \<Rightarrow> bool) \<Rightarrow> int option \<Rightarrow> bytes option \<times> bytes option \<Rightarrow> cert_reloader \<Rightarrow> bytes option \<times> cert_reloader" where
  "cert_get pair_ok mt files r =
     (case cert_reload pair_ok mt files r of
        (Some c, r') \<Rightarrow> (Some c, r')
      | (None, r') \<Rightarrow> (cr_cert r', r'))"

definition ReloadingServerConfig :: "(bytes \<Rightarrow> bytes \<Rightarrow> bool) \<Rightarrow> int option \<Rightarrow> bytes option \<times> bytes option \<Rightarrow> cert_reloader option" where
  "ReloadingServerConfig pair_ok mt files =
     (case cert_reload pair_ok mt files \<lparr>cr_cert = None, cr_mtime = 0\<rparr> of (Some _, r) \<Rightarrow> Some r | (None, _) \<Rightarrow> None)"

datatype server_cert = FromFiles bytes | SelfSigned "string list"

definition self_signed_names :: "string list \<Rightarrow> string list" where
  "self_signed_names names =
     (let dns = filter (\<lambda>n. n \<noteq> []) names in if length dns = 0 then [''localhost''] else dns)"

definition ServerConfig :: "(bytes \<Rightarrow> bytes \<Rightarrow> bool) \<Rightarrow> bool \<Rightarrow> bytes option option \<times> bytes option option \<Rightarrow> string list \<Rightarrow> server_cert option" where
  "ServerConfig pair_ok allow_self_signed files names =
     (case files of
        (Some chain, Some key) \<Rightarrow>
          (case (chain, key) of
             (Some c, Some k) \<Rightarrow> if pair_ok c k then Some (FromFiles c) else None
           | _ \<Rightarrow> None)
      | _ \<Rightarrow> if \<not> allow_self_signed then None else Some (SelfSigned (self_signed_names names)))"

section \<open>Lemmas\<close>

lemma itoa_loop_dec: "0 < n \<Longrightarrow> itoa_loop n b = dec_nat (nat n) @ b"
proof (induction n b rule: itoa_loop.induct)
  case (1 n b)
  show ?case
  proof (cases "n < 10")
    case True
    with 1(2) have "n div 10 = 0" "n mod 10 = n" "nat n < 10" by auto
    with True 1(2) show ?thesis by (simp add: itoa_loop.simps [of n] itoa_loop.simps [of 0] dec_nat.simps [of "nat n"])
  next
    case False
    then have "itoa_loop (n div 10) (char_of (48 + nat (n mod 10)) # b) = dec_nat (nat (n div 10)) @ char_of (48 + nat (n mod 10)) # b"
      using 1 by simp
    moreover have "nat (n div 10) = nat n div 10" "nat (n mod 10) = nat n mod 10" "\<not> nat n < 10"
      using False by (simp_all add: nat_div_distrib nat_mod_distrib)
    ultimately show ?thesis using False by (simp add: itoa_loop.simps [of n] dec_nat.simps [of "nat n"])
  qed
qed

lemma itoa_dec: "0 \<le> n \<Longrightarrow> itoa n = dec_nat (nat n)"
proof (cases "n = 0")
  case True
  have "(char_of (48 :: nat) :: char) = CHR ''0''" by code_simp
  with True show ?thesis by (simp add: itoa_def dec_nat.simps [of 0])
qed (simp add: itoa_def itoa_loop_dec)

lemma stampOf_inject:
  assumes "stampOf fmt (b, m) = stampOf fmt (b', m')" and "\<And>m. CHR ''/'' \<notin> set (fmt m)"
  shows "fmt m = fmt m' \<and> length b = length b'"
proof -
  have no: "CHR ''/'' \<notin> set (dec_nat n)" for n using dec_nat_digits [of "CHR ''/''" n] by auto
  from assms have "fmt m @ CHR ''/'' # dec_nat (length b) = fmt m' @ CHR ''/'' # dec_nat (length b')"
    by (simp add: stampOf_def itoa_dec)
  then show ?thesis using append_Cons_eq_iff [of "CHR ''/''" "fmt m" "dec_nat (length b)"] assms(2) no by simp
qed

section \<open>Properties\<close>

text \<open>
  The size in a change stamp is exact decimal notation, so two looks at a file have the same
  stamp only if they agree in formatted time and size; a tick that sees another stamp, on a file that
  is not replaced meanwhile and parses, makes its content the current configuration, stamps it, and
  calls every callback once with it; in all other cases the previous configuration stays in force.
\<close>

theorem watch_tick_correct:
  assumes "\<And>m. CHR ''/'' \<notin> set (fmt m)"
  shows "(stampOf fmt (b, m) = stampOf fmt (b', m') \<longrightarrow> fmt m = fmt m' \<and> length b = length b') \<and>
    watch_tick wl fmt (Some (b, m), Some (b, m), Some (b, m)) l =
      (case (stampOf fmt (b, m) = ld_stamp l, json_config_parse wl b) of
         (False, Some c) \<Rightarrow> l\<lparr>ld_cur := Some c, ld_stamp := stampOf fmt (b, m),
            ld_applied := ld_applied l @ map (\<lambda>i. (i, c)) [0..<ld_callbacks l]\<rparr>
       | _ \<Rightarrow> l) \<and>
    (ld_cur l \<noteq> None \<longrightarrow> ld_cur (watch_tick wl fmt looks l) \<noteq> None)"
  using stampOf_inject [of fmt b m b' m'] assms
  by (auto simp: watch_tick_def reload_def split: option.splits prod.splits bool.splits)

theorem watch_tick_correct_witness:
  "ld_cur (watch_tick demo_wire (\<lambda>_. ''t'') (Some ([], 1), Some ([], 1), Some ([], 1))
     \<lparr>ld_cur = None, ld_stamp = [], ld_callbacks = 1, ld_applied = []\<rparr>) = Some (zero_config\<lparr>nc_node_id := []\<rparr>)"
  using watch_tick_correct [of "\<lambda>_. ''t''" "[]" 1 "[]" 1 demo_wire "\<lparr>ld_cur = None, ld_stamp = [], ld_callbacks = 1, ld_applied = []\<rparr>"]
  by (simp add: stampOf_def demo_wire_def string_of_bytes_def)

text \<open>
  A replacement that falls between reading the file and taking its stamp is lost: the
  loader keeps the old content under the new stamp, and every later look at the new file finds
  nothing to do, until the file changes again.
\<close>

theorem swap_during_reload_lost:
  assumes "json_config_parse wl old = Some c" and "l' = snd (reload wl fmt (Some (old, m)) (Some (new, m')) l)"
  shows "ld_cur l' = Some c \<and> watch_tick wl fmt (Some (new, m'), rd, st) l' = l'"
  using assms by (simp add: reload_def watch_tick_def)

theorem swap_during_reload_lost_witness:
  "let l' = snd (reload demo_wire (\<lambda>_. ''t'') (Some ([], 1)) (Some ([66, 66], 2)) \<lparr>ld_cur = None, ld_stamp = [], ld_callbacks = 0, ld_applied = []\<rparr>)
   in watch_tick demo_wire (\<lambda>_. ''t'') (Some ([66, 66], 2), Some ([66, 66], 2), Some ([66, 66], 2)) l' = l'"
  unfolding Let_def
  by (rule conjunct2 [OF swap_during_reload_lost [OF _ refl, where old = "[]" and c = "zero_config\<lparr>nc_node_id := []\<rparr>"]])
    (simp add: demo_wire_def string_of_bytes_def)

text \<open>
  A TLS listener that started never loses its certificate: whatever later looks find
  (missing files, a key that does not match, a half-finished rotation), it serves the last pair
  that loaded; an unchanged chain is not read again, and a changed one that loads is served at once.
\<close>

theorem cert_reloader_keeps_serving:
  assumes "cr_cert r = Some old"
  shows "fst (cert_get pair_ok mt files r) =
      (case (mt, files) of
         (Some m, Some chain, Some key) \<Rightarrow> if m \<noteq> cr_mtime r \<and> pair_ok chain key then Some chain else Some old
       | _ \<Rightarrow> Some old) \<and>
    cr_cert (snd (cert_get pair_ok mt files r)) = fst (cert_get pair_ok mt files r)"
  using assms by (auto simp: cert_get_def cert_reload_def split: option.splits prod.splits)

theorem cert_reloader_keeps_serving_witness:
  "fst (cert_get (\<lambda>c k. c = k) (Some 2) (Some [1], Some [2]) \<lparr>cr_cert = Some [9], cr_mtime = 1\<rparr>) = Some [9]"
  using cert_reloader_keeps_serving [of "\<lparr>cr_cert = Some [9], cr_mtime = 1\<rparr>" "[9]" "\<lambda>c k. c = k" "Some 2" "(Some [1], Some [2])"]
  by simp

end
