(* ===== verification/Metrics_Registry.thy ===== *)
theory Metrics_Registry
  imports Go_Prelude "HOL-Library.AList"
begin

text \<open>
  The Prometheus registry (\<open>shared/metrics/metrics.go\<close>). Maps are association lists with one entry
  per key, atomic \<open>int64\<close> counters are integers wrapped to 64 bits, and \<open>float64\<close> seconds and bounds
  are rationals; how Go prints a float (\<open>strconv.FormatFloat\<close>, \<open>%f\<close>) is a parameter. The methods of
  \<open>*metric\<close> take and return the metric they mutate, and the registry functions the whole registry.
\<close>

section \<open>State\<close>

datatype metric_kind = Counter_kind | Gauge_kind | Histogram_kind

record series =
  se_labels :: string
  se_val :: int
  se_sum :: int
  se_count :: int
  se_bucket :: "int list"

record metric =
  me_name :: string
  me_help :: string
  me_k :: metric_kind
  me_bounds :: "rat list"
  me_by_label :: "(string \<times> series) list"

record registry =
  rg_reg :: "(string \<times> metric) list"
  rg_order :: "string list"

definition register :: "string \<Rightarrow> string \<Rightarrow> metric_kind \<Rightarrow> rat list \<Rightarrow> registry \<Rightarrow> metric \<times> registry" where
  "register name help k bounds g =
     (case map_of (rg_reg g) name of
        Some m \<Rightarrow> (m, g)
      | None \<Rightarrow>
          let m = \<lparr>me_name = name, me_help = help, me_k = k, me_bounds = bounds, me_by_label = []\<rparr>
          in (m, g\<lparr>rg_reg := AList.update name m (rg_reg g), rg_order := rg_order g @ [name]\<rparr>))"

definition Counter :: "string \<Rightarrow> string \<Rightarrow> registry \<Rightarrow> metric \<times> registry" where
  "Counter name help = register name help Counter_kind []"

definition Gauge :: "string \<Rightarrow> string \<Rightarrow> registry \<Rightarrow> metric \<times> registry" where
  "Gauge name help = register name help Gauge_kind []"

definition Histogram :: "string \<Rightarrow> string \<Rightarrow> rat list \<Rightarrow> registry \<Rightarrow> metric \<times> registry" where
  "Histogram name help bounds = register name help Histogram_kind bounds"

section \<open>Labels\<close>

definition replace_char :: "char \<Rightarrow> string \<Rightarrow> string \<Rightarrow> string" where
  "replace_char c new s = concat (map (\<lambda>x. if x = c then new else [x]) s)"

definition escape :: "string \<Rightarrow> string" where
  "escape s =
     (let s1 = replace_char (CHR 0x5C) [CHR 0x5C, CHR 0x5C] s;
          s2 = replace_char (CHR 0x22) [CHR 0x5C, CHR 0x22] s1
      in replace_char (CHR 0x0A) [CHR 0x5C, CHR ''n''] s2)"

fun label_pairs :: "string list \<Rightarrow> string list" where
  "label_pairs (k # v # rest) = (k @ ''='' @ [CHR 0x22] @ escape v @ [CHR 0x22]) # label_pairs rest"
| "label_pairs _ = []"

definition joinLabels :: "string list \<Rightarrow> string" where
  "joinLabels lbl = (if length lbl = 0 then [] else join_with '','' (sort (label_pairs lbl)))"

definition withLabel :: "string \<Rightarrow> string \<Rightarrow> string" where
  "withLabel base extra = (if base = [] then ''{'' @ extra @ ''}'' else ''{'' @ base @ '','' @ extra @ ''}'')"

section \<open>Recording\<close>

definition get_series :: "string list \<Rightarrow> metric \<Rightarrow> series \<times> metric" where
  "get_series lbl m =
     (let key = joinLabels lbl in
      case map_of (me_by_label m) key of
        Some s \<Rightarrow> (s, m)
      | None \<Rightarrow>
          let s = \<lparr>se_labels = key, se_val = 0, se_sum = 0, se_count = 0,
                   se_bucket = (if me_k m = Histogram_kind then replicate (length (me_bounds m)) 0 else [])\<rparr>
          in (s, m\<lparr>me_by_label := AList.update key s (me_by_label m)\<rparr>))"

definition put_series :: "string list \<Rightarrow> (series \<Rightarrow> series) \<Rightarrow> metric \<Rightarrow> metric" where
  "put_series lbl f m =
     (case get_series lbl m of (s, m1) \<Rightarrow>
        m1\<lparr>me_by_label := AList.update (joinLabels lbl) (f s) (me_by_label m1)\<rparr>)"

definition Add_metric :: "int \<Rightarrow> string list \<Rightarrow> metric \<Rightarrow> metric" where
  "Add_metric n lbl = put_series lbl (\<lambda>s. s\<lparr>se_val := wrap64 (se_val s + n)\<rparr>)"

definition Inc :: "string list \<Rightarrow> metric \<Rightarrow> metric" where
  "Inc lbl = put_series lbl (\<lambda>s. s\<lparr>se_val := wrap64 (se_val s + 1)\<rparr>)"

definition Set_metric :: "int \<Rightarrow> string list \<Rightarrow> metric \<Rightarrow> metric" where
  "Set_metric n lbl = put_series lbl (\<lambda>s. s\<lparr>se_val := n\<rparr>)"

text \<open>\<open>int64(x)\<close> of a float in range drops the fraction.\<close>

definition to_int64 :: "rat \<Rightarrow> int" where
  "to_int64 x = (if 0 \<le> x then \<lfloor>x\<rfloor> else \<lceil>x\<rceil>)"

definition Observe :: "rat \<Rightarrow> string list \<Rightarrow> metric \<Rightarrow> metric" where
  "Observe seconds lbl m =
     put_series lbl (\<lambda>s. s\<lparr>se_count := wrap64 (se_count s + 1),
        se_sum := wrap64 (se_sum s + to_int64 (seconds * 1000000)),
        se_bucket := map2 (\<lambda>b n. if seconds \<le> b then wrap64 (n + 1) else n) (me_bounds m) (se_bucket s)\<rparr>) m"

section \<open>Rendering\<close>

definition kind_text :: "metric_kind \<Rightarrow> string" where
  "kind_text k = (case k of Counter_kind \<Rightarrow> ''counter'' | Gauge_kind \<Rightarrow> ''gauge'' | Histogram_kind \<Rightarrow> ''histogram'')"

text \<open>The running sum of the bucket lines.\<close>

fun cumulate :: "int \<Rightarrow> int list \<Rightarrow> int list" where
  "cumulate cum [] = []"
| "cumulate cum (n # ns) = (let c = wrap64 (cum + n) in c # cumulate c ns)"

definition newline :: string where "newline = [CHR 0x0A]"

definition render_series :: "(rat \<Rightarrow> string) \<Rightarrow> (rat \<Rightarrow> string) \<Rightarrow> metric \<Rightarrow> string \<times> series \<Rightarrow> string" where
  "render_series fmt_g fmt_f m e =
     (let k = fst e; s = snd e; lb = (if k \<noteq> [] then ''{'' @ k @ ''}'' else []) in
      case me_k m of
        Histogram_kind \<Rightarrow>
          concat (map2 (\<lambda>b c. me_name m @ ''_bucket'' @ withLabel k (''le='' @ [CHR 0x22] @ fmt_g b @ [CHR 0x22]) @ '' '' @ dec_int c @ newline)
            (me_bounds m) (cumulate 0 (se_bucket s))) @
          me_name m @ ''_bucket'' @ withLabel k (''le='' @ [CHR 0x22] @ ''+Inf'' @ [CHR 0x22]) @ '' '' @ dec_int (se_count s) @ newline @
          me_name m @ ''_sum'' @ lb @ '' '' @ fmt_f (of_int (se_sum s) / 1000000) @ newline @
          me_name m @ ''_count'' @ lb @ '' '' @ dec_int (se_count s) @ newline
      | _ \<Rightarrow> me_name m @ lb @ '' '' @ dec_int (se_val s) @ newline)"

definition render_metric :: "(rat \<Rightarrow> string) \<Rightarrow> (rat \<Rightarrow> string) \<Rightarrow> metric \<Rightarrow> string" where
  "render_metric fmt_g fmt_f m =
     ''# HELP '' @ me_name m @ '' '' @ me_help m @ newline @ ''# TYPE '' @ me_name m @ '' '' @ kind_text (me_k m) @ newline @
     concat (map (render_series fmt_g fmt_f m) (sort_key fst (me_by_label m)))"

definition Render :: "(rat \<Rightarrow> string) \<Rightarrow> (rat \<Rightarrow> string) \<Rightarrow> registry \<Rightarrow> string" where
  "Render fmt_g fmt_f g =
     concat (map (\<lambda>n. case map_of (rg_reg g) n of Some m \<Rightarrow> render_metric fmt_g fmt_f m | None \<Rightarrow> []) (sort (rg_order g)))"

section \<open>Lemmas\<close>

text \<open>Escaping works character by character.\<close>

definition esc1 :: "char \<Rightarrow> string" where
  "esc1 c = (if c = CHR 0x5C then [CHR 0x5C, CHR 0x5C] else if c = CHR 0x22 then [CHR 0x5C, CHR 0x22]
     else if c = CHR 0x0A then [CHR 0x5C, CHR ''n''] else [c])"

lemma replace_char_simps [simp]:
  "replace_char c new [] = []" "replace_char c new (x # xs) = (if x = c then new else [x]) @ replace_char c new xs"
  "replace_char c new (xs @ ys) = replace_char c new xs @ replace_char c new ys"
  by (simp_all add: replace_char_def)

lemma escape_chars: "escape s = concat (map esc1 s)"
proof (induction s)
  case (Cons c s)
  then show ?case by (simp add: escape_def Let_def esc1_def)
qed (simp add: escape_def)

lemma escape_quote_cancel:
  "concat (map esc1 v) @ CHR 0x22 # r = concat (map esc1 w) @ CHR 0x22 # q \<Longrightarrow> v = w \<and> r = q"
proof (induction v arbitrary: w)
  case Nil
  then show ?case by (cases w) (auto simp: esc1_def split: if_splits)
next
  case (Cons c v)
  from Cons.prems obtain d w' where w: "w = d # w'"
    by (cases w) (auto simp: esc1_def split: if_splits)
  with Cons.prems have "c = d \<and> concat (map esc1 v) @ CHR 0x22 # r = concat (map esc1 w') @ CHR 0x22 # q"
    by (auto simp: esc1_def [of c] esc1_def [of d] split: if_splits)
  with Cons.IH w show ?case by blast
qed

fun pairs_of :: "string list \<Rightarrow> (string \<times> string) list" where
  "pairs_of (k # v # rest) = (k, v) # pairs_of rest"
| "pairs_of _ = []"

definition pair_text :: "string \<times> string \<Rightarrow> string" where
  "pair_text p = fst p @ ''='' @ [CHR 0x22] @ escape (snd p) @ [CHR 0x22]"

lemma label_pairs_eq: "label_pairs lbl = map pair_text (pairs_of lbl)"
  by (induction lbl rule: label_pairs.induct) (auto simp: pair_text_def)

lemma split_at_quote:
  assumes "k @ CHR 0x22 # x = k' @ CHR 0x22 # y" and "CHR 0x22 \<notin> set k" and "CHR 0x22 \<notin> set k'"
  shows "k = k' \<and> x = y"
  using assms by (induction k arbitrary: k') (case_tac [!] k', auto)

lemma pair_text_prefix_free:
  assumes "pair_text p @ r = pair_text q @ r'" and "CHR 0x22 \<notin> set (fst p)" and "CHR 0x22 \<notin> set (fst q)"
  shows "p = q \<and> r = r'"
proof -
  have "(fst p @ ''='') @ CHR 0x22 # (concat (map esc1 (snd p)) @ CHR 0x22 # r) =
      (fst q @ ''='') @ CHR 0x22 # (concat (map esc1 (snd q)) @ CHR 0x22 # r')"
    using assms(1) by (simp add: pair_text_def escape_chars)
  from split_at_quote [OF this] assms(2,3) have "fst p = fst q"
    "concat (map esc1 (snd p)) @ CHR 0x22 # r = concat (map esc1 (snd q)) @ CHR 0x22 # r'" by auto
  with escape_quote_cancel show ?thesis by (metis prod.expand)
qed

lemma sort_of_map: "sort (map f xs) = map f (sort_key f xs)"
  by (rule properties_for_sort) simp_all

lemma join_pairs_inject:
  assumes "join_with '','' (map pair_text ps) = join_with '','' (map pair_text qs)"
    and "\<And>p. p \<in> set ps \<union> set qs \<Longrightarrow> CHR 0x22 \<notin> set (fst p)"
  shows "ps = qs"
  using assms
proof (induction ps arbitrary: qs)
  case Nil
  then show ?case by (cases qs rule: remdups_adj.cases) (auto simp: pair_text_def)
next
  case (Cons p ps)
  have t: "join_with '','' (map pair_text (x # xs)) =
      pair_text x @ (if xs = [] then [] else '','' @ join_with '','' (map pair_text xs))" for x xs
    by (cases xs) simp_all
  have "join_with '','' (map pair_text (p # ps)) \<noteq> []" by (simp only: t) (simp add: pair_text_def)
  with Cons.prems(1) obtain q qs' where q: "qs = q # qs'" by (cases qs) simp_all
  from Cons.prems(1) [unfolded q t] have
    "p = q \<and> (if ps = [] then [] else '','' @ join_with '','' (map pair_text ps)) =
       (if qs' = [] then [] else '','' @ join_with '','' (map pair_text qs'))"
    by (rule pair_text_prefix_free) (use Cons.prems(2) q in auto)
  then have "p = q" "ps = [] \<longleftrightarrow> qs' = []" "ps \<noteq> [] \<Longrightarrow> join_with '','' (map pair_text ps) = join_with '','' (map pair_text qs')"
    by (auto split: if_splits)
  with Cons.IH [of qs'] Cons.prems(2) q show ?case by (cases "ps = []") auto
qed

lemma map_of_put_series:
  "map_of (me_by_label (put_series lbl f m)) k =
     (if k = joinLabels lbl then Some (f (fst (get_series lbl m))) else map_of (me_by_label m) k)"
  by (auto simp: put_series_def get_series_def Let_def update_conv split: option.splits)

lemma put_series_fields [simp]:
  "me_k (put_series lbl f m) = me_k m" "me_bounds (put_series lbl f m) = me_bounds m" "me_name (put_series lbl f m) = me_name m"
  by (auto simp: put_series_def get_series_def Let_def split: option.splits)

definition metric_val :: "metric \<Rightarrow> string \<Rightarrow> int" where
  "metric_val m k = (case map_of (me_by_label m) k of None \<Rightarrow> 0 | Some s \<Rightarrow> se_val s)"

lemma wrap64_add_left: "wrap64 (wrap64 a + b) = wrap64 (a + b)"
  by (simp add: wrap64_def mod_simps algebra_simps)

lemma metric_val_Add:
  "metric_val (Add_metric n lbl m) k = (if k = joinLabels lbl then wrap64 (metric_val m k + n) else metric_val m k)"
  by (auto simp: metric_val_def Add_metric_def map_of_put_series get_series_def Let_def split: option.splits)

lemma metric_val_fold:
  "wrap64 (metric_val (fold (\<lambda>x. Add_metric (fst x) (snd x)) ops m) k) =
     wrap64 (metric_val m k + sum_list (map fst (filter (\<lambda>x. joinLabels (snd x) = k) ops)))"
proof (induction ops arbitrary: m)
  case (Cons x ops)
  then show ?case by (auto simp: metric_val_Add wrap64_add_left algebra_simps)
qed simp

text \<open>The invariant of a metric: a histogram has one counter per bound, and only a histogram has bounds.\<close>

definition metric_ok :: "metric \<Rightarrow> bool" where
  "metric_ok m \<longleftrightarrow> (\<forall>k s. map_of (me_by_label m) k = Some s \<longrightarrow> length (se_bucket s) = length (me_bounds m)) \<and>
     (me_k m \<noteq> Histogram_kind \<longrightarrow> me_bounds m = [])"

lemma metric_ok_put_series:
  assumes "metric_ok m" and "\<And>s. length (se_bucket s) = length (me_bounds m) \<Longrightarrow> length (se_bucket (f s)) = length (me_bounds m)"
  shows "metric_ok (put_series lbl f m)"
proof -
  have "length (se_bucket (fst (get_series lbl m))) = length (me_bounds m)"
    using assms(1) by (auto simp: metric_ok_def get_series_def Let_def split: option.splits)
  with assms show ?thesis by (auto simp: metric_ok_def map_of_put_series)
qed

lemma metric_ok_ops [wf_intros]:
  assumes "metric_ok m"
  shows "metric_ok (Add_metric n lbl m)" and "metric_ok (Inc lbl m)" and "metric_ok (Set_metric n lbl m)"
    and "metric_ok (Observe x lbl m)"
  using assms unfolding Add_metric_def Inc_def Set_metric_def Observe_def
  by (auto intro: metric_ok_put_series)

lemma map_of_Observe:
  "map_of (me_by_label (Observe x lbl m)) (joinLabels lbl) =
     Some (let s = fst (get_series lbl m) in s\<lparr>se_count := wrap64 (se_count s + 1),
       se_sum := wrap64 (se_sum s + to_int64 (x * 1000000)),
       se_bucket := map2 (\<lambda>b n. if x \<le> b then wrap64 (n + 1) else n) (me_bounds m) (se_bucket s)\<rparr>)"
  by (simp add: Observe_def map_of_put_series Let_def)

lemma Observe_fields [simp]:
  "me_k (Observe x lbl m) = me_k m" "me_bounds (Observe x lbl m) = me_bounds m"
  by (simp_all add: Observe_def)

definition fresh_histogram :: "rat list \<Rightarrow> metric" where
  "fresh_histogram bs = fst (Histogram [] [] bs \<lparr>rg_reg = [], rg_order = []\<rparr>)"

lemma fresh_histogram_eq:
  "fresh_histogram bs = \<lparr>me_name = [], me_help = [], me_k = Histogram_kind, me_bounds = bs, me_by_label = []\<rparr>"
  by (simp add: fresh_histogram_def Histogram_def register_def Let_def)

definition at_most :: "rat list \<Rightarrow> rat \<Rightarrow> int" where
  "at_most xs b = int (length (filter (\<lambda>x. x \<le> b) xs))"

lemma fold_Observe:
  assumes "int (length xs) < 2 ^ 63" and "xs \<noteq> []"
  shows "\<exists>s. map_of (me_by_label (fold (\<lambda>x. Observe x lbl) xs (fresh_histogram bs))) (joinLabels lbl) = Some s \<and>
    se_count s = int (length xs) \<and> se_bucket s = map (at_most xs) bs"
  using assms
proof (induction xs rule: rev_induct)
  case (snoc x xs)
  let ?m = "fold (\<lambda>x. Observe x lbl) xs (fresh_histogram bs)"
  have b: "me_bounds ?m = bs \<and> me_k ?m = Histogram_kind"
    by (induction xs rule: rev_induct) (simp_all add: fresh_histogram_eq)
  have w: "wrap64 (int (length xs) + 1) = int (length xs) + 1" using snoc.prems(1) by (intro wrap64_id) simp_all
  have a: "wrap64 (at_most xs c + 1) = at_most xs c + 1" for c
  proof -
    have "at_most xs c \<le> int (length xs)" "0 \<le> at_most xs c" by (simp_all add: at_most_def)
    then show ?thesis using snoc.prems(1) by (intro wrap64_id) simp_all
  qed
  have s: "se_count (fst (get_series lbl ?m)) = int (length xs) \<and> se_bucket (fst (get_series lbl ?m)) = map (at_most xs) bs"
  proof (cases "xs = []")
    case True
    then show ?thesis
      by (auto simp: get_series_def Let_def fresh_histogram_eq at_most_def intro!: nth_equalityI)
  next
    case False
    with snoc show ?thesis by (auto simp: get_series_def Let_def)
  qed
  show ?case
    using b s w a by (simp add: map_of_Observe Let_def) (auto simp: at_most_def intro!: nth_equalityI)
qed simp

lemma cumulate_nth:
  assumes "\<And>i. i < length ns \<Longrightarrow> 0 \<le> ns ! i" and "0 \<le> c" and "c + sum_list ns < 2 ^ 63" and "i < length ns"
  shows "cumulate c ns ! i = c + sum_list (take (Suc i) ns)"
  using assms
proof (induction ns arbitrary: c i)
  case (Cons n ns)
  have nn: "0 \<le> n" using Cons.prems(1) [of 0] by simp
  have pos: "0 \<le> ns ! j" if "j < length ns" for j using Cons.prems(1) [of "Suc j"] that by simp
  then have "0 \<le> sum_list ns" by (intro sum_list_nonneg) (auto simp: in_set_conv_nth)
  then have w: "wrap64 (c + n) = c + n" using Cons.prems(2,3) nn by (intro wrap64_id) simp_all
  show ?case
  proof (cases i)
    case 0
    then show ?thesis by (simp add: Let_def w)
  next
    case (Suc j)
    then show ?thesis using Cons.IH [of "c + n" j] pos nn Cons.prems(2,3,4) by (simp add: Let_def w)
  qed
qed simp

section \<open>Properties\<close>

text \<open>
  Labels identify a series up to their order: two non-empty label lists address the same
  series exactly when they hold the same pairs of name and value, whatever characters the values
  contain; and the value of a series is the sum (in 64 bits) of what was added under its labels.
\<close>

theorem labels_identify_series:
  assumes "l1 \<noteq> []" and "l2 \<noteq> []"
    and "\<And>p. p \<in> set (pairs_of l1) \<union> set (pairs_of l2) \<Longrightarrow> CHR 0x22 \<notin> set (fst p)"
  shows "(joinLabels l1 = joinLabels l2 \<longleftrightarrow> mset (pairs_of l1) = mset (pairs_of l2)) \<and>
    wrap64 (metric_val (fold (\<lambda>x. Add_metric (fst x) (snd x)) ops m) k) =
      wrap64 (metric_val m k + sum_list (map fst (filter (\<lambda>x. joinLabels (snd x) = k) ops)))"
proof -
  have srt: "joinLabels l = join_with '','' (sort (map pair_text (pairs_of l)))" if "l \<noteq> []" for l
    using that by (simp add: joinLabels_def label_pairs_eq)
  have "joinLabels l1 = joinLabels l2" if "mset (pairs_of l1) = mset (pairs_of l2)"
  proof -
    from that have "mset (map pair_text (pairs_of l1)) = mset (map pair_text (pairs_of l2))" by simp
    then have "sort (map pair_text (pairs_of l1)) = sort (map pair_text (pairs_of l2))"
      by (metis mset_sort properties_for_sort sorted_sort)
    with srt assms(1,2) show ?thesis by simp
  qed
  moreover have "mset (pairs_of l1) = mset (pairs_of l2)" if "joinLabels l1 = joinLabels l2"
  proof -
    have "sort_key pair_text (pairs_of l1) = sort_key pair_text (pairs_of l2)"
      by (rule join_pairs_inject) (use that srt assms in \<open>simp_all add: sort_of_map\<close>)
    then show ?thesis by (metis mset_sort)
  qed
  ultimately show ?thesis using metric_val_fold by blast
qed

theorem labels_identify_series_witness:
  "joinLabels [''a'', ''x'', ''b'', ''y''] = joinLabels [''b'', ''y'', ''a'', ''x''] \<and>
   joinLabels [''a'', ''x''] \<noteq> joinLabels [''a'', ''z'']"
proof -
  have "joinLabels [''a'', ''x'', ''b'', ''y''] = joinLabels [''b'', ''y'', ''a'', ''x'']"
    by (rule labels_identify_series [THEN conjunct1, THEN iffD2]) auto
  moreover have "joinLabels [''a'', ''x''] = joinLabels [''a'', ''z''] \<longleftrightarrow>
      mset (pairs_of [''a'', ''x'']) = mset (pairs_of [''a'', ''z''])"
    by (rule labels_identify_series [THEN conjunct1]) auto
  ultimately show ?thesis by simp
qed

text \<open>
  Histogram buckets are cumulated twice: recording already counts an observation in every
  bucket whose bound it does not exceed, and rendering sums the buckets again, so the line of a
  bound carries the sum over all bounds up to it of the observations at most that bound, while
  the count line carries the number of observations.
\<close>

theorem histogram_counted_twice:
  assumes "int (length xs) * int (length bs) < 2 ^ 63" and "xs \<noteq> []" and "i < length bs"
  shows "\<exists>s. map_of (me_by_label (fold (\<lambda>x. Observe x lbl) xs (fresh_histogram bs))) (joinLabels lbl) = Some s \<and>
    se_count s = int (length xs) \<and>
    cumulate 0 (se_bucket s) ! i = (\<Sum>b\<leftarrow>take (Suc i) bs. at_most xs b)"
proof -
  have n1: "1 \<le> int (length bs)" using assms(3) by simp
  have "int (length xs) \<le> int (length xs) * int (length bs)" using mult_left_mono [OF n1, of "int (length xs)"] by simp
  then have "int (length xs) < 2 ^ 63" using assms(1) by linarith
  from fold_Observe [OF this assms(2), of lbl bs] obtain s where
    s: "map_of (me_by_label (fold (\<lambda>x. Observe x lbl) xs (fresh_histogram bs))) (joinLabels lbl) = Some s"
    "se_count s = int (length xs)" "se_bucket s = map (at_most xs) bs" by blast
  have "sum_list (map (at_most xs) bs) \<le> int (length xs) * int (length bs)"
  proof -
    have "at_most xs b \<le> int (length xs)" for b by (simp add: at_most_def)
    then show ?thesis using sum_list_mono [of bs "at_most xs" "\<lambda>_. int (length xs)"] by (simp add: sum_list_triv mult.commute)
  qed
  then have "cumulate 0 (se_bucket s) ! i = 0 + sum_list (take (Suc i) (map (at_most xs) bs))"
    unfolding s(3) using assms(1,3) by (intro cumulate_nth) (simp_all add: at_most_def)
  with s show ?thesis by (auto simp: take_map)
qed

theorem histogram_counted_twice_witness:
  "\<exists>s. map_of (me_by_label (fold (\<lambda>x. Observe x []) [0] (fresh_histogram [1, 2]))) (joinLabels []) = Some s \<and>
     se_count s = 1 \<and> cumulate 0 (se_bucket s) ! 1 = 2"
  using histogram_counted_twice [of "[0]" "[1, 2]" 1 "[]"] by (simp add: at_most_def)

end
