(* ===== verification/Panel_Store.thy ===== *)
theory Panel_Store
  imports Go_Prelude
begin

text \<open>
  The database of the panel as its code uses it (\<open>panel/internal/store/store.go\<close>): typed statements over a set
  of tables, run one by one or in a transaction. The tables are a type parameter, so that every
  component states its own. PostgreSQL is a parameter of the model: \<open>db_fail\<close> says which statements, begins
  and commits fail (a lost connection, a timeout, a refused argument), \<open>db_uuid\<close> gives the value of
  \<open>gen_random_uuid()\<close> for a statement, \<open>db_now\<close> that of \<open>now()\<close>, and \<open>db_serial\<close> counts a sequence, which
  a rollback does not turn back. A failed statement changes nothing, a transaction that is not
  committed leaves the tables as they were when it began.

  Since every statement may fail, the states after a crash are among the states after failures. The
  predicate \<open>preserves\<close> with its rules is the proof method of the panel theories: an invariant of the
  tables is shown statement by statement and carried through the code by its structure.
\<close>

named_theorems preserves_rules \<open>rules that carry an invariant of the tables through the code\<close>

section \<open>Statements\<close>

text \<open>Errors: \<open>APIError\<close> has the status and the code of the answer.\<close>

datatype go_error = DBFailure | ErrNotFound | ErrConflict | APIError int string | PlainError string

record 't db =
  db_tables :: 't
  db_ops :: nat
  db_fail :: "nat \<Rightarrow> bool"
  db_uuid :: "nat \<Rightarrow> string"
  db_now :: int
  db_serial :: int

type_synonym ('t, 'r) sql = "'t db \<Rightarrow> (go_error + 'r) \<times> 't db"

definition db_tick :: "'t db \<Rightarrow> 't db" where
  "db_tick d = d\<lparr>db_ops := Suc (db_ops d)\<rparr>"

text \<open>
  One statement: it sees the time and a fresh id and gives a result and the new tables, or the error of a violated
  constraint.
\<close>

definition stmt :: "(int \<Rightarrow> string \<Rightarrow> 't \<Rightarrow> go_error + ('r \<times> 't)) \<Rightarrow> ('t, 'r) sql" where
  "stmt f d =
     (if db_fail d (db_ops d) then (Inl DBFailure, db_tick d)
      else case f (db_now d) (db_uuid d (db_ops d)) (db_tables d) of
        Inl e \<Rightarrow> (Inl e, db_tick d)
      | Inr (r, t) \<Rightarrow> (Inr r, (db_tick d)\<lparr>db_tables := t\<rparr>))"

definition returnE :: "'r \<Rightarrow> ('t, 'r) sql" where
  "returnE r d = (Inr r, d)"

definition throwE :: "go_error \<Rightarrow> ('t, 'r) sql" where
  "throwE e d = (Inl e, d)"

text \<open>\<open>if err != nil \<open>{\<close> return err \<open>}\<close>\<close>, and \<open>_, _ =\<close> before a statement.\<close>

definition tryE :: "('t, 'r) sql \<Rightarrow> ('r \<Rightarrow> ('t, 's) sql) \<Rightarrow> ('t, 's) sql" where
  "tryE m f d = (case m d of (Inl e, d1) \<Rightarrow> (Inl e, d1) | (Inr r, d1) \<Rightarrow> f r d1)"

definition attempt :: "('t, 'r) sql \<Rightarrow> (go_error + 'r \<Rightarrow> ('t, 's) sql) \<Rightarrow> ('t, 's) sql" where
  "attempt m f d = (case m d of (r, d1) \<Rightarrow> f r d1)"

definition ignoring :: "('t, 'r) sql \<Rightarrow> ('t, 's) sql \<Rightarrow> ('t, 's) sql" where
  "ignoring m k = attempt m (\<lambda>_. k)"

text \<open>\<open>Begin\<close>, the body, \<open>Commit\<close>; the deferred \<open>Rollback\<close> undoes what was not committed.\<close>

definition transaction :: "('t, 'r) sql \<Rightarrow> ('t, 'r) sql" where
  "transaction m d =
     (if db_fail d (db_ops d) then (Inl DBFailure, db_tick d)
      else case m (db_tick d) of
        (Inl e, d1) \<Rightarrow> (Inl e, d1\<lparr>db_tables := db_tables d\<rparr>)
      | (Inr r, d1) \<Rightarrow>
          if db_fail d1 (db_ops d1) then (Inl DBFailure, (db_tick d1)\<lparr>db_tables := db_tables d\<rparr>)
          else (Inr r, db_tick d1))"

text \<open>A default value of a \<open>bigserial\<close> column.\<close>

definition next_serial :: "('t, int) sql" where
  "next_serial d = (Inr (db_serial d + 1), d\<lparr>db_serial := db_serial d + 1\<rparr>)"

text \<open>Code over a part of the tables, run on all of them.\<close>

definition part_db :: "('t \<Rightarrow> 'u) \<Rightarrow> 't db \<Rightarrow> 'u db" where
  "part_db get d = \<lparr>db_tables = get (db_tables d), db_ops = db_ops d, db_fail = db_fail d, db_uuid = db_uuid d, db_now = db_now d, db_serial = db_serial d\<rparr>"

definition on_part :: "('t \<Rightarrow> 'u) \<Rightarrow> ('u \<Rightarrow> 't \<Rightarrow> 't) \<Rightarrow> ('u, 'r) sql \<Rightarrow> ('t, 'r) sql" where
  "on_part get put m d = (case m (part_db get d) of (r, e) \<Rightarrow> (r, part_db (\<lambda>u. put u (db_tables d)) e))"

section \<open>The typed helpers\<close>

definition Many :: "('t \<Rightarrow> 'r list) \<Rightarrow> ('t, 'r list) sql" where
  "Many q = stmt (\<lambda>_ _ t. Inr (q t, t))"

definition One :: "('t \<Rightarrow> 'r list) \<Rightarrow> ('t, 'r) sql" where
  "One q = stmt (\<lambda>_ _ t. case q t of [] \<Rightarrow> Inl ErrNotFound | r # _ \<Rightarrow> Inr (r, t))"

definition ExecN :: "(int \<Rightarrow> string \<Rightarrow> 't \<Rightarrow> go_error + (nat \<times> 't)) \<Rightarrow> ('t, nat) sql" where
  "ExecN f = stmt f"

definition Exec :: "(int \<Rightarrow> string \<Rightarrow> 't \<Rightarrow> go_error + 't) \<Rightarrow> ('t, unit) sql" where
  "Exec f = stmt (\<lambda>now u t. case f now u t of Inl e \<Rightarrow> Inl e | Inr t' \<Rightarrow> Inr ((), t'))"

text \<open>\<open>UPDATE\<close> of the rows that satisfy a condition.\<close>

definition update_rows :: "('r \<Rightarrow> bool) \<Rightarrow> ('r \<Rightarrow> 'r) \<Rightarrow> 'r list \<Rightarrow> 'r list" where
  "update_rows P f rows = map (\<lambda>r. if P r then f r else r) rows"

definition count_rows :: "('r \<Rightarrow> bool) \<Rightarrow> 'r list \<Rightarrow> nat" where
  "count_rows P rows = length (filter P rows)"

text \<open>The status an error is answered with (\<open>Server.wrap\<close>).\<close>

fun error_status :: "go_error \<Rightarrow> int" where
  "error_status (APIError s c) = (if s = 0 then 500 else s)"
| "error_status ErrNotFound = 404"
| "error_status ErrConflict = 409"
| "error_status _ = 500"

section \<open>Migrations\<close>

text \<open>
  The schema under migration is a type parameter; \<open>mg_run\<close> runs the text of one file on it and gives
  \<^term>\<open>None\<close> when a statement fails.
\<close>

record 's schema_db =
  mg_table :: bool                \<comment> \<open>whether schema_migrations exists\<close>
  mg_applied :: "string list"
  mg_schema :: 's

fun migrate_files :: "(string \<Rightarrow> 's \<Rightarrow> 's option) \<Rightarrow> string list \<Rightarrow> ('s schema_db, unit) sql" where
  "migrate_files run [] d = (Inr (), d)"
| "migrate_files run (n # ns) d =
     tryE (Many (\<lambda>t. filter (\<lambda>x. x = n) (mg_applied t))) (\<lambda>found.
       if found \<noteq> [] then migrate_files run ns
       else tryE (transaction
              (tryE (Exec (\<lambda>_ _ t. case run n (mg_schema t) of None \<Rightarrow> Inl DBFailure | Some s \<Rightarrow> Inr (t\<lparr>mg_schema := s\<rparr>)))
                (\<lambda>_. Exec (\<lambda>_ _ t. Inr (t\<lparr>mg_applied := mg_applied t @ [n]\<rparr>)))))
            (\<lambda>_. migrate_files run ns)) d"

definition Migrate :: "(string \<Rightarrow> 's \<Rightarrow> 's option) \<Rightarrow> string list \<Rightarrow> ('s schema_db, unit) sql" where
  "Migrate run files =
     tryE (Exec (\<lambda>_ _ t. Inr (t\<lparr>mg_table := True\<rparr>))) (\<lambda>_. migrate_files run (sort files))"

section \<open>Invariants of the tables\<close>

definition preserves :: "('t \<Rightarrow> bool) \<Rightarrow> ('t, 'r) sql \<Rightarrow> bool" where
  "preserves I m \<longleftrightarrow> (\<forall>d. I (db_tables d) \<longrightarrow> I (db_tables (snd (m d))))"

lemma preservesD: "preserves I m \<Longrightarrow> I (db_tables d) \<Longrightarrow> I (db_tables (snd (m d)))"
  by (simp add: preserves_def)

lemma db_tables_tick [simp]: "db_tables (db_tick d) = db_tables d"
  by (simp add: db_tick_def)

lemma preserves_stmt:
  assumes "\<And>now u t r t'. I t \<Longrightarrow> f now u t = Inr (r, t') \<Longrightarrow> I t'"
  shows "preserves I (stmt f)"
  unfolding preserves_def
proof (intro allI impI)
  fix d :: "_ db" assume "I (db_tables d)"
  with assms show "I (db_tables (snd (stmt f d)))"
    by (cases "f (db_now d) (db_uuid d (db_ops d)) (db_tables d)") (auto simp: stmt_def split: prod.splits)
qed

lemma preserves_returnE [preserves_rules]: "preserves I (returnE r)"
  by (simp add: preserves_def returnE_def)

lemma preserves_throwE [preserves_rules]: "preserves I (throwE e)"
  by (simp add: preserves_def throwE_def)

lemma preserves_tryE [preserves_rules]:
  assumes "preserves I m" and "\<And>r. preserves I (f r)"
  shows "preserves I (tryE m f)"
  unfolding preserves_def
proof (intro allI impI)
  fix d :: "_ db" assume "I (db_tables d)"
  then have "I (db_tables (snd (m d)))" by (rule preservesD [OF assms(1)])
  with assms(2) show "I (db_tables (snd (tryE m f d)))"
    by (cases "m d"; cases "fst (m d)") (auto simp: tryE_def preserves_def)
qed

lemma preserves_attempt [preserves_rules]:
  assumes "preserves I m" and "\<And>r. preserves I (f r)"
  shows "preserves I (attempt m f)"
  unfolding preserves_def
proof (intro allI impI)
  fix d :: "_ db" assume "I (db_tables d)"
  then have "I (db_tables (snd (m d)))" by (rule preservesD [OF assms(1)])
  with assms(2) show "I (db_tables (snd (attempt m f d)))"
    by (cases "m d") (auto simp: attempt_def preserves_def)
qed

lemma preserves_ignoring [preserves_rules]: "preserves I m \<Longrightarrow> preserves I k \<Longrightarrow> preserves I (ignoring m k)"
  by (simp add: ignoring_def preserves_attempt)

lemma preserves_transaction [preserves_rules]:
  assumes "preserves I m"
  shows "preserves I (transaction m)"
  unfolding preserves_def
proof (intro allI impI)
  fix d :: "_ db" assume "I (db_tables d)"
  then have "I (db_tables (snd (m (db_tick d))))" using preservesD [OF assms, of "db_tick d"] by simp
  with \<open>I (db_tables d)\<close> show "I (db_tables (snd (transaction m d)))"
    by (cases "m (db_tick d)"; cases "fst (m (db_tick d))") (auto simp: transaction_def)
qed

lemma preserves_next_serial [preserves_rules]: "preserves I next_serial"
  by (simp add: preserves_def next_serial_def)

lemma preserves_Many [preserves_rules]: "preserves I (Many q)"
  unfolding Many_def by (rule preserves_stmt) simp

lemma preserves_One [preserves_rules]: "preserves I (One q)"
  unfolding One_def by (rule preserves_stmt) (auto split: list.splits)

lemma preserves_Exec:
  assumes "\<And>now u t t'. I t \<Longrightarrow> f now u t = Inr t' \<Longrightarrow> I t'"
  shows "preserves I (Exec f)"
  unfolding Exec_def by (rule preserves_stmt) (use assms in \<open>auto split: sum.splits\<close>)

lemma preserves_ExecN:
  assumes "\<And>now u t n t'. I t \<Longrightarrow> f now u t = Inr (n, t') \<Longrightarrow> I t'"
  shows "preserves I (ExecN f)"
  unfolding ExecN_def by (rule preserves_stmt) (use assms in blast)

lemma preserves_if [preserves_rules]: "(b \<Longrightarrow> preserves I m) \<Longrightarrow> (\<not> b \<Longrightarrow> preserves I k) \<Longrightarrow> preserves I (if b then m else k)"
  by simp

lemma preserves_option [preserves_rules]:
  "(x = None \<Longrightarrow> preserves I m) \<Longrightarrow> (\<And>y. x = Some y \<Longrightarrow> preserves I (f y)) \<Longrightarrow> preserves I (case x of None \<Rightarrow> m | Some y \<Rightarrow> f y)"
  by (cases x) simp_all

lemma preserves_sum [preserves_rules]:
  "(\<And>e. x = Inl e \<Longrightarrow> preserves I (f e)) \<Longrightarrow> (\<And>y. x = Inr y \<Longrightarrow> preserves I (g y)) \<Longrightarrow> preserves I (case x of Inl e \<Rightarrow> f e | Inr y \<Rightarrow> g y)"
  by (cases x) simp_all

lemma preserves_prod [preserves_rules]: "(\<And>a b. x = (a, b) \<Longrightarrow> preserves I (f a b)) \<Longrightarrow> preserves I (case x of (a, b) \<Rightarrow> f a b)"
  by (cases x) simp

text \<open>What no statement changes: which statements fail, the ids to come, and the time.\<close>

named_theorems steady_rules \<open>rules that show the parameters of the database unchanged\<close>

definition steady :: "('t, 'r) sql \<Rightarrow> bool" where
  "steady m \<longleftrightarrow> (\<forall>d. db_fail (snd (m d)) = db_fail d \<and> db_uuid (snd (m d)) = db_uuid d \<and> db_now (snd (m d)) = db_now d)"

lemma steady_stmt [steady_rules]: "steady (stmt f)"
  by (auto simp: steady_def stmt_def db_tick_def split: sum.splits prod.splits)

lemma steady_typed [steady_rules]: "steady (Many q)" "steady (One q')" "steady (Exec g)" "steady (ExecN h)"
  by (simp_all add: Many_def One_def Exec_def ExecN_def steady_stmt)

lemma steady_basic [steady_rules]: "steady (returnE r)" "steady (throwE e)" "steady next_serial"
  by (simp_all add: steady_def returnE_def throwE_def next_serial_def)

lemma steady_tryE [steady_rules]: "steady m \<Longrightarrow> (\<And>r. steady (f r)) \<Longrightarrow> steady (tryE m f)"
  by (auto simp: steady_def tryE_def split: prod.splits sum.splits; metis snd_conv)

lemma steady_attempt [steady_rules]: "steady m \<Longrightarrow> (\<And>r. steady (f r)) \<Longrightarrow> steady (attempt m f)"
  by (auto simp: steady_def attempt_def split: prod.splits; metis snd_conv)

lemma steady_ignoring [steady_rules]: "steady m \<Longrightarrow> steady k \<Longrightarrow> steady (ignoring m k)"
  by (simp add: ignoring_def steady_attempt)

lemma steady_transaction [steady_rules]: "steady m \<Longrightarrow> steady (transaction m)"
  by (auto simp: steady_def transaction_def db_tick_def split: prod.splits sum.splits; metis snd_conv db.select_convs db.update_convs db.surjective)

lemma steady_cases [steady_rules]:
  "(b \<Longrightarrow> steady m) \<Longrightarrow> (\<not> b \<Longrightarrow> steady k) \<Longrightarrow> steady (if b then m else k)"
  "steady m \<Longrightarrow> (\<And>y. steady (f y)) \<Longrightarrow> steady (case x of None \<Rightarrow> m | Some y \<Rightarrow> f y)"
  "(\<And>e. steady (g e)) \<Longrightarrow> (\<And>y. steady (h y)) \<Longrightarrow> steady (case z of Inl e \<Rightarrow> g e | Inr y \<Rightarrow> h y)"
  "(\<And>a b. steady (l a b)) \<Longrightarrow> steady (case w of (a, b) \<Rightarrow> l a b)"
  by (auto split: option.splits sum.splits prod.splits)

lemma part_db_simps [simp]:
  "db_tables (part_db get d) = get (db_tables d)" "db_ops (part_db get d) = db_ops d" "db_fail (part_db get d) = db_fail d"
  "db_uuid (part_db get d) = db_uuid d" "db_now (part_db get d) = db_now d" "db_serial (part_db get d) = db_serial d"
  by (simp_all add: part_db_def)

lemma preserves_on_part:
  assumes "\<And>t. I t \<Longrightarrow> preserves (\<lambda>u. I (put u t)) m" and "\<And>t. put (get t) t = t"
  shows "preserves I (on_part get put m)"
  unfolding preserves_def
proof (intro allI impI)
  fix d :: "_ db" assume "I (db_tables d)"
  then show "I (db_tables (snd (on_part get put m d)))"
    using preservesD [OF assms(1) [of "db_tables d"], of "part_db get d"] assms(2) by (simp add: on_part_def case_prod_beta)
qed

lemma steady_on_part [steady_rules]: "steady m \<Longrightarrow> steady (on_part get put m)"
  by (auto simp: steady_def on_part_def case_prod_beta)

lemma on_part_Inr:
  "on_part get put m d = (r, d') \<longleftrightarrow> (\<exists>e. m (part_db get d) = (r, e) \<and> d' = part_db (\<lambda>u. put u (db_tables d)) e)"
  by (auto simp: on_part_def split: prod.splits)

text \<open>A database on which nothing fails.\<close>

definition healthy :: "'t db \<Rightarrow> bool" where
  "healthy d \<longleftrightarrow> (\<forall>n. \<not> db_fail d n)"

lemma healthy_tick [simp]: "healthy (db_tick d) = healthy d"
  by (simp add: healthy_def db_tick_def)

lemma healthy_part [simp]: "healthy (part_db get d) = healthy d"
  by (simp add: healthy_def)

lemma healthy_step: "steady m \<Longrightarrow> healthy d \<Longrightarrow> m d = (r, d') \<Longrightarrow> healthy d'"
  by (metis healthy_def steady_def snd_conv)

lemma Many_healthy: "healthy d \<Longrightarrow> \<exists>d'. Many q d = (Inr (q (db_tables d)), d') \<and> db_tables d' = db_tables d \<and> healthy d'"
  by (simp add: healthy_def Many_def stmt_def db_tick_def)

section \<open>Outcomes\<close>

lemma stmt_ok:
  "\<not> db_fail d (db_ops d) \<Longrightarrow> f (db_now d) (db_uuid d (db_ops d)) (db_tables d) = Inr (r, t) \<Longrightarrow>
     stmt f d = (Inr r, (db_tick d)\<lparr>db_tables := t\<rparr>)"
  by (simp add: stmt_def)

lemma stmt_Inr:
  assumes "stmt f d = (Inr r, d')"
  shows "\<exists>t. f (db_now d) (db_uuid d (db_ops d)) (db_tables d) = Inr (r, t) \<and> db_tables d' = t \<and> db_now d' = db_now d"
  using assms by (auto simp: stmt_def db_tick_def split: if_splits sum.splits prod.splits)

lemma stmt_Inl: "stmt f d = (Inl e, d') \<Longrightarrow> db_tables d' = db_tables d"
  by (auto simp: stmt_def split: if_splits sum.splits prod.splits)

lemma tryE_Inr: "tryE m f d = (Inr r, d') \<longleftrightarrow> (\<exists>x d1. m d = (Inr x, d1) \<and> f x d1 = (Inr r, d'))"
  by (auto simp: tryE_def split: prod.splits sum.splits)

lemma tryE_Inl: "tryE m f d = (Inl e, d') \<longleftrightarrow> m d = (Inl e, d') \<or> (\<exists>x d1. m d = (Inr x, d1) \<and> f x d1 = (Inl e, d'))"
  by (auto simp: tryE_def split: prod.splits sum.splits)

lemma ignoring_returnE: "ignoring m (returnE x) d = (r, d') \<longleftrightarrow> r = Inr x \<and> d' = snd (m d)"
  by (auto simp: ignoring_def attempt_def returnE_def split: prod.splits)

lemma Many_Inr: "Many q d = (Inr r, d') \<Longrightarrow> r = q (db_tables d) \<and> db_tables d' = db_tables d"
  unfolding Many_def by (drule stmt_Inr) simp

lemma One_Inr: "One q d = (Inr r, d') \<Longrightarrow> (\<exists>rs. q (db_tables d) = r # rs) \<and> db_tables d' = db_tables d"
  unfolding One_def by (drule stmt_Inr) (auto split: list.splits)

lemma Exec_Inr: "Exec f d = (Inr r, d') \<Longrightarrow> f (db_now d) (db_uuid d (db_ops d)) (db_tables d) = Inr (db_tables d')"
  unfolding Exec_def by (drule stmt_Inr) (auto split: sum.splits)

lemma reads_keep_tables: "db_tables (snd (Many q d)) = db_tables d" "db_tables (snd (One q' d)) = db_tables d"
  by (simp_all add: Many_def One_def stmt_def split: sum.splits list.splits)

lemma Exec_Inl: "Exec f d = (Inl e, d') \<Longrightarrow> db_tables d' = db_tables d"
  unfolding Exec_def by (rule stmt_Inl)

lemma ExecN_Inr: "ExecN f d = (Inr n, d') \<Longrightarrow> f (db_now d) (db_uuid d (db_ops d)) (db_tables d) = Inr (n, db_tables d')"
  unfolding ExecN_def by (drule stmt_Inr) auto

text \<open>A transaction is atomic: it fails and changes nothing, or it does all of its body.\<close>

lemma transaction_Inl: "transaction m d = (Inl e, d') \<Longrightarrow> db_tables d' = db_tables d"
  by (auto simp: transaction_def split: if_splits prod.splits sum.splits)

lemma transaction_Inr:
  "transaction m d = (Inr r, d') \<Longrightarrow> \<exists>d1. m (db_tick d) = (Inr r, d1) \<and> db_tables d' = db_tables d1"
  by (auto simp: transaction_def split: if_splits prod.splits sum.splits)

lemma update_rows_simps [simp]:
  "update_rows P f [] = []"
  "update_rows P f (r # rs) = (if P r then f r else r) # update_rows P f rs"
  "length (update_rows P f rows) = length rows"
  by (simp_all add: update_rows_def)

lemma set_update_rows: "x \<in> set (update_rows P f rows) \<longleftrightarrow> (\<exists>r\<in>set rows. x = (if P r then f r else r))"
  by (auto simp: update_rows_def)

lemma update_rows_kept: "r \<in> set rows \<Longrightarrow> \<not> P r \<Longrightarrow> r \<in> set (update_rows P f rows)"
  by (force simp: set_update_rows)

lemma update_rows_hit: "r \<in> set rows \<Longrightarrow> P r \<Longrightarrow> f r \<in> set (update_rows P f rows)"
  by (force simp: set_update_rows)

lemma update_rows_gone: "y \<in> set (update_rows P f rows) \<Longrightarrow> (\<And>r. P r \<Longrightarrow> \<not> Q (f r)) \<Longrightarrow> (\<And>r. Q r \<Longrightarrow> P r) \<Longrightarrow> \<not> Q y"
  by (force simp: set_update_rows split: if_splits)

lemma map_update_rows: "(\<And>r. g (f r) = g r) \<Longrightarrow> map g (update_rows P f rows) = map g rows"
  by (simp add: update_rows_def)

section \<open>Migrations run once and in order\<close>

fun run_list :: "(string \<Rightarrow> 's \<Rightarrow> 's option) \<Rightarrow> string list \<Rightarrow> 's \<Rightarrow> 's option" where
  "run_list run [] s = Some s"
| "run_list run (n # ns) s = Option.bind (run n s) (run_list run ns)"

definition migrate_step :: "(string \<Rightarrow> 's \<Rightarrow> 's option) \<Rightarrow> string \<Rightarrow> ('s schema_db, unit) sql" where
  "migrate_step run n = transaction
     (tryE (Exec (\<lambda>_ _ t. case run n (mg_schema t) of None \<Rightarrow> Inl DBFailure | Some s \<Rightarrow> Inr (t\<lparr>mg_schema := s\<rparr>)))
       (\<lambda>_. Exec (\<lambda>_ _ t. Inr (t\<lparr>mg_applied := mg_applied t @ [n]\<rparr>))))"

lemma migrate_step_Inr:
  assumes "migrate_step run n d = (Inr r, d')"
  shows "mg_applied (db_tables d') = mg_applied (db_tables d) @ [n] \<and> run n (mg_schema (db_tables d)) = Some (mg_schema (db_tables d'))"
proof -
  from transaction_Inr [OF assms [unfolded migrate_step_def]] obtain d1 d2 where
    a: "Exec (\<lambda>_ _ t. case run n (mg_schema t) of None \<Rightarrow> Inl DBFailure | Some s \<Rightarrow> Inr (t\<lparr>mg_schema := s\<rparr>)) (db_tick d) = (Inr (), d2)"
    and b: "Exec (\<lambda>_ _ t. Inr (t\<lparr>mg_applied := mg_applied t @ [n]\<rparr>)) d2 = (Inr r, d1)"
    and c: "db_tables d' = db_tables d1" by (auto simp: tryE_Inr)
  from Exec_Inr [OF a] obtain s where "run n (mg_schema (db_tables d)) = Some s" "db_tables d2 = (db_tables d)\<lparr>mg_schema := s\<rparr>"
    by (auto split: option.splits)
  moreover from Exec_Inr [OF b] have "db_tables d1 = (db_tables d2)\<lparr>mg_applied := mg_applied (db_tables d2) @ [n]\<rparr>" by simp
  ultimately show ?thesis using c by simp
qed

lemma migrate_files_correct:
  assumes "distinct ns" and "migrate_files run ns d = (res, d')"
  shows "\<exists>did rest. filter (\<lambda>n. n \<notin> set (mg_applied (db_tables d))) ns = did @ rest \<and>
    mg_applied (db_tables d') = mg_applied (db_tables d) @ did \<and>
    run_list run did (mg_schema (db_tables d)) = Some (mg_schema (db_tables d')) \<and> (res = Inr () \<longrightarrow> rest = [])"
  using assms
proof (induction ns arbitrary: d)
  case Nil
  then show ?case by simp
next
  case (Cons n ns)
  let ?q = "\<lambda>t. filter (\<lambda>x. x = n) (mg_applied t)"
  obtain r1 d1 where q: "Many ?q d = (r1, d1)" by fastforce
  show ?case
  proof (cases r1)
    case (Inl e)
    with q have "db_tables d1 = db_tables d" by (auto simp: Many_def dest: stmt_Inl)
    with Cons.prems(2) q Inl show ?thesis
      by (intro exI [of _ "[]"] exI [of _ "filter (\<lambda>n. n \<notin> set (mg_applied (db_tables d))) (n # ns)"]) (auto simp: tryE_def)
  next
    case (Inr found)
    with q have f: "found = ?q (db_tables d)" "db_tables d1 = db_tables d" by (auto dest!: Many_Inr)
    show ?thesis
    proof (cases "n \<in> set (mg_applied (db_tables d))")
      case True
      then have "found \<noteq> []" using f by (auto simp: filter_empty_conv)
      then have "migrate_files run ns d1 = (res, d')" using Cons.prems(2) q Inr by (simp add: tryE_def)
      with Cons.IH [of d1] Cons.prems(1) f True show ?thesis by simp
    next
      case False
      then have "found = []" using f by (auto simp: filter_empty_conv)
      then have m: "tryE (migrate_step run n) (\<lambda>_. migrate_files run ns) d1 = (res, d')"
        using Cons.prems(2) q Inr by (simp add: tryE_def migrate_step_def)
      obtain r2 d2 where st: "migrate_step run n d1 = (r2, d2)" by fastforce
      show ?thesis
      proof (cases r2)
        case (Inl e)
        with st have "db_tables d2 = db_tables d1" by (auto simp: migrate_step_def dest: transaction_Inl)
        with m st Inl f show ?thesis
          by (intro exI [of _ "[]"] exI [of _ "filter (\<lambda>n. n \<notin> set (mg_applied (db_tables d))) (n # ns)"]) (auto simp: tryE_def)
      next
        case (Inr u)
        with m st have "migrate_files run ns d2 = (res, d')" by (simp add: tryE_def)
        with Cons.IH [of d2] Cons.prems(1) obtain did rest where
          d2: "filter (\<lambda>n. n \<notin> set (mg_applied (db_tables d2))) ns = did @ rest"
          "mg_applied (db_tables d') = mg_applied (db_tables d2) @ did"
          "run_list run did (mg_schema (db_tables d2)) = Some (mg_schema (db_tables d'))" "res = Inr () \<longrightarrow> rest = []" by auto
        from migrate_step_Inr [of run n d1 u d2] st Inr f have s2: "mg_applied (db_tables d2) = mg_applied (db_tables d) @ [n]"
          "run n (mg_schema (db_tables d)) = Some (mg_schema (db_tables d2))" by auto
        have "filter (\<lambda>n. n \<notin> set (mg_applied (db_tables d2))) ns = filter (\<lambda>n. n \<notin> set (mg_applied (db_tables d))) ns"
          using Cons.prems(1) s2(1) by (intro filter_cong) auto
        with d2 s2 False show ?thesis by (intro exI [of _ "n # did"] exI [of _ rest]) simp
      qed
    qed
  qed
qed

text \<open>
  However a run of the migrations ends, the files it has applied are the first of the pending ones in
  name order, each recorded in the same transaction as its effect, so the schema is what the recorded files
  make of it; a run that succeeds has applied all of them, and none is ever applied twice.
\<close>

theorem Migrate_correct:
  assumes "distinct files" and "Migrate run files d = (res, d')"
  shows "\<exists>did rest. filter (\<lambda>n. n \<notin> set (mg_applied (db_tables d))) (sort files) = did @ rest \<and>
    mg_applied (db_tables d') = mg_applied (db_tables d) @ did \<and>
    run_list run did (mg_schema (db_tables d)) = Some (mg_schema (db_tables d')) \<and> (res = Inr () \<longrightarrow> rest = [])"
proof -
  obtain r1 d1 where e: "Exec (\<lambda>_ _ t. Inr (t\<lparr>mg_table := True\<rparr>)) d = (r1, d1)" by fastforce
  show ?thesis
  proof (cases r1)
    case (Inl x)
    with e have "db_tables d1 = db_tables d" by (auto simp: Exec_def dest: stmt_Inl)
    with assms(2) e Inl show ?thesis
      by (intro exI [of _ "[]"] exI [of _ "filter (\<lambda>n. n \<notin> set (mg_applied (db_tables d))) (sort files)"])
        (auto simp: Migrate_def tryE_def)
  next
    case (Inr u)
    then have "db_tables d1 = (db_tables d)\<lparr>mg_table := True\<rparr>" using Exec_Inr [OF e [unfolded Inr]] by simp
    moreover from e Inr assms(2) have "migrate_files run (sort files) d1 = (res, d')" by (simp add: Migrate_def tryE_def)
    ultimately show ?thesis using migrate_files_correct [of "sort files" run d1 res d'] assms(1) by simp
  qed
qed

definition demo_db :: "'t \<Rightarrow> 't db" where
  "demo_db t = \<lparr>db_tables = t, db_ops = 0, db_fail = (\<lambda>_. False), db_uuid = (\<lambda>n. ''id-'' @ dec_nat n), db_now = 1000, db_serial = 0\<rparr>"

theorem Migrate_correct_witness:
  "\<exists>did rest. [''0002'', ''0003''] = did @ rest \<and>
     run_list (\<lambda>n s. Some (s @ n)) did ''x'' =
       Some (mg_schema (db_tables (snd (Migrate (\<lambda>n s. Some (s @ n)) [''0003'', ''0001'', ''0002'']
         (demo_db \<lparr>mg_table = True, mg_applied = [''0001''], mg_schema = ''x''\<rparr>)))))"
proof -
  let ?d = "demo_db \<lparr>mg_table = True, mg_applied = [''0001''], mg_schema = ''x''\<rparr>" and ?run = "\<lambda>n s. Some (s @ n)"
  have f: "filter (\<lambda>n. n \<notin> set (mg_applied (db_tables ?d))) (sort [''0003'', ''0001'', ''0002'']) = [''0002'', ''0003'']" by code_simp
  have s: "mg_schema (db_tables ?d) = ''x''" by (simp add: demo_db_def)
  have dis: "distinct [''0003'', ''0001'', ''0002'']" by simp
  show ?thesis using Migrate_correct [where run = ?run and d = ?d, OF dis surjective_pairing] unfolding f s by blast
qed

end
