(* ===== verification/Panel_API.thy ===== *)
theory Panel_API
  imports Panel_Store Net_Guard
begin

text \<open>
  The request layer of the panel (\<open>panel/internal/api/server.go\<close>, the guard of \<open>session.go\<close> and the table of
  \<open>routes.go\<close>): error statuses, origin check, audit redaction, idempotency keys, optimistic locking,
  authorisation. A request is a record of what the handlers read of it; JSON texts are values, their
  parsing is the standard library's. The tables that hold audit rows, events and idempotency keys are reached
  through a reader and an updater, whose laws are the locale \<open>table_lens\<close>.
\<close>

section \<open>Requests\<close>

datatype json = JNull | JBool bool | JNum string | JStr string | JArr "json list" | JObj "(string \<times> json) list"

record session_user =
  us_id :: string
  us_email :: string
  us_role :: string
  us_session :: string
  us_csrf :: string

record api_request =
  aq_method :: string
  aq_header :: "string \<Rightarrow> string"          \<comment> \<open>Header.Get\<close>
  aq_host :: string
  aq_remote :: string
  aq_path :: "string \<Rightarrow> string"            \<comment> \<open>PathValue\<close>
  aq_user :: "session_user option"        \<comment> \<open>userOf\<close>

definition badRequest :: go_error where "badRequest = APIError 400 ''invalid_request''"
definition notFound :: go_error where "notFound = APIError 404 ''not_found''"
definition conflictErr :: go_error where "conflictErr = APIError 409 ''conflict''"
definition internal_err :: go_error where "internal_err = APIError 500 ''internal_error''"

definition requestID :: "string \<Rightarrow> api_request \<Rightarrow> string" where
  "requestID fresh r = (let v = aq_header r ''X-Request-Id'' in if v \<noteq> [] \<and> length v \<le> 64 then v else fresh)"

definition clientIP :: "net_lib \<Rightarrow> api_request \<Rightarrow> string" where
  "clientIP nl r = (case split_host_port nl (aq_remote r) of None \<Rightarrow> aq_remote r | Some (h, _) \<Rightarrow> h)"

definition nullIP :: "(string \<Rightarrow> bool) \<Rightarrow> string \<Rightarrow> string option" where
  "nullIP parse_ip s = (if parse_ip s then Some s else None)"

section \<open>Middleware\<close>

definition sameOrigin :: "api_request \<Rightarrow> bool" where
  "sameOrigin r = (let orig = aq_header r ''Origin'' in if orig = [] then True else has_suffix orig (''//'' @ aq_host r))"

text \<open>\<open>securityHeaders\<close>: whether the request goes on to the handlers.\<close>

definition cors_allowed :: "api_request \<Rightarrow> bool" where
  "cors_allowed r \<longleftrightarrow> \<not> (aq_header r ''Origin'' \<noteq> [] \<and> \<not> sameOrigin r)"

definition security_headers :: "bool \<Rightarrow> (string \<times> string) list" where
  "security_headers secure =
     [(''X-Content-Type-Options'', ''nosniff''), (''X-Frame-Options'', ''DENY''), (''Referrer-Policy'', ''no-referrer''),
      (''Cross-Origin-Opener-Policy'', ''same-origin''), (''Permissions-Policy'', ''geolocation=(), microphone=(), camera=()''),
      (''Content-Security-Policy'', ''default-src 'self'; script-src 'self'; style-src 'self' 'unsafe-inline'; '' @
         ''img-src 'self' data:; font-src 'self' data:; connect-src 'self'; '' @
         ''frame-ancestors 'none'; base-uri 'none'; form-action '' @ [CHR 0x27] @ ''self'' @ [CHR 0x27])] @
     (if secure then [(''Strict-Transport-Security'', ''max-age=31536000; includeSubDomains'')] else [])"

definition access_level :: "int \<Rightarrow> string" where
  "access_level status = (if status \<ge> 500 then ''error'' else if status \<ge> 400 then ''warn'' else ''debug'')"

definition roleRank :: "string \<Rightarrow> int" where
  "roleRank r = (if r = ''viewer'' then 1 else if r = ''operator'' then 2 else if r = ''owner'' then 3 else 0)"

definition roleAtLeast :: "string \<Rightarrow> string \<Rightarrow> bool" where
  "roleAtLeast have need \<longleftrightarrow> roleRank have \<ge> roleRank need"

text \<open>\<open>requireAuth\<close>: \<^term>\<open>None\<close> when the handler is called. Comparing in constant time is comparing.\<close>

definition requireAuth :: "string \<Rightarrow> api_request \<Rightarrow> go_error option" where
  "requireAuth minRole r =
     (case aq_user r of
        None \<Rightarrow> Some (APIError 401 ''unauthenticated'')
      | Some u \<Rightarrow>
          if aq_method r \<notin> {''GET'', ''HEAD'', ''OPTIONS''} \<and> aq_header r ''X-CSRF-Token'' \<noteq> us_csrf u
          then Some (APIError 403 ''csrf_failed'')
          else if \<not> roleAtLeast (us_role u) minRole then Some (APIError 403 ''forbidden'')
          else None)"

section \<open>Audit trail\<close>

definition secretKeys :: "string list" where
  "secretKeys = [''password'', ''token'', ''secret'', ''totp_secret'', ''password_hash'', ''ciphertext'', ''recovery_codes'',
     ''private_key'', ''key'', ''authorization'']"

definition redacted :: json where "redacted = JStr ''***redacted***''"

lemma size_field: "kv \<in> set fs \<Longrightarrow> size (snd kv) < size (JObj fs)"
  by (induction fs) (auto simp: size_prod_simp)

lemma size_element: "x \<in> set xs \<Longrightarrow> size x < size (JArr xs)"
  by (induction xs) auto

function walkRedact :: "(string \<Rightarrow> string) \<Rightarrow> json \<Rightarrow> json" where
  "walkRedact u (JObj fs) = JObj (map (\<lambda>kv. (fst kv, if to_lower u (fst kv) \<in> set secretKeys then redacted else walkRedact u (snd kv))) fs)"
| "walkRedact u (JArr xs) = JArr (map (walkRedact u) xs)"
| "walkRedact u JNull = JNull"
| "walkRedact u (JBool b) = JBool b"
| "walkRedact u (JNum n) = JNum n"
| "walkRedact u (JStr s) = JStr s"
  by pat_completeness auto
termination
  by (relation "measure (\<lambda>(u, j). size j)") (simp_all only: in_measure case_prod_conv size_field size_element, simp)

record audit_row =
  au_actor :: string
  au_actor_id :: "string option"
  au_action :: string
  au_object_type :: string
  au_object_id :: string
  au_request_id :: string
  au_ip :: "string option"
  au_before :: "json option"
  au_after :: "json option"
  au_at :: int                        \<comment> \<open>created_at, set by the database\<close>

record event_row =
  ev_level :: string
  ev_component :: string
  ev_node :: "string option"
  ev_code :: string
  ev_at :: int

text \<open>A row of \<open>health_samples\<close>, without the measured latency.\<close>

record sample_row =
  hs_node :: string
  hs_service :: "string option"
  hs_kind :: string
  hs_success :: bool
  hs_code :: string
  hs_detail :: string
  hs_at :: int

record api_env =
  ae_lower :: "string \<Rightarrow> string"
  ae_parse_ip :: "string \<Rightarrow> bool"
  ae_net :: net_lib

definition audit_of :: "api_env \<Rightarrow> api_request \<Rightarrow> string \<Rightarrow> string \<Rightarrow> string \<Rightarrow> json option \<Rightarrow> json option \<Rightarrow> audit_row" where
  "audit_of en r action ty oid before after =
     \<lparr>au_actor = (case aq_user r of None \<Rightarrow> ''system'' | Some u \<Rightarrow> us_email u), au_actor_id = map_option us_id (aq_user r),
      au_action = action, au_object_type = ty, au_object_id = oid, au_request_id = aq_header r ''X-Request-Id'',
      au_ip = nullIP (ae_parse_ip en) (clientIP (ae_net en) r), au_before = map_option (walkRedact (ae_lower en)) before,
      au_after = map_option (walkRedact (ae_lower en)) after, au_at = 0\<rparr>"

text \<open>\<open>audit\<close> and \<open>event\<close>; their errors are only logged.\<close>

definition audit :: "((audit_row list \<Rightarrow> audit_row list) \<Rightarrow> 't \<Rightarrow> 't) \<Rightarrow> audit_row \<Rightarrow> ('t, 'r) sql \<Rightarrow> ('t, 'r) sql" where
  "audit put row k = ignoring (Exec (\<lambda>now _ t. Inr (put (\<lambda>rows. rows @ [row\<lparr>au_at := now\<rparr>]) t))) k"

definition event :: "((event_row list \<Rightarrow> event_row list) \<Rightarrow> 't \<Rightarrow> 't) \<Rightarrow> string \<Rightarrow> string \<Rightarrow> string \<Rightarrow> string option \<Rightarrow> ('t, 'r) sql \<Rightarrow> ('t, 'r) sql" where
  "event put level cmpnt code node k =
     ignoring (Exec (\<lambda>now _ t. Inr (put (\<lambda>rows. rows @ [\<lparr>ev_level = level, ev_component = cmpnt, ev_node = node, ev_code = code, ev_at = now\<rparr>]) t))) k"

section \<open>Idempotency keys\<close>

record idem_row =
  ik_key :: string
  ik_endpoint :: string
  ik_response :: json
  ik_status :: int
  ik_created :: int

datatype api_reply = Reply int json | Replayed int json

definition idem_lookup :: "('t \<Rightarrow> idem_row list) \<Rightarrow> string \<Rightarrow> string \<Rightarrow> ('t, int \<times> json) sql" where
  "idem_lookup get key endpoint =
     One (\<lambda>t. map (\<lambda>i. (ik_status i, ik_response i)) (filter (\<lambda>i. ik_key i = key \<and> ik_endpoint i = endpoint) (get t)))"

definition idem_store :: "((idem_row list \<Rightarrow> idem_row list) \<Rightarrow> 't \<Rightarrow> 't) \<Rightarrow> string \<Rightarrow> string \<Rightarrow> int \<Rightarrow> json \<Rightarrow> ('t, unit) sql" where
  "idem_store put key endpoint status body =
     Exec (\<lambda>now _ t. Inr (put (\<lambda>rows. if list_ex (\<lambda>i. ik_key i = key) rows then rows
        else rows @ [\<lparr>ik_key = key, ik_endpoint = endpoint, ik_response = body, ik_status = status, ik_created = now\<rparr>]) t))"

definition idempotent :: "('t \<Rightarrow> idem_row list) \<Rightarrow> ((idem_row list \<Rightarrow> idem_row list) \<Rightarrow> 't \<Rightarrow> 't) \<Rightarrow> string \<Rightarrow> string \<Rightarrow>
    ('t, int \<times> json) sql \<Rightarrow> ('t, api_reply) sql" where
  "idempotent get put key endpoint fn =
     attempt (if key \<noteq> [] then idem_lookup get key endpoint else throwE ErrNotFound) (\<lambda>found.
       case found of
         Inr (status, body) \<Rightarrow> returnE (Replayed status body)
       | Inl _ \<Rightarrow>
           tryE fn (\<lambda>(status, body).
             ignoring (if key \<noteq> [] then idem_store put key endpoint status body else returnE ())
               (returnE (Reply status body))))"

section \<open>Optimistic locking\<close>

text \<open>\<open>strconv.ParseInt(v, 10, 64)\<close>.\<close>

definition is_digit :: "char \<Rightarrow> bool" where
  "is_digit c \<longleftrightarrow> CHR ''0'' \<le> c \<and> c \<le> CHR ''9''"

definition parse_int64 :: "string \<Rightarrow> int option" where
  "parse_int64 s =
     (let neg = has_prefix s ''-''; digits = (if has_prefix s ''-'' \<or> has_prefix s ''+'' then drop 1 s else s);
          n = (if neg then - int (dec_val digits) else int (dec_val digits))
      in if digits = [] \<or> \<not> list_all is_digit digits \<or> n < - (2 ^ 63) \<or> n \<ge> 2 ^ 63 then None else Some n)"

definition ifMatch :: "api_request \<Rightarrow> go_error + int" where
  "ifMatch r =
     (let v = trim_char CHR 0x22 (aq_header r ''If-Match'') in
      if v = [] then Inr 0 else case parse_int64 v of None \<Rightarrow> Inl badRequest | Some n \<Rightarrow> Inr n)"

definition checkVersion :: "nat \<Rightarrow> int \<Rightarrow> go_error option" where
  "checkVersion affected expected =
     (if affected = 0 \<and> expected > 0 then Some (APIError 412 ''version_conflict'')
      else if affected = 0 then Some notFound else None)"

text \<open>\<open>if err := ...; err != nil \<open>{\<close> return err \<open>}\<close>\<close> for a check without a statement.\<close>

definition guardE :: "go_error option \<Rightarrow> ('t, 'r) sql \<Rightarrow> ('t, 'r) sql" where
  "guardE e k = (case e of Some x \<Rightarrow> throwE x | None \<Rightarrow> k)"

definition liftE :: "go_error + 'a \<Rightarrow> ('a \<Rightarrow> ('t, 'r) sql) \<Rightarrow> ('t, 'r) sql" where
  "liftE x f = (case x of Inl e \<Rightarrow> throwE e | Inr v \<Rightarrow> f v)"

text \<open>\<open>decodeJSON\<close>: \<^term>\<open>None\<close> is a body that is not what the handler expects.\<close>

definition decodeE :: "'a option \<Rightarrow> ('a \<Rightarrow> ('t, 'r) sql) \<Rightarrow> ('t, 'r) sql" where
  "decodeE body f = (case body of None \<Rightarrow> throwE badRequest | Some x \<Rightarrow> f x)"

section \<open>Routes\<close>

text \<open>Method, pattern and required role; \<^term>\<open>None\<close> for the public ones.\<close>

definition group_routes :: "string \<Rightarrow> (string \<times> string \<times> string option) list" where
  "group_routes role =
     (let base = ''/'' @ role @ ''-groups'' in
      [(''GET'', base, Some ''viewer''), (''POST'', base, Some ''operator''), (''PATCH'', base @ ''/{id}'', Some ''operator''),
       (''DELETE'', base @ ''/{id}'', Some ''operator''), (''POST'', base @ ''/{id}/members'', Some ''operator''),
       (''DELETE'', base @ ''/{id}/members/{node_id}'', Some ''operator'')])"

definition Routes :: "(string \<times> string \<times> string option) list" where
  "Routes =
     [(''POST'', ''/auth/login'', None), (''POST'', ''/auth/logout'', None), (''GET'', ''/auth/me'', None),
      (''GET'', ''/auth/sessions'', Some ''viewer''), (''DELETE'', ''/auth/sessions/{id}'', Some ''viewer''),
      (''POST'', ''/auth/password'', Some ''viewer''), (''POST'', ''/auth/totp/setup'', Some ''viewer''),
      (''POST'', ''/auth/totp/enable'', Some ''viewer''), (''POST'', ''/auth/totp/disable'', Some ''viewer''),
      (''GET'', ''/dashboard'', Some ''viewer''), (''GET'', ''/health/summary'', Some ''viewer''), (''GET'', ''/health/samples'', Some ''viewer''),
      (''GET'', ''/events'', Some ''viewer''), (''GET'', ''/audit'', Some ''viewer''),
      (''GET'', ''/nodes'', Some ''viewer''), (''GET'', ''/nodes/{id}'', Some ''viewer''), (''PATCH'', ''/nodes/{id}'', Some ''operator''),
      (''DELETE'', ''/nodes/{id}'', Some ''owner''), (''POST'', ''/nodes/{id}/maintenance'', Some ''operator''),
      (''POST'', ''/nodes/{id}/certificate'', Some ''operator''), (''POST'', ''/nodes'', Some ''operator'')] @
     group_routes ''ingress'' @ group_routes ''egress'' @
     [(''GET'', ''/services'', Some ''viewer''), (''GET'', ''/services/catalog'', Some ''viewer''), (''POST'', ''/services'', Some ''operator''),
      (''POST'', ''/services/wizard'', Some ''operator''), (''PATCH'', ''/services/{id}'', Some ''operator''),
      (''DELETE'', ''/services/{id}'', Some ''operator''),
      (''GET'', ''/rule-sets'', Some ''viewer''), (''POST'', ''/rule-sets'', Some ''operator''), (''GET'', ''/rule-sets/{id}'', Some ''viewer''),
      (''PATCH'', ''/rule-sets/{id}'', Some ''operator''), (''DELETE'', ''/rule-sets/{id}'', Some ''operator''),
      (''POST'', ''/rule-sets/{id}/sources'', Some ''operator''), (''DELETE'', ''/rule-sets/{id}/sources/{source_id}'', Some ''operator''),
      (''POST'', ''/rule-sets/{id}/fetch'', Some ''operator''), (''GET'', ''/rule-sets/{id}/diff'', Some ''viewer''),
      (''POST'', ''/rule-sets/{id}/approve'', Some ''operator''),
      (''GET'', ''/revisions'', Some ''viewer''), (''POST'', ''/revisions/compile'', Some ''operator''), (''GET'', ''/revisions/{id}'', Some ''viewer''),
      (''GET'', ''/revisions/{id}/artifacts/{node_id}'', Some ''viewer''), (''POST'', ''/revisions/{id}/deploy'', Some ''operator''),
      (''POST'', ''/revisions/{id}/rollback'', Some ''operator''),
      (''GET'', ''/device-profiles'', Some ''viewer''), (''POST'', ''/device-profiles'', Some ''operator''),
      (''DELETE'', ''/device-profiles/{id}'', Some ''operator''), (''GET'', ''/device-profiles/{id}/download'', Some ''viewer''),
      (''GET'', ''/settings'', Some ''viewer''), (''PUT'', ''/settings'', Some ''owner''),
      (''POST'', ''/backup'', Some ''owner''), (''POST'', ''/restore'', Some ''owner'')]"

text \<open>What stands between a request and the handler of its route.\<close>

definition admission :: "string option \<Rightarrow> api_request \<Rightarrow> go_error option" where
  "admission role r =
     (if \<not> cors_allowed r then Some (APIError 403 ''cors_denied'')
      else case role of None \<Rightarrow> None | Some m \<Rightarrow> requireAuth m r)"

section \<open>Lemmas\<close>

lemma imp_trans: "(P \<longrightarrow> Q) \<Longrightarrow> (Q \<longrightarrow> R) \<Longrightarrow> P \<longrightarrow> R"
  by blast

lemmas api_error_defs = badRequest_def notFound_def conflictErr_def internal_err_def

lemma preserves_guardE [preserves_rules]: "(e = None \<Longrightarrow> preserves I k) \<Longrightarrow> preserves I (guardE e k)"
  by (auto simp: guardE_def intro!: preserves_rules)

lemma preserves_liftE [preserves_rules]: "(\<And>v. x = Inr v \<Longrightarrow> preserves I (f v)) \<Longrightarrow> preserves I (liftE x f)"
  by (auto simp: liftE_def intro!: preserves_rules split: sum.splits)

lemma preserves_decodeE [preserves_rules]: "(\<And>x. body = Some x \<Longrightarrow> preserves I (f x)) \<Longrightarrow> preserves I (decodeE body f)"
  unfolding decodeE_def by (intro preserves_rules)

lemma steady_guardE [steady_rules]: "steady k \<Longrightarrow> steady (guardE e k)"
  unfolding guardE_def by (intro steady_rules)

lemma steady_liftE [steady_rules]: "(\<And>v. steady (f v)) \<Longrightarrow> steady (liftE x f)"
  unfolding liftE_def by (intro steady_rules)

lemma preserves_audit: "(\<And>f t. I t \<Longrightarrow> I (put f t)) \<Longrightarrow> preserves I k \<Longrightarrow> preserves I (audit put row k)"
  unfolding audit_def by (intro preserves_rules preserves_Exec) auto

lemma preserves_event: "(\<And>f t. I t \<Longrightarrow> I (put f t)) \<Longrightarrow> preserves I k \<Longrightarrow> preserves I (event put l c d n k)"
  unfolding event_def by (intro preserves_rules preserves_Exec) auto

lemma preserves_idempotent:
  assumes "\<And>f t. I t \<Longrightarrow> I (put f t)" and "preserves I fn"
  shows "preserves I (idempotent get put key endpoint fn)"
  unfolding idempotent_def idem_lookup_def idem_store_def
  by (intro preserves_rules preserves_Exec assms(2)) (use assms(1) in auto)

lemma requireAuth_None:
  "requireAuth m r = None \<longleftrightarrow>
     (\<exists>u. aq_user r = Some u \<and> (aq_method r \<in> {''GET'', ''HEAD'', ''OPTIONS''} \<or> aq_header r ''X-CSRF-Token'' = us_csrf u) \<and>
        roleAtLeast (us_role u) m)"
  by (auto simp: requireAuth_def split: option.splits)

subsection \<open>Tables reached through a reader and an updater\<close>

locale table_lens =
  fixes get :: "'t \<Rightarrow> 'r list" and put :: "('r list \<Rightarrow> 'r list) \<Rightarrow> 't \<Rightarrow> 't"
  assumes get_put: "get (put f t) = f (get t)"

locale idem_table = table_lens get put for get :: "'t \<Rightarrow> idem_row list" and put :: "(idem_row list \<Rightarrow> idem_row list) \<Rightarrow> 't \<Rightarrow> 't"
begin

lemma idem_lookup_hit:
  assumes "healthy d" and "filter (\<lambda>i. ik_key i = key \<and> ik_endpoint i = ep) (get (db_tables d)) = i # is"
  shows "idem_lookup get key ep d = (Inr (ik_status i, ik_response i), (db_tick d)\<lparr>db_tables := db_tables d\<rparr>)"
  using assms by (simp add: idem_lookup_def One_def healthy_def stmt_def)

lemma idem_lookup_miss:
  assumes "filter (\<lambda>i. ik_key i = key \<and> ik_endpoint i = ep) (get (db_tables d)) = []"
  shows "\<exists>e. fst (idem_lookup get key ep d) = Inl e" "db_tables (snd (idem_lookup get key ep d)) = db_tables d"
  using assms by (auto simp: idem_lookup_def One_def stmt_def)

text \<open>A first call under an unused key runs the action and remembers its answer; the second call replays it and runs nothing.\<close>

lemma replay:
  assumes key: "key \<noteq> []" "key \<notin> ik_key ` set (get (db_tables d))" and h: "healthy d" and sf: "steady fn"
    and keep: "\<And>e. get (db_tables (snd (fn e))) = get (db_tables e)"
    and run: "idempotent get put key ep fn d = (Inr (Reply st body), d1)"
  shows "fst (idempotent get put key ep fn' d1) = Inr (Replayed st body)" "db_tables (snd (idempotent get put key ep fn' d1)) = db_tables d1"
proof -
  have none: "filter (\<lambda>i. ik_key i = key \<and> ik_endpoint i = ep) (get (db_tables d)) = []" using key(2) by (auto simp: filter_empty_conv)
  obtain r0 d0 where l: "idem_lookup get key ep d = (r0, d0)" by fastforce
  from idem_lookup_miss [OF none] l obtain e where r0: "r0 = Inl e" and t0: "db_tables d0 = db_tables d" by auto
  have h0: "healthy d0" by (rule healthy_step [of "idem_lookup get key ep", OF _ h l]) (simp add: idem_lookup_def steady_rules)
  from run key(1) l r0 obtain dF where f: "fn d0 = (Inr (st, body), dF)"
    and st: "d1 = snd (idem_store put key ep st body dF)"
    by (auto simp: idempotent_def attempt_def tryE_Inr ignoring_returnE)
  have hF: "healthy dF" by (rule healthy_step [OF sf h0 f])
  have gF: "get (db_tables dF) = get (db_tables d)" using keep [of d0] f t0 by simp
  have t1: "get (db_tables d1) = get (db_tables d) @ [\<lparr>ik_key = key, ik_endpoint = ep, ik_response = body, ik_status = st, ik_created = db_now dF\<rparr>]"
    using hF gF key(2) by (auto simp: st idem_store_def Exec_def stmt_def healthy_def get_put list_ex_iff)
  have h1: "healthy d1" using hF by (simp add: st idem_store_def Exec_def stmt_def healthy_def db_tick_def split: sum.splits)
  have "filter (\<lambda>i. ik_key i = key \<and> ik_endpoint i = ep) (get (db_tables d1)) =
      [\<lparr>ik_key = key, ik_endpoint = ep, ik_response = body, ik_status = st, ik_created = db_now dF\<rparr>]" using none by (simp add: t1)
  from idem_lookup_hit [OF h1 this] key(1) show "fst (idempotent get put key ep fn' d1) = Inr (Replayed st body)"
    "db_tables (snd (idempotent get put key ep fn' d1)) = db_tables d1"
    by (simp_all add: idempotent_def attempt_def returnE_def)
qed

text \<open>A key another endpoint has taken: the action runs and nothing is remembered.\<close>

lemma key_taken:
  assumes key: "key \<noteq> []" "\<exists>i\<in>set (get (db_tables d)). ik_key i = key" "\<forall>i\<in>set (get (db_tables d)). ik_key i = key \<longrightarrow> ik_endpoint i \<noteq> ep"
    and f: "fn (snd (idem_lookup get key ep d)) = (Inr (st, body), dF)" and keep: "get (db_tables dF) = get (db_tables d)"
  shows "\<exists>d'. idempotent get put key ep fn d = (Inr (Reply st body), d') \<and> get (db_tables d') = get (db_tables d)"
proof -
  have "filter (\<lambda>i. ik_key i = key \<and> ik_endpoint i = ep) (get (db_tables d)) = []" using key(3) by (auto simp: filter_empty_conv)
  from idem_lookup_miss(1) [OF this] obtain e d0 where l: "idem_lookup get key ep d = (Inl e, d0)" by (metis prod.collapse)
  obtain r2 d2 where s: "idem_store put key ep st body dF = (r2, d2)" by fastforce
  have "get (db_tables (snd (idem_store put key ep st body dF))) = get (db_tables d)"
    using key(2) keep by (auto simp: idem_store_def Exec_def stmt_def list_ex_iff get_put)
  with l f s key(1) show ?thesis by (simp add: idempotent_def attempt_def tryE_def ignoring_def returnE_def)
qed

end

text \<open>What every entry of the route table satisfies.\<close>

definition own_account :: "string set" where
  "own_account = {''/auth/sessions/{id}'', ''/auth/password'', ''/auth/totp/setup'', ''/auth/totp/enable'', ''/auth/totp/disable''}"

definition route_guarded :: "string \<times> string \<times> string option \<Rightarrow> bool" where
  "route_guarded e = (case e of (m, p, role) \<Rightarrow> m \<noteq> ''GET'' \<and> p \<notin> {''/auth/login'', ''/auth/logout''} \<longrightarrow>
     m \<notin> {''GET'', ''HEAD'', ''OPTIONS''} \<and> role \<noteq> None \<and> the role \<in> {''viewer'', ''operator'', ''owner''} \<and>
     (the role = ''viewer'' \<longrightarrow> p \<in> own_account) \<and>
     (m = ''DELETE'' \<and> p = ''/nodes/{id}'' \<or> p \<in> {''/settings'', ''/backup'', ''/restore''} \<longrightarrow> the role = ''owner''))"

section \<open>Properties\<close>


definition demo_user :: session_user where
  "demo_user = \<lparr>us_id = ''u1'', us_email = ''op@example.org'', us_role = ''operator'', us_session = ''t1'', us_csrf = ''c1''\<rparr>"

definition demo_request :: "string \<Rightarrow> api_request" where
  "demo_request m = \<lparr>aq_method = m, aq_header = (\<lambda>h. if h = ''X-CSRF-Token'' then ''c1'' else if h = ''Origin'' then ''https://panel'' else []),
     aq_host = ''panel'', aq_remote = ''10.0.0.1:99'', aq_path = (\<lambda>_. []), aq_user = Some demo_user\<rparr>"


text \<open>Everything under a secret-looking key, at any depth, is the placeholder.\<close>

function masked :: "(string \<Rightarrow> string) \<Rightarrow> json \<Rightarrow> bool" where
  "masked u (JObj fs) = list_all (\<lambda>kv. if to_lower u (fst kv) \<in> set secretKeys then snd kv = redacted else masked u (snd kv)) fs"
| "masked u (JArr xs) = list_all (masked u) xs"
| "masked u JNull = True"
| "masked u (JBool b) = True"
| "masked u (JNum n) = True"
| "masked u (JStr s) = True"
  by pat_completeness auto
termination
  by (relation "measure (\<lambda>(u, j). size j)") (simp_all only: in_measure case_prod_conv size_field size_element, simp)

lemma masked_walkRedact: "masked u (walkRedact u j)"
  by (induction u j rule: walkRedact.induct) (auto simp: list_all_iff)

lemma walkRedact_masked: "masked u j \<Longrightarrow> walkRedact u j = j"
  by (induction u j rule: masked.induct) (auto simp: list_all_iff intro!: map_idI split: if_splits)



lemma sep_prefix_unique: "c \<notin> set a \<Longrightarrow> c \<notin> set b \<Longrightarrow> a @ c # x = b @ c # y \<Longrightarrow> a = b"
proof (induction a arbitrary: b)
  case Nil
  then show ?case by (cases b) auto
next
  case (Cons z a)
  then show ?case by (cases b) auto
qed

text \<open>
  Only the panel's own pages may call the API from a browser: an origin, which is a scheme and a host without further
  slashes, passes exactly if its host is the one the request was sent to.
\<close>

theorem sameOrigin_correct:
  assumes "aq_header r ''Origin'' = scheme @ ''://'' @ h" and "CHR ''/'' \<notin> set h" and "CHR ''/'' \<notin> set (aq_host r)"
  shows "cors_allowed r \<longleftrightarrow> h = aq_host r"
proof -
  have "(\<exists>t. scheme @ CHR '':'' # CHR ''/'' # CHR ''/'' # h = t @ CHR ''/'' # CHR ''/'' # aq_host r) \<longleftrightarrow> h = aq_host r" (is "?l \<longleftrightarrow> _")
  proof
    assume ?l
    then obtain t where "(scheme @ CHR '':'' # [CHR ''/'']) @ CHR ''/'' # h = (t @ [CHR ''/'']) @ CHR ''/'' # aq_host r" by auto
    then have "rev h @ CHR ''/'' # rev (scheme @ CHR '':'' # [CHR ''/'']) = rev (aq_host r) @ CHR ''/'' # rev (t @ [CHR ''/''])"
      by (metis append.assoc append_Cons append_Nil rev.simps(2) rev_append)
    then have "rev h = rev (aq_host r)" by (rule sep_prefix_unique [rotated 2]) (use assms(2,3) in simp_all)
    then show "h = aq_host r" by simp
  next
    assume "h = aq_host r"
    then show ?l by (intro exI [of _ "scheme @ '':''"]) simp
  qed
  with assms(1) show ?thesis by (simp add: cors_allowed_def sameOrigin_def has_suffix_iff Let_def)
qed

theorem sameOrigin_correct_witness: "cors_allowed (demo_request ''GET'') \<longleftrightarrow> ''panel'' = ''panel''"
  using sameOrigin_correct [of "demo_request ''GET''" "''https''" "''panel''"] by (simp add: demo_request_def)

end
