(* ===== verification/Rule_Fetcher.thy ===== *)
theory Rule_Fetcher
  imports Net_Guard Artifact_Model
begin

text \<open>
  The guarded downloader of rule lists (\<open>panel/internal/fetcher/fetcher.go\<close>). URL parsing, the servers
  at the other end, the address a URL is dialled at and gzip are parameters of a \<open>fetch_env\<close>: a reply
  is what \<open>net/http\<close> hands to the code for one request, a body is the bytes it yields with whether it
  then fails. Redirects are followed the way \<open>http.Client\<close> does, asking the source's \<open>CheckRedirect\<close>
  before every hop; the URLs requested are recorded on the way. Timeouts appear as failing requests
  and bodies. \<open>strings.EqualFold\<close> is only used against ASCII text without the letters k and s, the ones
  that have non-ASCII case variants, so it compares ASCII-lower-cased bytes.
\<close>

section \<open>Data\<close>

record fetch_limits =
  fl_max_compressed :: int
  fl_max_decompressed :: int
  fl_max_redirects :: int
  fl_connect_timeout :: int
  fl_total_timeout :: int

definition DefaultLimits :: fetch_limits where
  "DefaultLimits = \<lparr>fl_max_compressed = 10 * 2 ^ 20, fl_max_decompressed = 50 * 2 ^ 20, fl_max_redirects = 5,
     fl_connect_timeout = 10 * 10 ^ 9, fl_total_timeout = 60 * 10 ^ 9\<rparr>"

definition zero_limits :: fetch_limits where
  "zero_limits = \<lparr>fl_max_compressed = 0, fl_max_decompressed = 0, fl_max_redirects = 0, fl_connect_timeout = 0, fl_total_timeout = 0\<rparr>"

record fetch_request =
  fr_url :: string
  fr_etag :: string
  fr_last_modified :: string
  fr_token :: string
  fr_expected_sha256 :: string
  fr_limits :: fetch_limits
  fr_allow_private :: bool

record fetch_result =
  fe_not_modified :: bool
  fe_status :: int
  fe_etag :: string
  fe_last_modified :: string
  fe_body :: string
  fe_sha256 :: string
  fe_size :: int

datatype fetch_error =
    InvalidURL | OnlyHTTPS string | BlockedHost guard_error | BlockedScheme string | TooManyRedirects int | RequestFailed
  | BadStatus int | BadGzip | BodyError | PayloadTooBig int | ChecksumMismatch string string | HTMLDocument
  | RepoFormat string | PathRequired | PathTraversal

type_synonym body_stream = "bytes \<times> bool"

record http_final =
  hf_status :: int
  hf_etag :: string
  hf_last_modified :: string
  hf_content_encoding :: string
  hf_body :: body_stream

datatype http_reply = Unreachable | RedirectTo string | Final http_final

record parsed_url =
  pu_scheme :: string
  pu_host :: string
  pu_path :: string

record fetch_env =
  fv_net :: net_lib
  fv_parse :: "string \<Rightarrow> parsed_url option"
  fv_dial_addr :: "string \<Rightarrow> string"                         \<comment> \<open>the address text the dialer's hook sees for a URL\<close>
  fv_serve :: "(string \<times> string) list \<Rightarrow> string list \<Rightarrow> http_reply"   \<comment> \<open>first headers, URLs requested up to this one\<close>
  fv_gzip_ok :: "body_stream \<Rightarrow> bool"
  fv_gzip :: "body_stream \<Rightarrow> body_stream"
  fv_sha256 :: "bytes \<Rightarrow> bytes"
  fv_lower :: "string \<Rightarrow> string"

section \<open>Operations\<close>

definition New_fetcher :: "fetch_limits \<Rightarrow> fetch_limits" where
  "New_fetcher l = (if fl_max_compressed l = 0 then DefaultLimits else l)"

definition looksLikeHTML :: "(string \<Rightarrow> string) \<Rightarrow> string \<Rightarrow> bool" where
  "looksLikeHTML u s =
     (let head0 = to_lower u (trim_space s); head = (if length head0 > 512 then take 512 head0 else head0)
      in has_prefix head ''<!doctype html'' \<or> has_prefix head ''<html'')"

definition checkHost :: "net_lib \<Rightarrow> string \<Rightarrow> bool \<Rightarrow> guard_error option" where
  "checkHost nl host allow =
     (if allow then None else case lookup_net_ip nl host of None \<Rightarrow> Some LookupFailed | Some addrs \<Rightarrow> check_addrs addrs)"

definition equal_fold :: "string \<Rightarrow> string \<Rightarrow> bool" where
  "equal_fold s t \<longleftrightarrow> map ascii_lower_char s = map ascii_lower_char t"

text \<open>\<open>CheckRedirect\<close>, with the number of hops counted so far.\<close>

definition check_redirect :: "fetch_env \<Rightarrow> fetch_limits \<Rightarrow> bool \<Rightarrow> int \<Rightarrow> parsed_url \<Rightarrow> fetch_error option" where
  "check_redirect en lm allow hops u =
     (if hops > fl_max_redirects lm then Some (TooManyRedirects (fl_max_redirects lm))
      else if pu_scheme u \<noteq> ''https'' then Some (BlockedScheme (pu_scheme u))
      else map_option BlockedHost (checkHost (fv_net en) (pu_host u) allow))"

text \<open>\<open>httpClient.Do\<close>: the URLs requested and the final reply.\<close>

function follow :: "fetch_env \<Rightarrow> fetch_limits \<Rightarrow> bool \<Rightarrow> (string \<times> string) list \<Rightarrow> int \<Rightarrow> string list \<Rightarrow> string
    \<Rightarrow> fetch_error + (string list \<times> http_final)" where
  "follow en lm allow hdrs hops seen url =
     (if \<not> dial_permitted (safe_dialer_policy (fv_net en) allow) (fv_dial_addr en url) then Inl RequestFailed
      else case fv_serve en hdrs (seen @ [url]) of
        Unreachable \<Rightarrow> Inl RequestFailed
      | Final r \<Rightarrow> Inr (seen @ [url], r)
      | RedirectTo loc \<Rightarrow>
          (case fv_parse en loc of
             None \<Rightarrow> Inl RequestFailed
           | Some u \<Rightarrow>
               (case check_redirect en lm allow (hops + 1) u of
                  Some e \<Rightarrow> Inl e
                | None \<Rightarrow> follow en lm allow hdrs (hops + 1) (seen @ [url]) loc)))"
  by auto
termination
  by (relation "measure (\<lambda>(en, lm, allow, hdrs, hops, seen, url). nat (fl_max_redirects lm - hops))")
    (auto simp: check_redirect_def split: if_splits)

declare follow.simps [simp del]

definition request_headers :: "fetch_request \<Rightarrow> (string \<times> string) list" where
  "request_headers rq =
     [(''User-Agent'', ''smartdns-panel/1.0 (+rule-fetcher)''), (''Accept'', ''text/plain, application/json, */*;q=0.5'')] @
     (if fr_etag rq \<noteq> [] then [(''If-None-Match'', fr_etag rq)] else []) @
     (if fr_last_modified rq \<noteq> [] then [(''If-Modified-Since'', fr_last_modified rq)] else []) @
     (if fr_token rq \<noteq> [] then [(''Authorization'', ''Bearer '' @ fr_token rq)] else [])"

text \<open>\<open>io.LimitReader\<close>, and \<open>io.ReadAll\<close> of what it lets through.\<close>

definition limited :: "int \<Rightarrow> body_stream \<Rightarrow> body_stream" where
  "limited n b = (if int (length (fst b)) \<ge> n then (take (nat n) (fst b), False) else b)"

definition read_all :: "body_stream \<Rightarrow> bytes option" where
  "read_all b = (if snd b then None else Some (fst b))"

definition is_gzip_reply :: "fetch_env \<Rightarrow> parsed_url \<Rightarrow> http_final \<Rightarrow> bool" where
  "is_gzip_reply en u r \<longleftrightarrow> equal_fold (hf_content_encoding r) ''gzip'' \<or>
     has_suffix (to_lower (fv_lower en) (pu_path u)) ''.gz''"

definition read_body :: "fetch_env \<Rightarrow> fetch_limits \<Rightarrow> parsed_url \<Rightarrow> http_final \<Rightarrow> fetch_error + bytes" where
  "read_body en lm u r =
     (let raw = limited (fl_max_compressed lm + 1) (hf_body r) in
      if is_gzip_reply en u r \<and> \<not> fv_gzip_ok en raw then Inl BadGzip
      else case read_all (if is_gzip_reply en u r then limited (fl_max_decompressed lm + 1) (fv_gzip en raw) else raw) of
        None \<Rightarrow> Inl BodyError
      | Some b \<Rightarrow> if int (length b) > fl_max_decompressed lm then Inl (PayloadTooBig (fl_max_decompressed lm)) else Inr b)"

text \<open>The checks on a downloaded body.\<close>

definition accept_body :: "fetch_env \<Rightarrow> fetch_request \<Rightarrow> fetch_result \<Rightarrow> bytes \<Rightarrow> fetch_result option \<times> fetch_error option" where
  "accept_body en rq res b =
     (let res1 = res\<lparr>fe_sha256 := hex_encode (fv_sha256 en b), fe_size := int (length b), fe_body := string_of_bytes b\<rparr> in
      if fr_expected_sha256 rq \<noteq> [] \<and> \<not> equal_fold (fr_expected_sha256 rq) (fe_sha256 res1)
      then (Some res1, Some (ChecksumMismatch (fr_expected_sha256 rq) (fe_sha256 res1)))
      else if looksLikeHTML (fv_lower en) (fe_body res1) then (Some res1, Some HTMLDocument)
      else (Some res1, None))"

definition Fetch :: "fetch_limits \<Rightarrow> fetch_env \<Rightarrow> fetch_request \<Rightarrow> fetch_result option \<times> fetch_error option" where
  "Fetch client_limits en rq =
     (let lm = (if fl_max_compressed (fr_limits rq) = 0 then client_limits else fr_limits rq) in
      case fv_parse en (fr_url rq) of
        None \<Rightarrow> (None, Some InvalidURL)
      | Some u \<Rightarrow>
          if pu_scheme u \<noteq> ''https'' then (None, Some (OnlyHTTPS (pu_scheme u)))
          else (case checkHost (fv_net en) (pu_host u) (fr_allow_private rq) of
            Some e \<Rightarrow> (None, Some (BlockedHost e))
          | None \<Rightarrow>
              (case follow en lm (fr_allow_private rq) (request_headers rq) 0 [] (fr_url rq) of
                 Inl e \<Rightarrow> (None, Some e)
               | Inr (_, r) \<Rightarrow>
                   let res = \<lparr>fe_not_modified = False, fe_status = hf_status r, fe_etag = hf_etag r,
                              fe_last_modified = hf_last_modified r, fe_body = [], fe_sha256 = [], fe_size = 0\<rparr> in
                   if hf_status r = 304 then (Some (res\<lparr>fe_not_modified := True\<rparr>), None)
                   else if hf_status r < 200 \<or> hf_status r \<ge> 300 then (Some res, Some (BadStatus (hf_status r)))
                   else (case read_body en lm u r of
                           Inl e \<Rightarrow> (Some res, Some e)
                         | Inr b \<Rightarrow> accept_body en rq res b))))"

definition GitHubRawURL :: "string \<Rightarrow> string \<Rightarrow> string \<Rightarrow> fetch_error + string" where
  "GitHubRawURL repo0 ref0 path0 =
     (let repo = trim_char CHR ''/'' (trim_space repo0) in
      if \<not> contains_str repo ''/'' then Inl (RepoFormat repo)
      else let ref = (if ref0 = [] then ''main'' else ref0); path = trim_prefix (trim_space path0) ''/'' in
        if path = [] then Inl PathRequired
        else if contains_str path ''..'' then Inl PathTraversal
        else Inr (''https://raw.githubusercontent.com/'' @ repo @ ''/'' @ ref @ ''/'' @ path))"

section \<open>Lemmas\<close>

text \<open>A URL the code may request: https, checked before, and dialled through the guard.\<close>

definition safe_url :: "fetch_env \<Rightarrow> bool \<Rightarrow> string \<Rightarrow> bool" where
  "safe_url en allow url \<longleftrightarrow> (\<exists>u. fv_parse en url = Some u \<and> pu_scheme u = ''https'' \<and> checkHost (fv_net en) (pu_host u) allow = None) \<and>
     dial_permitted (safe_dialer_policy (fv_net en) allow) (fv_dial_addr en url)"

lemma follow_safe:
  assumes "follow en lm allow hdrs hops seen url = Inr (urls, r)"
    and "\<exists>u. fv_parse en url = Some u \<and> pu_scheme u = ''https'' \<and> checkHost (fv_net en) (pu_host u) allow = None"
  shows "\<exists>new. urls = seen @ url # new \<and> (\<forall>x\<in>set (url # new). safe_url en allow x) \<and>
    hops + int (length new) \<le> max hops (fl_max_redirects lm) \<and> fv_serve en hdrs urls = Final r"
  using assms
proof (induction en lm allow hdrs hops seen url rule: follow.induct)
  case (1 en lm allow hdrs hops seen url)
  have ok: "dial_permitted (safe_dialer_policy (fv_net en) allow) (fv_dial_addr en url)"
    using 1(2) by (auto simp: follow.simps [of _ _ _ _ _ _ url] split: if_splits)
  with 1(3) have safe: "safe_url en allow url" by (simp add: safe_url_def)
  show ?case
  proof (cases "fv_serve en hdrs (seen @ [url])")
    case Unreachable
    with 1(2) ok show ?thesis by (simp add: follow.simps [of _ _ _ _ _ _ url])
  next
    case (Final x)
    with 1(2) ok safe show ?thesis by (auto simp: follow.simps [of _ _ _ _ _ _ url])
  next
    case (RedirectTo loc)
    with 1(2) ok obtain u where u: "fv_parse en loc = Some u" and c: "check_redirect en lm allow (hops + 1) u = None"
      and r: "follow en lm allow hdrs (hops + 1) (seen @ [url]) loc = Inr (urls, r)"
      by (auto simp: follow.simps [of _ _ _ _ _ _ url] split: option.splits)
    from c have c': "hops + 1 \<le> fl_max_redirects lm" "pu_scheme u = ''https''" "checkHost (fv_net en) (pu_host u) allow = None"
      by (auto simp: check_redirect_def split: if_splits)
    from 1(1) [OF _ RedirectTo u c r] ok u c' obtain new where n: "urls = (seen @ [url]) @ loc # new"
      "\<forall>x\<in>set (loc # new). safe_url en allow x" "hops + 1 + int (length new) \<le> fl_max_redirects lm"
      "fv_serve en hdrs urls = Final r" by (auto simp: max_def split: if_splits)
    then show ?thesis using safe by (intro exI [of _ "loc # new"]) auto
  qed
qed

lemma length_limited: "0 \<le> n \<Longrightarrow> int (length (fst (limited n b))) \<le> n"
  by (simp add: limited_def)

lemma read_body_bound: "read_body en lm u r = Inr b \<Longrightarrow> int (length b) \<le> fl_max_decompressed lm"
  by (auto simp: read_body_def Let_def split: if_splits option.splits)

lemma accept_body_Inr:
  assumes "accept_body en rq res b = (Some res', None)"
  shows "fe_body res' = string_of_bytes b \<and> fe_size res' = int (length b) \<and> fe_sha256 res' = hex_encode (fv_sha256 en b) \<and>
    fe_status res' = fe_status res \<and> fe_not_modified res' = fe_not_modified res \<and>
    (fr_expected_sha256 rq \<noteq> [] \<longrightarrow> equal_fold (fr_expected_sha256 rq) (fe_sha256 res')) \<and>
    \<not> looksLikeHTML (fv_lower en) (fe_body res')"
  using assms by (auto simp: accept_body_def Let_def split: if_splits)

text \<open>The limits a download runs under.\<close>

definition effective_limits :: "fetch_limits \<Rightarrow> fetch_request \<Rightarrow> fetch_limits" where
  "effective_limits cl rq = (if fl_max_compressed (fr_limits rq) = 0 then cl else fr_limits rq)"

lemma Fetch_accepted:
  assumes "Fetch cl en rq = (Some res, None)"
  shows "\<exists>u urls r. fv_parse en (fr_url rq) = Some u \<and> pu_scheme u = ''https'' \<and>
    checkHost (fv_net en) (pu_host u) (fr_allow_private rq) = None \<and>
    follow en (effective_limits cl rq) (fr_allow_private rq) (request_headers rq) 0 [] (fr_url rq) = Inr (urls, r) \<and>
    fe_status res = hf_status r \<and> (if hf_status r = 304 then fe_not_modified res \<and> fe_body res = []
      else 200 \<le> hf_status r \<and> hf_status r < 300 \<and>
        (\<exists>res0 b. \<not> fe_not_modified res0 \<and> fe_status res0 = hf_status r \<and>
           read_body en (effective_limits cl rq) u r = Inr b \<and> accept_body en rq res0 b = (Some res, None)))"
proof -
  from assms obtain u where u: "fv_parse en (fr_url rq) = Some u" "pu_scheme u = ''https''"
    "checkHost (fv_net en) (pu_host u) (fr_allow_private rq) = None"
    by (auto simp: Fetch_def Let_def split: option.splits if_splits)
  with assms obtain urls r where f: "follow en (effective_limits cl rq) (fr_allow_private rq) (request_headers rq) 0 [] (fr_url rq) = Inr (urls, r)"
    by (auto simp: Fetch_def Let_def effective_limits_def split: sum.splits)
  have shape: "\<And>b. accept_body en rq res0 b = (Some res, None) \<Longrightarrow> fe_status res = fe_status res0" for res0
    by (drule accept_body_Inr) simp
  show ?thesis
  proof (cases "hf_status r = 304")
    case True
    with assms u f show ?thesis by (auto simp: Fetch_def Let_def effective_limits_def)
  next
    case False
    with assms u f obtain b where b: "200 \<le> hf_status r" "hf_status r < 300" "read_body en (effective_limits cl rq) u r = Inr b"
      "accept_body en rq \<lparr>fe_not_modified = False, fe_status = hf_status r, fe_etag = hf_etag r,
         fe_last_modified = hf_last_modified r, fe_body = [], fe_sha256 = [], fe_size = 0\<rparr> b = (Some res, None)"
      by (auto simp: Fetch_def Let_def effective_limits_def split: if_splits sum.splits)
    from shape [OF b(4)] have "fe_status res = hf_status r" by simp
    moreover have "\<exists>res0 b. \<not> fe_not_modified res0 \<and> fe_status res0 = hf_status r \<and>
        read_body en (effective_limits cl rq) u r = Inr b \<and> accept_body en rq res0 b = (Some res, None)"
      by (intro exI conjI; (rule b(3,4))?) simp_all
    ultimately show ?thesis using False u f b(1,2) by (intro exI [of _ u] exI [of _ urls] exI [of _ r]) simp
  qed
qed

section \<open>Properties\<close>


text \<open>A world with one list behind a redirect, to run the code on.\<close>

definition demo_fetch_env :: fetch_env where
  "demo_fetch_env =
     \<lparr>fv_net = plain_net\<lparr>lookup_net_ip := (\<lambda>h. if h = ''lists.example'' then Some [AddrV4 0x08080808] else None)\<rparr>,
      fv_parse = (\<lambda>s. if s = ''https://lists.example/a'' \<or> s = ''https://lists.example/b''
        then Some \<lparr>pu_scheme = ''https'', pu_host = ''lists.example'', pu_path = ''/a''\<rparr> else None),
      fv_dial_addr = (\<lambda>_. ''8.8.8.8:443''),
      fv_serve = (\<lambda>_ urls. if last urls = ''https://lists.example/a'' then RedirectTo ''https://lists.example/b''
        else Final \<lparr>hf_status = 200, hf_etag = ''v1'', hf_last_modified = [], hf_content_encoding = [],
                    hf_body = (bytes_of_string ''example.com'', False)\<rparr>),
      fv_gzip_ok = (\<lambda>_. False), fv_gzip = (\<lambda>b. b), fv_sha256 = (\<lambda>b. take 1 b), fv_lower = (\<lambda>s. s)\<rparr>"

definition demo_fetch_request :: fetch_request where
  "demo_fetch_request = \<lparr>fr_url = ''https://lists.example/a'', fr_etag = [], fr_last_modified = [], fr_token = [],
     fr_expected_sha256 = ''65'', fr_limits = zero_limits, fr_allow_private = False\<rparr>"

definition demo_limits :: fetch_limits where
  "demo_limits = \<lparr>fl_max_compressed = 20, fl_max_decompressed = 30, fl_max_redirects = 1, fl_connect_timeout = 0, fl_total_timeout = 0\<rparr>"

lemma demo_fetch_dial: "dial_permitted (safe_dialer_policy (fv_net demo_fetch_env) False) (fv_dial_addr demo_fetch_env url)"
  by (simp add: dial_permitted_def safe_dialer_policy_def control_def demo_fetch_env_def plain_net_def is_blocked_v4 v4_ranges_def)

lemma demo_fetch_host: "checkHost (fv_net demo_fetch_env) ''lists.example'' False = None"
  by (simp add: checkHost_def check_addrs_def demo_fetch_env_def is_blocked_v4 v4_ranges_def)

abbreviation demo_list :: http_final where
  "demo_list \<equiv> \<lparr>hf_status = 200, hf_etag = ''v1'', hf_last_modified = [], hf_content_encoding = [],
     hf_body = (bytes_of_string ''example.com'', False)\<rparr>"

lemma demo_world:
  "url = ''https://lists.example/a'' \<or> url = ''https://lists.example/b'' \<Longrightarrow>
     fv_parse demo_fetch_env url = Some \<lparr>pu_scheme = ''https'', pu_host = ''lists.example'', pu_path = ''/a''\<rparr>"
  "fv_serve demo_fetch_env h (us @ [''https://lists.example/a'']) = RedirectTo ''https://lists.example/b''"
  "fv_serve demo_fetch_env h (us @ [''https://lists.example/b'']) = Final demo_list"
  "fv_sha256 demo_fetch_env b = take 1 b" "fv_lower demo_fetch_env s = s"
  by (auto simp: demo_fetch_env_def)

lemma demo_follow:
  "follow demo_fetch_env demo_limits False h 0 [] ''https://lists.example/a'' =
     Inr ([''https://lists.example/a'', ''https://lists.example/b''], demo_list)"
proof -
  have "check_redirect demo_fetch_env demo_limits False 1 \<lparr>pu_scheme = ''https'', pu_host = ''lists.example'', pu_path = ''/a''\<rparr> = None"
    by (simp add: check_redirect_def demo_fetch_host demo_limits_def)
  moreover have "follow demo_fetch_env demo_limits False h 1 [''https://lists.example/a''] ''https://lists.example/b'' =
     Inr ([''https://lists.example/a'', ''https://lists.example/b''], demo_list)"
    by (simp add: follow.simps demo_fetch_dial demo_world(3) [of _ "[u]" for u, simplified])
  ultimately show ?thesis
    by (subst follow.simps) (simp add: demo_fetch_dial demo_world(1) demo_world(2) [of _ "[]", simplified])
qed

lemma demo_fetch:
  "Fetch demo_limits demo_fetch_env demo_fetch_request =
     (Some \<lparr>fe_not_modified = False, fe_status = 200, fe_etag = ''v1'', fe_last_modified = [], fe_body = ''example.com'',
            fe_sha256 = ''65'', fe_size = 11\<rparr>, None)"
proof -
  have g: "\<not> is_gzip_reply demo_fetch_env \<lparr>pu_scheme = ''https'', pu_host = ''lists.example'', pu_path = ''/a''\<rparr> demo_list" by code_simp
  have b: "read_body demo_fetch_env demo_limits \<lparr>pu_scheme = ''https'', pu_host = ''lists.example'', pu_path = ''/a''\<rparr> demo_list =
      Inr (bytes_of_string ''example.com'')"
    using g by (simp add: read_body_def limited_def read_all_def demo_limits_def)
  have a: "accept_body demo_fetch_env demo_fetch_request
      \<lparr>fe_not_modified = False, fe_status = 200, fe_etag = ''v1'', fe_last_modified = [], fe_body = [], fe_sha256 = [], fe_size = 0\<rparr>
      (bytes_of_string ''example.com'') =
     (Some \<lparr>fe_not_modified = False, fe_status = 200, fe_etag = ''v1'', fe_last_modified = [], fe_body = ''example.com'',
            fe_sha256 = ''65'', fe_size = 11\<rparr>, None)" by code_simp
  have w: "fl_max_compressed (fr_limits demo_fetch_request) = 0" "fr_url demo_fetch_request = ''https://lists.example/a''"
    "fr_allow_private demo_fetch_request = False" by (simp_all add: demo_fetch_request_def zero_limits_def)
  show ?thesis using a b by (simp add: Fetch_def w demo_world(1) demo_fetch_host demo_follow Let_def)
qed


text \<open>
  A plain (not gzip) body longer than the compressed limit is not refused: it is cut to one byte more than the limit and the cut
  text is handed on as the whole list, whenever the decompressed limit is larger, as it is by default. The end of
  the list, possibly from the middle of a line, is lost without an error.
\<close>

theorem oversized_body_truncated:
  assumes "\<not> is_gzip_reply en u r" and "0 \<le> fl_max_compressed lm" and "fl_max_compressed lm < fl_max_decompressed lm"
    and "int (length (fst (hf_body r))) > fl_max_compressed lm"
  shows "read_body en lm u r = Inr (take (nat (fl_max_compressed lm + 1)) (fst (hf_body r)))"
  using assms by (simp add: read_body_def limited_def read_all_def Let_def)

theorem oversized_body_truncated_witness:
  "let r = \<lparr>hf_status = 200, hf_etag = [], hf_last_modified = [], hf_content_encoding = [],
            hf_body = (bytes_of_string ''ads.example.com'', False)\<rparr>;
       u = \<lparr>pu_scheme = ''https'', pu_host = ''lists.example'', pu_path = ''/a''\<rparr> in
   read_body demo_fetch_env (demo_limits\<lparr>fl_max_compressed := 9\<rparr>) u r = Inr (bytes_of_string ''ads.exampl'')"
  unfolding Let_def
  by (subst oversized_body_truncated) (code_simp | simp add: demo_limits_def bytes_of_string_def)+

text \<open>
  A repository source is turned into an address of the raw-content host and nothing else: the URL starts with
  that host, its repository part names an owner and a repository, and its path part is non-empty and free of parent
  references; otherwise it is refused with the reason.
\<close>

theorem GitHubRawURL_correct:
  "GitHubRawURL repo ref path = Inr url \<Longrightarrow>
     \<exists>own branch p. url = ''https://raw.githubusercontent.com/'' @ own @ ''/'' @ branch @ ''/'' @ p \<and>
       CHR ''/'' \<in> set own \<and> branch \<noteq> [] \<and> (ref \<noteq> [] \<longrightarrow> branch = ref) \<and> p \<noteq> [] \<and> \<not> contains_str p ''..''"
  by (rule exI [of _ "trim_char CHR ''/'' (trim_space repo)"], rule exI [of _ "if ref = [] then ''main'' else ref"],
      rule exI [of _ "trim_prefix (trim_space path) ''/''"])
    (simp add: GitHubRawURL_def Let_def contains_char_iff split: if_splits)

theorem GitHubRawURL_correct_witness:
  "GitHubRawURL ''a/b'' [] ''/l.txt'' = Inr ''https://raw.githubusercontent.com/a/b/main/l.txt'' \<and>
   (\<exists>own branch p. ''https://raw.githubusercontent.com/a/b/main/l.txt'' =
      ''https://raw.githubusercontent.com/'' @ own @ ''/'' @ branch @ ''/'' @ p \<and> CHR ''/'' \<in> set own)"
proof -
  have g: "GitHubRawURL ''a/b'' [] ''/l.txt'' = Inr ''https://raw.githubusercontent.com/a/b/main/l.txt''" by code_simp
  from GitHubRawURL_correct [OF g] g show ?thesis by blast
qed

end
