(* ===== verification/Rule_Pipeline.thy ===== *)
theory Rule_Pipeline
  imports Panel_API Rule_Fetcher Domain_Set
begin

text \<open>
  The update pipeline of rule sets (\<open>panel/internal/rules/pipeline.go\<close>) over its tables: fetch and parse every
  enabled source, merge, compare with the active version, store a version and activate it or leave it
  for approval. Rows have the columns of \<open>migrations/\<close> that the code reads or writes, with the keys and
  checks declared there. Messages are a datatype with what they name. The order in which the database returns
  entries depends on its collation, a parameter of the builder, as are the embedded
  presets and the network at the time of each download.
\<close>

section \<open>Tables\<close>

record rule_set_row =
  rs_id :: string
  rs_name :: string
  rs_description :: string
  rs_update_mode :: string
  rs_interval_sec :: int
  rs_allow_regex :: bool
  rs_priority :: int
  rs_manual_include :: "string list"
  rs_manual_exclude :: "string list"
  rs_active_version :: "string option"
  rs_last_fetch :: "int option"
  rs_version :: int
  rs_created :: int
  rs_updated :: int

record rule_source_row =
  rc_id :: string
  rc_rule_set :: string
  rc_name :: string
  rc_type :: string
  rc_url :: string
  rc_repo :: string
  rc_ref :: string
  rc_path :: string
  rc_mode :: string
  rc_expected_sha256 :: string
  rc_enabled :: bool
  rc_etag :: string
  rc_last_modified :: string
  rc_version :: int
  rc_created :: int
  rc_updated :: int

datatype load_error = PresetMissing string | RepoError fetch_error | NoURL | FetchError fetch_error | TooManyEntries int

datatype rule_warning =
    SourceFailed string load_error
  | LineSkipped string "string \<times> parse_error"
  | ListEmptied
  | RemovedMany int int int
  | AddedMany int int

record manifest_source =
  ms_id :: string
  ms_type :: string
  ms_url :: string
  ms_repo :: string
  ms_ref :: string
  ms_path :: string
  ms_hash :: string
  ms_entries :: int

record rule_version_row =
  rv_id :: string
  rv_rule_set :: string
  rv_sequence :: int
  rv_hash :: string
  rv_counts :: "string \<rightharpoonup> int"
  rv_status :: string
  rv_manifest :: "manifest_source list"
  rv_warnings :: "rule_warning list"
  rv_created :: int

record rule_fetch_row =
  ft_source :: string
  ft_status :: string
  ft_http_status :: int
  ft_hash :: string
  ft_size :: int
  ft_entries :: int
  ft_error :: "load_error option"
  ft_finished :: int

record rules_db =
  rt_sets :: "rule_set_row list"
  rt_sources :: "rule_source_row list"
  rt_versions :: "rule_version_row list"
  rt_entries :: "(string \<times> entry) list"
  rt_fetches :: "rule_fetch_row list"
  rt_services :: "(string \<times> string option) list"     \<comment> \<open>name and rule set of the services\<close>
  rt_audit :: "audit_row list"
  rt_events :: "event_row list"
  rt_idem :: "idem_row list"

section \<open>Parameters and results\<close>

record rule_thresholds =
  th_max_removed_percent :: int
  th_max_added :: int

definition DefaultThresholds :: rule_thresholds where
  "DefaultThresholds = \<lparr>th_max_removed_percent = 30, th_max_added = 1000\<rparr>"

record source_outcome =
  so_source_id :: string
  so_name :: string
  so_type :: string
  so_mode :: string
  so_status :: string
  so_http_status :: int
  so_entries :: int
  so_skipped :: int
  so_hash :: string
  so_error :: "load_error option"

record build_result =
  br_version_id :: string
  br_sequence :: int
  br_hash :: string
  br_status :: string
  br_unchanged :: bool
  br_counts :: "string \<rightharpoonup> int"
  br_added :: int
  br_removed :: int
  br_added_sample :: "string list"
  br_removed_sample :: "string list"
  br_warnings :: "rule_warning list"
  br_sources :: "source_outcome list"

record builder =
  bd_lib :: domain_lib
  bd_limits :: fetch_limits
  bd_thresholds :: rule_thresholds
  bd_allow_private :: bool
  bd_presets :: "string \<rightharpoonup> string"
  bd_world :: "string \<Rightarrow> nat \<Rightarrow> fetch_env"      \<comment> \<open>the network at the first and second download of a source\<close>
  bd_collate :: "entry list \<Rightarrow> entry list"     \<comment> \<open>ORDER BY kind, value\<close>

section \<open>Small helpers\<close>

definition sourceLabel :: "rule_source_row \<Rightarrow> string" where
  "sourceLabel s =
     (if rc_name s \<noteq> [] then rc_name s
      else if rc_repo s \<noteq> [] then rc_repo s @ ''@'' @ rc_ref s @ '':'' @ rc_path s
      else if rc_url s \<noteq> [] then rc_url s
      else rc_type s)"

definition sample :: "entry list \<Rightarrow> nat \<Rightarrow> string list" where
  "sample es n = map (\<lambda>e. Kind e @ '':'' @ Value e) (take n es)"

definition entries_of_version :: "builder \<Rightarrow> string \<Rightarrow> rules_db \<Rightarrow> entry list" where
  "entries_of_version b vid t = bd_collate b (map snd (filter (\<lambda>e. fst e = vid) (rt_entries t)))"

definition entriesOf :: "builder \<Rightarrow> string \<Rightarrow> (rules_db, entry list) sql" where
  "entriesOf b vid = Many (entries_of_version b vid)"

definition recordFetch :: "string \<Rightarrow> string \<Rightarrow> int \<Rightarrow> string \<Rightarrow> int \<Rightarrow> int \<Rightarrow> load_error option \<Rightarrow> (rules_db, unit) sql" where
  "recordFetch src status http hash sz n err =
     Exec (\<lambda>now _ t. if list_ex (\<lambda>s. rc_id s = src) (rt_sources t)
       then Inr (t\<lparr>rt_fetches := rt_fetches t @ [\<lparr>ft_source = src, ft_status = status, ft_http_status = http, ft_hash = hash,
              ft_size = sz, ft_entries = n, ft_error = err, ft_finished = now\<rparr>]\<rparr>)
       else Inl ErrConflict)"

section \<open>Loading a source\<close>

definition plain_request :: "builder \<Rightarrow> string \<Rightarrow> fetch_request" where
  "plain_request b url = \<lparr>fr_url = url, fr_etag = [], fr_last_modified = [], fr_token = [], fr_expected_sha256 = [],
     fr_limits = zero_limits, fr_allow_private = bd_allow_private b\<rparr>"

definition pinned_request :: "builder \<Rightarrow> rule_source_row \<Rightarrow> string \<Rightarrow> fetch_request" where
  "pinned_request b src url = (plain_request b url)\<lparr>fr_etag := rc_etag src, fr_last_modified := rc_last_modified src,
     fr_expected_sha256 := rc_expected_sha256 src\<rparr>"

text \<open>The download itself; the error comes with the HTTP status it was found at.\<close>

definition download :: "builder \<Rightarrow> rule_source_row \<Rightarrow> string \<Rightarrow> (load_error \<times> int) + fetch_result" where
  "download b src url =
     (case Fetch (bd_limits b) (bd_world b (rc_id src) 0) (pinned_request b src url) of
        (r, Some e) \<Rightarrow> Inl (FetchError e, case r of Some res \<Rightarrow> fe_status res | None \<Rightarrow> 0)
      | (None, None) \<Rightarrow> Inl (NoURL, 0)        \<comment> \<open>Fetch returns a result or an error\<close>
      | (Some res, None) \<Rightarrow>
          if fe_not_modified res
          then (case Fetch (bd_limits b) (bd_world b (rc_id src) 1) (plain_request b url) of
                  (_, Some e) \<Rightarrow> Inl (FetchError e, fe_status res)
                | (None, None) \<Rightarrow> Inl (NoURL, 0)
                | (Some res2, None) \<Rightarrow> Inr res2)
          else Inr res)"

definition set_validators :: "string \<Rightarrow> string \<Rightarrow> string \<Rightarrow> (rules_db, unit) sql" where
  "set_validators sid etag lm = Exec (\<lambda>now _ t. Inr (t\<lparr>rt_sources := update_rows (\<lambda>s. rc_id s = sid)
     (\<lambda>s. s\<lparr>rc_etag := etag, rc_last_modified := lm, rc_updated := now\<rparr>) (rt_sources t)\<rparr>))"

definition fetch_source :: "builder \<Rightarrow> rule_source_row \<Rightarrow> string \<Rightarrow> (rules_db, (load_error \<times> int) + (string \<times> string \<times> int)) sql" where
  "fetch_source b src url =
     (if url = [] then returnE (Inl (NoURL, 0))
      else case download b src url of
        Inl e \<Rightarrow> returnE (Inl e)
      | Inr res \<Rightarrow> ignoring (set_validators (rc_id src) (fe_etag res) (fe_last_modified res))
                     (returnE (Inr (fe_body res, fe_sha256 res, fe_status res))))"

definition load :: "builder \<Rightarrow> rule_source_row \<Rightarrow> (rules_db, (load_error \<times> int) + (string \<times> string \<times> int)) sql" where
  "load b src =
     (if rc_type src = ''preset'' then
        (case bd_presets b (rc_path src) of
           None \<Rightarrow> returnE (Inl (PresetMissing (rc_path src), 0))
         | Some p \<Rightarrow> returnE (Inr (p, Hash (bd_lib b) [], 0)))
      else if rc_type src = ''manual'' then returnE (Inr (rc_url src, [], 0))
      else if rc_type src = ''github_repo'' then
        (case GitHubRawURL (rc_repo src) (rc_ref src) (rc_path src) of
           Inl e \<Rightarrow> returnE (Inl (RepoError e, 0))
         | Inr u \<Rightarrow> fetch_source b src u)
      else fetch_source b src (rc_url src))"

section \<open>Building a candidate\<close>

record build_acc =
  ba_includes :: "entry list"
  ba_excludes :: "entry list"
  ba_ok :: int
  ba_failed :: int
  ba_warnings :: "rule_warning list"
  ba_sources :: "source_outcome list"
  ba_manifest :: "manifest_source list"

definition empty_build :: build_acc where
  "empty_build = \<lparr>ba_includes = [], ba_excludes = [], ba_ok = 0, ba_failed = 0, ba_warnings = [], ba_sources = [], ba_manifest = []\<rparr>"

definition outcome_of :: "rule_source_row \<Rightarrow> string \<Rightarrow> int \<Rightarrow> string \<Rightarrow> int \<Rightarrow> int \<Rightarrow> load_error option \<Rightarrow> source_outcome" where
  "outcome_of src status http hash n skipped err =
     \<lparr>so_source_id = rc_id src, so_name = sourceLabel src, so_type = rc_type src, so_mode = rc_mode src, so_status = status,
      so_http_status = http, so_entries = n, so_skipped = skipped, so_hash = hash, so_error = err\<rparr>"

definition add_warnings :: "string \<Rightarrow> (string \<times> parse_error) list \<Rightarrow> rule_warning list \<Rightarrow> rule_warning list" where
  "add_warnings name ws acc = foldl (\<lambda>a w. if length a < 50 then a @ [LineSkipped name w] else a) acc ws"

definition build_source :: "builder \<Rightarrow> parse_options \<Rightarrow> rule_source_row \<Rightarrow> build_acc \<Rightarrow> (rules_db, build_acc) sql" where
  "build_source b opts src acc =
     tryE (load b src) (\<lambda>lr. case lr of
       Inl (e, http) \<Rightarrow>
         ignoring (recordFetch (rc_id src) ''failed'' http [] 0 0 (Some e))
           (returnE (acc\<lparr>ba_failed := ba_failed acc + 1, ba_warnings := ba_warnings acc @ [SourceFailed (sourceLabel src) e],
              ba_sources := ba_sources acc @ [outcome_of src ''failed'' http [] 0 0 (Some e)]\<rparr>))
     | Inr (body, hash, http) \<Rightarrow>
         (case parse_lines (bd_lib b) body opts of
            (_, Some m) \<Rightarrow>
              ignoring (recordFetch (rc_id src) ''failed'' http hash (int (length body)) 0 (Some (TooManyEntries m)))
                (returnE (acc\<lparr>ba_failed := ba_failed acc + 1,
                   ba_sources := ba_sources acc @ [outcome_of src ''failed'' http hash 0 0 (Some (TooManyEntries m))]\<rparr>))
          | (parsed, None) \<Rightarrow>
              ignoring (recordFetch (rc_id src) ''ok'' http hash (int (length body)) (int (length (Entries parsed))) None)
                (returnE (acc\<lparr>ba_ok := ba_ok acc + 1,
                   ba_includes := (if rc_mode src = ''exclude'' then ba_includes acc else ba_includes acc @ Entries parsed),
                   ba_excludes := (if rc_mode src = ''exclude'' then ba_excludes acc @ Entries parsed else ba_excludes acc),
                   ba_warnings := add_warnings (sourceLabel src) (Warnings parsed) (ba_warnings acc),
                   ba_sources := ba_sources acc @ [outcome_of src ''ok'' http hash (int (length (Entries parsed))) (int (Skipped parsed)) None],
                   ba_manifest := ba_manifest acc @ [\<lparr>ms_id = rc_id src, ms_type = rc_type src, ms_url = rc_url src, ms_repo = rc_repo src,
                     ms_ref = rc_ref src, ms_path = rc_path src, ms_hash = hash, ms_entries = int (length (Entries parsed))\<rparr>]\<rparr>))))"

fun build_sources :: "builder \<Rightarrow> parse_options \<Rightarrow> rule_source_row list \<Rightarrow> build_acc \<Rightarrow> (rules_db, build_acc) sql" where
  "build_sources b opts [] acc = returnE acc"
| "build_sources b opts (s # ss) acc = tryE (build_source b opts s acc) (build_sources b opts ss)"

text \<open>The comparison with the active version: the warnings it adds, and whether a human has to look.\<close>

definition effective_thresholds :: "builder \<Rightarrow> rule_thresholds" where
  "effective_thresholds b = (if th_max_added (bd_thresholds b) = 0 then DefaultThresholds else bd_thresholds b)"

definition check_change :: "rule_thresholds \<Rightarrow> entry list \<Rightarrow> entry list \<Rightarrow> int \<Rightarrow> bool \<times> rule_warning list" where
  "check_change th prev effective failed =
     (let (added, removed) = Diff prev effective;
          emptied = (length prev > 0 \<and> length effective = 0);
          shrunk = (length prev > 0 \<and> int (length removed) * 100 > int (length prev) * th_max_removed_percent th);
          grown = (int (length added) > th_max_added th)
      in (emptied \<or> shrunk \<or> grown \<or> failed > 0,
          (if emptied then [ListEmptied] else []) @
          (if shrunk then [RemovedMany (int (length removed)) (int (length prev)) (th_max_removed_percent th)] else []) @
          (if grown then [AddedMany (int (length added)) (th_max_added th)] else [])))"

definition candidate_status :: "rule_set_row \<Rightarrow> entry list \<Rightarrow> entry list \<Rightarrow> bool \<Rightarrow> string" where
  "candidate_status rs prev effective suspicious =
     (if length prev = 0 \<and> length effective > 0 \<and> \<not> suspicious then ''active''
      else if rs_update_mode rs = ''auto_apply'' \<and> \<not> suspicious then ''active''
      else ''awaiting_approval'')"

section \<open>Storing a version\<close>

definition next_sequence :: "string \<Rightarrow> rules_db \<Rightarrow> int" where
  "next_sequence rid t = foldl max 0 (map rv_sequence (filter (\<lambda>v. rv_rule_set v = rid) (rt_versions t))) + 1"

definition insert_version :: "rule_version_row \<Rightarrow> (rules_db, string) sql" where
  "insert_version row = stmt (\<lambda>now u t.
     if list_ex (\<lambda>v. rv_id v = u) (rt_versions t) \<or>
        list_ex (\<lambda>v. rv_rule_set v = rv_rule_set row \<and> rv_sequence v = rv_sequence row) (rt_versions t) \<or>
        \<not> list_ex (\<lambda>s. rs_id s = rv_rule_set row) (rt_sets t)
     then Inl ErrConflict
     else Inr (u, t\<lparr>rt_versions := rt_versions t @ [row\<lparr>rv_id := u, rv_created := now\<rparr>]\<rparr>))"

definition copy_entries :: "string \<Rightarrow> entry list \<Rightarrow> (rules_db, unit) sql" where
  "copy_entries vid es = Exec (\<lambda>_ _ t.
     if distinct es \<and> list_all (\<lambda>e. Kind e \<in> {''exact'', ''suffix'', ''regex''} \<and> (vid, e) \<notin> set (rt_entries t)) es \<and>
        list_ex (\<lambda>v. rv_id v = vid) (rt_versions t)
     then Inr (t\<lparr>rt_entries := rt_entries t @ map (Pair vid) es\<rparr>) else Inl ErrConflict)"

definition set_version_status :: "(rule_version_row \<Rightarrow> bool) \<Rightarrow> string \<Rightarrow> (rules_db, unit) sql" where
  "set_version_status P st = Exec (\<lambda>_ _ t. Inr (t\<lparr>rt_versions := update_rows P (\<lambda>v. v\<lparr>rv_status := st\<rparr>) (rt_versions t)\<rparr>))"

text \<open>The foreign key of the active version is checked by the statement.\<close>

definition set_rule_set :: "string \<Rightarrow> string option \<Rightarrow> (int \<Rightarrow> rule_set_row \<Rightarrow> rule_set_row) \<Rightarrow> (rules_db, unit) sql" where
  "set_rule_set rid vid f = Exec (\<lambda>now _ t.
     if (case vid of Some v \<Rightarrow> list_ex (\<lambda>r. rv_id r = v) (rt_versions t) | None \<Rightarrow> True)
     then Inr (t\<lparr>rt_sets := update_rows (\<lambda>s. rs_id s = rid) (f now) (rt_sets t)\<rparr>) else Inl ErrConflict)"

definition touch_fetch :: "string \<Rightarrow> (rules_db, unit) sql" where
  "touch_fetch rid = set_rule_set rid None (\<lambda>now s. s\<lparr>rs_last_fetch := Some now\<rparr>)"

text \<open>The transaction that stores a candidate, the id left to the database.\<close>

definition store_candidate :: "string \<Rightarrow> rule_version_row \<Rightarrow> entry list \<Rightarrow> (rules_db, string \<times> int) sql" where
  "store_candidate rid row es =
     transaction
       (tryE (stmt (\<lambda>_ _ t. Inr (next_sequence rid t, t))) (\<lambda>seq.
        tryE (insert_version (row\<lparr>rv_rule_set := rid, rv_sequence := seq\<rparr>)) (\<lambda>vid.
        tryE (copy_entries vid es) (\<lambda>_.
        tryE (if rv_status row = ''active'' then
                tryE (set_version_status (\<lambda>v. rv_rule_set v = rid \<and> rv_id v \<noteq> vid \<and> rv_status v = ''active'') ''superseded'')
                  (\<lambda>_. set_rule_set rid (Some vid)
                     (\<lambda>now s. s\<lparr>rs_active_version := Some vid, rs_last_fetch := Some now, rs_updated := now\<rparr>))
              else touch_fetch rid) (\<lambda>_. returnE (vid, seq))))))"

section \<open>Build and Approve\<close>

definition ErrAllSourcesFailed :: go_error where
  "ErrAllSourcesFailed = PlainError ''every enabled source failed; the active rule set is unchanged''"

definition enabled_sources :: "string \<Rightarrow> rules_db \<Rightarrow> rule_source_row list" where
  "enabled_sources rid t = sort_key rc_created (filter (\<lambda>s. rc_rule_set s = rid \<and> rc_enabled s) (rt_sources t))"

definition version_hash :: "string \<Rightarrow> (rules_db, string) sql" where
  "version_hash vid = One (\<lambda>t. map rv_hash (filter (\<lambda>v. rv_id v = vid) (rt_versions t)))"

text \<open>The hash and the entries of the active version: a failed read counts as nothing.\<close>

definition previous :: "builder \<Rightarrow> rule_set_row \<Rightarrow> (rules_db, string \<times> entry list) sql" where
  "previous b rs =
     (case rs_active_version rs of
        None \<Rightarrow> returnE ([], [])
      | Some vid \<Rightarrow>
          attempt (version_hash vid) (\<lambda>h.
          attempt (entriesOf b vid) (\<lambda>es.
            returnE (case h of Inl _ \<Rightarrow> [] | Inr x \<Rightarrow> x, case es of Inl _ \<Rightarrow> [] | Inr x \<Rightarrow> x))))"

definition finish_build :: "builder \<Rightarrow> rule_set_row \<Rightarrow> build_acc \<Rightarrow> entry list \<Rightarrow> string \<Rightarrow> entry list \<Rightarrow> (rules_db, build_result) sql" where
  "finish_build b rs acc effective prevHash prev =
     (let hash = Hash (bd_lib b) effective;
          (added, removed) = Diff prev effective;
          res = \<lparr>br_version_id = [], br_sequence = 0, br_hash = hash, br_status = ''unchanged'', br_unchanged = True,
                 br_counts = Counts effective, br_added = int (length added), br_removed = int (length removed),
                 br_added_sample = sample added 25, br_removed_sample = sample removed 25, br_warnings = ba_warnings acc,
                 br_sources = ba_sources acc\<rparr>
      in if prevHash \<noteq> [] \<and> prevHash = hash then ignoring (touch_fetch (rs_id rs)) (returnE res)
         else let (suspicious, ws) = check_change (effective_thresholds b) prev effective (ba_failed acc);
                  status = candidate_status rs prev effective suspicious;
                  warnings = ba_warnings acc @ ws
              in tryE (store_candidate (rs_id rs)
                         \<lparr>rv_id = [], rv_rule_set = rs_id rs, rv_sequence = 0, rv_hash = hash, rv_counts = Counts effective, rv_status = status,
                          rv_manifest = ba_manifest acc, rv_warnings = warnings, rv_created = 0\<rparr> effective)
                   (\<lambda>(vid, seq). returnE (res\<lparr>br_version_id := vid, br_sequence := seq, br_status := status, br_unchanged := False,
                      br_warnings := warnings\<rparr>)))"

definition Build :: "builder \<Rightarrow> string \<Rightarrow> (rules_db, build_result) sql" where
  "Build b rid =
     tryE (One (\<lambda>t. filter (\<lambda>s. rs_id s = rid) (rt_sets t))) (\<lambda>rs.
     tryE (Many (enabled_sources rid)) (\<lambda>sources.
       let opts = \<lparr>AllowRegex = rs_allow_regex rs, MaxEntries = 0\<rparr> in
       tryE (build_sources b opts sources empty_build) (\<lambda>acc.
         let inc = Entries (fst (parse_lines (bd_lib b) (join_with [CHR 0x0A] (rs_manual_include rs)) opts));
             exc = Entries (fst (parse_lines (bd_lib b) (join_with [CHR 0x0A] (rs_manual_exclude rs)) opts))
         in if ba_ok acc = 0 \<and> ba_failed acc > 0 \<and> length inc = 0 then throwE ErrAllSourcesFailed
            else let effective = Merge (ba_includes acc @ inc) (ba_excludes acc @ exc)
                 in tryE (previous b rs) (\<lambda>(prevHash, prev). finish_build b rs acc effective prevHash prev))))"

definition Approve :: "string \<Rightarrow> string \<Rightarrow> (rules_db, unit) sql" where
  "Approve rid vid =
     transaction
       (attempt (One (\<lambda>t. map rv_status (filter (\<lambda>v. rv_id v = vid \<and> rv_rule_set v = rid) (rt_versions t)))) (\<lambda>st.
          case st of
            Inl _ \<Rightarrow> throwE ErrNotFound
          | Inr status \<Rightarrow>
              if status = ''rejected'' then throwE (PlainError ''this version is rejected and cannot be activated'')
              else tryE (set_version_status (\<lambda>v. rv_rule_set v = rid \<and> rv_status v = ''active'') ''superseded'') (\<lambda>_.
                   tryE (set_version_status (\<lambda>v. rv_id v = vid) ''active'') (\<lambda>_.
                   set_rule_set rid (Some vid)
                     (\<lambda>now s. s\<lparr>rs_active_version := Some vid, rs_updated := now, rs_version := rs_version s + 1\<rparr>)))))"

section \<open>What the transactions leave behind\<close>

definition stored_tables :: "string \<Rightarrow> string \<Rightarrow> rule_version_row \<Rightarrow> entry list \<Rightarrow> int \<Rightarrow> rules_db \<Rightarrow> rules_db" where
  "stored_tables rid vid row es now t =
     t\<lparr>rt_versions :=
         (if rv_status row = ''active''
          then update_rows (\<lambda>v. rv_rule_set v = rid \<and> rv_id v \<noteq> vid \<and> rv_status v = ''active'') (\<lambda>v. v\<lparr>rv_status := ''superseded''\<rparr>)
          else (\<lambda>vs. vs)) (rt_versions t @ [row]),
       rt_entries := rt_entries t @ map (Pair vid) es,
       rt_sets := update_rows (\<lambda>s. rs_id s = rid)
         (\<lambda>s. if rv_status row = ''active'' then s\<lparr>rs_active_version := Some vid, rs_last_fetch := Some now, rs_updated := now\<rparr>
              else s\<lparr>rs_last_fetch := Some now\<rparr>) (rt_sets t)\<rparr>"

lemma insert_version_Inr:
  assumes "insert_version row d = (Inr vid, d')"
  shows "vid \<notin> rv_id ` set (rt_versions (db_tables d)) \<and> rv_rule_set row \<in> rs_id ` set (rt_sets (db_tables d)) \<and>
    db_tables d' = (db_tables d)\<lparr>rt_versions := rt_versions (db_tables d) @ [row\<lparr>rv_id := vid, rv_created := db_now d\<rparr>]\<rparr> \<and>
    db_now d' = db_now d"
  using stmt_Inr [OF assms [unfolded insert_version_def]] by (auto simp: list_ex_iff image_iff intro: sym split: if_splits)

lemma Exec_now: "Exec f d = (Inr r, d') \<Longrightarrow> db_now d' = db_now d"
  unfolding Exec_def by (drule stmt_Inr) simp

lemma copy_entries_Inr:
  assumes "copy_entries vid es d = (Inr r, d')"
  shows "distinct es \<and> (\<forall>e\<in>set es. Kind e \<in> {''exact'', ''suffix'', ''regex''} \<and> (vid, e) \<notin> set (rt_entries (db_tables d))) \<and>
    db_tables d' = (db_tables d)\<lparr>rt_entries := rt_entries (db_tables d) @ map (Pair vid) es\<rparr> \<and> db_now d' = db_now d"
  using Exec_Inr [OF assms [unfolded copy_entries_def]] Exec_now [OF assms [unfolded copy_entries_def]]
  by (auto simp: list_all_iff split: if_splits)

lemma set_version_status_Inr:
  "set_version_status P st d = (Inr r, d') \<Longrightarrow>
     db_tables d' = (db_tables d)\<lparr>rt_versions := update_rows P (\<lambda>v. v\<lparr>rv_status := st\<rparr>) (rt_versions (db_tables d))\<rparr> \<and> db_now d' = db_now d"
  unfolding set_version_status_def by (frule Exec_now, drule Exec_Inr) simp

lemma set_rule_set_Inr:
  "set_rule_set rid vid f d = (Inr r, d') \<Longrightarrow>
     db_tables d' = (db_tables d)\<lparr>rt_sets := update_rows (\<lambda>s. rs_id s = rid) (f (db_now d)) (rt_sets (db_tables d))\<rparr>"
  unfolding set_rule_set_def by (drule Exec_Inr) (simp split: if_splits)

lemma store_candidate_Inr:
  assumes "store_candidate rid row es d = (Inr (vid, seq), d')"
  shows "vid \<notin> rv_id ` set (rt_versions (db_tables d)) \<and> rid \<in> rs_id ` set (rt_sets (db_tables d)) \<and> distinct es \<and>
    seq = next_sequence rid (db_tables d) \<and>
    (\<exists>now. db_tables d' = stored_tables rid vid (row\<lparr>rv_rule_set := rid, rv_sequence := seq, rv_id := vid, rv_created := now\<rparr>) es now (db_tables d))"
proof -
  from transaction_Inr [OF assms [unfolded store_candidate_def]] obtain e where
    body: "tryE (stmt (\<lambda>_ _ t. Inr (next_sequence rid t, t))) (\<lambda>seq.
        tryE (insert_version (row\<lparr>rv_rule_set := rid, rv_sequence := seq\<rparr>)) (\<lambda>vid.
        tryE (copy_entries vid es) (\<lambda>_.
        tryE (if rv_status row = ''active'' then
                tryE (set_version_status (\<lambda>v. rv_rule_set v = rid \<and> rv_id v \<noteq> vid \<and> rv_status v = ''active'') ''superseded'')
                  (\<lambda>_. set_rule_set rid (Some vid)
                     (\<lambda>now s. s\<lparr>rs_active_version := Some vid, rs_last_fetch := Some now, rs_updated := now\<rparr>))
              else touch_fetch rid) (\<lambda>_. returnE (vid, seq))))) (db_tick d) = (Inr (vid, seq), e)"
    and fin: "db_tables d' = db_tables e" by blast
  then obtain d1 d2 d3 u1 u2 where
    a: "stmt (\<lambda>_ _ t. Inr (next_sequence rid t, t)) (db_tick d) = (Inr seq, d1)"
    and i: "insert_version (row\<lparr>rv_rule_set := rid, rv_sequence := seq\<rparr>) d1 = (Inr vid, d2)"
    and c: "copy_entries vid es d2 = (Inr u1, d3)"
    and l: "(if rv_status row = ''active'' then
                tryE (set_version_status (\<lambda>v. rv_rule_set v = rid \<and> rv_id v \<noteq> vid \<and> rv_status v = ''active'') ''superseded'')
                  (\<lambda>_. set_rule_set rid (Some vid)
                     (\<lambda>now s. s\<lparr>rs_active_version := Some vid, rs_last_fetch := Some now, rs_updated := now\<rparr>))
              else touch_fetch rid) d3 = (Inr u2, e)"
    by (auto simp: tryE_Inr returnE_def)
  from stmt_Inr [OF a] have a': "seq = next_sequence rid (db_tables d)" "db_tables d1 = db_tables d" by simp_all
  note i' = insert_version_Inr [OF i] and c' = copy_entries_Inr [OF c]
  have "db_tables e = stored_tables rid vid (row\<lparr>rv_rule_set := rid, rv_sequence := seq, rv_id := vid, rv_created := db_now d1\<rparr>) es (db_now d1) (db_tables d)"
  proof (cases "rv_status row = ''active''")
    case True
    with l obtain d4 u3 where s: "set_version_status (\<lambda>v. rv_rule_set v = rid \<and> rv_id v \<noteq> vid \<and> rv_status v = ''active'') ''superseded'' d3 = (Inr u3, d4)"
      and r: "set_rule_set rid (Some vid) (\<lambda>now s. s\<lparr>rs_active_version := Some vid, rs_last_fetch := Some now, rs_updated := now\<rparr>) d4 = (Inr u2, e)"
      by (auto simp: tryE_Inr)
    show ?thesis using True a' i' c' set_version_status_Inr [OF s] set_rule_set_Inr [OF r] by (simp add: stored_tables_def)
  next
    case False
    with l have r: "set_rule_set rid None (\<lambda>now s. s\<lparr>rs_last_fetch := Some now\<rparr>) d3 = (Inr u2, e)" by (simp add: touch_fetch_def)
    show ?thesis using False a' i' c' set_rule_set_Inr [OF r] by (simp add: stored_tables_def)
  qed
  with fin a' i' c' show ?thesis by auto
qed

definition approved_tables :: "string \<Rightarrow> string \<Rightarrow> int \<Rightarrow> rules_db \<Rightarrow> rules_db" where
  "approved_tables rid vid now t =
     t\<lparr>rt_versions := update_rows (\<lambda>v. rv_id v = vid) (\<lambda>v. v\<lparr>rv_status := ''active''\<rparr>)
         (update_rows (\<lambda>v. rv_rule_set v = rid \<and> rv_status v = ''active'') (\<lambda>v. v\<lparr>rv_status := ''superseded''\<rparr>) (rt_versions t)),
       rt_sets := update_rows (\<lambda>s. rs_id s = rid)
         (\<lambda>s. s\<lparr>rs_active_version := Some vid, rs_updated := now, rs_version := rs_version s + 1\<rparr>) (rt_sets t)\<rparr>"

lemma Approve_Inr:
  assumes "Approve rid vid d = (Inr u, d')"
  shows "(\<exists>v\<in>set (rt_versions (db_tables d)). rv_id v = vid \<and> rv_rule_set v = rid \<and> rv_status v \<noteq> ''rejected'') \<and>
    (\<exists>now. db_tables d' = approved_tables rid vid now (db_tables d))"
proof -
  let ?q = "\<lambda>t. map rv_status (filter (\<lambda>v. rv_id v = vid \<and> rv_rule_set v = rid) (rt_versions t))"
  from transaction_Inr [OF assms [unfolded Approve_def]] obtain e where
    body: "attempt (One ?q) (\<lambda>st.
          case st of
            Inl _ \<Rightarrow> throwE ErrNotFound
          | Inr status \<Rightarrow>
              if status = ''rejected'' then throwE (PlainError ''this version is rejected and cannot be activated'')
              else tryE (set_version_status (\<lambda>v. rv_rule_set v = rid \<and> rv_status v = ''active'') ''superseded'') (\<lambda>_.
                   tryE (set_version_status (\<lambda>v. rv_id v = vid) ''active'') (\<lambda>_.
                   set_rule_set rid (Some vid)
                     (\<lambda>now s. s\<lparr>rs_active_version := Some vid, rs_updated := now, rs_version := rs_version s + 1\<rparr>)))) (db_tick d) = (Inr u, e)"
    and fin: "db_tables d' = db_tables e" by blast
  obtain st d1 where q: "One ?q (db_tick d) = (st, d1)" by fastforce
  with body obtain status where st: "st = Inr status" and nr: "status \<noteq> ''rejected''"
    by (cases st) (auto simp: attempt_def throwE_def split: if_splits)
  from One_Inr [OF q [unfolded st]] have r: "\<exists>v\<in>set (rt_versions (db_tables d)). rv_id v = vid \<and> rv_rule_set v = rid \<and> rv_status v \<noteq> ''rejected''"
    and t1: "db_tables d1 = db_tables d" using nr by (auto simp: map_eq_Cons_conv filter_eq_Cons_iff)
  from body q st nr obtain d2 d3 u1 u2 where
    a: "set_version_status (\<lambda>v. rv_rule_set v = rid \<and> rv_status v = ''active'') ''superseded'' d1 = (Inr u1, d2)"
    and b: "set_version_status (\<lambda>v. rv_id v = vid) ''active'' d2 = (Inr u2, d3)"
    and c: "set_rule_set rid (Some vid) (\<lambda>now s. s\<lparr>rs_active_version := Some vid, rs_updated := now, rs_version := rs_version s + 1\<rparr>) d3 = (Inr u, e)"
    by (auto simp: attempt_def tryE_Inr)
  have "db_tables e = approved_tables rid vid (db_now d3) (db_tables d)"
    using t1 set_version_status_Inr [OF a] set_version_status_Inr [OF b] set_rule_set_Inr [OF c] by (simp add: approved_tables_def)
  with r fin show ?thesis by auto
qed

section \<open>The invariant of the tables\<close>

text \<open>
  Keys are unique, references resolve, a version that is active is the one its rule set points at, and
  what a rule set points at is one of its own versions, active unless it was rejected afterwards.
\<close>

definition keys_ok :: "rules_db \<Rightarrow> bool" where
  "keys_ok t \<longleftrightarrow> distinct (map rs_id (rt_sets t)) \<and> distinct (map rv_id (rt_versions t)) \<and> distinct (rt_entries t) \<and>
     rv_rule_set ` set (rt_versions t) \<subseteq> rs_id ` set (rt_sets t) \<and> fst ` set (rt_entries t) \<subseteq> rv_id ` set (rt_versions t)"

definition pointers :: "rules_db \<Rightarrow> (string \<times> string option) set" where
  "pointers t = (\<lambda>s. (rs_id s, rs_active_version s)) ` set (rt_sets t)"

definition statuses :: "rules_db \<Rightarrow> (string \<times> string \<times> string) set" where
  "statuses t = (\<lambda>v. (rv_id v, rv_rule_set v, rv_status v)) ` set (rt_versions t)"

definition pointer_ok :: "rules_db \<Rightarrow> bool" where
  "pointer_ok t \<longleftrightarrow>
     (\<forall>sid vid. (sid, Some vid) \<in> pointers t \<longrightarrow> (vid, sid, ''active'') \<in> statuses t \<or> (vid, sid, ''rejected'') \<in> statuses t) \<and>
     (\<forall>vid sid. (vid, sid, ''active'') \<in> statuses t \<longrightarrow> (sid, Some vid) \<in> pointers t)"

definition rules_wf :: "rules_db \<Rightarrow> bool" where
  "rules_wf t \<longleftrightarrow> keys_ok t \<and> pointer_ok t"

lemma pointers_keep:
  assumes "\<And>s. rs_id (f s) = rs_id s" and "\<And>s. rs_active_version (f s) = rs_active_version s"
  shows "(\<lambda>s. (rs_id s, rs_active_version s)) ` set (update_rows P f ss) = (\<lambda>s. (rs_id s, rs_active_version s)) ` set ss"
proof -
  have "map (\<lambda>s. (rs_id s, rs_active_version s)) (update_rows P f ss) = map (\<lambda>s. (rs_id s, rs_active_version s)) ss"
    by (rule map_update_rows) (simp add: assms)
  from arg_cong [OF this, of set] show ?thesis by simp
qed

lemma pointers_set:
  assumes "\<And>s. rs_id (f s) = rs_id s" and "\<And>s. rs_active_version (f s) = Some vid"
  shows "(\<lambda>s. (rs_id s, rs_active_version s)) ` set (update_rows (\<lambda>s. rs_id s = rid) f ss) =
    {p \<in> (\<lambda>s. (rs_id s, rs_active_version s)) ` set ss. fst p \<noteq> rid} \<union> (if rid \<in> rs_id ` set ss then {(rid, Some vid)} else {})"
  by (induction ss) (auto simp: assms)

lemma statuses_set:
  "(\<lambda>v. (rv_id v, rv_rule_set v, rv_status v)) ` set (update_rows P (\<lambda>v. v\<lparr>rv_status := st\<rparr>) vs) =
    (\<lambda>v. (rv_id v, rv_rule_set v, if P v then st else rv_status v)) ` set vs"
  by (induction vs) auto

lemma rules_wf_cong:
  "rules_wf t \<Longrightarrow> rt_sets t' = rt_sets t \<Longrightarrow> rt_versions t' = rt_versions t \<Longrightarrow> rt_entries t' = rt_entries t \<Longrightarrow> rules_wf t'"
  by (simp add: rules_wf_def keys_ok_def pointer_ok_def pointers_def statuses_def)

lemma distinct_id_eq: "distinct (map f xs) \<Longrightarrow> x \<in> set xs \<Longrightarrow> y \<in> set xs \<Longrightarrow> f x = f y \<Longrightarrow> x = y"
  by (meson distinct_map inj_onD)

lemma keys_ok_stored:
  assumes "keys_ok t" and "vid \<notin> rv_id ` set (rt_versions t)" and "rid \<in> rs_id ` set (rt_sets t)" and "distinct es"
    and "rv_id row = vid" and "rv_rule_set row = rid"
  shows "keys_ok (stored_tables rid vid row es now t)"
proof -
  let ?t = "stored_tables rid vid row es now t"
  have v: "map rv_id (rt_versions ?t) = map rv_id (rt_versions t) @ [vid]" "map rv_rule_set (rt_versions ?t) = map rv_rule_set (rt_versions t) @ [rid]"
    using assms(5,6) by (simp_all add: stored_tables_def map_update_rows)
  have s: "map rs_id (rt_sets ?t) = map rs_id (rt_sets t)" by (simp add: stored_tables_def map_update_rows)
  have e: "rt_entries ?t = rt_entries t @ map (Pair vid) es" by (simp add: stored_tables_def)
  have new: "distinct (rt_entries ?t)"
    using assms(1,2,4) by (force simp: e keys_ok_def distinct_map inj_on_def)
  have "rv_rule_set ` set (rt_versions ?t) \<subseteq> rs_id ` set (rt_sets ?t)"
    using assms(1,3) v(2) s by (simp add: keys_ok_def flip: set_map)
  moreover have "fst ` set (rt_entries ?t) \<subseteq> rv_id ` set (rt_versions ?t)"
  proof -
    have "rv_id ` set (rt_versions ?t) = insert vid (rv_id ` set (rt_versions t))" using v(1) by (metis list.set_map set_append Un_commute insert_is_Un list.set(1,2))
    then show ?thesis using assms(1) e by (auto simp: keys_ok_def)
  qed
  ultimately show ?thesis using assms(1,2) new v(1) s by (simp add: keys_ok_def)
qed

text \<open>Moving the pointer of one rule set to a version that is now its only active one.\<close>

lemma pointer_ok_move:
  assumes ok: "pointer_ok t" and p: "pointers t' = {p \<in> pointers t. fst p \<noteq> rid} \<union> {(rid, Some vid)}"
    and a: "\<And>i r. (i, r, ''active'') \<in> statuses t' \<longleftrightarrow> (i = vid \<and> r = rid) \<or> (r \<noteq> rid \<and> (i, r, ''active'') \<in> statuses t)"
    and b: "\<And>i r. r \<noteq> rid \<Longrightarrow> (i, r, ''rejected'') \<in> statuses t \<Longrightarrow> (i, r, ''rejected'') \<in> statuses t'"
  shows "pointer_ok t'"
  unfolding pointer_ok_def
proof (intro conjI allI impI)
  fix sid w assume "(sid, Some w) \<in> pointers t'"
  then consider "sid = rid" "w = vid" | "sid \<noteq> rid" "(sid, Some w) \<in> pointers t" unfolding p by auto
  then show "(w, sid, ''active'') \<in> statuses t' \<or> (w, sid, ''rejected'') \<in> statuses t'"
  proof cases
    case 1
    then show ?thesis by (simp add: a)
  next
    case 2
    with ok have "(w, sid, ''active'') \<in> statuses t \<or> (w, sid, ''rejected'') \<in> statuses t" by (simp add: pointer_ok_def)
    with 2 b show ?thesis by (auto simp: a)
  qed
next
  fix w sid assume "(w, sid, ''active'') \<in> statuses t'"
  with ok show "(sid, Some w) \<in> pointers t'" unfolding p a by (auto simp: pointer_ok_def)
qed

lemma pointer_ok_stored:
  assumes wf: "rules_wf t" and new: "vid \<notin> rv_id ` set (rt_versions t)" and rid: "rid \<in> rs_id ` set (rt_sets t)"
    and row: "rv_id row = vid" "rv_rule_set row = rid"
  shows "pointer_ok (stored_tables rid vid row es now t)"
proof -
  let ?t = "stored_tables rid vid row es now t"
  have ok: "pointer_ok t" using wf by (simp add: rules_wf_def)
  show ?thesis
  proof (cases "rv_status row = ''active''")
    case True
    let ?sup = "\<lambda>v. rv_rule_set v = rid \<and> rv_id v \<noteq> vid \<and> rv_status v = ''active''"
    have p: "pointers ?t = {p \<in> pointers t. fst p \<noteq> rid} \<union> {(rid, Some vid)}"
      using True rid by (simp add: stored_tables_def pointers_def pointers_set)
    have "rt_versions ?t = update_rows ?sup (\<lambda>v. v\<lparr>rv_status := ''superseded''\<rparr>) (rt_versions t) @ [row]"
      using True row by (simp add: stored_tables_def update_rows_def)
    then have "statuses ?t = insert (vid, rid, ''active'')
        ((\<lambda>v. (rv_id v, rv_rule_set v, if ?sup v then ''superseded'' else rv_status v)) ` set (rt_versions t))"
      using True row by (simp add: statuses_def statuses_set)
    also have "(\<lambda>v. (rv_id v, rv_rule_set v, if ?sup v then ''superseded'' else rv_status v)) ` set (rt_versions t) =
        (\<lambda>(i, r, st). (i, r, if r = rid \<and> st = ''active'' then ''superseded'' else st)) ` statuses t"
      using new by (force simp: statuses_def image_image intro: image_cong)
    finally have s: "statuses ?t = insert (vid, rid, ''active'')
        ((\<lambda>(i, r, st). (i, r, if r = rid \<and> st = ''active'' then ''superseded'' else st)) ` statuses t)" .
    have b: "r \<noteq> rid \<Longrightarrow> (i, r, st) \<in> statuses t \<Longrightarrow> (i, r, st) \<in> statuses ?t" for i r st
      unfolding s by (force simp: image_iff)
    have a: "(i, r, ''active'') \<in> statuses ?t \<longleftrightarrow> (i = vid \<and> r = rid) \<or> (r \<noteq> rid \<and> (i, r, ''active'') \<in> statuses t)" for i r
      using b [of r i "''active''"] unfolding s by (auto split: if_splits)
    show ?thesis by (rule pointer_ok_move [OF ok p a b])
  next
    case False
    have "pointers ?t = pointers t" using False by (simp add: stored_tables_def pointers_def pointers_keep)
    moreover have "statuses ?t = insert (vid, rid, rv_status row) (statuses t)" using False row by (simp add: stored_tables_def statuses_def)
    ultimately show ?thesis using False ok by (auto simp: pointer_ok_def)
  qed
qed

lemma rules_wf_store_candidate [preserves_rules]: "preserves rules_wf (store_candidate rid row es)"
  unfolding preserves_def
proof (intro allI impI)
  fix d :: "rules_db db" assume wf: "rules_wf (db_tables d)"
  obtain r d' where run: "store_candidate rid row es d = (r, d')" by fastforce
  show "rules_wf (db_tables (snd (store_candidate rid row es d)))"
  proof (cases r)
    case (Inl e)
    with run wf show ?thesis by (auto simp: store_candidate_def dest!: transaction_Inl)
  next
    case (Inr x)
    obtain vid seq where x: "x = (vid, seq)" by fastforce
    from store_candidate_Inr [OF run [unfolded Inr x]] obtain now where
      "vid \<notin> rv_id ` set (rt_versions (db_tables d))" "rid \<in> rs_id ` set (rt_sets (db_tables d))" "distinct es"
      "db_tables d' = stored_tables rid vid (row\<lparr>rv_rule_set := rid, rv_sequence := seq, rv_id := vid, rv_created := now\<rparr>) es now (db_tables d)"
      by blast
    with wf run show ?thesis
      by (simp add: rules_wf_def keys_ok_stored pointer_ok_stored [unfolded rules_wf_def])
  qed
qed

lemma image_status:
  assumes "A \<noteq> B"
  shows "(i, r, A) \<in> (\<lambda>(i, r, st). (i, r, if i = vid then A else if r = rid \<and> st = A then B else st)) ` S \<longleftrightarrow>
    (\<exists>st. (i, r, st) \<in> S \<and> (i = vid \<or> (st = A \<and> r \<noteq> rid)))" (is "?l \<longleftrightarrow> ?r")
proof
  assume ?l
  then obtain st where "(i, r, st) \<in> S" "A = (if i = vid then A else if r = rid \<and> st = A then B else st)" by auto
  with assms show ?r by (auto split: if_splits)
next
  assume ?r
  then obtain st where "(i, r, st) \<in> S" "i = vid \<or> (st = A \<and> r \<noteq> rid)" by blast
  then show ?l by (intro image_eqI [of _ _ "(i, r, st)"]) auto
qed
lemma rules_wf_approved:
  assumes wf: "rules_wf t" and v: "v \<in> set (rt_versions t)" "rv_id v = vid" "rv_rule_set v = rid"
  shows "rules_wf (approved_tables rid vid now t)"
proof -
  let ?t = "approved_tables rid vid now t"
  have keys: "distinct (map rv_id (rt_versions t))" and rid: "rid \<in> rs_id ` set (rt_sets t)" and ok: "pointer_ok t"
    using wf v by (auto simp: rules_wf_def keys_ok_def)
  have "map rs_id (rt_sets ?t) = map rs_id (rt_sets t)" "map rv_id (rt_versions ?t) = map rv_id (rt_versions t)"
    "map rv_rule_set (rt_versions ?t) = map rv_rule_set (rt_versions t)" "rt_entries ?t = rt_entries t"
    by (simp_all add: approved_tables_def map_update_rows)
  then have k: "keys_ok ?t" using wf unfolding rules_wf_def keys_ok_def by (metis list.set_map)
  have p: "pointers ?t = {p \<in> pointers t. fst p \<noteq> rid} \<union> {(rid, Some vid)}"
    using rid by (simp add: approved_tables_def pointers_def pointers_set)
  let ?f = "\<lambda>(i, r, st). (i, r, if i = vid then ''active'' else if r = rid \<and> st = ''active'' then ''superseded'' else st)"
  have s: "statuses ?t = ?f ` statuses t"
  proof -
    have "(\<lambda>v. (rv_id v, rv_rule_set v, rv_status v)) ` set (update_rows (\<lambda>v. rv_id v = vid) (\<lambda>v. v\<lparr>rv_status := ''active''\<rparr>)
         (update_rows (\<lambda>v. rv_rule_set v = rid \<and> rv_status v = ''active'') (\<lambda>v. v\<lparr>rv_status := ''superseded''\<rparr>) vs)) =
       ?f ` (\<lambda>v. (rv_id v, rv_rule_set v, rv_status v)) ` set vs" for vs by (induction vs) auto
    then show ?thesis by (simp add: approved_tables_def statuses_def)
  qed
  have one: "r = rid" if "(vid, r, st) \<in> statuses t" for r st
    using that v distinct_id_eq [OF keys] by (auto simp: statuses_def)
  have in_t: "(vid, rid, rv_status v) \<in> statuses t" using v by (force simp: statuses_def)
  have m: "(i, r, ''active'') \<in> ?f ` statuses t \<longleftrightarrow> (\<exists>st. (i, r, st) \<in> statuses t \<and> (i = vid \<or> (st = ''active'' \<and> r \<noteq> rid)))" for i r
    by (rule image_status) simp
  have a: "(i, r, ''active'') \<in> statuses ?t \<longleftrightarrow> (i = vid \<and> r = rid) \<or> (r \<noteq> rid \<and> (i, r, ''active'') \<in> statuses t)" for i r
    unfolding s m using one in_t by blast
  have b: "(i, r, ''rejected'') \<in> statuses ?t" if "r \<noteq> rid" "(i, r, ''rejected'') \<in> statuses t" for i r
    unfolding s using that one by (force simp: image_iff)
  have "pointer_ok ?t" by (rule pointer_ok_move [OF ok p a b])
  with k show ?thesis by (simp add: rules_wf_def)
qed

lemma rules_wf_Approve [preserves_rules]: "preserves rules_wf (Approve rid vid)"
  unfolding preserves_def
proof (intro allI impI)
  fix d :: "rules_db db" assume wf: "rules_wf (db_tables d)"
  obtain r d' where run: "Approve rid vid d = (r, d')" by fastforce
  show "rules_wf (db_tables (snd (Approve rid vid d)))"
  proof (cases r)
    case (Inl e)
    with run wf show ?thesis by (auto simp: Approve_def dest!: transaction_Inl)
  next
    case (Inr x)
    from Approve_Inr [OF run [unfolded Inr]] show ?thesis using wf run by (auto intro: rules_wf_approved)
  qed
qed

text \<open>The statements that do not touch keys, statuses or pointers.\<close>

lemma rules_wf_recordFetch [preserves_rules]: "preserves rules_wf (recordFetch s st h hs sz n e)"
  unfolding recordFetch_def by (rule preserves_Exec) (auto split: if_splits elim: rules_wf_cong)

lemma rules_wf_set_validators [preserves_rules]: "preserves rules_wf (set_validators s e l)"
  unfolding set_validators_def by (rule preserves_Exec) (auto elim: rules_wf_cong)

lemma rules_wf_touch_fetch [preserves_rules]: "preserves rules_wf (touch_fetch rid)"
  unfolding touch_fetch_def set_rule_set_def
proof (rule preserves_Exec)
  fix now u t t' assume wf: "rules_wf t"
    and "(if case None of None \<Rightarrow> True | Some v \<Rightarrow> list_ex (\<lambda>r. rv_id r = v) (rt_versions t)
          then Inr (t\<lparr>rt_sets := update_rows (\<lambda>s. rs_id s = rid) (\<lambda>s. s\<lparr>rs_last_fetch := Some now\<rparr>) (rt_sets t)\<rparr>)
          else Inl ErrConflict) = Inr t'"
  then have t': "t' = t\<lparr>rt_sets := update_rows (\<lambda>s. rs_id s = rid) (\<lambda>s. s\<lparr>rs_last_fetch := Some now\<rparr>) (rt_sets t)\<rparr>" by simp
  have "map rs_id (rt_sets t') = map rs_id (rt_sets t)" by (simp add: t' map_update_rows)
  moreover have "pointers t' = pointers t" "statuses t' = statuses t" by (simp_all add: t' pointers_def pointers_keep statuses_def)
  ultimately show "rules_wf t'" using wf unfolding rules_wf_def keys_ok_def pointer_ok_def by (simp add: t' flip: set_map)
qed

lemma rules_wf_load [preserves_rules]: "preserves rules_wf (load b src)"
  unfolding load_def fetch_source_def by (intro preserves_rules)

lemma rules_wf_build_source [preserves_rules]: "preserves rules_wf (build_source b opts src acc)"
  unfolding build_source_def by (intro preserves_rules)

lemma rules_wf_build_sources [preserves_rules]: "preserves rules_wf (build_sources b opts srcs acc)"
  by (induction srcs arbitrary: acc) (auto intro!: preserves_rules)

lemma rules_wf_previous [preserves_rules]: "preserves rules_wf (previous b rs)"
  unfolding previous_def version_hash_def entriesOf_def by (intro preserves_rules)

lemma rules_wf_finish_build [preserves_rules]: "preserves rules_wf (finish_build b rs acc es h prev)"
  unfolding finish_build_def Let_def by (intro preserves_rules)

lemma rules_wf_Build [preserves_rules]: "preserves rules_wf (Build b rid)"
  unfolding Build_def Let_def by (intro preserves_rules)

section \<open>What a build does\<close>

text \<open>Until the transaction, a build touches only the fetch history and the validators of its sources.\<close>

abbreviation core_is :: "rules_db \<Rightarrow> rules_db \<Rightarrow> bool" where
  "core_is t0 t \<equiv> rt_sets t = rt_sets t0 \<and> rt_versions t = rt_versions t0 \<and> rt_entries t = rt_entries t0"

lemma core_recordFetch [preserves_rules]: "preserves (core_is t0) (recordFetch s st h hs sz n e)"
  unfolding recordFetch_def by (rule preserves_Exec) (auto split: if_splits)

lemma core_set_validators [preserves_rules]: "preserves (core_is t0) (set_validators s e l)"
  unfolding set_validators_def by (rule preserves_Exec) auto

lemma core_build_sources [preserves_rules]: "preserves (core_is t0) (build_sources b opts srcs acc)"
  by (induction srcs arbitrary: acc) (auto simp: build_source_def load_def fetch_source_def intro!: preserves_rules)

lemma core_previous [preserves_rules]: "preserves (core_is t0) (previous b rs)"
  unfolding previous_def version_hash_def entriesOf_def by (intro preserves_rules)

lemma core_step: "m d = (r, d') \<Longrightarrow> (\<And>t. preserves (core_is t) m) \<Longrightarrow> core_is t (db_tables d) \<Longrightarrow> core_is t (db_tables d')"
  using preservesD [of "core_is t" m d] by simp

lemma steady_build_source [steady_rules]: "steady (build_source b opts src acc)"
  unfolding build_source_def load_def fetch_source_def recordFetch_def set_validators_def by (intro steady_rules)

lemma steady_build_sources [steady_rules]: "steady (build_sources b opts srcs acc)"
proof (induction srcs arbitrary: acc)
  case Nil
  show ?case by (simp add: steady_rules)
next
  case (Cons s ss)
  then show ?case unfolding build_sources.simps by (intro steady_rules)
qed

text \<open>The counter of failed sources agrees with the reported outcomes.\<close>

definition failures_counted :: "build_acc \<Rightarrow> bool" where
  "failures_counted acc \<longleftrightarrow> ba_failed acc = int (length (filter (\<lambda>u. so_status u \<noteq> ''ok'') (ba_sources acc)))"

lemma build_source_counted:
  assumes "build_source b opts src acc d = (Inr acc', d')" and "failures_counted acc"
  shows "failures_counted acc'"
proof -
  from assms(1) obtain lr d1 where l: "load b src d = (Inr lr, d1)" by (auto simp: build_source_def tryE_Inr)
  show ?thesis
  proof (cases lr)
    case (Inl e)
    with assms l show ?thesis
      by (cases e) (auto simp: build_source_def tryE_def ignoring_returnE failures_counted_def outcome_of_def)
  next
    case (Inr x)
    obtain body hash http where x: "x = (body, hash, http)" by (cases x)
    obtain parsed m where p: "parse_lines (bd_lib b) body opts = (parsed, m)" by fastforce
    from assms l Inr x p show ?thesis
      by (cases m) (auto simp: build_source_def tryE_def ignoring_returnE failures_counted_def outcome_of_def)
  qed
qed

lemma build_sources_counted:
  "build_sources b opts srcs acc d = (Inr acc', d') \<Longrightarrow> failures_counted acc \<Longrightarrow> failures_counted acc'"
proof (induction srcs arbitrary: acc d)
  case Nil
  then show ?case by (simp add: returnE_def)
next
  case (Cons s ss)
  then show ?case by (auto simp: tryE_Inr dest: build_source_counted)
qed

text \<open>What the two manual lists of a rule set parse to.\<close>

definition manual_entries :: "builder \<Rightarrow> rule_set_row \<Rightarrow> string list \<Rightarrow> entry list" where
  "manual_entries b rs ls = Entries (fst (parse_lines (bd_lib b) (join_with [CHR 0x0A] ls) \<lparr>AllowRegex = rs_allow_regex rs, MaxEntries = 0\<rparr>))"

definition effective_list :: "builder \<Rightarrow> rule_set_row \<Rightarrow> build_acc \<Rightarrow> entry list" where
  "effective_list b rs acc =
     Merge (ba_includes acc @ manual_entries b rs (rs_manual_include rs)) (ba_excludes acc @ manual_entries b rs (rs_manual_exclude rs))"

lemma Build_phases:
  assumes "Build b rid d = (r, d')"
  shows "(\<exists>e. r = Inl e \<and> core_is (db_tables d) (db_tables d')) \<or>
    (\<exists>rs acc ph prev d1. rs \<in> set (rt_sets (db_tables d)) \<and> rs_id rs = rid \<and> failures_counted acc \<and> core_is (db_tables d) (db_tables d1) \<and>
       (healthy d \<longrightarrow> prev = (case rs_active_version rs of None \<Rightarrow> [] | Some v \<Rightarrow> entries_of_version b v (db_tables d))) \<and>
       finish_build b rs acc (effective_list b rs acc) ph prev d1 = (r, d'))"
proof -
  let ?q = "\<lambda>t. filter (\<lambda>s. rs_id s = rid) (rt_sets t)"
  obtain r1 d1 where 1: "One ?q d = (r1, d1)" by fastforce
  have c1: "core_is (db_tables d) (db_tables d1)" by (rule core_step [of "One ?q", OF 1]) (simp_all add: preserves_rules)
  show ?thesis
  proof (cases r1)
    case (Inl e)
    with 1 c1 assms show ?thesis by (auto simp: Build_def tryE_def)
  next
    case (Inr rs)
    from One_Inr [OF 1 [unfolded Inr]] have rs: "rs \<in> set (rt_sets (db_tables d))" "rs_id rs = rid"
      by (auto simp: filter_eq_Cons_iff)
    obtain r2 d2 where 2: "Many (enabled_sources rid) d1 = (r2, d2)" by fastforce
    have c2: "core_is (db_tables d) (db_tables d2)" by (rule core_step [of "Many (enabled_sources rid)", OF 2]) (simp_all add: preserves_rules c1)
    show ?thesis
    proof (cases r2)
      case Inl2: (Inl e)
      with 1 2 Inr c2 assms show ?thesis by (auto simp: Build_def tryE_def)
    next
      case Inr2: (Inr srcs)
      let ?o = "\<lparr>AllowRegex = rs_allow_regex rs, MaxEntries = 0\<rparr>"
      obtain r3 d3 where 3: "build_sources b ?o srcs empty_build d2 = (r3, d3)" by fastforce
      have c3: "core_is (db_tables d) (db_tables d3)" by (rule core_step [of "build_sources b ?o srcs empty_build", OF 3]) (simp_all add: preserves_rules c2)
      have h3: "healthy d \<longrightarrow> healthy d3"
        using 1 2 3 by (metis healthy_step steady_typed(1,2) steady_build_sources)
      show ?thesis
      proof (cases r3)
        case Inl3: (Inl e)
        with 1 2 3 Inr Inr2 c3 assms show ?thesis by (auto simp: Build_def tryE_def Let_def)
      next
        case Inr3: (Inr acc)
        have f: "failures_counted acc" using build_sources_counted [OF 3 [unfolded Inr3]] by (simp add: failures_counted_def empty_build_def)
        show ?thesis
        proof (cases "ba_ok acc = 0 \<and> ba_failed acc > 0 \<and> length (manual_entries b rs (rs_manual_include rs)) = 0")
          case True
          with 1 2 3 Inr Inr2 Inr3 c3 assms show ?thesis by (auto simp: Build_def tryE_def Let_def throwE_def manual_entries_def)
        next
          case False
          obtain r4 d4 where 4: "previous b rs d3 = (r4, d4)" by fastforce
          have c4: "core_is (db_tables d) (db_tables d4)" by (rule core_step [of "previous b rs", OF 4]) (simp_all add: preserves_rules c3)
          from 4 obtain ph prev where r4: "r4 = Inr (ph, prev)"
            by (cases "rs_active_version rs") (auto simp: previous_def returnE_def attempt_def split: prod.splits)
          have pv: "healthy d \<longrightarrow> prev = (case rs_active_version rs of None \<Rightarrow> [] | Some v \<Rightarrow> entries_of_version b v (db_tables d))"
          proof
            assume "healthy d"
            with h3 have h: "healthy d3" by simp
            show "prev = (case rs_active_version rs of None \<Rightarrow> [] | Some v \<Rightarrow> entries_of_version b v (db_tables d))"
            proof (cases "rs_active_version rs")
              case None
              with 4 r4 show ?thesis by (auto simp: previous_def returnE_def)
            next
              case (Some v)
              obtain rh dh where vh: "version_hash v d3 = (rh, dh)" by fastforce
              have "core_is (db_tables d3) (db_tables dh)" by (rule core_step [of "version_hash v", OF vh]) (simp_all add: version_hash_def preserves_rules)
              moreover have "healthy dh" by (rule healthy_step [of "version_hash v", OF _ h vh]) (simp add: version_hash_def steady_rules)
              ultimately obtain de where "entriesOf b v dh = (Inr (entries_of_version b v (db_tables d)), de)"
                using c3 Many_healthy [of dh "entries_of_version b v"] by (auto simp: entriesOf_def entries_of_version_def)
              with 4 r4 Some vh show ?thesis by (auto simp: previous_def attempt_def returnE_def)
            qed
          qed
          have "finish_build b rs acc (effective_list b rs acc) ph prev d4 = (r, d')"
            using False 1 2 3 4 r4 Inr Inr2 Inr3 assms by (auto simp: Build_def tryE_def Let_def effective_list_def manual_entries_def)
          with rs f c4 pv show ?thesis by blast
        qed
      qed
    qed
  qed
qed

lemma finish_build_Inr:
  assumes "finish_build b rs acc eff ph prev d = (Inr res, d')"
  shows "(ph \<noteq> [] \<and> ph = Hash (bd_lib b) eff \<and> br_unchanged res \<and> br_status res = ''unchanged'' \<and>
      rt_versions (db_tables d') = rt_versions (db_tables d) \<and> rt_entries (db_tables d') = rt_entries (db_tables d) \<and>
      pointers (db_tables d') = pointers (db_tables d)) \<or>
    (\<not> br_unchanged res \<and> br_sources res = ba_sources acc \<and>
     br_status res = candidate_status rs prev eff (fst (check_change (effective_thresholds b) prev eff (ba_failed acc))) \<and>
     (\<exists>row. store_candidate (rs_id rs) row eff d = (Inr (br_version_id res, br_sequence res), d') \<and> rv_status row = br_status res \<and>
        rv_hash row = Hash (bd_lib b) eff))"
proof (cases "ph \<noteq> [] \<and> ph = Hash (bd_lib b) eff")
  case True
  obtain r1 d1 where t: "touch_fetch (rs_id rs) d = (r1, d1)" by fastforce
  have "rt_versions (db_tables d1) = rt_versions (db_tables d) \<and> rt_entries (db_tables d1) = rt_entries (db_tables d) \<and>
      pointers (db_tables d1) = pointers (db_tables d)"
  proof (cases r1)
    case (Inl e)
    have "db_tables d1 = db_tables d" by (rule Exec_Inl [OF t [unfolded touch_fetch_def set_rule_set_def Inl]])
    then show ?thesis by simp
  next
    case (Inr u)
    from set_rule_set_Inr [OF t [unfolded touch_fetch_def Inr]] show ?thesis by (simp add: pointers_def pointers_keep)
  qed
  with assms True t show ?thesis by (auto simp: finish_build_def Let_def ignoring_returnE split: prod.splits)
next
  case False
  obtain added removed where df: "Diff prev eff = (added, removed)" by fastforce
  obtain sus ws where ch: "check_change (effective_thresholds b) prev eff (ba_failed acc) = (sus, ws)" by fastforce
  let ?row = "\<lparr>rv_id = [], rv_rule_set = rs_id rs, rv_sequence = 0, rv_hash = Hash (bd_lib b) eff, rv_counts = Counts eff,
     rv_status = candidate_status rs prev eff sus, rv_manifest = ba_manifest acc, rv_warnings = ba_warnings acc @ ws, rv_created = 0\<rparr>"
  from assms False df ch obtain vid seq where st: "store_candidate (rs_id rs) ?row eff d = (Inr (vid, seq), d')"
    and res: "br_version_id res = vid" "br_sequence res = seq" "br_status res = candidate_status rs prev eff sus"
      "\<not> br_unchanged res" "br_sources res = ba_sources acc"
    by (auto simp: finish_build_def Let_def tryE_Inr returnE_def)
  from st res ch show ?thesis by (intro disjI2 conjI exI [of _ ?row]) simp_all
qed

lemma finish_build_Inl:
  assumes "finish_build b rs acc eff ph prev d = (Inl e, d')"
  shows "db_tables d' = db_tables d"
proof (cases "ph \<noteq> [] \<and> ph = Hash (bd_lib b) eff")
  case True
  with assms show ?thesis by (auto simp: finish_build_def Let_def ignoring_returnE split: prod.splits)
next
  case False
  with assms obtain rid row where "store_candidate rid row eff d = (Inl e, d')"
    by (auto simp: finish_build_def Let_def tryE_Inl returnE_def split: prod.splits)
  then show ?thesis unfolding store_candidate_def by (rule transaction_Inl)
qed

text \<open>The hypothesis on the collation: ordering rows neither loses nor invents any.\<close>

definition collation_ok :: "builder \<Rightarrow> bool" where
  "collation_ok b \<longleftrightarrow> (\<forall>es. mset (bd_collate b es) = mset es)"

definition version_entries :: "string \<Rightarrow> rules_db \<Rightarrow> entry set" where
  "version_entries vid t = {e. (vid, e) \<in> set (rt_entries t)}"

lemma entries_of_version_set:
  assumes "collation_ok b" and "distinct (rt_entries t)"
  shows "distinct (entries_of_version b vid t)" "set (entries_of_version b vid t) = version_entries vid t"
proof -
  let ?es = "map snd (filter (\<lambda>e. fst e = vid) (rt_entries t))"
  have m: "mset (bd_collate b ?es) = mset ?es" using assms(1) by (simp add: collation_ok_def)
  have "distinct ?es" using assms(2) by (auto simp: distinct_map inj_on_def)
  with m show "distinct (entries_of_version b vid t)" unfolding entries_of_version_def by (metis mset_eq_imp_distinct_iff)
  from m have "set (bd_collate b ?es) = set ?es" by (rule mset_eq_setD)
  then show "set (entries_of_version b vid t) = version_entries vid t" by (force simp: entries_of_version_def version_entries_def)
qed

lemma Diff_lengths:
  assumes "Diff old new = (added, removed)" and "distinct old" and "distinct new"
  shows "length added = card (set new - set old)" "length removed = card (set old - set new)"
proof -
  have "distinct added" "distinct removed" using assms by (auto simp: Diff_def Let_def)
  with set_Diff [OF assms(1)] show "length added = card (set new - set old)" "length removed = card (set old - set new)"
    by (metis distinct_card)+
qed

lemma stored_entries:
  assumes "keys_ok t" and "vid \<notin> rv_id ` set (rt_versions t)"
  shows "version_entries vid (stored_tables rid vid row es now t) = set es"
  using assms by (force simp: version_entries_def stored_tables_def keys_ok_def)

lemma stored_pointers:
  assumes "rid \<in> rs_id ` set (rt_sets t)"
  shows "pointers (stored_tables rid vid row es now t) =
    (if rv_status row = ''active'' then {p \<in> pointers t. fst p \<noteq> rid} \<union> {(rid, Some vid)} else pointers t)"
  using assms by (simp add: stored_tables_def pointers_def pointers_keep pointers_set)

section \<open>Properties\<close>

text \<open>
  Property C29. A build that fails for any reason, at any statement, leaves the rule sets with their active versions, all
  versions and all entries exactly as they were.
\<close>

theorem Build_failure_keeps_active:
  assumes "Build b rid d = (Inl e, d')"
  shows "rt_sets (db_tables d') = rt_sets (db_tables d) \<and> rt_versions (db_tables d') = rt_versions (db_tables d) \<and>
    rt_entries (db_tables d') = rt_entries (db_tables d)"
  using Build_phases [OF assms] by (auto dest: finish_build_Inl)

text \<open>Two rule sets to run the code on: one without a version, one that waits for approvals.\<close>

definition demo_set :: "string \<Rightarrow> string \<Rightarrow> string option \<Rightarrow> rule_set_row" where
  "demo_set i mode act = \<lparr>rs_id = i, rs_name = i, rs_description = [], rs_update_mode = mode, rs_interval_sec = 300, rs_allow_regex = False,
     rs_priority = 100, rs_manual_include = [], rs_manual_exclude = [], rs_active_version = act, rs_last_fetch = None, rs_version = 1,
     rs_created = 0, rs_updated = 0\<rparr>"

definition demo_source :: "string \<Rightarrow> string \<Rightarrow> string \<Rightarrow> rule_source_row" where
  "demo_source i rid body = \<lparr>rc_id = i, rc_rule_set = rid, rc_name = i, rc_type = ''manual'', rc_url = body, rc_repo = [], rc_ref = [], rc_path = [],
     rc_mode = ''include'', rc_expected_sha256 = [], rc_enabled = True, rc_etag = [], rc_last_modified = [], rc_version = 1, rc_created = 0,
     rc_updated = 0\<rparr>"

definition demo_version :: "string \<Rightarrow> string \<Rightarrow> rule_version_row" where
  "demo_version i rid = \<lparr>rv_id = i, rv_rule_set = rid, rv_sequence = 1, rv_hash = ''h'', rv_counts = Map.empty, rv_status = ''active'',
     rv_manifest = [], rv_warnings = [], rv_created = 0\<rparr>"

definition demo_rules :: rules_db where
  "demo_rules = \<lparr>rt_sets = [demo_set ''s1'' ''auto_apply'' None, demo_set ''s2'' ''manual_approve'' (Some ''v1'')],
     rt_sources = [demo_source ''c1'' ''s1'' ''a.example'', demo_source ''c2'' ''s2'' ''new.example''],
     rt_versions = [demo_version ''v1'' ''s2''], rt_entries = [(''v1'', Entry ''exact'' ''old.example'')],
     rt_fetches = [], rt_services = [], rt_audit = [], rt_events = [], rt_idem = []\<rparr>"

definition demo_builder :: builder where
  "demo_builder = \<lparr>bd_lib = plain_lib, bd_limits = demo_limits, bd_thresholds = DefaultThresholds, bd_allow_private = False,
     bd_presets = Map.empty, bd_world = (\<lambda>_ _. demo_fetch_env), bd_collate = Sort\<rparr>"

lemma demo_first_build: "(case Build demo_builder ''s1'' (demo_db demo_rules) of (Inr res, d') \<Rightarrow>
    br_status res = ''active'' \<and> br_version_id res = ''id-5'' \<and> rt_entries (db_tables d') =
      [(''v1'', Entry ''exact'' ''old.example''), (''id-5'', Entry ''exact'' ''a.example'')] | _ \<Rightarrow> False)"
  by code_simp

lemma demo_rules_wf: "rules_wf demo_rules"
  by (simp add: rules_wf_def keys_ok_def pointer_ok_def pointers_def statuses_def demo_rules_def demo_set_def demo_version_def)

lemma demo_healthy: "healthy (demo_db t)"
  by (simp add: healthy_def demo_db_def)

theorem Build_failure_keeps_active_witness:
  "rt_sets (db_tables (snd (Build demo_builder ''nope'' (demo_db demo_rules)))) = rt_sets demo_rules"
proof -
  have "case fst (Build demo_builder ''nope'' (demo_db demo_rules)) of Inl e \<Rightarrow> e = ErrNotFound | Inr _ \<Rightarrow> False" by code_simp
  then have "fst (Build demo_builder ''nope'' (demo_db demo_rules)) = Inl ErrNotFound" by (simp split: sum.splits)
  then have "Build demo_builder ''nope'' (demo_db demo_rules) = (Inl ErrNotFound, snd (Build demo_builder ''nope'' (demo_db demo_rules)))"
    by (metis prod.collapse)
  from Build_failure_keeps_active [OF this] show ?thesis by (simp add: demo_db_def)
qed

text \<open>The entries a rule set routes by.\<close>

definition active_entries :: "rule_set_row \<Rightarrow> rules_db \<Rightarrow> entry set" where
  "active_entries rs t = (case rs_active_version rs of None \<Rightarrow> {} | Some v \<Rightarrow> version_entries v t)"

lemma activation_guard:
  assumes "candidate_status rs prev eff (fst (check_change th prev eff failed)) = ''active''" and "distinct prev" and "distinct eff"
  shows "failed \<le> 0 \<and> int (card (set eff - set prev)) \<le> th_max_added th \<and>
    (prev \<noteq> [] \<longrightarrow> eff \<noteq> [] \<and> int (card (set prev - set eff)) * 100 \<le> int (length prev) * th_max_removed_percent th) \<and>
    (prev = [] \<and> eff \<noteq> [] \<or> rs_update_mode rs = ''auto_apply'')"
proof -
  obtain added removed where df: "Diff prev eff = (added, removed)" by fastforce
  from assms(1) have ns: "\<not> fst (check_change th prev eff failed)" and m: "prev = [] \<and> eff \<noteq> [] \<or> rs_update_mode rs = ''auto_apply''"
    by (auto simp: candidate_status_def split: if_splits)
  from ns df have "\<not> (prev \<noteq> [] \<and> eff = [])" "\<not> (prev \<noteq> [] \<and> int (length removed) * 100 > int (length prev) * th_max_removed_percent th)"
    "\<not> int (length added) > th_max_added th" "\<not> failed > 0" by (auto simp: check_change_def Let_def)
  with Diff_lengths [OF df assms(2,3)] m show ?thesis by auto
qed



text \<open>
  What the operator excludes by hand never reaches the list a build makes, whatever the sources say, and
  what the operator includes by hand reaches it unless an exclusion covers it.
\<close>

theorem manual_lists_apply:
  "(\<forall>e\<in>set (manual_entries b rs (rs_manual_exclude rs)). e \<notin> set (effective_list b rs acc)) \<and>
   (\<forall>e\<in>set (manual_entries b rs (rs_manual_include rs)).
      e \<in> set (effective_list b rs acc) \<longleftrightarrow> merge_keeps (ba_excludes acc @ manual_entries b rs (rs_manual_exclude rs)) e)"
  by (auto simp: effective_list_def set_Merge merge_keeps_def)

theorem manual_lists_apply_witness:
  "let rs = (demo_set ''s'' ''auto_apply'' None)\<lparr>rs_manual_include := [''a.example'', ''b.example''], rs_manual_exclude := [''b.example'']\<rparr> in
   Entry ''exact'' ''b.example'' \<notin> set (effective_list demo_builder rs empty_build) \<and>
   Entry ''exact'' ''a.example'' \<in> set (effective_list demo_builder rs empty_build)"
proof -
  let ?rs = "(demo_set ''s'' ''auto_apply'' None)\<lparr>rs_manual_include := [''a.example'', ''b.example''], rs_manual_exclude := [''b.example'']\<rparr>"
  have m: "Entry ''exact'' ''b.example'' \<in> set (manual_entries demo_builder ?rs (rs_manual_exclude ?rs))"
    "Entry ''exact'' ''a.example'' \<in> set (manual_entries demo_builder ?rs (rs_manual_include ?rs))"
    "merge_keeps (ba_excludes empty_build @ manual_entries demo_builder ?rs (rs_manual_exclude ?rs)) (Entry ''exact'' ''a.example'')"
    by code_simp+
  show ?thesis using manual_lists_apply [of demo_builder ?rs empty_build] m unfolding Let_def by blast
qed

text \<open>
  A source of mode \<open>exclude\<close> overrides what the operator includes by hand: the entry is dropped.
\<close>

theorem source_exclusion_beats_manual:
  assumes "e \<in> set (ba_excludes acc)"
  shows "e \<notin> set (effective_list b rs acc)"
  using assms by (auto simp: effective_list_def set_Merge merge_keeps_def)

theorem source_exclusion_beats_manual_witness:
  "let rs = (demo_set ''s'' ''auto_apply'' None)\<lparr>rs_manual_include := [''a.example'']\<rparr>;
       acc = empty_build\<lparr>ba_excludes := [Entry ''exact'' ''a.example'']\<rparr> in
   Entry ''exact'' ''a.example'' \<in> set (manual_entries demo_builder rs (rs_manual_include rs)) \<and>
   Entry ''exact'' ''a.example'' \<notin> set (effective_list demo_builder rs acc)"
proof -
  let ?rs = "(demo_set ''s'' ''auto_apply'' None)\<lparr>rs_manual_include := [''a.example'']\<rparr>"
  have "Entry ''exact'' ''a.example'' \<in> set (manual_entries demo_builder ?rs (rs_manual_include ?rs))" by code_simp
  then show ?thesis using source_exclusion_beats_manual [of "Entry ''exact'' ''a.example''" "empty_build\<lparr>ba_excludes := [Entry ''exact'' ''a.example'']\<rparr>" demo_builder ?rs]
    unfolding Let_def by simp
qed

text \<open>
  If the previous entries cannot be read, the build takes them for empty: the comparison is skipped, and a list that
  needs an approval is replaced without one. The same build asks for the approval when the read succeeds.
\<close>

theorem unread_previous_skips_approval:
  "(case Build demo_builder ''s2'' (demo_db demo_rules) of (Inr res, d') \<Rightarrow> br_status res = ''awaiting_approval'' | _ \<Rightarrow> False) \<and>
   (case Build demo_builder ''s2'' ((demo_db demo_rules)\<lparr>db_fail := (\<lambda>n. n = 4)\<rparr>) of
      (Inr res, d') \<Rightarrow> br_status res = ''active'' \<and> map rs_active_version (rt_sets (db_tables d')) = [None, Some (br_version_id res)]
    | _ \<Rightarrow> False)"
  by code_simp

text \<open>
  After a 304 the list is downloaded again without the pinned checksum, so whatever the second answer holds is taken for
  the pinned list.
\<close>

theorem checksum_pin_skipped_after_304:
  assumes "Fetch (bd_limits b) (bd_world b (rc_id src) 0) (pinned_request b src url) = (Some res, None)" and "fe_not_modified res"
    and "Fetch (bd_limits b) (bd_world b (rc_id src) 1) (plain_request b url) = (Some res2, None)"
  shows "download b src url = Inr res2 \<and> fr_expected_sha256 (plain_request b url) = []"
  using assms by (simp add: download_def plain_request_def)

definition demo_304_env :: fetch_env where
  "demo_304_env = demo_fetch_env\<lparr>fv_serve := (\<lambda>_ _. Final \<lparr>hf_status = 304, hf_etag = [], hf_last_modified = [],
     hf_content_encoding = [], hf_body = ([], False)\<rparr>)\<rparr>"

definition demo_304_builder :: builder where
  "demo_304_builder = demo_builder\<lparr>bd_allow_private := True,
     bd_world := (\<lambda>_ n. if n = 0 then demo_304_env else demo_fetch_env)\<rparr>"

theorem checksum_pin_skipped_after_304_witness:
  "case download demo_304_builder ((demo_source ''c'' ''s'' [])\<lparr>rc_expected_sha256 := ''ff''\<rparr>) ''https://lists.example/b'' of
     Inr res \<Rightarrow> fe_body res = ''example.com'' \<and> fe_sha256 res = ''65'' | Inl _ \<Rightarrow> False"
proof -
  let ?b = "demo_304_builder" and ?src = "(demo_source ''c'' ''s'' [])\<lparr>rc_expected_sha256 := ''ff''\<rparr>" and ?u = "''https://lists.example/b''"
  have 1: "Fetch (bd_limits ?b) (bd_world ?b (rc_id ?src) 0) (pinned_request ?b ?src ?u) =
      (Some \<lparr>fe_not_modified = True, fe_status = 304, fe_etag = [], fe_last_modified = [], fe_body = [], fe_sha256 = [], fe_size = 0\<rparr>, None)"
    by code_simp
  have 2: "Fetch (bd_limits ?b) (bd_world ?b (rc_id ?src) 1) (plain_request ?b ?u) =
      (Some \<lparr>fe_not_modified = False, fe_status = 200, fe_etag = ''v1'', fe_last_modified = [], fe_body = ''example.com'',
             fe_sha256 = ''65'', fe_size = 11\<rparr>, None)" by code_simp
  show ?thesis using checksum_pin_skipped_after_304 [OF 1 _ 2] by simp
qed

end
