(* ===== verification/Rule_Admin.thy ===== *)
theory Rule_Admin
  imports Rule_Pipeline
begin

text \<open>
  The rule-set endpoints of the panel (\<open>panel/internal/api/rulesets.go\<close>) over the tables of the pipeline. A request body is the
  decoded struct, \<^term>\<open>None\<close> when decoding fails; JSON encoders of rows are parameters, collected in a \<open>rule_env\<close>.
  The statements carry the constraints of the schema: unique names, checks, foreign keys and their cascades.
\<close>

section \<open>Environment and requests\<close>

record rule_env =
  rn_api :: api_env
  rn_builder :: builder
  rn_set_json :: "rule_set_row \<Rightarrow> json"
  rn_source_json :: "rule_source_row \<Rightarrow> json"
  rn_build_json :: "build_result \<Rightarrow> json"

record rule_set_request =
  rr_name :: string
  rr_description :: string
  rr_update_mode :: string
  rr_interval_sec :: int
  rr_allow_regex :: bool
  rr_priority :: int
  rr_manual_include :: "string list"
  rr_manual_exclude :: "string list"

record rule_set_patch =
  rp_name :: "string option"
  rp_description :: "string option"
  rp_update_mode :: "string option"
  rp_interval_sec :: "int option"
  rp_allow_regex :: "bool option"
  rp_priority :: "int option"
  rp_manual_include :: "string list option"
  rp_manual_exclude :: "string list option"

record source_request =
  sq_name :: string
  sq_type :: string
  sq_url :: string
  sq_repo :: string
  sq_ref :: string
  sq_path :: string
  sq_mode :: string
  sq_expected_sha256 :: string
  sq_body :: string
  sq_enabled :: "bool option"

record approve_request =
  ap_version_id :: string
  ap_reject :: bool

definition put_audit :: "(audit_row list \<Rightarrow> audit_row list) \<Rightarrow> rules_db \<Rightarrow> rules_db" where
  "put_audit f t = t\<lparr>rt_audit := f (rt_audit t)\<rparr>"

definition put_events :: "(event_row list \<Rightarrow> event_row list) \<Rightarrow> rules_db \<Rightarrow> rules_db" where
  "put_events f t = t\<lparr>rt_events := f (rt_events t)\<rparr>"

definition put_idem :: "(idem_row list \<Rightarrow> idem_row list) \<Rightarrow> rules_db \<Rightarrow> rules_db" where
  "put_idem f t = t\<lparr>rt_idem := f (rt_idem t)\<rparr>"

section \<open>Rule sets\<close>

definition update_modes :: "string list" where
  "update_modes = [''auto_apply'', ''manual_approve'', ''manual_only'']"

definition insert_rule_set :: "rule_set_request \<Rightarrow> (rules_db, rule_set_row) sql" where
  "insert_rule_set q = stmt (\<lambda>now u t.
     if list_ex (\<lambda>s. rs_id s = u \<or> rs_name s = rr_name q) (rt_sets t) then Inl ErrConflict
     else if rr_update_mode q \<notin> set update_modes then Inl DBFailure
     else let row = \<lparr>rs_id = u, rs_name = rr_name q, rs_description = rr_description q, rs_update_mode = rr_update_mode q,
            rs_interval_sec = rr_interval_sec q, rs_allow_regex = rr_allow_regex q, rs_priority = rr_priority q,
            rs_manual_include = rr_manual_include q, rs_manual_exclude = rr_manual_exclude q, rs_active_version = None,
            rs_last_fetch = None, rs_version = 1, rs_created = now, rs_updated = now\<rparr>
          in Inr (row, t\<lparr>rt_sets := rt_sets t @ [row]\<rparr>))"

definition createRuleSet :: "rule_env \<Rightarrow> api_request \<Rightarrow> rule_set_request option \<Rightarrow> (rules_db, api_reply) sql" where
  "createRuleSet en r body = decodeE body (\<lambda>req0.
     let req1 = req0\<lparr>rr_name := trim_space (rr_name req0)\<rparr> in
     if rr_name req1 = [] then throwE badRequest
     else let req2 = (if rr_update_mode req1 = [] then req1\<lparr>rr_update_mode := ''manual_approve''\<rparr> else req1) in
       if rr_update_mode req2 \<notin> set update_modes then throwE badRequest
       else let req3 = (if rr_interval_sec req2 < 300 then req2\<lparr>rr_interval_sec := 21600\<rparr> else req2);
                req4 = (if rr_priority req3 = 0 then req3\<lparr>rr_priority := 100\<rparr> else req3)
            in tryE (insert_rule_set req4) (\<lambda>rs.
               audit put_audit (audit_of (rn_api en) r ''rule_set.created'' ''rule_set'' (rs_id rs) None (Some (rn_set_json en rs)))
                 (returnE (Reply 201 (rn_set_json en rs)))))"

definition patched_set :: "rule_set_patch \<Rightarrow> int \<Rightarrow> rule_set_row \<Rightarrow> rule_set_row" where
  "patched_set p now s =
     s\<lparr>rs_name := case rp_name p of None \<Rightarrow> rs_name s | Some v \<Rightarrow> v,
       rs_description := case rp_description p of None \<Rightarrow> rs_description s | Some v \<Rightarrow> v,
       rs_update_mode := case rp_update_mode p of None \<Rightarrow> rs_update_mode s | Some v \<Rightarrow> v,
       rs_interval_sec := case rp_interval_sec p of None \<Rightarrow> rs_interval_sec s | Some v \<Rightarrow> v,
       rs_allow_regex := case rp_allow_regex p of None \<Rightarrow> rs_allow_regex s | Some v \<Rightarrow> v,
       rs_priority := case rp_priority p of None \<Rightarrow> rs_priority s | Some v \<Rightarrow> v,
       rs_manual_include := case rp_manual_include p of None \<Rightarrow> rs_manual_include s | Some v \<Rightarrow> v,
       rs_manual_exclude := case rp_manual_exclude p of None \<Rightarrow> rs_manual_exclude s | Some v \<Rightarrow> v,
       rs_updated := now, rs_version := rs_version s + 1\<rparr>"

text \<open>The guarded update; the new rows have to satisfy the unique name and the check of the mode.\<close>

definition update_rule_set :: "string \<Rightarrow> int \<Rightarrow> rule_set_patch \<Rightarrow> (rules_db, nat) sql" where
  "update_rule_set rid ver p = ExecN (\<lambda>now _ t.
     let hit = (\<lambda>s. rs_id s = rid \<and> (ver = 0 \<or> rs_version s = ver)); rows = update_rows hit (patched_set p now) (rt_sets t) in
     if \<not> list_all (\<lambda>s. rs_update_mode s \<in> set update_modes) (filter (\<lambda>s. rs_id s = rid) rows) then Inl DBFailure
     else if \<not> distinct (map rs_name rows) then Inl ErrConflict
     else Inr (count_rows hit (rt_sets t), t\<lparr>rt_sets := rows\<rparr>))"

definition select_rule_set :: "string \<Rightarrow> (rules_db, rule_set_row) sql" where
  "select_rule_set rid = One (\<lambda>t. filter (\<lambda>s. rs_id s = rid) (rt_sets t))"

definition zero_rule_set :: rule_set_row where
  "zero_rule_set = \<lparr>rs_id = [], rs_name = [], rs_description = [], rs_update_mode = [], rs_interval_sec = 0, rs_allow_regex = False,
     rs_priority = 0, rs_manual_include = [], rs_manual_exclude = [], rs_active_version = None, rs_last_fetch = None, rs_version = 0,
     rs_created = 0, rs_updated = 0\<rparr>"

definition patchRuleSet :: "rule_env \<Rightarrow> api_request \<Rightarrow> rule_set_patch option \<Rightarrow> (rules_db, api_reply) sql" where
  "patchRuleSet en r body = decodeE body (\<lambda>req. liftE (ifMatch r) (\<lambda>ver.
     let rid = aq_path r ''id'' in
     tryE (select_rule_set rid) (\<lambda>before.
     tryE (update_rule_set rid ver req) (\<lambda>n.
     guardE (checkVersion n ver)
       (attempt (select_rule_set rid) (\<lambda>found.
          let after = (case found of Inl _ \<Rightarrow> zero_rule_set | Inr s \<Rightarrow> s) in
          audit put_audit (audit_of (rn_api en) r ''rule_set.updated'' ''rule_set'' rid (Some (rn_set_json en before)) (Some (rn_set_json en after)))
            (returnE (Reply 200 (rn_set_json en after)))))))))"

text \<open>The delete cascades to sources, their fetches, versions and entries, and is refused while a service refers to the set.\<close>

definition delete_rule_set :: "string \<Rightarrow> (rules_db, nat) sql" where
  "delete_rule_set rid = ExecN (\<lambda>_ _ t.
     if list_ex (\<lambda>sv. snd sv = Some rid) (rt_services t) then Inl ErrConflict
     else let gone = map rc_id (filter (\<lambda>c. rc_rule_set c = rid) (rt_sources t));
              vgone = map rv_id (filter (\<lambda>v. rv_rule_set v = rid) (rt_versions t))
          in Inr (count_rows (\<lambda>s. rs_id s = rid) (rt_sets t),
               t\<lparr>rt_sets := filter (\<lambda>s. rs_id s \<noteq> rid) (rt_sets t), rt_sources := filter (\<lambda>c. rc_rule_set c \<noteq> rid) (rt_sources t),
                 rt_versions := filter (\<lambda>v. rv_rule_set v \<noteq> rid) (rt_versions t),
                 rt_entries := filter (\<lambda>e. fst e \<notin> set vgone) (rt_entries t),
                 rt_fetches := filter (\<lambda>f. ft_source f \<notin> set gone) (rt_fetches t)\<rparr>))"

definition deleteRuleSet :: "rule_env \<Rightarrow> api_request \<Rightarrow> (rules_db, api_reply) sql" where
  "deleteRuleSet en r =
     (let rid = aq_path r ''id'' in
      tryE (Many (\<lambda>t. filter (\<lambda>sv. snd sv = Some rid) (rt_services t))) (\<lambda>users.
      if users \<noteq> [] then throwE conflictErr
      else tryE (delete_rule_set rid) (\<lambda>n.
        if n = 0 then throwE notFound
        else audit put_audit (audit_of (rn_api en) r ''rule_set.deleted'' ''rule_set'' rid None None)
               (returnE (Reply 200 (JObj [(''status'', JStr ''deleted'')]))))))"

section \<open>Sources\<close>

definition source_types :: "string list" where
  "source_types = [''github_raw'', ''github_repo'', ''https'', ''manual'', ''preset'', ''singbox_json'']"

definition insert_source :: "string \<Rightarrow> source_request \<Rightarrow> bool \<Rightarrow> (rules_db, rule_source_row) sql" where
  "insert_source rid q enabled = stmt (\<lambda>now u t.
     if list_ex (\<lambda>c. rc_id c = u) (rt_sources t) \<or> \<not> list_ex (\<lambda>s. rs_id s = rid) (rt_sets t) then Inl ErrConflict
     else if sq_type q \<notin> set source_types \<or> sq_mode q \<notin> {''include'', ''exclude''} then Inl DBFailure
     else let row = \<lparr>rc_id = u, rc_rule_set = rid, rc_name = sq_name q, rc_type = sq_type q, rc_url = sq_url q, rc_repo = sq_repo q,
            rc_ref = sq_ref q, rc_path = sq_path q, rc_mode = sq_mode q, rc_expected_sha256 = sq_expected_sha256 q,
            rc_enabled = enabled, rc_etag = [], rc_last_modified = [], rc_version = 1, rc_created = now, rc_updated = now\<rparr>
          in Inr (row, t\<lparr>rt_sources := rt_sources t @ [row]\<rparr>))"

definition addSource :: "rule_env \<Rightarrow> api_request \<Rightarrow> source_request option \<Rightarrow> (rules_db, api_reply) sql" where
  "addSource en r body = decodeE body (\<lambda>req0.
     if sq_type req0 \<notin> set source_types then throwE badRequest
     else let req1 = (if sq_mode req0 = [] then req0\<lparr>sq_mode := ''include''\<rparr> else req0);
              req2 = (if sq_type req1 = ''manual'' then req1\<lparr>sq_url := sq_body req1\<rparr> else req1)
          in if sq_type req2 = ''github_repo'' \<and> (sq_repo req2 = [] \<or> sq_path req2 = []) then throwE badRequest
             else if sq_type req2 \<in> {''github_raw'', ''https'', ''singbox_json''} \<and> \<not> has_prefix (sq_url req2) ''https://'' then throwE badRequest
             else tryE (insert_source (aq_path r ''id'') req2 (case sq_enabled req2 of None \<Rightarrow> True | Some e \<Rightarrow> e)) (\<lambda>src.
                  audit put_audit (audit_of (rn_api en) r ''rule_source.created'' ''rule_source'' (rc_id src) None (Some (rn_source_json en src)))
                    (returnE (Reply 201 (rn_source_json en src)))))"

definition delete_source :: "string \<Rightarrow> (rules_db, nat) sql" where
  "delete_source sid = ExecN (\<lambda>_ _ t.
     Inr (count_rows (\<lambda>c. rc_id c = sid) (rt_sources t),
          t\<lparr>rt_sources := filter (\<lambda>c. rc_id c \<noteq> sid) (rt_sources t), rt_fetches := filter (\<lambda>f. ft_source f \<noteq> sid) (rt_fetches t)\<rparr>))"

definition deleteSource :: "rule_env \<Rightarrow> api_request \<Rightarrow> (rules_db, api_reply) sql" where
  "deleteSource en r =
     (let sid = aq_path r ''source_id'' in
      tryE (delete_source sid) (\<lambda>n.
        if n = 0 then throwE notFound
        else audit put_audit (audit_of (rn_api en) r ''rule_source.deleted'' ''rule_source'' sid None None)
               (returnE (Reply 200 (JObj [(''status'', JStr ''deleted'')])))))"

section \<open>Builds and approvals\<close>

definition fetch_action :: "rule_env \<Rightarrow> api_request \<Rightarrow> string \<Rightarrow> (rules_db, int \<times> json) sql" where
  "fetch_action en r rid =
     attempt (Build (rn_builder en) rid) (\<lambda>b. case b of
       Inl e \<Rightarrow> event put_events ''error'' ''rules'' ''fetch_failed'' None (throwE (APIError 502 ''fetch_failed''))
     | Inr res \<Rightarrow>
         audit put_audit (audit_of (rn_api en) r ''rule_set.fetched'' ''rule_set'' rid None
             (Some (JObj [(''status'', JStr (br_status res)), (''added'', JNum (dec_int (br_added res))),
                          (''removed'', JNum (dec_int (br_removed res))), (''hash'', JStr (br_hash res))])))
           (event put_events ''info'' ''rules'' ''fetch_done'' None (returnE (200, rn_build_json en res))))"

definition fetchRuleSet :: "rule_env \<Rightarrow> api_request \<Rightarrow> (rules_db, api_reply) sql" where
  "fetchRuleSet en r =
     idempotent rt_idem put_idem (aq_header r ''Idempotency-Key'') ''rule_set_fetch'' (fetch_action en r (aq_path r ''id''))"

text \<open>The newest version that waits for approval.\<close>

definition pending_versions :: "string \<Rightarrow> rules_db \<Rightarrow> string list" where
  "pending_versions rid t =
     map rv_id (sort_key (\<lambda>v. - rv_sequence v) (filter (\<lambda>v. rv_rule_set v = rid \<and> rv_status v = ''awaiting_approval'') (rt_versions t)))"

definition pending_version :: "string \<Rightarrow> string \<Rightarrow> (string \<Rightarrow> (rules_db, 'r) sql) \<Rightarrow> (rules_db, 'r) sql" where
  "pending_version rid given f =
     (if given \<noteq> [] then f given
      else attempt (One (pending_versions rid)) (\<lambda>v. case v of Inl _ \<Rightarrow> throwE notFound | Inr x \<Rightarrow> f x))"

definition approveRuleSet :: "rule_env \<Rightarrow> api_request \<Rightarrow> approve_request option \<Rightarrow> (rules_db, api_reply) sql" where
  "approveRuleSet en r body = decodeE body (\<lambda>req.
     let rid = aq_path r ''id'' in
     pending_version rid (ap_version_id req) (\<lambda>vid.
       if ap_reject req then
         tryE (set_version_status (\<lambda>v. rv_id v = vid \<and> rv_rule_set v = rid) ''rejected'') (\<lambda>_.
           audit put_audit (audit_of (rn_api en) r ''rule_set.rejected'' ''rule_set'' rid None (Some (JObj [(''version_id'', JStr vid)])))
             (returnE (Reply 200 (JObj [(''status'', JStr ''rejected'')]))))
       else
         tryE (Approve rid vid) (\<lambda>_.
           audit put_audit (audit_of (rn_api en) r ''rule_set.approved'' ''rule_set'' rid None (Some (JObj [(''version_id'', JStr vid)])))
             (event put_events ''info'' ''rules'' ''version_activated'' None
               (returnE (Reply 200 (JObj [(''status'', JStr ''approved'')])))))))"

record rule_diff =
  rd_version :: rule_version_row
  rd_before :: int
  rd_after :: int
  rd_added :: "string list"
  rd_removed :: "string list"
  rd_added_count :: int
  rd_removed_count :: int

definition flatten_entries :: "entry list \<Rightarrow> nat \<Rightarrow> string list" where
  "flatten_entries es m = map (\<lambda>e. Kind e @ '':'' @ Value e) (take m es)"

definition diffRuleSet :: "rule_env \<Rightarrow> api_request \<Rightarrow> string \<Rightarrow> (rules_db, rule_diff) sql" where
  "diffRuleSet en r target =
     (let rid = aq_path r ''id''; b = rn_builder en in
      tryE (select_rule_set rid) (\<lambda>rs.
      pending_version rid target (\<lambda>vid.
      tryE (entriesOf b vid) (\<lambda>new.
      attempt (case rs_active_version rs of None \<Rightarrow> returnE [] | Some v \<Rightarrow> entriesOf b v) (\<lambda>oldr.
        let old = (case oldr of Inl _ \<Rightarrow> [] | Inr es \<Rightarrow> es); (added, removed) = Diff old new in
        tryE (One (\<lambda>t. filter (\<lambda>v. rv_id v = vid) (rt_versions t))) (\<lambda>row.
          returnE \<lparr>rd_version = row, rd_before = int (length old), rd_after = int (length new), rd_added = flatten_entries added 500,
            rd_removed = flatten_entries removed 500, rd_added_count = int (length added), rd_removed_count = int (length removed)\<rparr>))))))"

section \<open>The invariant\<close>

lemma wf_put [simp]:
  "rules_wf (put_audit f t) = rules_wf t" "rules_wf (put_events g t) = rules_wf t" "rules_wf (put_idem h t) = rules_wf t"
  by (simp_all add: put_audit_def put_events_def put_idem_def rules_wf_def keys_ok_def pointer_ok_def pointers_def statuses_def)

lemma wf_audit [preserves_rules]: "preserves rules_wf k \<Longrightarrow> preserves rules_wf (audit put_audit row k)"
  by (rule preserves_audit) simp_all

lemma wf_event [preserves_rules]: "preserves rules_wf k \<Longrightarrow> preserves rules_wf (event put_events l c d n k)"
  by (rule preserves_event) simp_all

lemma wf_idempotent [preserves_rules]: "preserves rules_wf fn \<Longrightarrow> preserves rules_wf (idempotent rt_idem put_idem key ep fn)"
  by (rule preserves_idempotent) simp_all

lemma wf_insert_rule_set [preserves_rules]: "preserves rules_wf (insert_rule_set q)"
  unfolding insert_rule_set_def
proof (rule preserves_stmt)
  fix now u t r t' assume wf: "rules_wf t"
    and st: "(if list_ex (\<lambda>s. rs_id s = u \<or> rs_name s = rr_name q) (rt_sets t) then Inl ErrConflict
     else if rr_update_mode q \<notin> set update_modes then Inl DBFailure
     else let row = \<lparr>rs_id = u, rs_name = rr_name q, rs_description = rr_description q, rs_update_mode = rr_update_mode q,
            rs_interval_sec = rr_interval_sec q, rs_allow_regex = rr_allow_regex q, rs_priority = rr_priority q,
            rs_manual_include = rr_manual_include q, rs_manual_exclude = rr_manual_exclude q, rs_active_version = None,
            rs_last_fetch = None, rs_version = 1, rs_created = now, rs_updated = now\<rparr>
          in Inr (row, t\<lparr>rt_sets := rt_sets t @ [row]\<rparr>)) = Inr (r, t')"
  then have new: "u \<notin> rs_id ` set (rt_sets t)" and t': "t' = t\<lparr>rt_sets := rt_sets t @ [r]\<rparr>" and r: "rs_id r = u" "rs_active_version r = None"
    by (auto simp: list_ex_iff Let_def split: if_splits)
  have "keys_ok t'" using wf new r by (auto simp: rules_wf_def keys_ok_def t')
  moreover have "pointer_ok t'" using wf r by (auto simp: rules_wf_def pointer_ok_def pointers_def statuses_def t')
  ultimately show "rules_wf t'" by (simp add: rules_wf_def)
qed

lemma wf_update_rule_set [preserves_rules]: "preserves rules_wf (update_rule_set rid ver p)"
  unfolding update_rule_set_def
proof (rule preserves_ExecN)
  fix now u t n t' assume wf: "rules_wf t"
    and "(let hit = (\<lambda>s. rs_id s = rid \<and> (ver = 0 \<or> rs_version s = ver)); rows = update_rows hit (patched_set p now) (rt_sets t) in
     if \<not> list_all (\<lambda>s. rs_update_mode s \<in> set update_modes) (filter (\<lambda>s. rs_id s = rid) rows) then Inl DBFailure
     else if \<not> distinct (map rs_name rows) then Inl ErrConflict
     else Inr (count_rows hit (rt_sets t), t\<lparr>rt_sets := rows\<rparr>)) = Inr (n, t')"
  then obtain P where t': "t' = t\<lparr>rt_sets := update_rows P (patched_set p now) (rt_sets t)\<rparr>" by (auto simp: Let_def split: if_splits)
  have "map rs_id (rt_sets t') = map rs_id (rt_sets t)" by (simp add: t' map_update_rows patched_set_def)
  moreover have "pointers t' = pointers t" "statuses t' = statuses t" by (simp_all add: t' pointers_def pointers_keep statuses_def patched_set_def)
  ultimately show "rules_wf t'" using wf unfolding rules_wf_def keys_ok_def pointer_ok_def by (simp add: t' flip: set_map)
qed

lemma wf_delete_rule_set [preserves_rules]: "preserves rules_wf (delete_rule_set rid)"
  unfolding delete_rule_set_def
proof (rule preserves_ExecN)
  fix now u t n t' assume wf: "rules_wf t"
    and st: "(if list_ex (\<lambda>sv. snd sv = Some rid) (rt_services t) then Inl ErrConflict
     else let gone = map rc_id (filter (\<lambda>c. rc_rule_set c = rid) (rt_sources t));
              vgone = map rv_id (filter (\<lambda>v. rv_rule_set v = rid) (rt_versions t))
          in Inr (count_rows (\<lambda>s. rs_id s = rid) (rt_sets t),
               t\<lparr>rt_sets := filter (\<lambda>s. rs_id s \<noteq> rid) (rt_sets t), rt_sources := filter (\<lambda>c. rc_rule_set c \<noteq> rid) (rt_sources t),
                 rt_versions := filter (\<lambda>v. rv_rule_set v \<noteq> rid) (rt_versions t),
                 rt_entries := filter (\<lambda>e. fst e \<notin> set vgone) (rt_entries t),
                 rt_fetches := filter (\<lambda>f. ft_source f \<notin> set gone) (rt_fetches t)\<rparr>)) = Inr (n, t')"
  from st have s: "rt_sets t' = filter (\<lambda>s. rs_id s \<noteq> rid) (rt_sets t)" "rt_versions t' = filter (\<lambda>v. rv_rule_set v \<noteq> rid) (rt_versions t)"
    "rt_entries t' = filter (\<lambda>e. fst e \<notin> rv_id ` {v \<in> set (rt_versions t). rv_rule_set v = rid}) (rt_entries t)"
    by (auto simp: Let_def split: if_splits)
  have "fst ` set (rt_entries t') \<subseteq> rv_id ` set (rt_versions t')"
  proof (clarsimp simp: s)
    fix a b assume e: "(a, b) \<in> set (rt_entries t)" and n: "a \<notin> rv_id ` {v \<in> set (rt_versions t). rv_rule_set v = rid}"
    from wf e have "a \<in> rv_id ` set (rt_versions t)" by (force simp: rules_wf_def keys_ok_def)
    with n show "a \<in> rv_id ` {x \<in> set (rt_versions t). rv_rule_set x \<noteq> rid}" by blast
  qed
  then have "keys_ok t'" using wf by (auto simp: rules_wf_def keys_ok_def s distinct_map_filter)
  moreover have "pointers t' = {p \<in> pointers t. fst p \<noteq> rid}" "statuses t' = {x \<in> statuses t. fst (snd x) \<noteq> rid}"
    by (simp_all add: s(1,2) pointers_def statuses_def Compr_image_eq)
  then have "pointer_ok t'" using wf by (simp add: rules_wf_def pointer_ok_def)
  ultimately show "rules_wf t'" by (simp add: rules_wf_def)
qed

lemma wf_sources [preserves_rules]: "preserves rules_wf (insert_source rid q e)" "preserves rules_wf (delete_source sid)"
  unfolding insert_source_def delete_source_def
  by (rule preserves_stmt preserves_ExecN, auto simp: Let_def elim!: rules_wf_cong split: if_splits)+

lemma wf_reject [preserves_rules]: "preserves rules_wf (set_version_status P ''rejected'')"
  unfolding set_version_status_def
proof (rule preserves_Exec)
  fix now u t t' assume wf: "rules_wf t"
    and "Inr (t\<lparr>rt_versions := update_rows P (\<lambda>v. v\<lparr>rv_status := ''rejected''\<rparr>) (rt_versions t)\<rparr>) = Inr t'"
  then have t': "t' = t\<lparr>rt_versions := update_rows P (\<lambda>v. v\<lparr>rv_status := ''rejected''\<rparr>) (rt_versions t)\<rparr>" by simp
  have k: "map rv_id (rt_versions t') = map rv_id (rt_versions t)" "map rv_rule_set (rt_versions t') = map rv_rule_set (rt_versions t)"
    by (simp_all add: t' map_update_rows)
  then have "keys_ok t'" using wf unfolding rules_wf_def keys_ok_def by (simp add: t' flip: set_map)
  moreover have st: "statuses t' = (\<lambda>v. (rv_id v, rv_rule_set v, if P v then ''rejected'' else rv_status v)) ` set (rt_versions t)"
    by (simp add: t' statuses_def statuses_set)
  have "(i, r, ''active'') \<in> statuses t" if "(i, r, ''active'') \<in> statuses t'" for i r
    using that unfolding st by (force simp: statuses_def split: if_splits)
  moreover have "(i, r, ''active'') \<in> statuses t' \<or> (i, r, ''rejected'') \<in> statuses t'"
    if x: "(i, r, x) \<in> statuses t" and m: "x = ''active'' \<or> x = ''rejected''" for i r x
  proof -
    from x obtain v where v: "v \<in> set (rt_versions t)" "i = rv_id v" "r = rv_rule_set v" "x = rv_status v" by (auto simp: statuses_def)
    then have "(i, r, if P v then ''rejected'' else rv_status v) \<in> statuses t'" unfolding st by auto
    with m v(4) show ?thesis by (cases "P v") auto
  qed
  moreover have "pointers t' = pointers t" by (simp add: t' pointers_def)
  ultimately show "rules_wf t'" using wf unfolding rules_wf_def pointer_ok_def by metis
qed

lemma wf_pending [preserves_rules]: "(\<And>v. preserves rules_wf (f v)) \<Longrightarrow> preserves rules_wf (pending_version rid g f)"
  unfolding pending_version_def by (intro preserves_rules)

lemmas rule_handler_defs = createRuleSet_def patchRuleSet_def deleteRuleSet_def addSource_def deleteSource_def fetchRuleSet_def
  approveRuleSet_def fetch_action_def select_rule_set_def

lemma handlers_keep_rules_wf:
  "preserves rules_wf (createRuleSet en r b1)" "preserves rules_wf (patchRuleSet en r b2)" "preserves rules_wf (deleteRuleSet en r)"
  "preserves rules_wf (addSource en r b3)" "preserves rules_wf (deleteSource en r)" "preserves rules_wf (fetchRuleSet en r)"
  "preserves rules_wf (approveRuleSet en r b4)"
  unfolding rule_handler_defs Let_def by (intro preserves_rules)+

section \<open>Every history of requests\<close>

text \<open>
  One request against the rule sets, or one scheduled build, with whatever the database and the network do during it.
\<close>

inductive rules_step :: "rules_db \<Rightarrow> rules_db \<Rightarrow> bool" where
  create: "rules_step (db_tables d) (db_tables (snd (createRuleSet en r b d)))"
| patch: "rules_step (db_tables d) (db_tables (snd (patchRuleSet en r p d)))"
| delete: "rules_step (db_tables d) (db_tables (snd (deleteRuleSet en r d)))"
| add_source: "rules_step (db_tables d) (db_tables (snd (addSource en r q d)))"
| delete_source: "rules_step (db_tables d) (db_tables (snd (deleteSource en r d)))"
| fetch: "rules_step (db_tables d) (db_tables (snd (fetchRuleSet en r d)))"
| approve: "rules_step (db_tables d) (db_tables (snd (approveRuleSet en r a d)))"
| scheduled: "rules_step (db_tables d) (db_tables (snd (Build bl rid d)))"
| stored: "rules_step (db_tables d) (db_tables (snd (store_candidate rid row es d)))"

text \<open>The last step is a build whose transaction is reached after other requests have changed the tables.\<close>

definition empty_rules :: rules_db where
  "empty_rules = \<lparr>rt_sets = [], rt_sources = [], rt_versions = [], rt_entries = [], rt_fetches = [], rt_services = [], rt_audit = [],
     rt_events = [], rt_idem = []\<rparr>"

inductive rules_reachable :: "rules_db \<Rightarrow> bool" where
  start: "rules_reachable empty_rules"
| step: "rules_reachable t \<Longrightarrow> rules_step t t' \<Longrightarrow> rules_reachable t'"

lemma rules_step_wf: "rules_step t t' \<Longrightarrow> rules_wf t \<Longrightarrow> rules_wf t'"
  by (induction rule: rules_step.induct) (auto intro: preservesD [OF handlers_keep_rules_wf(1)] preservesD [OF handlers_keep_rules_wf(2)]
      preservesD [OF handlers_keep_rules_wf(3)] preservesD [OF handlers_keep_rules_wf(4)] preservesD [OF handlers_keep_rules_wf(5)]
      preservesD [OF handlers_keep_rules_wf(6)] preservesD [OF handlers_keep_rules_wf(7)] preservesD [OF rules_wf_Build]
      preservesD [OF rules_wf_store_candidate])

lemma reachable_wf: "rules_reachable t \<Longrightarrow> rules_wf t"
proof (induction rule: rules_reachable.induct)
  case start
  show ?case by (simp add: empty_rules_def rules_wf_def keys_ok_def pointer_ok_def pointers_def statuses_def)
next
  case (step t t')
  then show ?case by (blast intro: rules_step_wf)
qed

section \<open>Properties\<close>


definition demo_rule_env :: rule_env where
  "demo_rule_env = \<lparr>rn_api = \<lparr>ae_lower = (\<lambda>s. s), ae_parse_ip = (\<lambda>_. True), ae_net = plain_net\<rparr>, rn_builder = demo_builder,
     rn_set_json = (\<lambda>s. JObj [(''id'', JStr (rs_id s)), (''version'', JNum (dec_int (rs_version s)))]),
     rn_source_json = (\<lambda>s. JStr (rc_id s)), rn_build_json = (\<lambda>b. JStr (br_status b))\<rparr>"

definition demo_set_request :: rule_set_request where
  "demo_set_request = \<lparr>rr_name = ''ads'', rr_description = [], rr_update_mode = [], rr_interval_sec = 0, rr_allow_regex = False,
     rr_priority = 0, rr_manual_include = [''a.example''], rr_manual_exclude = []\<rparr>"

definition demo_created :: rules_db where
  "demo_created = db_tables (snd (createRuleSet demo_rule_env (demo_request ''POST'') (Some demo_set_request) (demo_db empty_rules)))"

definition demo_built :: rules_db where
  "demo_built = db_tables (snd (Build demo_builder ''id-0'' (demo_db demo_created)))"

lemma demo_built_reachable: "rules_reachable demo_built"
proof -
  have "rules_step empty_rules demo_created"
    using rules_step.create [of "demo_db empty_rules"] by (simp add: demo_created_def demo_db_def)
  moreover have "rules_step demo_created demo_built"
    using rules_step.scheduled [of "demo_db demo_created"] by (simp add: demo_built_def demo_db_def)
  ultimately show ?thesis by (blast intro: rules_reachable.intros)
qed


text \<open>
  Rejecting does not look at the state of the version: the version in force can be rejected, and the rule set keeps
  pointing at it, so the next revision is still compiled from a rejected list.
\<close>

theorem rejected_version_stays_in_force:
  assumes "set_version_status (\<lambda>v. rv_id v = vid \<and> rv_rule_set v = rid) ''rejected'' d = (Inr u, d')"
    and "s \<in> set (rt_sets (db_tables d))" and "rs_id s = rid" and "rs_active_version s = Some vid"
    and "v \<in> set (rt_versions (db_tables d))" and "rv_id v = vid" and "rv_rule_set v = rid"
  shows "s \<in> set (rt_sets (db_tables d')) \<and> (\<exists>w\<in>set (rt_versions (db_tables d')). rv_id w = vid \<and> rv_status w = ''rejected'')"
  using set_version_status_Inr [OF assms(1)] assms(2-7)
  by (auto intro!: bexI [of _ "v\<lparr>rv_status := ''rejected''\<rparr>"] update_rows_hit [of v])

theorem rejected_version_stays_in_force_witness:
  "let d' = snd (set_version_status (\<lambda>v. rv_id v = ''v1'' \<and> rv_rule_set v = ''s2'') ''rejected'' (demo_db demo_rules)) in
   demo_set ''s2'' ''manual_approve'' (Some ''v1'') \<in> set (rt_sets (db_tables d')) \<and>
   (\<exists>w\<in>set (rt_versions (db_tables d')). rv_id w = ''v1'' \<and> rv_status w = ''rejected'')"
proof -
  have r: "set_version_status (\<lambda>v. rv_id v = ''v1'' \<and> rv_rule_set v = ''s2'') ''rejected'' (demo_db demo_rules) =
    (Inr (), snd (set_version_status (\<lambda>v. rv_id v = ''v1'' \<and> rv_rule_set v = ''s2'') ''rejected'' (demo_db demo_rules)))"
    by (simp add: set_version_status_def Exec_def stmt_def demo_db_def)
  show ?thesis unfolding Let_def
    by (rule rejected_version_stays_in_force [OF r, where s = "demo_set ''s2'' ''manual_approve'' (Some ''v1'')" and v = "demo_version ''v1'' ''s2''"])
      (simp_all add: demo_db_def demo_rules_def demo_set_def demo_version_def)
qed

subsection \<open>Optimistic locking\<close>

lemma select_rule_set_Inr:
  "select_rule_set rid d = (Inr s, d') \<Longrightarrow> s \<in> set (rt_sets (db_tables d)) \<and> rs_id s = rid \<and> db_tables d' = db_tables d"
  unfolding select_rule_set_def by (drule One_Inr) (auto simp: filter_eq_Cons_iff)

lemma select_rule_set_tables: "select_rule_set rid d = (r, d') \<Longrightarrow> db_tables d' = db_tables d"
  using reads_keep_tables(2) [of _ d] by (metis select_rule_set_def snd_conv)

lemma update_rule_set_Inr:
  assumes "update_rule_set rid ver p d = (Inr n, d')"
  shows "n = count_rows (\<lambda>s. rs_id s = rid \<and> (ver = 0 \<or> rs_version s = ver)) (rt_sets (db_tables d)) \<and>
    db_tables d' = (db_tables d)\<lparr>rt_sets := update_rows (\<lambda>s. rs_id s = rid \<and> (ver = 0 \<or> rs_version s = ver)) (patched_set p (db_now d)) (rt_sets (db_tables d))\<rparr>"
  using ExecN_Inr [OF assms [unfolded update_rule_set_def]] by (auto simp: Let_def split: if_splits)

lemma update_rows_none: "filter P rows = [] \<Longrightarrow> update_rows P f rows = rows"
  by (induction rows) (auto split: if_splits)

lemma audit_returnE: "audit put row (returnE x) d = (r, d') \<longleftrightarrow> r = Inr x \<and> d' = snd (Exec (\<lambda>now _ t. Inr (put (\<lambda>rows. rows @ [row\<lparr>au_at := now\<rparr>]) t)) d)"
  by (simp add: audit_def ignoring_returnE)

lemma audit_sets: "rt_sets (db_tables (snd (Exec (\<lambda>now _ t. Inr (put_audit (f now) t)) d))) = rt_sets (db_tables d)"
  by (simp add: Exec_def stmt_def put_audit_def)

text \<open>
  No update is lost: a patch that names the version it was made from succeeds only if the rule set still has that
  version, and then moves it to the next one, so of two patches made from the same version the later one is refused with 412
  (or its statement fails) and leaves the rule sets unchanged.
\<close>

theorem patch_needs_current_version:
  assumes "ifMatch r = Inr ver" and "0 < ver" and "patchRuleSet en r (Some p) d = (res, d')"
  shows "(case res of
      Inr _ \<Rightarrow> \<exists>s\<in>set (rt_sets (db_tables d)). rs_id s = aq_path r ''id'' \<and> rs_version s = ver \<and>
        (\<exists>s'\<in>set (rt_sets (db_tables d')). rs_id s' = aq_path r ''id'' \<and> rs_version s' = ver + 1)
    | Inl e \<Rightarrow> rt_sets (db_tables d') = rt_sets (db_tables d))"
proof -
  let ?rid = "aq_path r ''id''" and ?hit = "\<lambda>s. rs_id s = aq_path r ''id'' \<and> (ver = 0 \<or> rs_version s = ver)"
  obtain r1 d1 where 1: "select_rule_set ?rid d = (r1, d1)" by fastforce
  have t1: "db_tables d1 = db_tables d" by (rule select_rule_set_tables [OF 1])
  obtain r2 d2 where 2: "update_rule_set ?rid ver p d1 = (r2, d2)" by fastforce
  show ?thesis
  proof (cases r1)
    case (Inl e)
    with 1 t1 assms(1,3) show ?thesis by (auto simp: patchRuleSet_def decodeE_def liftE_def tryE_def Let_def)
  next
    case Inr1: (Inr before)
    show ?thesis
    proof (cases r2)
      case (Inl e)
      with 2 have "db_tables d2 = db_tables d1" by (auto simp: update_rule_set_def ExecN_def dest!: stmt_Inl)
      with 1 2 t1 Inr1 Inl assms(1,3) show ?thesis by (auto simp: patchRuleSet_def decodeE_def liftE_def tryE_def Let_def)
    next
      case (Inr n)
      note u = update_rule_set_Inr [OF 2 [unfolded Inr]]
      show ?thesis
      proof (cases "n = 0")
        case True
        with u have "filter ?hit (rt_sets (db_tables d1)) = []" by (simp add: count_rows_def)
        with u t1 have "rt_sets (db_tables d2) = rt_sets (db_tables d)" by (simp add: update_rows_none)
        with True 1 2 Inr1 Inr assms(1-3) show ?thesis
          by (auto simp: patchRuleSet_def decodeE_def liftE_def tryE_def Let_def guardE_def checkVersion_def throwE_def)
      next
        case False
        with u have "filter ?hit (rt_sets (db_tables d1)) \<noteq> []" by (auto simp: count_rows_def)
        then obtain s where s: "s \<in> set (rt_sets (db_tables d))" "rs_id s = ?rid" "rs_version s = ver"
          using t1 assms(2) by (auto simp: filter_empty_conv)
        have s2: "patched_set p (db_now d1) s \<in> set (rt_sets (db_tables d2))" using u t1 s update_rows_hit [of s _ ?hit] by simp
        obtain r3 d3 where 3: "select_rule_set ?rid d2 = (r3, d3)" by fastforce
        have t3: "db_tables d3 = db_tables d2" by (rule select_rule_set_tables [OF 3])
        from False 1 2 3 Inr1 Inr assms(1-3) obtain x row where "res = Inr x" "d' = snd (Exec (\<lambda>now _ t. Inr (put_audit (\<lambda>rows. rows @ [row\<lparr>au_at := now\<rparr>]) t)) d3)"
          by (auto simp: patchRuleSet_def decodeE_def liftE_def tryE_def Let_def guardE_def checkVersion_def attempt_def audit_returnE)
        then show ?thesis using s s2 t3 by (auto simp: audit_sets patched_set_def intro!: bexI [of _ s] bexI [OF _ s2])
      qed
    qed
  qed
qed

definition demo_patch :: rule_set_patch where
  "demo_patch = \<lparr>rp_name = None, rp_description = Some ''d'', rp_update_mode = None, rp_interval_sec = None, rp_allow_regex = None,
     rp_priority = None, rp_manual_include = None, rp_manual_exclude = None\<rparr>"

definition demo_patch_request :: "string \<Rightarrow> api_request" where
  "demo_patch_request v = (demo_request ''PATCH'')\<lparr>aq_header := (\<lambda>h. if h = ''If-Match'' then v else []), aq_path := (\<lambda>_. ''s1'')\<rparr>"

theorem patch_needs_current_version_witness:
  "(\<exists>s\<in>set (rt_sets demo_rules). rs_id s = ''s1'' \<and> rs_version s = 1) \<and>
   rt_sets (db_tables (snd (patchRuleSet demo_rule_env (demo_patch_request ''7'') (Some demo_patch) (demo_db demo_rules)))) = rt_sets demo_rules"
proof -
  let ?run = "\<lambda>v. patchRuleSet demo_rule_env (demo_patch_request v) (Some demo_patch) (demo_db demo_rules)"
  have m: "ifMatch (demo_patch_request ''1'') = Inr 1" "ifMatch (demo_patch_request ''7'') = Inr 7" by code_simp+
  have i: "aq_path (demo_patch_request v) ''id'' = ''s1''" for v by (simp add: demo_patch_request_def)
  have t: "db_tables (demo_db demo_rules) = demo_rules" by (simp add: demo_db_def)
  have "case fst (?run ''1'') of Inr _ \<Rightarrow> True | Inl _ \<Rightarrow> False" by code_simp
  then obtain x where "fst (?run ''1'') = Inr x" by (cases "fst (?run ''1'')") simp_all
  then have x: "?run ''1'' = (Inr x, snd (?run ''1''))" by (simp add: prod_eq_iff)
  have "case fst (?run ''7'') of Inr _ \<Rightarrow> False | Inl e \<Rightarrow> e = APIError 412 ''version_conflict''" by code_simp
  then obtain e where "fst (?run ''7'') = Inl e" by (cases "fst (?run ''7'')") simp_all
  then have e: "?run ''7'' = (Inl e, snd (?run ''7''))" by (simp add: prod_eq_iff)
  from patch_needs_current_version [OF m(1) _ x] i t have "\<exists>s\<in>set (rt_sets demo_rules). rs_id s = ''s1'' \<and> rs_version s = 1" by auto
  moreover from patch_needs_current_version [OF m(2) _ e] t have "rt_sets (db_tables (snd (?run ''7''))) = rt_sets demo_rules" by simp
  ultimately show ?thesis by blast
qed

text \<open>
  The patch accepts any interval, also one the creation would have raised to six hours: the set is then due at every tick of
  the scheduler.
\<close>

theorem patch_accepts_any_interval:
  "rs_interval_sec (patched_set (demo_patch\<lparr>rp_interval_sec := Some n\<rparr>) now s) = n"
  by (simp add: patched_set_def)

subsection \<open>Repeated requests\<close>

abbreviation idem_is :: "idem_row list \<Rightarrow> rules_db \<Rightarrow> bool" where
  "idem_is x t \<equiv> rt_idem t = x"

lemma idem_statements [preserves_rules]:
  "preserves (idem_is x) (recordFetch s st h hs sz n e)" "preserves (idem_is x) (set_validators s et l)"
  "preserves (idem_is x) (insert_version row)" "preserves (idem_is x) (copy_entries v es)"
  "preserves (idem_is x) (set_version_status P str)" "preserves (idem_is x) (set_rule_set rid vo f)"
  unfolding recordFetch_def set_validators_def insert_version_def copy_entries_def set_version_status_def set_rule_set_def
  by (rule preserves_Exec preserves_stmt, auto split: if_splits)+

lemma idem_seq [preserves_rules]: "preserves (idem_is x) (stmt (\<lambda>_ _ t. Inr (g t, t)))"
  by (rule preserves_stmt) auto

lemma idem_put_log [preserves_rules]:
  "preserves (idem_is x) k \<Longrightarrow> preserves (idem_is x) (audit put_audit row k)"
  "preserves (idem_is x) k \<Longrightarrow> preserves (idem_is x) (event put_events l c d n k)"
  by (rule preserves_audit preserves_event; simp add: put_audit_def put_events_def)+

lemma idem_build_sources [preserves_rules]: "preserves (idem_is x) (build_sources b opts srcs acc)"
  by (induction srcs arbitrary: acc) (auto simp: build_source_def load_def fetch_source_def intro!: preserves_rules)

lemma idem_Build [preserves_rules]: "preserves (idem_is x) (Build b rid)"
  unfolding Build_def Let_def finish_build_def store_candidate_def touch_fetch_def previous_def version_hash_def entriesOf_def
  by (intro preserves_rules)

lemma idem_fetch_action [preserves_rules]: "preserves (idem_is x) (fetch_action en r rid)"
  unfolding fetch_action_def by (intro preserves_rules)

lemma steady_Build [steady_rules]: "steady (Build b rid)"
  unfolding Build_def Let_def finish_build_def store_candidate_def touch_fetch_def previous_def version_hash_def entriesOf_def
    insert_version_def copy_entries_def set_version_status_def set_rule_set_def
  by (intro steady_rules)

lemma steady_fetch_action [steady_rules]: "steady (fetch_action en r rid)"
  unfolding fetch_action_def audit_def event_def by (intro steady_rules)

interpretation rules_idem: idem_table rt_idem put_idem
  by unfold_locales (simp add: put_idem_def)

text \<open>
  Repeating a fetch request is harmless: once a fetch under an unused idempotency key has answered, the next one with
  that key returns the same status and body, marked as replayed, without building again and without touching a table.
\<close>

theorem fetch_replayed:
  assumes "aq_header r ''Idempotency-Key'' \<noteq> []" and "aq_header r ''Idempotency-Key'' \<notin> ik_key ` set (rt_idem (db_tables d))"
    and "healthy d" and "fetchRuleSet en r d = (Inr (Reply st body), d1)"
  shows "fst (fetchRuleSet en r d1) = Inr (Replayed st body) \<and> db_tables (snd (fetchRuleSet en r d1)) = db_tables d1"
proof -
  have keep: "rt_idem (db_tables (snd (fetch_action en r (aq_path r ''id'') e))) = rt_idem (db_tables e)" for e
    by (rule preservesD [OF idem_fetch_action]) (rule refl)
  from rules_idem.replay [OF assms(1,2,3) steady_fetch_action keep assms(4) [unfolded fetchRuleSet_def]]
  show ?thesis unfolding fetchRuleSet_def by blast
qed

definition demo_fetch_call :: api_request where
  "demo_fetch_call = (demo_request ''POST'')\<lparr>aq_header := (\<lambda>h. if h = ''Idempotency-Key'' then ''k1'' else []), aq_path := (\<lambda>_. ''s1'')\<rparr>"

theorem fetch_replayed_witness:
  "fst (fetchRuleSet demo_rule_env demo_fetch_call (snd (fetchRuleSet demo_rule_env demo_fetch_call (demo_db demo_rules)))) =
     Inr (Replayed 200 (JStr ''active''))"
proof -
  have "fst (fetchRuleSet demo_rule_env demo_fetch_call (demo_db demo_rules)) = Inr (Reply 200 (JStr ''active''))" by code_simp
  then have run: "fetchRuleSet demo_rule_env demo_fetch_call (demo_db demo_rules) =
      (Inr (Reply 200 (JStr ''active'')), snd (fetchRuleSet demo_rule_env demo_fetch_call (demo_db demo_rules)))" by (metis prod.collapse)
  have k: "aq_header demo_fetch_call ''Idempotency-Key'' = ''k1''" by (simp add: demo_fetch_call_def)
  have i: "rt_idem (db_tables (demo_db demo_rules)) = []" by (simp add: demo_db_def demo_rules_def)
  from fetch_replayed [OF _ _ demo_healthy run] show ?thesis unfolding k i by simp
qed

text \<open>
  A key is looked up together with the endpoint but stored only if no endpoint has used it: a key that another endpoint has
  taken protects nothing, and every repetition builds again.
\<close>

theorem shared_key_protects_nothing:
  assumes "aq_header r ''Idempotency-Key'' = key" and "key \<noteq> []" and "\<exists>i\<in>set (rt_idem (db_tables d)). ik_key i = key"
    and "\<forall>i\<in>set (rt_idem (db_tables d)). ik_key i = key \<longrightarrow> ik_endpoint i \<noteq> ''rule_set_fetch''"
    and "fetch_action en r (aq_path r ''id'') (snd (idem_lookup rt_idem key ''rule_set_fetch'' d)) = (Inr (st, body), dF)"
  shows "\<exists>d'. fetchRuleSet en r d = (Inr (Reply st body), d') \<and> rt_idem (db_tables d') = rt_idem (db_tables d)"
proof -
  have "rt_idem (db_tables (snd (idem_lookup rt_idem key ''rule_set_fetch'' d))) = rt_idem (db_tables d)"
    by (simp add: idem_lookup_def reads_keep_tables)
  then have keep: "rt_idem (db_tables dF) = rt_idem (db_tables d)"
    using preservesD [OF idem_fetch_action [of "rt_idem (db_tables d)" en r "aq_path r ''id''"], of "snd (idem_lookup rt_idem key ''rule_set_fetch'' d)"]
      assms(5) by simp
  from rules_idem.key_taken [where fn = "fetch_action en r (aq_path r ''id'')", OF assms(2-5) keep] show ?thesis by (simp add: fetchRuleSet_def assms(1))
qed

theorem shared_key_protects_nothing_witness:
  "let d = demo_db (demo_rules\<lparr>rt_idem := [\<lparr>ik_key = ''k1'', ik_endpoint = ''deploy'', ik_response = JNull, ik_status = 202, ik_created = 0\<rparr>]\<rparr>) in
   \<exists>d'. fetchRuleSet demo_rule_env demo_fetch_call d = (Inr (Reply 200 (JStr ''active'')), d') \<and> rt_idem (db_tables d') = rt_idem (db_tables d)"
proof -
  let ?d = "demo_db (demo_rules\<lparr>rt_idem := [\<lparr>ik_key = ''k1'', ik_endpoint = ''deploy'', ik_response = JNull, ik_status = 202, ik_created = 0\<rparr>]\<rparr>)"
  let ?f = "fetch_action demo_rule_env demo_fetch_call (aq_path demo_fetch_call ''id'') (snd (idem_lookup rt_idem ''k1'' ''rule_set_fetch'' ?d))"
  have "fst ?f = Inr (200, JStr ''active'')" by code_simp
  then have f: "?f = (Inr (200, JStr ''active''), snd ?f)" by (metis prod.collapse)
  have k: "aq_header demo_fetch_call ''Idempotency-Key'' = ''k1''" by (simp add: demo_fetch_call_def)
  show ?thesis unfolding Let_def by (rule shared_key_protects_nothing [OF k _ _ _ f]) (simp_all add: demo_db_def)
qed

end
