(* ===== verification/Panel_Auth.thy ===== *)
theory Panel_Auth
  imports Panel_API Go_Encoding
begin

text \<open>
  Passwords, tokens and one-time codes (\<open>panel/internal/auth\<close>) and the encryption of stored secrets
  (\<open>panel/internal/api/crypto.go\<close>). Argon2id, SHA-256, HMAC-SHA1, AES-GCM and base32 are parameters of a
  \<open>crypto_lib\<close>, random bytes are arguments. \<open>fmt.Sscanf\<close> is modelled for the formats used: literal
  text and decimal numbers, with ASCII blanks skipped before a number and the rest of the input ignored. A comparison in
  constant time is a comparison.
\<close>

unbundle bit_operations_syntax

section \<open>Parameters\<close>

record crypto_lib =
  cl_idkey :: "bytes \<Rightarrow> bytes \<Rightarrow> int \<Rightarrow> int \<Rightarrow> int \<Rightarrow> int \<Rightarrow> bytes"  \<comment> \<open>password, salt, time, memory, threads, key length\<close>
  cl_sha256 :: "bytes \<Rightarrow> bytes"
  cl_hmac_sha1 :: "bytes \<Rightarrow> bytes \<Rightarrow> bytes"
  cl_base32 :: "string \<Rightarrow> bytes option"          \<comment> \<open>StdEncoding without padding, decoding\<close>
  cl_upper :: "string \<Rightarrow> string"
  cl_gcm_seal :: "bytes \<Rightarrow> bytes \<Rightarrow> bytes \<Rightarrow> bytes"  \<comment> \<open>key, nonce, plain text\<close>
  cl_gcm_open :: "bytes \<Rightarrow> bytes \<Rightarrow> bytes \<Rightarrow> bytes option"

section \<open>base64.RawStdEncoding\<close>

definition b64raw_encode :: "bytes \<Rightarrow> string" where
  "b64raw_encode bs = filter (\<lambda>c. c \<noteq> CHR ''='') (b64_encode bs)"

definition b64raw_decode :: "string \<Rightarrow> bytes option" where
  "b64raw_decode s0 =
     (let s = filter (\<lambda>c. c \<noteq> CHR 0x0A \<and> c \<noteq> CHR 0x0D) s0 in
      if CHR ''='' \<in> set s \<or> length s mod 4 = 1 then None
      else b64_quanta (s @ replicate ((4 - length s mod 4) mod 4) CHR ''=''))"

section \<open>Scanning\<close>

definition scan_lit :: "string \<Rightarrow> string \<Rightarrow> string option" where
  "scan_lit l s = (if has_prefix s l then Some (drop (length l) s) else None)"

definition skip_blanks :: "string \<Rightarrow> string" where
  "skip_blanks s = dropWhile (\<lambda>c. c \<in> {CHR '' '', CHR 0x09, CHR 0x0B, CHR 0x0C}) s"

definition scan_uint :: "int \<Rightarrow> string \<Rightarrow> (int \<times> string) option" where
  "scan_uint bound s =
     (let t = skip_blanks s; ds = takeWhile is_digit t; n = int (dec_val ds) in
      if ds = [] \<or> n \<ge> bound then None else Some (n, drop (length ds) t))"

definition scan_int :: "string \<Rightarrow> (int \<times> string) option" where
  "scan_int s =
     (let t = skip_blanks s; neg = has_prefix t ''-''; u = (if neg \<or> has_prefix t ''+'' then drop 1 t else t);
          ds = takeWhile is_digit u; n = (if neg then - int (dec_val ds) else int (dec_val ds)) in
      if ds = [] \<or> n < - (2 ^ 63) \<or> n \<ge> 2 ^ 63 then None else Some (n, drop (length ds) u))"

definition scan_version :: "string \<Rightarrow> int option" where
  "scan_version s = Option.bind (scan_lit ''v='' s) (\<lambda>r. map_option fst (scan_int r))"

definition scan_params :: "string \<Rightarrow> (int \<times> int \<times> int) option" where
  "scan_params s =
     Option.bind (scan_lit ''m='' s) (\<lambda>r1. Option.bind (scan_uint (2 ^ 32) r1) (\<lambda>(m, r2).
     Option.bind (scan_lit '',t='' r2) (\<lambda>r3. Option.bind (scan_uint (2 ^ 32) r3) (\<lambda>(t, r4).
     Option.bind (scan_lit '',p='' r4) (\<lambda>r5. Option.bind (scan_uint (2 ^ 8) r5) (\<lambda>(p, r6). Some (m, t, p)))))))"

section \<open>Passwords and tokens\<close>

record argon2_params =
  a2_time :: int
  a2_memory :: int
  a2_threads :: int
  a2_key_len :: int
  a2_salt_len :: int

definition DefaultParams :: argon2_params where
  "DefaultParams = \<lparr>a2_time = 3, a2_memory = 64 * 1024, a2_threads = 4, a2_key_len = 32, a2_salt_len = 16\<rparr>"

definition argon2_version :: int where "argon2_version = 19"

definition HashPassword :: "crypto_lib \<Rightarrow> bytes \<Rightarrow> string \<Rightarrow> argon2_params \<Rightarrow> string option" where
  "HashPassword cl salt pw p =
     (if length pw < 12 then None
      else let key = cl_idkey cl (bytes_of_string pw) salt (a2_time p) (a2_memory p) (a2_threads p) (a2_key_len p) in
        Some (''$argon2id$v='' @ dec_int argon2_version @ ''$m='' @ dec_int (a2_memory p) @ '',t='' @ dec_int (a2_time p) @
              '',p='' @ dec_int (a2_threads p) @ ''$'' @ b64raw_encode salt @ ''$'' @ b64raw_encode key))"

definition VerifyPassword :: "crypto_lib \<Rightarrow> string \<Rightarrow> string \<Rightarrow> bool" where
  "VerifyPassword cl pw encoded =
     (let parts = split_on CHR ''$'' encoded in
      if length parts \<noteq> 6 \<or> parts ! 1 \<noteq> ''argon2id'' then False
      else case scan_version (parts ! 2) of
        None \<Rightarrow> False
      | Some v \<Rightarrow> if v \<noteq> argon2_version then False
          else case scan_params (parts ! 3) of
            None \<Rightarrow> False
          | Some (mem, t, threads) \<Rightarrow>
              (case b64raw_decode (parts ! 4) of
                 None \<Rightarrow> False
               | Some salt \<Rightarrow>
                   (case b64raw_decode (parts ! 5) of
                      None \<Rightarrow> False
                    | Some want \<Rightarrow> cl_idkey cl (bytes_of_string pw) salt t mem threads (int (length want) mod 2 ^ 32) = want)))"

definition HashToken :: "crypto_lib \<Rightarrow> string \<Rightarrow> string" where
  "HashToken cl t = hex_encode (cl_sha256 cl (bytes_of_string t))"

definition ConstantTimeEqualString :: "string \<Rightarrow> string \<Rightarrow> bool" where
  "ConstantTimeEqualString a b \<longleftrightarrow> a = b"

section \<open>One-time codes\<close>

text \<open>The counter as eight bytes, most significant first; a negative counter is converted to \<open>uint64\<close>.\<close>

definition be_bytes64 :: "int \<Rightarrow> bytes" where
  "be_bytes64 n = (let w = (word_of_int n :: 64 word) in
     map (\<lambda>i. ucast (drop_bit (8 * (7 - i)) w)) [0..<8])"

text \<open>\<^term>\<open>None\<close> is an index out of range.\<close>

definition dynamic_truncation :: "bytes \<Rightarrow> nat option" where
  "dynamic_truncation mac =
     (if mac = [] then None
      else let off = unat (last mac AND 0x0f) in
        if off + 4 > length mac then None
        else Some (unat (mac ! off) mod 128 * 2 ^ 24 + unat (mac ! (off + 1)) * 2 ^ 16 + unat (mac ! (off + 2)) * 2 ^ 8 + unat (mac ! (off + 3))))"

text \<open>\<open>%06d\<close>.\<close>

definition pad6 :: "nat \<Rightarrow> string" where
  "pad6 n = (let s = dec_nat n in replicate (6 - length s) CHR ''0'' @ s)"

definition totpAt :: "crypto_lib \<Rightarrow> bytes \<Rightarrow> int \<Rightarrow> string option" where
  "totpAt cl key counter = map_option (\<lambda>v. pad6 (v mod 1000000)) (dynamic_truncation (cl_hmac_sha1 cl key (be_bytes64 counter)))"

definition VerifyTOTP :: "crypto_lib \<Rightarrow> int \<Rightarrow> string \<Rightarrow> string \<Rightarrow> bool" where
  "VerifyTOTP cl unix secret code0 =
     (let code = trim_space code0 in
      if length code \<noteq> 6 then False
      else case cl_base32 cl (cl_upper cl secret) of
        None \<Rightarrow> False
      | Some key \<Rightarrow> (let step = unix div 30 in list_ex (\<lambda>s. totpAt cl key s = Some code) [step - 1, step, step + 1]))"

text \<open>\<open>url.PathEscape\<close> and \<open>url.QueryEscape\<close>, byte by byte.\<close>

definition hex_upper :: "nat \<Rightarrow> char" where
  "hex_upper n = ''0123456789ABCDEF'' ! n"

definition unreserved :: "char \<Rightarrow> bool" where
  "unreserved c \<longleftrightarrow> is_digit c \<or> (CHR ''a'' \<le> c \<and> c \<le> CHR ''z'') \<or> (CHR ''A'' \<le> c \<and> c \<le> CHR ''Z'') \<or> c \<in> set ''-_.~''"

definition percent :: "char \<Rightarrow> string" where
  "percent c = [CHR ''%'', hex_upper (of_char c div 16), hex_upper (of_char c mod 16)]"

definition PathEscape :: "string \<Rightarrow> string" where
  "PathEscape s = concat (map (\<lambda>c. if unreserved c \<or> c \<in> set ''$&+=:@'' then [c] else percent c) s)"

definition QueryEscape :: "string \<Rightarrow> string" where
  "QueryEscape s = concat (map (\<lambda>c. if c = CHR '' '' then ''+'' else if unreserved c then [c] else percent c) s)"

text \<open>\<open>Values.Encode\<close> writes the keys in order.\<close>

definition TOTPURI :: "string \<Rightarrow> string \<Rightarrow> string \<Rightarrow> string" where
  "TOTPURI issuer account secret =
     ''otpauth://totp/'' @ PathEscape (issuer @ '':'' @ account) @ ''?algorithm=SHA1&digits=6&issuer='' @ QueryEscape issuer @
     ''&period=30&secret='' @ QueryEscape secret"

definition NewRecoveryCodes :: "crypto_lib \<Rightarrow> string list \<Rightarrow> string list \<times> string list" where
  "NewRecoveryCodes cl tokens = (tokens, map (HashToken cl) tokens)"

section \<open>Encryption at rest\<close>

definition DeriveSecretKey :: "crypto_lib \<Rightarrow> string \<Rightarrow> bytes" where
  "DeriveSecretKey cl raw = cl_sha256 cl (bytes_of_string (''smartdns/secret-key/v1|'' @ raw))"

definition encryptSecret :: "crypto_lib \<Rightarrow> bytes option \<Rightarrow> bytes \<Rightarrow> string \<Rightarrow> bytes option" where
  "encryptSecret cl key nonce plain =
     (case key of None \<Rightarrow> None | Some k \<Rightarrow> Some (nonce @ cl_gcm_seal cl k nonce (bytes_of_string plain)))"

definition gcm_nonce_size :: nat where "gcm_nonce_size = 12"

definition decryptSecret :: "crypto_lib \<Rightarrow> bytes option \<Rightarrow> bytes \<Rightarrow> string option" where
  "decryptSecret cl key b =
     (case key of
        None \<Rightarrow> None
      | Some k \<Rightarrow>
          if length b < gcm_nonce_size then None
          else map_option string_of_bytes (cl_gcm_open cl k (take gcm_nonce_size b) (drop gcm_nonce_size b)))"

section \<open>Lemmas\<close>

lemma b64_encode_shape:
  "\<exists>k. b64_encode bs = b64raw_encode bs @ replicate k CHR ''='' \<and> k = (4 - length (b64raw_encode bs) mod 4) mod 4 \<and>
     length (b64raw_encode bs) mod 4 \<noteq> 1"
proof (induction bs rule: b64_encode.induct)
  case 1
  show ?case by (simp add: b64raw_encode_def)
next
  case (2 a)
  have "replicate 2 CHR ''='' = [CHR ''='', CHR ''='']" by (simp add: numeral_2_eq_2)
  then show ?case by (intro exI [of _ 2]) (simp add: b64raw_encode_def b64_char_ok)
next
  case (3 a b)
  show ?case by (rule exI [of _ 1]) (simp add: b64raw_encode_def b64_char_ok)
next
  case (4 a b c bs)
  then obtain k where k: "b64_encode bs = b64raw_encode bs @ replicate k CHR ''=''" "k = (4 - length (b64raw_encode bs) mod 4) mod 4"
    "length (b64raw_encode bs) mod 4 \<noteq> 1" by blast
  let ?q = "[b64_char (unat a div 4), b64_char (unat a mod 4 * 16 + unat b div 16),
     b64_char (unat b mod 16 * 4 + unat c div 64), b64_char (unat c mod 64)]"
  have r: "b64raw_encode (a # b # c # bs) = ?q @ b64raw_encode bs" by (simp add: b64raw_encode_def b64_char_ok)
  then have l: "length (b64raw_encode (a # b # c # bs)) mod 4 = length (b64raw_encode bs) mod 4" by simp
  from k r l show ?case by (intro exI [of _ k]) simp
qed

lemma b64raw_no_special: "c \<in> set (b64raw_encode bs) \<Longrightarrow> c \<noteq> CHR ''='' \<and> c \<noteq> CHR 0x0A \<and> c \<noteq> CHR 0x0D"
  using b64_encode_no_newline by (auto simp: b64raw_encode_def)

lemma b64raw_decode_encode [simp]: "b64raw_decode (b64raw_encode bs) = Some bs"
proof -
  have "filter (\<lambda>c. c \<noteq> CHR 0x0A \<and> c \<noteq> CHR 0x0D) (b64raw_encode bs) = b64raw_encode bs"
    using b64raw_no_special by (simp add: filter_id_conv)
  with b64_encode_shape [of bs] b64raw_no_special [of "CHR ''=''" bs] b64_quanta_encode [of bs] show ?thesis
    by (auto simp: b64raw_decode_def Let_def)
qed

lemma b64_encode_chars: "set (b64_encode bs) \<subseteq> insert CHR ''='' (b64_char ` {..<64})"
  by (induction bs rule: b64_encode.induct) auto

lemma b64_alphabet_no_dollar: "CHR ''$'' \<notin> set (b64raw_encode bs)"
proof -
  have "CHR ''$'' \<notin> set b64_alphabet" and b64_alphabet_length: "length b64_alphabet = 64" by code_simp+
  then have "CHR ''$'' \<notin> b64_char ` {..<64}" unfolding b64_char_def by (metis imageE lessThan_iff nth_mem)
  then show ?thesis using b64_encode_chars [of bs] by (auto simp: b64raw_encode_def)
qed

lemma dec_nat_is_digit: "list_all is_digit (dec_nat n)"
proof -
  have "is_digit c" if "c \<in> set (dec_nat n)" for c
    using dec_nat_digits [OF that] by (simp add: is_digit_def less_eq_char_def)
  then show ?thesis by (simp add: list_all_iff)
qed

lemma dec_nat_not_Nil [simp]: "dec_nat n \<noteq> []"
  by (subst dec_nat.simps) simp

lemma dec_int_nonneg: "0 \<le> n \<Longrightarrow> dec_int n = dec_nat (nat n)"
  by (simp add: dec_int_def)

lemma digit_not: "is_digit c \<Longrightarrow> c \<notin> {CHR '' '', CHR 0x09, CHR 0x0B, CHR 0x0C, CHR ''$'', CHR ''-'', CHR ''+'', CHR '',''}"
  by (auto simp: is_digit_def less_eq_char_def)

lemma skip_blanks_digits: "ds \<noteq> [] \<Longrightarrow> list_all is_digit ds \<Longrightarrow> skip_blanks (ds @ rest) = ds @ rest"
  using digit_not by (cases ds) (force simp: skip_blanks_def)+

lemma takeWhile_digits: "list_all is_digit ds \<Longrightarrow> (rest = [] \<or> \<not> is_digit (hd rest)) \<Longrightarrow> takeWhile is_digit (ds @ rest) = ds"
  by (cases rest) (auto simp: list_all_iff takeWhile_append)

lemma scan_uint_digits:
  assumes "0 \<le> n" and "n < bound" and "rest = [] \<or> \<not> is_digit (hd rest)"
  shows "scan_uint bound (dec_int n @ rest) = Some (n, rest)"
  using assms skip_blanks_digits [OF dec_nat_not_Nil dec_nat_is_digit, of "nat n" rest]
    takeWhile_digits [OF dec_nat_is_digit, of rest "nat n"]
  by (simp add: scan_uint_def dec_int_nonneg Let_def)

lemma scan_version_print: "scan_version (''v='' @ dec_int argon2_version) = Some argon2_version"
  by (simp add: argon2_version_def) code_simp

lemma scan_params_print:
  assumes "0 \<le> m" "m < 2 ^ 32" "0 \<le> t" "t < 2 ^ 32" "0 \<le> p" "p < 2 ^ 8"
  shows "scan_params (''m='' @ dec_int m @ '',t='' @ dec_int t @ '',p='' @ dec_int p) = Some (m, t, p)"
proof -
  have c: "\<not> is_digit CHR '',''" by (simp add: is_digit_def less_eq_char_def)
  have 1: "scan_uint (2 ^ 32) (dec_int m @ '',t='' @ dec_int t @ '',p='' @ dec_int p) = Some (m, '',t='' @ dec_int t @ '',p='' @ dec_int p)"
    by (rule scan_uint_digits) (use assms c in simp_all)
  have 2: "scan_uint (2 ^ 32) (dec_int t @ '',p='' @ dec_int p) = Some (t, '',p='' @ dec_int p)"
    by (rule scan_uint_digits) (use assms c in simp_all)
  have 3: "scan_uint (2 ^ 8) (dec_int p @ []) = Some (p, [])" by (rule scan_uint_digits) (use assms in simp_all)
  have l: "scan_lit a (a @ r) = Some r" for a r by (simp add: scan_lit_def has_prefix_iff)
  show ?thesis unfolding scan_params_def by (simp only: l 1 2 3 [unfolded append_Nil2] Option.bind.simps case_prod_conv)
qed

lemma no_dollar_dec: "0 \<le> n \<Longrightarrow> CHR ''$'' \<notin> set (dec_int n)"
  using dec_nat_is_digit [of "nat n"] digit_not by (auto simp: dec_int_nonneg list_all_iff)

lemma hash_parts:
  assumes "0 \<le> m" "0 \<le> t" "0 \<le> p"
  shows "split_on CHR ''$'' (''$argon2id$v='' @ dec_int argon2_version @ ''$m='' @ dec_int m @ '',t='' @ dec_int t @ '',p='' @ dec_int p @ ''$'' @
      b64raw_encode salt @ ''$'' @ b64raw_encode key) =
    [[], ''argon2id'', ''v='' @ dec_int argon2_version, ''m='' @ dec_int m @ '',t='' @ dec_int t @ '',p='' @ dec_int p, b64raw_encode salt, b64raw_encode key]"
proof -
  let ?d = "CHR ''$''"
  have e: "''$argon2id$v='' @ dec_int argon2_version @ ''$m='' @ dec_int m @ '',t='' @ dec_int t @ '',p='' @ dec_int p @ ''$'' @
      b64raw_encode salt @ ''$'' @ b64raw_encode key =
    [] @ ?d # (''argon2id'' @ ?d # ((''v='' @ dec_int argon2_version) @ ?d #
      ((''m='' @ dec_int m @ '',t='' @ dec_int t @ '',p='' @ dec_int p) @ ?d # (b64raw_encode salt @ ?d # b64raw_encode key))))" by simp
  have n: "?d \<notin> set ''argon2id''" "?d \<notin> set (''v='' @ dec_int argon2_version)"
    "?d \<notin> set (''m='' @ dec_int m @ '',t='' @ dec_int t @ '',p='' @ dec_int p)"
    using assms no_dollar_dec by (auto simp: argon2_version_def)
  show ?thesis unfolding e split_on_append_sep
    by (simp only: split_on_no_sep [OF n(1)] split_on_no_sep [OF n(2)] split_on_no_sep [OF n(3)]
        split_on_no_sep [OF b64_alphabet_no_dollar] split_on.simps) simp
qed

lemma verify_hashed:
  assumes "\<And>pw salt t m th n. 1 \<le> t \<Longrightarrow> 1 \<le> th \<Longrightarrow> 0 \<le> n \<Longrightarrow> int (length (cl_idkey cl pw salt t m th n)) = n"
    and "0 \<le> a2_memory p" "a2_memory p < 2 ^ 32" "1 \<le> a2_time p" "a2_time p < 2 ^ 32" "1 \<le> a2_threads p" "a2_threads p < 2 ^ 8"
      "0 \<le> a2_key_len p" "a2_key_len p < 2 ^ 32"
    and h: "HashPassword cl salt pw p = Some h"
  shows "VerifyPassword cl pw' h \<longleftrightarrow>
    cl_idkey cl (bytes_of_string pw') salt (a2_time p) (a2_memory p) (a2_threads p) (a2_key_len p) =
    cl_idkey cl (bytes_of_string pw) salt (a2_time p) (a2_memory p) (a2_threads p) (a2_key_len p)"
proof -
  let ?key = "cl_idkey cl (bytes_of_string pw) salt (a2_time p) (a2_memory p) (a2_threads p) (a2_key_len p)"
  from h have e: "h = ''$argon2id$v='' @ dec_int argon2_version @ ''$m='' @ dec_int (a2_memory p) @ '',t='' @ dec_int (a2_time p) @
      '',p='' @ dec_int (a2_threads p) @ ''$'' @ b64raw_encode salt @ ''$'' @ b64raw_encode ?key"
    unfolding HashPassword_def Let_def by (metis option.distinct(1) option.inject)
  have parts: "split_on CHR ''$'' h = [[], ''argon2id'', ''v='' @ dec_int argon2_version,
      ''m='' @ dec_int (a2_memory p) @ '',t='' @ dec_int (a2_time p) @ '',p='' @ dec_int (a2_threads p), b64raw_encode salt, b64raw_encode ?key]"
    unfolding e by (rule hash_parts) (use assms(2,4,6) in simp_all)
  have l: "int (length ?key) mod 2 ^ 32 = a2_key_len p" using assms(1) [OF assms(4,6,8)] assms(8,9) by simp
  have n: "xs ! 1 = b" "xs ! 2 = c" "xs ! 3 = d" "xs ! 4 = f" "xs ! 5 = g" "length xs = 6" if "xs = [a, b, c, d, f, g]" for xs :: "string list" and a b c d f g
    using that by (simp_all add: nth_Cons')
  have pos: "0 \<le> a2_time p" "0 \<le> a2_threads p" using assms(4,6) by simp_all
  note sp = scan_params_print [OF assms(2,3) pos(1) assms(5) pos(2) assms(7)]
  show "VerifyPassword cl pw' h \<longleftrightarrow> cl_idkey cl (bytes_of_string pw') salt (a2_time p) (a2_memory p) (a2_threads p) (a2_key_len p) = ?key"
    unfolding VerifyPassword_def Let_def n [OF parts] scan_version_print sp b64raw_decode_encode option.case case_prod_conv l by simp
qed

section \<open>Properties\<close>

text \<open>
  A stored password is verified by exactly the passwords with the same Argon2id key under the stored salt and
  parameters: the text form loses nothing of version, parameters, salt and key. Passwords shorter than twelve bytes are
  never stored.
\<close>

theorem password_roundtrip:
  assumes "\<And>pw salt t m th n. 1 \<le> t \<Longrightarrow> 1 \<le> th \<Longrightarrow> 0 \<le> n \<Longrightarrow> int (length (cl_idkey cl pw salt t m th n)) = n"
    and "0 \<le> a2_memory p" "a2_memory p < 2 ^ 32" "1 \<le> a2_time p" "a2_time p < 2 ^ 32" "1 \<le> a2_threads p" "a2_threads p < 2 ^ 8"
      "0 \<le> a2_key_len p" "a2_key_len p < 2 ^ 32"
  shows "(HashPassword cl salt pw p = None \<longleftrightarrow> length pw < 12) \<and>
    (\<forall>h. HashPassword cl salt pw p = Some h \<longrightarrow> (\<forall>pw'. VerifyPassword cl pw' h \<longleftrightarrow>
       cl_idkey cl (bytes_of_string pw') salt (a2_time p) (a2_memory p) (a2_threads p) (a2_key_len p) =
       cl_idkey cl (bytes_of_string pw) salt (a2_time p) (a2_memory p) (a2_threads p) (a2_key_len p)))"
proof -
  have "HashPassword cl salt pw p = None \<longleftrightarrow> length pw < 12" by (simp add: HashPassword_def Let_def)
  with verify_hashed [OF assms] show ?thesis by blast
qed

text \<open>A key derivation to run the code on: it keeps the first byte of the password and fills up.\<close>

definition demo_crypto :: crypto_lib where
  "demo_crypto = \<lparr>cl_idkey = (\<lambda>pw salt t m th n. take (nat n) (pw @ replicate (nat n) 0)), cl_sha256 = (\<lambda>b. b),
     cl_hmac_sha1 = (\<lambda>k m. take 20 (m @ replicate 20 1)), cl_base32 = (\<lambda>s. Some (bytes_of_string s)), cl_upper = (\<lambda>s. s),
     cl_gcm_seal = (\<lambda>k n p. p), cl_gcm_open = (\<lambda>k n c. Some c)\<rparr>"

theorem password_roundtrip_witness:
  "(case HashPassword demo_crypto [1, 2] ''correct horse'' (DefaultParams\<lparr>a2_key_len := 4\<rparr>) of
      None \<Rightarrow> False | Some h \<Rightarrow> VerifyPassword demo_crypto ''correct horse'' h \<and> \<not> VerifyPassword demo_crypto ''wrong'' h)"
proof -
  let ?p = "DefaultParams\<lparr>a2_key_len := 4\<rparr>"
  have law: "\<And>pw salt t m th n. 1 \<le> t \<Longrightarrow> 1 \<le> th \<Longrightarrow> 0 \<le> n \<Longrightarrow> int (length (cl_idkey demo_crypto pw salt t m th n)) = n" by (simp add: demo_crypto_def)
  have R: "0 \<le> a2_memory ?p" "a2_memory ?p < 2 ^ 32" "1 \<le> a2_time ?p" "a2_time ?p < 2 ^ 32" "1 \<le> a2_threads ?p" "a2_threads ?p < 2 ^ 8"
      "0 \<le> a2_key_len ?p" "a2_key_len ?p < 2 ^ 32" by (simp_all add: DefaultParams_def)
  note P = password_roundtrip [OF law R, of "[1, 2]" "''correct horse''"]
  from P obtain h where h: "HashPassword demo_crypto [1, 2] ''correct horse'' ?p = Some h" by (auto simp: not_less)
  with P have "VerifyPassword demo_crypto ''correct horse'' h" by simp
  moreover from P h have "\<not> VerifyPassword demo_crypto ''wrong'' h" by (simp add: demo_crypto_def DefaultParams_def bytes_of_string_def)
  ultimately show ?thesis using h by simp
qed

subsection \<open>One-time codes\<close>

lemma last_nibble: "unat (w AND 0x0f :: byte) < 16"
proof -
  have "w AND 0x0f \<le> 0x0f" by (rule word_and_le1)
  then show ?thesis by (simp add: word_le_nat_alt)
qed

lemma dynamic_truncation_ok: "length mac = 20 \<Longrightarrow> \<exists>v. dynamic_truncation mac = Some v"
  using last_nibble [of "last mac"] by (auto simp: dynamic_truncation_def Let_def)

lemma length_dec_nat_le: "n < 10 ^ k \<Longrightarrow> 0 < k \<Longrightarrow> length (dec_nat n) \<le> k"
proof (induction n arbitrary: k rule: dec_nat.induct)
  case (1 n)
  show ?case
  proof (cases "n < 10")
    case True
    then show ?thesis using 1 by (subst dec_nat.simps) simp
  next
    case False
    with 1(2) have k: "1 < k" by (metis One_nat_def Suc_lessI 1(3) power_one_right)
    with 1(2) have "n div 10 < 10 ^ (k - 1)" by (cases k) (auto simp: div_less_iff_less_mult mult.commute)
    with 1(1) [OF False, of "k - 1"] k False show ?thesis by (subst dec_nat.simps) simp
  qed
qed

lemma pad6_correct: "n < 1000000 \<Longrightarrow> length (pad6 n) = 6 \<and> list_all is_digit (pad6 n) \<and> dec_val (pad6 n) = n"
proof -
  assume n: "n < 1000000"
  have l: "length (dec_nat n) \<le> 6" by (rule length_dec_nat_le) (use n in simp_all)
  have z: "dec_val (replicate k CHR ''0'' @ s) = dec_val s" for k s by (induction k) (simp_all add: dec_val_def)
  have "is_digit CHR ''0''" by (simp add: is_digit_def)
  with l z show ?thesis using dec_nat_is_digit [of n] by (auto simp: pad6_def Let_def list_all_iff)
qed

text \<open>
  One-time codes never crash and are always six digits, and a code is accepted exactly if it is, apart from surrounding
  blanks, the code of the current half minute or of one of its neighbours; HMAC-SHA1 gives twenty bytes.
\<close>

theorem VerifyTOTP_correct:
  assumes "\<And>k m. length (cl_hmac_sha1 cl k m) = 20" and "cl_base32 cl (cl_upper cl secret) = Some key"
  shows "(\<forall>c. \<exists>n<1000000. totpAt cl key c = Some (pad6 n) \<and> length (pad6 n) = 6 \<and> list_all is_digit (pad6 n)) \<and>
    (VerifyTOTP cl unix secret code \<longleftrightarrow> (\<exists>c\<in>{unix div 30 - 1, unix div 30, unix div 30 + 1}. totpAt cl key c = Some (trim_space code)))"
proof
  have t: "\<exists>n<1000000. totpAt cl key c = Some (pad6 n) \<and> length (pad6 n) = 6 \<and> list_all is_digit (pad6 n)" for c
  proof -
    from dynamic_truncation_ok [OF assms(1)] obtain v where "dynamic_truncation (cl_hmac_sha1 cl key (be_bytes64 c)) = Some v" by blast
    then have "totpAt cl key c = Some (pad6 (v mod 1000000))" by (simp add: totpAt_def)
    with pad6_correct [of "v mod 1000000"] show ?thesis by (intro exI [of _ "v mod 1000000"]) simp
  qed
  then show "\<forall>c. \<exists>n<1000000. totpAt cl key c = Some (pad6 n) \<and> length (pad6 n) = 6 \<and> list_all is_digit (pad6 n)" by blast
  have "length (trim_space code) = 6" if "totpAt cl key c = Some (trim_space code)" for c using t [of c] that by auto
  then show "VerifyTOTP cl unix secret code \<longleftrightarrow> (\<exists>c\<in>{unix div 30 - 1, unix div 30, unix div 30 + 1}. totpAt cl key c = Some (trim_space code))"
    using assms(2) by (auto simp: VerifyTOTP_def Let_def)
qed

theorem VerifyTOTP_correct_witness:
  "VerifyTOTP demo_crypto 60 ''ab'' ''843009'' \<longleftrightarrow>
     (\<exists>c\<in>{60 div 30 - 1, 60 div 30, 60 div 30 + 1}. totpAt demo_crypto (bytes_of_string ''ab'') c = Some (trim_space ''843009''))"
proof -
  have h: "\<And>k m. length (cl_hmac_sha1 demo_crypto k m) = 20" by (simp add: demo_crypto_def)
  have b: "cl_base32 demo_crypto (cl_upper demo_crypto ''ab'') = Some (bytes_of_string ''ab'')" by (simp add: demo_crypto_def)
  show ?thesis using VerifyTOTP_correct [OF h b, of 60 "''843009''"] by blast
qed

text \<open>
  What is encrypted for storage is read back with the same key, whatever the nonce, and without a key nothing is stored
  or read.
\<close>

theorem secret_roundtrip:
  assumes "\<And>k n p. cl_gcm_open cl k n (cl_gcm_seal cl k n p) = Some p" and "length nonce = gcm_nonce_size"
  shows "(\<forall>k. \<exists>b. encryptSecret cl (Some k) nonce plain = Some b \<and> decryptSecret cl (Some k) b = Some plain) \<and>
    encryptSecret cl None nonce plain = None \<and> decryptSecret cl None b = None"
  using assms by (simp add: encryptSecret_def decryptSecret_def)

theorem secret_roundtrip_witness:
  "\<exists>b. encryptSecret demo_crypto (Some [9]) (replicate 12 0) ''JBSW'' = Some b \<and> decryptSecret demo_crypto (Some [9]) b = Some ''JBSW''"
proof -
  have "length (replicate 12 (0 :: byte)) = gcm_nonce_size" by (simp add: gcm_nonce_size_def)
  moreover have "\<And>k n p. cl_gcm_open demo_crypto k n (cl_gcm_seal demo_crypto k n p) = Some p" by (simp add: demo_crypto_def)
  ultimately show ?thesis using secret_roundtrip [of demo_crypto "replicate 12 0" "''JBSW''"] by blast
qed

end
