(* ===== verification/Panel_Session.thy ===== *)
theory Panel_Session
  imports Panel_Auth
begin

text \<open>
  Accounts and sessions (\<open>panel/internal/api/session.go\<close>): the session middleware, login with lockout and second factor, logout,
  revocation, password change and the set-up of one-time codes, over the tables of users, sessions and audit rows. The
  panel and the database read one clock, in seconds; random tokens are arguments. The answer of a handler is its status, its
  body and what it does to the session cookie.
\<close>

section \<open>State\<close>

record user_row =
  ur_id :: string
  ur_email :: string
  ur_password :: string               \<comment> \<open>password_hash\<close>
  ur_role :: string
  ur_display :: string
  ur_totp_secret :: bytes             \<comment> \<open>totp_secret_encrypted, NULL is the empty slice\<close>
  ur_totp_enabled :: bool
  ur_recovery :: "string list"
  ur_failed :: int
  ur_locked :: "int option"
  ur_disabled :: "int option"
  ur_version :: int
  ur_updated :: int

record session_row =
  sn_id :: string
  sn_user :: string
  sn_token :: string                  \<comment> \<open>token_hash\<close>
  sn_csrf :: string
  sn_expires :: int
  sn_seen :: int
  sn_ip :: "string option"
  sn_agent :: string
  sn_created :: int

record auth_db =
  at_users :: "user_row list"
  at_sessions :: "session_row list"
  at_audit :: "audit_row list"

record session_env =
  se_api :: api_env
  se_crypto :: crypto_lib
  se_key :: "bytes option"            \<comment> \<open>secretKey, unless it was never set\<close>
  se_ttl :: int
  se_lab :: bool
  se_version :: string

datatype cookie = KeepCookie | SetCookie string int | ClearCookie

type_synonym auth_reply = "int \<times> json \<times> cookie"

definition put_auth_audit :: "(audit_row list \<Rightarrow> audit_row list) \<Rightarrow> auth_db \<Rightarrow> auth_db" where
  "put_auth_audit f t = t\<lparr>at_audit := f (at_audit t)\<rparr>"

definition user_where :: "(user_row \<Rightarrow> bool) \<Rightarrow> (auth_db, user_row) sql" where
  "user_where P = One (\<lambda>t. filter P (at_users t))"

definition set_user :: "string \<Rightarrow> (int \<Rightarrow> user_row \<Rightarrow> user_row) \<Rightarrow> (auth_db, unit) sql" where
  "set_user uid f = Exec (\<lambda>now _ t. Inr (t\<lparr>at_users := update_rows (\<lambda>u. ur_id u = uid) (f now) (at_users t)\<rparr>))"

definition status_json :: "string \<Rightarrow> json" where
  "status_json s = JObj [(''status'', JStr s)]"

section \<open>The session of a request\<close>

definition live_sessions :: "string \<Rightarrow> int \<Rightarrow> auth_db \<Rightarrow> session_user list" where
  "live_sessions h now t =
     concat (map (\<lambda>s. map (\<lambda>u. \<lparr>us_id = ur_id u, us_email = ur_email u, us_role = ur_role u, us_session = sn_id s, us_csrf = sn_csrf s\<rparr>)
         (filter (\<lambda>u. ur_id u = sn_user s \<and> ur_disabled u = None) (at_users t)))
       (filter (\<lambda>s. sn_token s = h \<and> sn_expires s > now) (at_sessions t)))"

text \<open>\<open>authenticate\<close>: the principal attached to the request, and what happens to the cookie.\<close>

definition authenticate :: "session_env \<Rightarrow> string \<Rightarrow> (auth_db, session_user option \<times> cookie) sql" where
  "authenticate en cookie_value =
     (if cookie_value = [] then returnE (None, KeepCookie)
      else attempt (stmt (\<lambda>now _ t. case live_sessions (HashToken (se_crypto en) cookie_value) now t of
                       [] \<Rightarrow> Inl ErrNotFound | v # _ \<Rightarrow> Inr (v, t))) (\<lambda>found.
        case found of
          Inl _ \<Rightarrow> returnE (None, ClearCookie)
        | Inr v \<Rightarrow>
            ignoring (Exec (\<lambda>now _ t. Inr (t\<lparr>at_sessions := update_rows (\<lambda>s. sn_id s = us_session v) (\<lambda>s. s\<lparr>sn_seen := now\<rparr>) (at_sessions t)\<rparr>)))
              (returnE (Some v, KeepCookie))))"

section \<open>Login\<close>

record login_request =
  lr_email :: string
  lr_password :: string
  lr_totp :: string

definition registerFailedLogin :: "string \<Rightarrow> (auth_db, 'r) sql \<Rightarrow> (auth_db, 'r) sql" where
  "registerFailedLogin uid k = ignoring (set_user uid (\<lambda>now u.
     u\<lparr>ur_failed := ur_failed u + 1, ur_locked := if ur_failed u + 1 \<ge> 10 then Some (now + 15 * 60) else ur_locked u\<rparr>)) k"

definition consumeRecoveryCode :: "session_env \<Rightarrow> string \<Rightarrow> string \<Rightarrow> (auth_db, bool) sql" where
  "consumeRecoveryCode en uid code =
     (let h = HashToken (se_crypto en) (trim_space code); hit = (\<lambda>u. ur_id u = uid \<and> h \<in> set (ur_recovery u)) in
      attempt (ExecN (\<lambda>_ _ t. Inr (count_rows hit (at_users t),
          t\<lparr>at_users := update_rows hit (\<lambda>u. u\<lparr>ur_recovery := filter (\<lambda>x. x \<noteq> h) (ur_recovery u)\<rparr>) (at_users t)\<rparr>))) (\<lambda>r.
        returnE (case r of Inl _ \<Rightarrow> False | Inr n \<Rightarrow> n > 0)))"

definition insert_session :: "session_row \<Rightarrow> (auth_db, unit) sql" where
  "insert_session row = Exec (\<lambda>now u t.
     if list_ex (\<lambda>s. sn_id s = u \<or> sn_token s = sn_token row) (at_sessions t) \<or> \<not> list_ex (\<lambda>x. ur_id x = sn_user row) (at_users t)
     then Inl ErrConflict
     else Inr (t\<lparr>at_sessions := at_sessions t @ [row\<lparr>sn_id := u, sn_seen := now, sn_created := now\<rparr>]\<rparr>))"

definition session_ttl :: "session_env \<Rightarrow> int" where
  "session_ttl en = (if se_ttl en = 0 then 12 * 3600 else se_ttl en)"

definition user_json :: "user_row \<Rightarrow> json" where
  "user_json u = JObj [(''id'', JStr (ur_id u)), (''email'', JStr (ur_email u)), (''role'', JStr (ur_role u)),
     (''display_name'', JStr (ur_display u)), (''totp_enabled'', JBool (ur_totp_enabled u))]"

text \<open>\<open>time.Now()\<close>.\<close>

definition time_now :: "(int \<Rightarrow> ('t, 'r) sql) \<Rightarrow> ('t, 'r) sql" where
  "time_now f d = f (db_now d) d"

text \<open>The part of the handler after the checks.\<close>

definition open_session :: "session_env \<Rightarrow> api_request \<Rightarrow> string \<Rightarrow> string \<Rightarrow> user_row \<Rightarrow> (auth_db, auth_reply) sql" where
  "open_session en r token csrf u = time_now (\<lambda>now.
     let expires = now + session_ttl en in
     tryE (insert_session \<lparr>sn_id = [], sn_user = ur_id u, sn_token = HashToken (se_crypto en) token, sn_csrf = csrf, sn_expires = expires,
         sn_seen = 0, sn_ip = nullIP (ae_parse_ip (se_api en)) (clientIP (ae_net (se_api en)) r),
         sn_agent = take 300 (aq_header r ''User-Agent''), sn_created = 0\<rparr>) (\<lambda>_.
     ignoring (set_user (ur_id u) (\<lambda>_ x. x\<lparr>ur_failed := 0, ur_locked := None\<rparr>))
       (audit put_auth_audit (audit_of (se_api en) r ''auth.login'' ''user'' (ur_id u) None (Some (JObj [(''email'', JStr (ur_email u))])))
         (returnE (200, JObj [(''user'', user_json u), (''csrf_token'', JStr csrf), (''expires_at'', JNum (dec_int expires))],
            SetCookie token expires)))))"

definition second_factor :: "session_env \<Rightarrow> user_row \<Rightarrow> string \<Rightarrow> (auth_db, 'r) sql \<Rightarrow> (auth_db, 'r) sql" where
  "second_factor en u code k =
     (if \<not> ur_totp_enabled u then k
      else if code = [] then throwE (APIError 401 ''totp_required'')
      else case decryptSecret (se_crypto en) (se_key en) (ur_totp_secret u) of
        None \<Rightarrow> throwE internal_err
      | Some secret \<Rightarrow> time_now (\<lambda>now.
          if VerifyTOTP (se_crypto en) now secret code then k
          else tryE (consumeRecoveryCode en (ur_id u) code) (\<lambda>ok.
            if ok then k else registerFailedLogin (ur_id u) (throwE (APIError 401 ''invalid_totp'')))))"

definition login_email :: "session_env \<Rightarrow> login_request \<Rightarrow> string" where
  "login_email en q = to_lower (ae_lower (se_api en)) (trim_space (lr_email q))"

definition handleLogin :: "session_env \<Rightarrow> api_request \<Rightarrow> string \<Rightarrow> string \<Rightarrow> login_request option \<Rightarrow> (auth_db, auth_reply) sql" where
  "handleLogin en r token csrf body = decodeE body (\<lambda>req.
     let email = login_email en req in
     attempt (user_where (\<lambda>u. ur_email u = email)) (\<lambda>found.
       case found of
         Inl _ \<Rightarrow> throwE (APIError 401 ''invalid_credentials'')
       | Inr u \<Rightarrow>
           if ur_disabled u \<noteq> None then throwE (APIError 403 ''account_disabled'')
           else time_now (\<lambda>now.
             if (case ur_locked u of None \<Rightarrow> False | Some l \<Rightarrow> l > now) then throwE (APIError 429 ''account_locked'')
             else if \<not> VerifyPassword (se_crypto en) (lr_password req) (ur_password u) then
               registerFailedLogin (ur_id u)
                 (audit put_auth_audit (audit_of (se_api en) r ''auth.login_failed'' ''user'' (ur_id u) None (Some (JObj [(''email'', JStr email)])))
                   (throwE (APIError 401 ''invalid_credentials'')))
             else second_factor en u (lr_totp req) (open_session en r token csrf u))))"

section \<open>Sessions and passwords\<close>

definition handleLogout :: "session_env \<Rightarrow> api_request \<Rightarrow> (auth_db, auth_reply) sql" where
  "handleLogout en r =
     (let answer = returnE (200, status_json ''signed_out'', ClearCookie) in
      case aq_user r of
        None \<Rightarrow> answer
      | Some u \<Rightarrow>
          ignoring (Exec (\<lambda>_ _ t. Inr (t\<lparr>at_sessions := filter (\<lambda>s. sn_id s \<noteq> us_session u) (at_sessions t)\<rparr>)))
            (audit put_auth_audit (audit_of (se_api en) r ''auth.logout'' ''user'' (us_id u) None None) answer))"

definition handleRevokeSession :: "session_env \<Rightarrow> api_request \<Rightarrow> session_user \<Rightarrow> (auth_db, auth_reply) sql" where
  "handleRevokeSession en r u =
     (let sid = aq_path r ''id''; hit = (\<lambda>s. sn_id s = sid \<and> sn_user s = us_id u) in
      tryE (ExecN (\<lambda>_ _ t. Inr (count_rows hit (at_sessions t), t\<lparr>at_sessions := filter (\<lambda>s. \<not> hit s) (at_sessions t)\<rparr>))) (\<lambda>n.
        if n = 0 then throwE notFound
        else audit put_auth_audit (audit_of (se_api en) r ''auth.session_revoked'' ''session'' sid None None)
               (returnE (200, status_json ''revoked'', KeepCookie))))"

definition handleMe :: "session_env \<Rightarrow> api_request \<Rightarrow> (auth_db, json) sql" where
  "handleMe en r =
     (case aq_user r of
        None \<Rightarrow> throwE (APIError 401 ''unauthenticated'')
      | Some u \<Rightarrow> tryE (user_where (\<lambda>x. ur_id x = us_id u)) (\<lambda>row. 
        returnE (JObj [(''user'', user_json row), (''csrf_token'', JStr (us_csrf u)), (''lab_mode'', JBool (se_lab en)), (''version'', JStr (se_version en))])))"

definition handleSessions :: "session_user \<Rightarrow> (auth_db, session_row list \<times> string) sql" where
  "handleSessions u =
     tryE (Many (\<lambda>t. sort_key (\<lambda>s. - sn_seen s) (filter (\<lambda>s. sn_user s = us_id u) (at_sessions t)))) (\<lambda>rows. returnE (rows, us_session u))"

definition handleChangePassword :: "session_env \<Rightarrow> api_request \<Rightarrow> session_user \<Rightarrow> bytes \<Rightarrow> (string \<times> string) option \<Rightarrow> (auth_db, auth_reply) sql" where
  "handleChangePassword en r u salt body = decodeE body (\<lambda>(current, new).
     tryE (user_where (\<lambda>x. ur_id x = us_id u)) (\<lambda>row.
     if \<not> VerifyPassword (se_crypto en) current (ur_password row) then throwE (APIError 401 ''invalid_credentials'')
     else case HashPassword (se_crypto en) salt new DefaultParams of
       None \<Rightarrow> throwE badRequest
     | Some h \<Rightarrow>
         tryE (set_user (us_id u) (\<lambda>now x. x\<lparr>ur_password := h, ur_updated := now, ur_version := ur_version x + 1\<rparr>)) (\<lambda>_.
         ignoring (Exec (\<lambda>_ _ t. Inr (t\<lparr>at_sessions := filter (\<lambda>s. \<not> (sn_user s = us_id u \<and> sn_id s \<noteq> us_session u)) (at_sessions t)\<rparr>)))
           (audit put_auth_audit (audit_of (se_api en) r ''auth.password_changed'' ''user'' (us_id u) None None)
             (returnE (200, status_json ''updated'', KeepCookie))))))"

section \<open>One-time codes\<close>

definition handleTOTPSetup :: "session_env \<Rightarrow> session_user \<Rightarrow> string \<Rightarrow> bytes \<Rightarrow> (auth_db, string \<times> string) sql" where
  "handleTOTPSetup en u secret nonce =
     (case encryptSecret (se_crypto en) (se_key en) nonce secret of
        None \<Rightarrow> throwE internal_err
      | Some enc \<Rightarrow>
          tryE (set_user (us_id u) (\<lambda>_ x. x\<lparr>ur_totp_secret := enc, ur_totp_enabled := False\<rparr>)) (\<lambda>_.
            returnE (secret, TOTPURI ''SmartDNS'' (us_email u) secret)))"

definition handleTOTPEnable :: "session_env \<Rightarrow> api_request \<Rightarrow> session_user \<Rightarrow> string list \<Rightarrow> string option \<Rightarrow> (auth_db, string list) sql" where
  "handleTOTPEnable en r u tokens body = decodeE body (\<lambda>code.
     tryE (user_where (\<lambda>x. ur_id x = us_id u)) (\<lambda>row.
     if ur_totp_secret row = [] then throwE badRequest
     else case decryptSecret (se_crypto en) (se_key en) (ur_totp_secret row) of
       None \<Rightarrow> throwE internal_err
     | Some secret \<Rightarrow> time_now (\<lambda>now.
         if \<not> VerifyTOTP (se_crypto en) now secret code then throwE (APIError 400 ''invalid_totp'')
         else case NewRecoveryCodes (se_crypto en) tokens of (plain, hashes) \<Rightarrow>
           tryE (set_user (us_id u) (\<lambda>_ x. x\<lparr>ur_totp_enabled := True, ur_recovery := hashes\<rparr>)) (\<lambda>_.
             audit put_auth_audit (audit_of (se_api en) r ''auth.totp_enabled'' ''user'' (us_id u) None None) (returnE plain)))))"

definition handleTOTPDisable :: "session_env \<Rightarrow> api_request \<Rightarrow> session_user \<Rightarrow> string option \<Rightarrow> (auth_db, auth_reply) sql" where
  "handleTOTPDisable en r u body = decodeE body (\<lambda>password.
     tryE (user_where (\<lambda>x. ur_id x = us_id u)) (\<lambda>row.
     if \<not> VerifyPassword (se_crypto en) password (ur_password row) then throwE (APIError 401 ''invalid_credentials'')
     else tryE (set_user (us_id u) (\<lambda>_ x. x\<lparr>ur_totp_enabled := False, ur_totp_secret := [], ur_recovery := []\<rparr>)) (\<lambda>_.
       audit put_auth_audit (audit_of (se_api en) r ''auth.totp_disabled'' ''user'' (us_id u) None None)
         (returnE (200, status_json ''disabled'', KeepCookie)))))"

section \<open>Lemmas\<close>

lemma preserves_time_now [preserves_rules]: "(\<And>now. preserves I (f now)) \<Longrightarrow> preserves I (time_now f)"
  by (simp add: preserves_def time_now_def)

lemma steady_time_now [steady_rules]: "(\<And>now. steady (f now)) \<Longrightarrow> steady (time_now f)"
  by (simp add: steady_def time_now_def)

lemma steady_decodeE [steady_rules]: "(\<And>x. steady (f x)) \<Longrightarrow> steady (decodeE body f)"
  unfolding decodeE_def by (intro steady_rules)

lemma steady_parts [steady_rules]:
  "steady (user_where P)" "steady (set_user uid f)" "steady (insert_session row)" "steady (consumeRecoveryCode en uid code)"
  "steady k \<Longrightarrow> steady (registerFailedLogin uid k)" "steady k \<Longrightarrow> steady (audit put_auth_audit x k)"
  unfolding user_where_def set_user_def insert_session_def consumeRecoveryCode_def registerFailedLogin_def audit_def Let_def
  by (intro steady_rules; assumption?)+

lemma steady_login [steady_rules]: "steady (handleLogin en r token csrf body)"
  unfolding handleLogin_def open_session_def second_factor_def Let_def by (intro steady_rules)

lemma filter_update_rows: "(\<And>r. Q (f r) = Q r) \<Longrightarrow> filter Q (update_rows P f rows) = update_rows P f (filter Q rows)"
  by (induction rows) auto

lemma update_rows_id: "(\<And>r. r \<in> set rows \<Longrightarrow> \<not> P r) \<Longrightarrow> update_rows P f rows = rows"
  by (induction rows) auto

lemma user_where_Inr: "user_where P d = (Inr u, d') \<Longrightarrow> u \<in> set (at_users (db_tables d)) \<and> P u \<and> db_tables d' = db_tables d \<and> db_now d' = db_now d"
  unfolding user_where_def One_def by (drule stmt_Inr) (auto split: list.splits dest: filter_eq_ConsD)

lemma user_where_tables: "db_tables (snd (user_where P d)) = db_tables d"
  by (simp add: user_where_def reads_keep_tables)

lemma set_user_tables:
  "db_tables (snd (set_user uid f d)) =
     (if db_fail d (db_ops d) then db_tables d
      else (db_tables d)\<lparr>at_users := update_rows (\<lambda>u. ur_id u = uid) (f (db_now d)) (at_users (db_tables d))\<rparr>)"
  by (simp add: set_user_def Exec_def stmt_def)

subsection \<open>Sessions stay\<close>

abbreviation sessions_are :: "session_row list \<Rightarrow> auth_db \<Rightarrow> bool" where
  "sessions_are S t \<equiv> at_sessions t = S"

lemma sessions_parts [preserves_rules]:
  "preserves (sessions_are S) (user_where P)" "preserves (sessions_are S) (set_user uid f)"
  "preserves (sessions_are S) (consumeRecoveryCode en uid code)"
  unfolding user_where_def set_user_def consumeRecoveryCode_def Let_def
  by (intro preserves_rules preserves_Exec preserves_ExecN; auto)+

lemma sessions_audit [preserves_rules]: "preserves (sessions_are S) k \<Longrightarrow> preserves (sessions_are S) (audit put_auth_audit row k)"
  by (rule preserves_audit) (simp_all add: put_auth_audit_def)

lemma sessions_failed [preserves_rules]: "preserves (sessions_are S) k \<Longrightarrow> preserves (sessions_are S) (registerFailedLogin uid k)"
  unfolding registerFailedLogin_def by (intro preserves_rules)

text \<open>Before a session is opened only users and audit rows change.\<close>

lemma consume_total: "\<exists>ok d1. consumeRecoveryCode en uid code d = (Inr ok, d1)"
  by (simp add: consumeRecoveryCode_def Let_def attempt_def returnE_def split: prod.splits)

lemma consume_hit:
  assumes "consumeRecoveryCode en uid code d = (Inr True, d1)"
  shows "(\<exists>u\<in>set (at_users (db_tables d)). ur_id u = uid \<and> HashToken (se_crypto en) (trim_space code) \<in> set (ur_recovery u)) \<and>
    db_tables d1 = (db_tables d)\<lparr>at_users := update_rows (\<lambda>u. ur_id u = uid \<and> HashToken (se_crypto en) (trim_space code) \<in> set (ur_recovery u))
      (\<lambda>u. u\<lparr>ur_recovery := filter (\<lambda>x. x \<noteq> HashToken (se_crypto en) (trim_space code)) (ur_recovery u)\<rparr>) (at_users (db_tables d))\<rparr>"
  using assms by (auto simp: consumeRecoveryCode_def Let_def attempt_def returnE_def ExecN_def stmt_def count_rows_def filter_empty_conv
      split: prod.splits sum.splits if_splits)

lemma insert_session_Inr:
  assumes "insert_session row d = (Inr x, d')"
  shows "at_sessions (db_tables d') =
    at_sessions (db_tables d) @ [row\<lparr>sn_id := db_uuid d (db_ops d), sn_seen := db_now d, sn_created := db_now d\<rparr>]"
proof -
  from Exec_Inr [OF assms [unfolded insert_session_def]] have "db_tables d' = (db_tables d)\<lparr>at_sessions :=
    at_sessions (db_tables d) @ [row\<lparr>sn_id := db_uuid d (db_ops d), sn_seen := db_now d, sn_created := db_now d\<rparr>]\<rparr>" by (simp split: if_splits)
  then show ?thesis by simp
qed

lemma open_session_result:
  assumes "open_session en r token csrf u d = (res, d')"
  shows "(\<exists>e. res = Inl e \<and> at_sessions (db_tables d') = at_sessions (db_tables d)) \<or>
    (\<exists>st body row. res = Inr (st, body, SetCookie token (db_now d + session_ttl en)) \<and>
       at_sessions (db_tables d') = at_sessions (db_tables d) @ [row] \<and> sn_user row = ur_id u \<and>
       sn_token row = HashToken (se_crypto en) token \<and> sn_csrf row = csrf \<and> sn_expires row = db_now d + session_ttl en)"
proof -
  let ?row = "\<lparr>sn_id = [], sn_user = ur_id u, sn_token = HashToken (se_crypto en) token, sn_csrf = csrf, sn_expires = db_now d + session_ttl en,
     sn_seen = 0, sn_ip = nullIP (ae_parse_ip (se_api en)) (clientIP (ae_net (se_api en)) r), sn_agent = take 300 (aq_header r ''User-Agent''), sn_created = 0\<rparr>"
  let ?reply = "(200 :: int, JObj [(''user'', user_json u), (''csrf_token'', JStr csrf), (''expires_at'', JNum (dec_int (db_now d + session_ttl en)))],
     SetCookie token (db_now d + session_ttl en))"
  let ?rest = "ignoring (set_user (ur_id u) (\<lambda>_ x. x\<lparr>ur_failed := 0, ur_locked := None\<rparr>))
       (audit put_auth_audit (audit_of (se_api en) r ''auth.login'' ''user'' (ur_id u) None (Some (JObj [(''email'', JStr (ur_email u))])))
         (returnE ?reply))"
  obtain x d1 where i: "insert_session ?row d = (x, d1)" by fastforce
  have run: "tryE (insert_session ?row) (\<lambda>_. ?rest) d = (res, d')" using assms by (simp add: open_session_def time_now_def Let_def)
  show ?thesis
  proof (cases x)
    case (Inl e)
    with run i have "res = Inl e" "d' = d1" by (simp_all add: tryE_def)
    moreover have "db_tables d1 = db_tables d" using i Inl by (auto simp: insert_session_def dest: Exec_Inl)
    ultimately show ?thesis by simp
  next
    case (Inr y)
    with run i have rest: "?rest d1 = (res, d')" by (simp add: tryE_def)
    then have "res = Inr ?reply" by (auto simp: ignoring_def attempt_def audit_def returnE_def split: prod.splits)
    moreover note insert_session_Inr [OF i [unfolded Inr]]
    moreover have "preserves (sessions_are (at_sessions (db_tables d1))) ?rest" by (intro preserves_rules)
    then have "at_sessions (db_tables (snd (?rest d1))) = at_sessions (db_tables d1)" by (rule preservesD) simp
    then have "at_sessions (db_tables d') = at_sessions (db_tables d1)" unfolding rest snd_conv .
    ultimately show ?thesis
      by (intro disjI2 exI [of _ 200] exI [of _ "fst (snd ?reply)"]
          exI [of _ "?row\<lparr>sn_id := db_uuid d (db_ops d), sn_seen := db_now d, sn_created := db_now d\<rparr>"]) simp
  qed
qed

text \<open>What the second factor has to be.\<close>

definition factor_ok :: "session_env \<Rightarrow> int \<Rightarrow> user_row \<Rightarrow> string \<Rightarrow> bool" where
  "factor_ok en now u code \<longleftrightarrow> (ur_totp_enabled u \<longrightarrow>
     (\<exists>secret. decryptSecret (se_crypto en) (se_key en) (ur_totp_secret u) = Some secret \<and>
        (VerifyTOTP (se_crypto en) now secret code \<or> HashToken (se_crypto en) (trim_space code) \<in> set (ur_recovery u))))"

text \<open>The outcome of the second factor: the rest runs on unchanged sessions, or the login fails.\<close>

lemma second_factor_result:
  fixes k :: "(auth_db, 'r) sql"
  assumes "second_factor en u code k d = (res, d')" and "u \<in> set (at_users (db_tables d))" and "distinct (map ur_id (at_users (db_tables d)))"
  shows "(\<exists>e. res = Inl e \<and> at_sessions (db_tables d') = at_sessions (db_tables d)) \<or>
    (\<exists>d1. k d1 = (res, d') \<and> at_sessions (db_tables d1) = at_sessions (db_tables d) \<and> db_now d1 = db_now d \<and> factor_ok en (db_now d) u code)"
proof (cases "ur_totp_enabled u \<and> code \<noteq> [] \<and> decryptSecret (se_crypto en) (se_key en) (ur_totp_secret u) \<noteq> None")
  case False
  with assms(1) show ?thesis
    by (auto simp: second_factor_def factor_ok_def throwE_def split: if_splits option.splits)
next
  case True
  then obtain secret where s: "decryptSecret (se_crypto en) (se_key en) (ur_totp_secret u) = Some secret" by blast
  show ?thesis
  proof (cases "VerifyTOTP (se_crypto en) (db_now d) secret code")
    case True
    with assms(1) s \<open>ur_totp_enabled u \<and> _\<close> show ?thesis by (auto simp: second_factor_def factor_ok_def time_now_def)
  next
    case False
    obtain ok d1 where c: "consumeRecoveryCode en (ur_id u) code d = (Inr ok, d1)" using consume_total by blast
    have sess: "at_sessions (db_tables d1) = at_sessions (db_tables d)"
      using preservesD [OF sessions_parts(3) [of "at_sessions (db_tables d)" en "ur_id u" code], of d] c by simp
    have now: "db_now d1 = db_now d" using steady_parts(4) [of en "ur_id u" code] c by (metis steady_def snd_conv)
    show ?thesis
    proof (cases ok)
      case True
      with c consume_hit [of en "ur_id u" code d d1] obtain v where "v \<in> set (at_users (db_tables d))" "ur_id v = ur_id u"
        "HashToken (se_crypto en) (trim_space code) \<in> set (ur_recovery v)" by auto
      then have h: "HashToken (se_crypto en) (trim_space code) \<in> set (ur_recovery u)"
        using assms(2,3) by (metis eq_key_imp_eq_value map_of_eq_Some_iff distinct_map inj_onD)
      from assms(1) True False s c \<open>ur_totp_enabled u \<and> _\<close> have "k d1 = (res, d')" by (simp add: second_factor_def time_now_def tryE_def)
      with h s sess now show ?thesis by (auto simp: factor_ok_def)
    next
      case wrong: False
      let ?fail = "registerFailedLogin (ur_id u) (throwE (APIError 401 ''invalid_totp'')) :: (auth_db, 'r) sql"
      from assms(1) wrong False s c \<open>ur_totp_enabled u \<and> _\<close> have run: "?fail d1 = (res, d')"
        by (simp add: second_factor_def time_now_def tryE_def)
      have "preserves (sessions_are (at_sessions (db_tables d1))) ?fail" by (intro preserves_rules)
      then have "at_sessions (db_tables (snd (?fail d1))) = at_sessions (db_tables d1)" by (rule preservesD) simp
      moreover from run have "res = Inl (APIError 401 ''invalid_totp'')"
        by (auto simp: registerFailedLogin_def ignoring_def attempt_def throwE_def split: prod.splits)
      ultimately show ?thesis using run sess by simp
    qed
  qed
qed

section \<open>Properties\<close>

text \<open>
  Property C11. A login opens a session only for a stored, enabled account that is not locked, with its password and, where the second
  factor is on, with a current one-time code or an unused recovery code. It then opens exactly one session, for that account, under
  the hash of the token sent in the cookie and for the configured lifetime. A login that fails opens none.
\<close>

theorem login_sound:
  assumes "handleLogin en r token csrf (Some q) d = (res, d')" and "distinct (map ur_id (at_users (db_tables d)))"
  shows "(\<exists>e. res = Inl e \<and> at_sessions (db_tables d') = at_sessions (db_tables d)) \<or>
    (\<exists>u st body row. u \<in> set (at_users (db_tables d)) \<and> ur_email u = login_email en q \<and> ur_disabled u = None \<and>
       (case ur_locked u of None \<Rightarrow> True | Some l \<Rightarrow> l \<le> db_now d) \<and> VerifyPassword (se_crypto en) (lr_password q) (ur_password u) \<and>
       factor_ok en (db_now d) u (lr_totp q) \<and>
       res = Inr (st, body, SetCookie token (db_now d + session_ttl en)) \<and> at_sessions (db_tables d') = at_sessions (db_tables d) @ [row] \<and>
       sn_user row = ur_id u \<and> sn_token row = HashToken (se_crypto en) token \<and> sn_csrf row = csrf \<and> sn_expires row = db_now d + session_ttl en)"
proof -
  let ?q = "user_where (\<lambda>u. ur_email u = login_email en q)"
  obtain f d1 where f: "?q d = (f, d1)" by fastforce
  have t1: "db_tables d1 = db_tables d" using user_where_tables [of "\<lambda>u. ur_email u = login_email en q" d] f by simp
  have n1: "db_now d1 = db_now d" using steady_parts(1) f by (metis steady_def snd_conv)
  show ?thesis
  proof (cases f)
    case (Inl e)
    with assms(1) f t1 show ?thesis by (auto simp: handleLogin_def decodeE_def Let_def attempt_def throwE_def)
  next
    case (Inr u)
    from user_where_Inr [OF f [unfolded Inr]] have u: "u \<in> set (at_users (db_tables d))" "ur_email u = login_email en q" by simp_all
    let ?lock = "case ur_locked u of None \<Rightarrow> False | Some l \<Rightarrow> l > db_now d" and ?pw = "VerifyPassword (se_crypto en) (lr_password q) (ur_password u)"
    show ?thesis
    proof (cases "ur_disabled u = None \<and> \<not> ?lock \<and> ?pw")
      case True
      with assms(1) f Inr n1 have "second_factor en u (lr_totp q) (open_session en r token csrf u) d1 = (res, d')"
        by (simp add: handleLogin_def decodeE_def Let_def attempt_def time_now_def split: option.splits)
      from second_factor_result [OF this] u assms(2) t1 n1 consider
        e where "res = Inl e" "at_sessions (db_tables d') = at_sessions (db_tables d)"
      | d2 where "open_session en r token csrf u d2 = (res, d')" "at_sessions (db_tables d2) = at_sessions (db_tables d)" "db_now d2 = db_now d"
          "factor_ok en (db_now d) u (lr_totp q)" by auto
      then show ?thesis
      proof cases
        case 1
        then show ?thesis by blast
      next
        case 2
        from open_session_result [OF 2(1)] 2 u True show ?thesis by (auto split: option.splits)
      qed
    next
      case False
      let ?fail = "registerFailedLogin (ur_id u) (audit put_auth_audit (audit_of (se_api en) r ''auth.login_failed'' ''user'' (ur_id u) None
          (Some (JObj [(''email'', JStr (login_email en q))]))) (throwE (APIError 401 ''invalid_credentials''))) :: (auth_db, auth_reply) sql"
      have "preserves (sessions_are (at_sessions (db_tables d1))) ?fail" by (intro preserves_rules)
      then have s: "at_sessions (db_tables (snd (?fail d1))) = at_sessions (db_tables d1)" by (rule preservesD) simp
      have e: "\<exists>e. fst (?fail d1) = Inl e" by (simp add: registerFailedLogin_def audit_def ignoring_def attempt_def throwE_def split: prod.splits)
      from False assms(1) f Inr n1 e have "(\<exists>e. res = Inl e) \<and> (d' = d1 \<or> d' = snd (?fail d1))"
        by (auto simp: handleLogin_def decodeE_def Let_def attempt_def time_now_def throwE_def split: if_splits option.splits)
      with s t1 show ?thesis by auto
    qed
  qed
qed

definition demo_hash :: string where
  "demo_hash = ''$argon2id$v=19$m=8,t=3,p=4$AQI$'' @ b64raw_encode (bytes_of_string ''corr'')"

definition demo_owner :: user_row where
  "demo_owner = \<lparr>ur_id = ''u1'', ur_email = ''op@example.org'', ur_password = demo_hash, ur_role = ''owner'', ur_display = [],
     ur_totp_secret = [], ur_totp_enabled = False, ur_recovery = [], ur_failed = 9, ur_locked = None, ur_disabled = None, ur_version = 1, ur_updated = 0\<rparr>"

definition demo_session :: session_row where
  "demo_session = \<lparr>sn_id = ''t1'', sn_user = ''u1'', sn_token = HashToken demo_crypto ''tok'', sn_csrf = ''c1'', sn_expires = 40, sn_seen = 0, sn_ip = None,
     sn_agent = [], sn_created = 0\<rparr>"

definition demo_auth :: auth_db where
  "demo_auth = \<lparr>at_users = [demo_owner], at_sessions = [demo_session], at_audit = []\<rparr>"

definition demo_session_env :: session_env where
  "demo_session_env = \<lparr>se_api = \<lparr>ae_lower = (\<lambda>s. s), ae_parse_ip = (\<lambda>_. True), ae_net = plain_net\<rparr>, se_crypto = demo_crypto,
     se_key = Some [9], se_ttl = 60, se_lab = False, se_version = ''1''\<rparr>"

definition demo_login :: "string \<Rightarrow> login_request" where
  "demo_login pw = \<lparr>lr_email = '' Op@Example.org'', lr_password = pw, lr_totp = []\<rparr>"

definition demo_auth_db :: "auth_db db" where
  "demo_auth_db = (demo_db demo_auth)\<lparr>db_now := 5\<rparr>"

theorem login_sound_witness:
  "\<exists>row. at_sessions (db_tables (snd (handleLogin demo_session_env (demo_request ''POST'') ''new'' ''cs'' (Some (demo_login ''correct'')) demo_auth_db))) =
     [demo_session, row] \<and> sn_user row = ''u1'' \<and> sn_expires row = 5 + 60"
proof -
  let ?run = "handleLogin demo_session_env (demo_request ''POST'') ''new'' ''cs'' (Some (demo_login ''correct'')) demo_auth_db"
  have d: "distinct (map ur_id (at_users (db_tables demo_auth_db)))" by code_simp
  have ok: "case fst ?run of Inl _ \<Rightarrow> False | Inr _ \<Rightarrow> True" by code_simp
  have t: "at_sessions (db_tables demo_auth_db) = [demo_session]" "at_users (db_tables demo_auth_db) = [demo_owner]"
    "db_now demo_auth_db = 5" "session_ttl demo_session_env = 60" "ur_id demo_owner = ''u1''"
    by (simp_all add: demo_auth_db_def demo_db_def demo_auth_def session_ttl_def demo_session_env_def demo_owner_def)
  from login_sound [OF _ d, of demo_session_env "demo_request ''POST''" "''new''" "''cs''" "demo_login ''correct''" "fst ?run" "snd ?run"] ok
  show ?thesis by (auto simp: t)
qed

subsection \<open>Guessing passwords\<close>

definition guess :: "go_error + 'r \<Rightarrow> bool" where
  "guess res = (case res of Inl e \<Rightarrow> e \<in> {APIError 401 ''invalid_credentials'', APIError 401 ''invalid_totp''} | Inr _ \<Rightarrow> False)"

text \<open>Login attempts one after the other, each at its time.\<close>

fun login_run :: "session_env \<Rightarrow> api_request \<Rightarrow> (int \<times> string \<times> string \<times> login_request) list \<Rightarrow> auth_db db \<Rightarrow> (go_error + auth_reply) list" where
  "login_run en r [] d = []"
| "login_run en r ((now, token, csrf, q) # as) d =
     (case handleLogin en r token csrf (Some q) (d\<lparr>db_now := now\<rparr>) of (res, d1) \<Rightarrow> res # login_run en r as d1)"

definition account_is :: "string \<Rightarrow> string \<Rightarrow> int \<Rightarrow> int option \<Rightarrow> auth_db \<Rightarrow> bool" where
  "account_is e i f l t \<longleftrightarrow> map (\<lambda>u. (ur_id u, ur_failed u, ur_locked u)) (filter (\<lambda>u. ur_email u = e) (at_users t)) = [(i, f, l)]"

lemma account_update:
  assumes "\<And>u. ur_email (g u) = ur_email u" and "account_is e i f l t"
    and "\<And>u. P u \<Longrightarrow> ur_id u = i \<Longrightarrow> (ur_id (g u), ur_failed (g u), ur_locked (g u)) = h (ur_id u, ur_failed u, ur_locked u)"
    and "\<And>u. \<not> P u \<Longrightarrow> ur_id u = i \<Longrightarrow> h (ur_id u, ur_failed u, ur_locked u) = (ur_id u, ur_failed u, ur_locked u)"
  shows "map (\<lambda>u. (ur_id u, ur_failed u, ur_locked u)) (filter (\<lambda>u. ur_email u = e) (update_rows P g (at_users t))) = [h (i, f, l)]"
  using assms(2) unfolding account_is_def filter_update_rows [of "\<lambda>u. ur_email u = e" g P "at_users t", simplified assms(1), OF refl]
  by (auto simp: map_eq_Cons_conv assms(3,4))

lemma account_kept [preserves_rules]:
  "preserves (account_is e i f l) (user_where P)" "preserves (account_is e i f l) (consumeRecoveryCode en uid code)"
  "preserves (account_is e i f l) (insert_session row)"
  unfolding user_where_def consumeRecoveryCode_def insert_session_def Let_def
  subgoal by (intro preserves_rules)
  subgoal
    by (intro preserves_rules preserves_ExecN) (auto simp: account_is_def intro!: account_update [where h = "\<lambda>x. x", simplified account_is_def])
  subgoal by (intro preserves_rules preserves_Exec) (auto simp: account_is_def split: if_splits)
  done

lemma account_audit [preserves_rules]: "preserves (account_is e i f l) k \<Longrightarrow> preserves (account_is e i f l) (audit put_auth_audit row k)"
  by (rule preserves_audit) (simp_all add: put_auth_audit_def account_is_def)

lemma account_failed:
  assumes "healthy d" and "account_is e i f l (db_tables d)" and "preserves (account_is e i (f + 1) (if f + 1 \<ge> 10 then Some (db_now d + 900) else l)) k"
  shows "account_is e i (f + 1) (if f + 1 \<ge> 10 then Some (db_now d + 900) else l) (db_tables (snd (registerFailedLogin i k d)))"
proof -
  let ?g = "\<lambda>now u. u\<lparr>ur_failed := ur_failed u + 1, ur_locked := if ur_failed u + 1 \<ge> 10 then Some (now + 15 * 60) else ur_locked u\<rparr>"
  have "account_is e i (f + 1) (if f + 1 \<ge> 10 then Some (db_now d + 900) else l) (db_tables (snd (set_user i ?g d)))"
    unfolding set_user_tables account_is_def using assms(1)
    by (simp add: healthy_def account_update [OF _ assms(2), where h = "\<lambda>(a, b, c). (a, b + 1, if b + 1 \<ge> 10 then Some (db_now d + 900) else c)"])
  from preservesD [OF assms(3) this] show ?thesis
    by (simp add: registerFailedLogin_def ignoring_def attempt_def case_prod_beta)
qed

lemma open_session_Inl:
  assumes "open_session en r token csrf u d = (Inl x, d')"
  shows "db_tables d' = db_tables d \<and> x \<in> {DBFailure, ErrConflict}"
proof -
  from assms obtain row where "insert_session row d = (Inl x, d')"
    by (auto simp: open_session_def time_now_def Let_def tryE_Inl ignoring_def attempt_def audit_def returnE_def case_prod_beta)
  then show ?thesis by (auto simp: insert_session_def Exec_def stmt_def split: if_splits sum.splits)
qed

text \<open>A failed attempt either was a guess on an unlocked account and is counted, or leaves the counters alone.\<close>

lemma login_step:
  assumes "healthy d" and "account_is (login_email en q) i f l (db_tables d)" and "handleLogin en r token csrf (Some q) d = (Inl x, d')"
  shows "if guess (Inl x :: go_error + unit)
    then (\<forall>b. l = Some b \<longrightarrow> b \<le> db_now d) \<and> account_is (login_email en q) i (f + 1) (if f + 1 \<ge> 10 then Some (db_now d + 900) else l) (db_tables d')
    else account_is (login_email en q) i f l (db_tables d')"
proof -
  let ?e = "login_email en q" and ?l' = "if f + 1 \<ge> 10 then Some (db_now d + 900) else l"
  from assms(2) obtain u us where u: "filter (\<lambda>u. ur_email u = ?e) (at_users (db_tables d)) = u # us" "ur_id u = i" "ur_failed u = f" "ur_locked u = l"
    by (auto simp: account_is_def map_eq_Cons_conv)
  obtain d1 where w: "user_where (\<lambda>u. ur_email u = ?e) d = (Inr u, d1)" and t1: "db_tables d1 = db_tables d" and h1: "healthy d1" and n1: "db_now d1 = db_now d"
    using assms(1) u(1) by (auto simp: user_where_def One_def stmt_def healthy_def db_tick_def)
  note acc1 = assms(2) [folded t1]
  have run: "(if ur_disabled u \<noteq> None then throwE (APIError 403 ''account_disabled'')
     else if (case l of None \<Rightarrow> False | Some b \<Rightarrow> b > db_now d) then throwE (APIError 429 ''account_locked'')
     else if \<not> VerifyPassword (se_crypto en) (lr_password q) (ur_password u) then registerFailedLogin i
       (audit put_auth_audit (audit_of (se_api en) r ''auth.login_failed'' ''user'' i None (Some (JObj [(''email'', JStr ?e)])))
         (throwE (APIError 401 ''invalid_credentials'')))
     else second_factor en u (lr_totp q) (open_session en r token csrf u)) d1 = (Inl x, d')"
    using assms(3) w u n1 by (auto simp: handleLogin_def decodeE_def Let_def attempt_def time_now_def split: if_splits option.splits)
  have keep: "account_is ?e i f l (db_tables d') \<and> \<not> guess (Inl x :: go_error + unit)"
    if "throwE y d1 = (Inl x :: go_error + auth_reply, d')" "y \<notin> {APIError 401 ''invalid_credentials'', APIError 401 ''invalid_totp''}" for y
    using that acc1 by (auto simp: throwE_def guess_def)
  have failed: "account_is ?e i (f + 1) ?l' (db_tables (snd (registerFailedLogin i k d2)))"
    if "healthy d2" "account_is ?e i f l (db_tables d2)" "db_now d2 = db_now d" "preserves (account_is ?e i (f + 1) ?l') k" for d2 and k :: "(auth_db, auth_reply) sql"
    using account_failed [OF that(1,2), unfolded that(3), OF that(4)] .
  show ?thesis
  proof (cases "ur_disabled u \<noteq> None \<or> (case l of None \<Rightarrow> False | Some b \<Rightarrow> b > db_now d)")
    case True
    with run keep show ?thesis by (auto split: if_splits)
  next
    case open_: False
    then have unlocked: "\<forall>b. l = Some b \<longrightarrow> b \<le> db_now d" by auto
    show ?thesis
    proof (cases "VerifyPassword (se_crypto en) (lr_password q) (ur_password u)")
      case False
      let ?k = "audit put_auth_audit (audit_of (se_api en) r ''auth.login_failed'' ''user'' i None (Some (JObj [(''email'', JStr ?e)])))
         (throwE (APIError 401 ''invalid_credentials'')) :: (auth_db, auth_reply) sql"
      from run open_ False have "registerFailedLogin i ?k d1 = (Inl x, d')" by simp
      moreover then have "x = APIError 401 ''invalid_credentials''"
        by (auto simp: registerFailedLogin_def audit_def ignoring_def attempt_def throwE_def split: prod.splits)
      moreover have "preserves (account_is ?e i (f + 1) ?l') ?k" by (intro preserves_rules)
      ultimately show ?thesis using failed [OF h1 acc1 n1, of ?k] unlocked by (simp add: guess_def)
    next
      case True
      with run open_ have "second_factor en u (lr_totp q) (open_session en r token csrf u) d1 = (Inl x, d')" by simp
      from this u(2) n1 h1 acc1 consider
        y where "throwE y d1 = (Inl x :: go_error + auth_reply, d')" "y \<in> {APIError 401 ''totp_required'', internal_err}"
      | "open_session en r token csrf u d1 = (Inl x, d')"
      | d2 where "consumeRecoveryCode en i (lr_totp q) d1 = (Inr True, d2)" "open_session en r token csrf u d2 = (Inl x, d')"
      | d2 where "consumeRecoveryCode en i (lr_totp q) d1 = (Inr False, d2)" "registerFailedLogin i (throwE (APIError 401 ''invalid_totp'')) d2 = (Inl x :: go_error + auth_reply, d')"
        by (auto simp: second_factor_def time_now_def tryE_def consumeRecoveryCode_def attempt_def returnE_def Let_def split: if_splits option.splits prod.splits)
      then show ?thesis
      proof cases
        case 1
        with keep [of y] show ?thesis by (auto simp: internal_err_def)
      next
        case 2
        from open_session_Inl [OF this] acc1 show ?thesis by (auto simp: guess_def)
      next
        case 3
        from preservesD [OF account_kept(2) acc1, of en i "lr_totp q"] 3(1) have "account_is ?e i f l (db_tables d2)" by simp
        with open_session_Inl [OF 3(2)] show ?thesis by (auto simp: guess_def)
      next
        case 4
        from preservesD [OF account_kept(2) acc1, of en i "lr_totp q"] 4(1) have acc2: "account_is ?e i f l (db_tables d2)" by simp
        have h2: "healthy d2" using steady_parts(4) h1 4(1) by (rule healthy_step)
        have n2: "db_now d2 = db_now d" using steady_parts(4) 4(1) n1 by (metis steady_def snd_conv)
        from 4(2) have "x = APIError 401 ''invalid_totp''"
          by (auto simp: registerFailedLogin_def ignoring_def attempt_def throwE_def split: prod.splits)
        with failed [OF h2 acc2 n2 preserves_throwE, of "APIError 401 ''invalid_totp''"] 4(2) unlocked show ?thesis by (simp add: guess_def)
      qed
    qed
  qed
qed

definition guess_budget :: "int \<Rightarrow> int option \<Rightarrow> int \<Rightarrow> int \<Rightarrow> int" where
  "guess_budget f l t0 T =
     (if f < 10 then 10 - f + (T - t0) div 900
      else let m = (case l of None \<Rightarrow> t0 | Some b \<Rightarrow> max t0 b) in if m > T then 0 else (T - m) div 900 + 1)"

lemma div_mono_900: "a \<le> b \<Longrightarrow> (a :: int) div 900 \<le> b div 900"
  by (rule zdiv_mono1) simp_all

lemma budget_wait: "t0 \<le> now \<Longrightarrow> now \<le> T \<Longrightarrow> guess_budget f l now T \<le> guess_budget f l t0 T"
  using div_mono_900 [of "T - now" "T - t0"]
  by (auto simp: guess_budget_def Let_def max_def div_mono_900 pos_imp_zdiv_nonneg_iff split: option.splits)

lemma budget_guess:
  assumes "t0 \<le> now" "now \<le> T" "\<forall>b. l = Some b \<longrightarrow> b \<le> now"
  shows "1 + guess_budget (f + 1) (if f + 1 \<ge> 10 then Some (now + 900) else l) now T \<le> guess_budget f l t0 T"
proof -
  have d: "(T - now - 900) div 900 = (T - now) div 900 - 1" by (simp add: div_add_self2 [of 900 "T - now - 900", simplified])
  have "guess_budget f l now T \<le> guess_budget f l t0 T" by (rule budget_wait) (use assms in simp_all)
  moreover have "1 + guess_budget (f + 1) (if f + 1 \<ge> 10 then Some (now + 900) else l) now T \<le> guess_budget f l now T"
  proof (cases "f + 1 < 10")
    case True
    then show ?thesis by (simp add: guess_budget_def)
  next
    case False
    have "(case l of None \<Rightarrow> now | Some b \<Rightarrow> max now b) = now" using assms(3) by (simp split: option.splits)
    moreover have "0 \<le> (T - now) div 900" using assms(2) by (simp add: pos_imp_zdiv_nonneg_iff)
    ultimately show ?thesis using False assms(2) d by (auto simp: guess_budget_def Let_def algebra_simps)
  qed
  ultimately show ?thesis by simp
qed

lemma guesses_within_budget:
  assumes "healthy d" and "account_is e i f l (db_tables d)" and "sorted (t0 # map fst as)" and "\<forall>a\<in>set as. fst a \<le> T" and "t0 \<le> T"
    and "\<forall>a\<in>set as. login_email en (snd (snd (snd a))) = e" and "\<forall>res\<in>set (login_run en r as d). isl res"
  shows "int (length (filter guess (login_run en r as d))) \<le> guess_budget f l t0 T"
  using assms
proof (induction as arbitrary: d f l t0)
  case Nil
  then show ?case by (auto simp: guess_budget_def Let_def pos_imp_zdiv_nonneg_iff split: option.splits)
next
  case (Cons a as)
  obtain now token csrf q where a: "a = (now, token, csrf, q)" by (cases a)
  obtain res d1 where run: "handleLogin en r token csrf (Some q) (d\<lparr>db_now := now\<rparr>) = (res, d1)" by fastforce
  with Cons.prems(7) a obtain x where x: "res = Inl x" by (cases res) auto
  have h: "healthy (d\<lparr>db_now := now\<rparr>)" using Cons.prems(1) by (simp add: healthy_def)
  have h1: "healthy d1" using steady_login h run by (rule healthy_step)
  have e: "login_email en q = e" using Cons.prems(6) a by simp
  have t: "t0 \<le> now" "now \<le> T" "sorted (now # map fst as)" using Cons.prems(3,4) a by auto
  have g: "guess res = guess (Inl x :: go_error + unit)" by (simp add: x guess_def)
  note st = login_step [OF h _ run [unfolded x], unfolded e, simplified, OF Cons.prems(2)]
  show ?case
  proof (cases "guess res")
    case True
    with st g have l: "\<forall>b. l = Some b \<longrightarrow> b \<le> now" and "account_is e i (f + 1) (if f + 1 \<ge> 10 then Some (now + 900) else l) (db_tables d1)"
      by (auto split: if_splits)
    from Cons.IH [OF h1 this(2) t(3) _ t(2)] Cons.prems(4,6,7) a run
    have "int (length (filter guess (login_run en r as d1))) \<le> guess_budget (f + 1) (if f + 1 \<ge> 10 then Some (now + 900) else l) now T" by simp
    with budget_guess [OF t(1,2) l, of f] True run a show ?thesis by simp
  next
    case False
    with st g have "account_is e i f l (db_tables d1)" by simp
    from Cons.IH [OF h1 this t(3) _ t(2)] Cons.prems(4,6,7) a run
    have "int (length (filter guess (login_run en r as d1))) \<le> guess_budget f l now T" by simp
    with budget_wait [OF t(1,2), of f l] False run a show ?thesis by simp
  qed
qed



subsection \<open>Sessions\<close>

lemma live_sessions_iff:
  "v \<in> set (live_sessions h now t) \<longleftrightarrow>
     (\<exists>s\<in>set (at_sessions t). \<exists>u\<in>set (at_users t). sn_token s = h \<and> sn_expires s > now \<and> ur_id u = sn_user s \<and> ur_disabled u = None \<and>
        v = \<lparr>us_id = ur_id u, us_email = ur_email u, us_role = ur_role u, us_session = sn_id s, us_csrf = sn_csrf s\<rparr>)"
proof -
  let ?mk = "\<lambda>s u. \<lparr>us_id = ur_id u, us_email = ur_email u, us_role = ur_role u, us_session = sn_id s, us_csrf = sn_csrf s\<rparr>"
  have "(\<exists>s\<in>{s \<in> A. P s}. v \<in> (\<lambda>u. mk s u) ` {u \<in> B. Q s u}) \<longleftrightarrow> (\<exists>s\<in>A. \<exists>u\<in>B. P s \<and> Q s u \<and> v = mk s u)" for A B P Q and mk :: "session_row \<Rightarrow> user_row \<Rightarrow> session_user"
    by blast
  from this [of "set (at_sessions t)" "\<lambda>s. sn_token s = h \<and> sn_expires s > now" ?mk "set (at_users t)" "\<lambda>s u. ur_id u = sn_user s \<and> ur_disabled u = None"]
  show ?thesis unfolding live_sessions_def set_concat set_map set_filter UN_simps image_image UN_iff by (simp only: conj_assoc)
qed

lemma authenticate_cases:
  assumes "authenticate en c d = (res, d')"
  shows "(\<exists>ck. res = Inr (None, ck)) \<or>
    (\<exists>v. res = Inr (Some v, KeepCookie) \<and> v \<in> set (live_sessions (HashToken (se_crypto en) c) (db_now d) (db_tables d)))"
  using assms by (auto simp: authenticate_def attempt_def returnE_def ignoring_def stmt_def split: if_splits list.splits sum.splits prod.splits)



lemma change_password_Inr:
  assumes "handleChangePassword en r u salt (Some (current, new)) d = (Inr x, d')"
  shows "\<exists>h row. row \<in> set (at_users (db_tables d)) \<and> ur_id row = us_id u \<and> VerifyPassword (se_crypto en) current (ur_password row) \<and>
    HashPassword (se_crypto en) salt new DefaultParams = Some h \<and>
    (\<forall>y\<in>set (at_users (db_tables d')). ur_id y = us_id u \<longrightarrow> ur_password y = h) \<and>
    (healthy d \<longrightarrow> at_sessions (db_tables d') = filter (\<lambda>s. \<not> (sn_user s = us_id u \<and> sn_id s \<noteq> us_session u)) (at_sessions (db_tables d)))"
proof -
  let ?set = "\<lambda>h. set_user (us_id u) (\<lambda>now x. x\<lparr>ur_password := h, ur_updated := now, ur_version := ur_version x + 1\<rparr>)"
  let ?del = "Exec (\<lambda>_ _ t. Inr (t\<lparr>at_sessions := filter (\<lambda>s. \<not> (sn_user s = us_id u \<and> sn_id s \<noteq> us_session u)) (at_sessions t)\<rparr>))"
  let ?aud = "audit put_auth_audit (audit_of (se_api en) r ''auth.password_changed'' ''user'' (us_id u) None None)
     (returnE (200, status_json ''updated'', KeepCookie)) :: (auth_db, auth_reply) sql"
  from assms obtain row d1 h d2 where w: "user_where (\<lambda>x. ur_id x = us_id u) d = (Inr row, d1)" "VerifyPassword (se_crypto en) current (ur_password row)"
      "HashPassword (se_crypto en) salt new DefaultParams = Some h"
    and s: "?set h d1 = (Inr (), d2)" and rest: "ignoring ?del ?aud d2 = (Inr x, d')"
    by (auto simp: handleChangePassword_def decodeE_def tryE_Inr throwE_def split: if_splits option.splits)
  from user_where_Inr [OF w(1)] have r: "row \<in> set (at_users (db_tables d))" "ur_id row = us_id u" "db_tables d1 = db_tables d" by simp_all
  have t2: "db_tables d2 = (db_tables d)\<lparr>at_users := update_rows (\<lambda>x. ur_id x = us_id u) (\<lambda>x. x\<lparr>ur_password := h, ur_updated := db_now d1, ur_version := ur_version x + 1\<rparr>)
      (at_users (db_tables d))\<rparr>" using Exec_Inr [OF s [unfolded set_user_def]] r(3) by simp
  have p2: "\<forall>y\<in>set (at_users (db_tables d2)). ur_id y = us_id u \<longrightarrow> ur_password y = h" by (auto simp: t2 set_update_rows)
  have "preserves (\<lambda>t. \<forall>y\<in>set (at_users t). ur_id y = us_id u \<longrightarrow> ur_password y = h) (ignoring ?del ?aud)"
    by (intro preserves_rules preserves_Exec preserves_audit) (auto simp: put_auth_audit_def)
  from preservesD [OF this p2] rest have users: "\<forall>y\<in>set (at_users (db_tables d')). ur_id y = us_id u \<longrightarrow> ur_password y = h" by simp
  have sess: "at_sessions (db_tables d') = filter (\<lambda>s. \<not> (sn_user s = us_id u \<and> sn_id s \<noteq> us_session u)) (at_sessions (db_tables d))" if "healthy d"
  proof -
    have "healthy d1" by (rule healthy_step [OF steady_parts(1) that w(1)])
    then have "healthy d2" by (rule healthy_step [OF steady_parts(2) _ s])
    then have d: "at_sessions (db_tables (snd (?del d2))) = filter (\<lambda>s. \<not> (sn_user s = us_id u \<and> sn_id s \<noteq> us_session u)) (at_sessions (db_tables d))"
      by (simp add: Exec_def stmt_def healthy_def t2)
    have "preserves (sessions_are (at_sessions (db_tables (snd (?del d2))))) ?aud" by (intro preserves_rules)
    from preservesD [OF this, of "snd (?del d2)"] rest d show ?thesis by (simp add: ignoring_def attempt_def case_prod_beta)
  qed
  from r w users sess show ?thesis by blast
qed

text \<open>
  A password change needs the current password; afterwards the new one is accepted, and no cookie but that of the session the
  change was made from authenticates the user any longer.
\<close>

theorem password_change_ends_sessions:
  assumes "\<And>pw salt t m th n. 1 \<le> t \<Longrightarrow> 1 \<le> th \<Longrightarrow> 0 \<le> n \<Longrightarrow> int (length (cl_idkey (se_crypto en) pw salt t m th n)) = n" and "healthy d"
    and "handleChangePassword en r u salt (Some (current, new)) d = (Inr x, d')"
  shows "(\<exists>row\<in>set (at_users (db_tables d)). ur_id row = us_id u \<and> VerifyPassword (se_crypto en) current (ur_password row)) \<and>
    (\<forall>row\<in>set (at_users (db_tables d')). ur_id row = us_id u \<longrightarrow> VerifyPassword (se_crypto en) new (ur_password row)) \<and>
    (\<forall>later c v ck. db_tables later = db_tables d' \<and> fst (authenticate en c later) = Inr (Some v, ck) \<and> us_id v = us_id u \<longrightarrow> us_session v = us_session u)"
proof -
  from change_password_Inr [OF assms(3)] assms(2) obtain h row where c: "row \<in> set (at_users (db_tables d))" "ur_id row = us_id u"
      "VerifyPassword (se_crypto en) current (ur_password row)" "HashPassword (se_crypto en) salt new DefaultParams = Some h"
      "\<forall>y\<in>set (at_users (db_tables d')). ur_id y = us_id u \<longrightarrow> ur_password y = h"
    and s: "at_sessions (db_tables d') = filter (\<lambda>s. \<not> (sn_user s = us_id u \<and> sn_id s \<noteq> us_session u)) (at_sessions (db_tables d))" by blast
  have v: "VerifyPassword (se_crypto en) new h" using verify_hashed [OF assms(1) _ _ _ _ _ _ _ _ c(4)] by (simp add: DefaultParams_def)
  have only: "us_session v = us_session u" if "db_tables later = db_tables d'" "fst (authenticate en c later) = Inr (Some v, ck)" "us_id v = us_id u" for later c v ck
  proof -
    from authenticate_cases [OF surjective_pairing, of en c later] that(1,2)
    have "v \<in> set (live_sessions (HashToken (se_crypto en) c) (db_now later) (db_tables d'))" by simp
    then show ?thesis using that(3) s by (auto simp: live_sessions_iff)
  qed
  show ?thesis
  proof (intro conjI)
    show "\<exists>row\<in>set (at_users (db_tables d)). ur_id row = us_id u \<and> VerifyPassword (se_crypto en) current (ur_password row)" using c by blast
    show "\<forall>row\<in>set (at_users (db_tables d')). ur_id row = us_id u \<longrightarrow> VerifyPassword (se_crypto en) new (ur_password row)" using c(5) v by simp
    show "\<forall>later c v ck. db_tables later = db_tables d' \<and> fst (authenticate en c later) = Inr (Some v, ck) \<and> us_id v = us_id u \<longrightarrow> us_session v = us_session u"
      using only by blast
  qed
qed

theorem password_change_ends_sessions_witness:
  "\<exists>row\<in>set (at_users (db_tables demo_auth_db)). ur_id row = us_id demo_user \<and> VerifyPassword demo_crypto ''correct'' (ur_password row)"
proof -
  let ?run = "handleChangePassword demo_session_env (demo_request ''POST'') demo_user [1] (Some (''correct'', ''battery staple'')) demo_auth_db"
  have law: "\<And>pw salt t m th n. 1 \<le> t \<Longrightarrow> 1 \<le> th \<Longrightarrow> 0 \<le> n \<Longrightarrow> int (length (cl_idkey (se_crypto demo_session_env) pw salt t m th n)) = n"
    by (simp add: demo_session_env_def demo_crypto_def)
  have h: "healthy demo_auth_db" by (simp add: healthy_def demo_auth_db_def demo_db_def)
  have u: "user_where (\<lambda>x. ur_id x = us_id demo_user) demo_auth_db = (Inr demo_owner, (db_tick demo_auth_db)\<lparr>db_tables := demo_auth\<rparr>)"
    by (simp add: user_where_def One_def stmt_def demo_auth_db_def demo_db_def demo_auth_def demo_owner_def demo_user_def)
  have v: "VerifyPassword (se_crypto demo_session_env) ''correct'' (ur_password demo_owner)" by code_simp
  have "\<exists>x. fst ?run = Inr x" using v u
    by (simp add: handleChangePassword_def decodeE_def tryE_def HashPassword_def Let_def set_user_def Exec_def stmt_def ignoring_def attempt_def audit_def
        returnE_def demo_auth_db_def demo_db_def db_tick_def)
  then obtain x where "?run = (Inr x, snd ?run)" by (metis prod.collapse)
  from password_change_ends_sessions [OF law h this] show ?thesis by (simp add: demo_session_env_def)
qed

text \<open>A recovery code is used up by the login it serves, and no other code of the account with it.\<close>

theorem recovery_code_single_use:
  assumes "consumeRecoveryCode en uid code d = (Inr True, d')" and "at_users (db_tables later) = at_users (db_tables d')"
  shows "fst (consumeRecoveryCode en uid code later) = Inr False \<and>
    map ur_recovery (at_users (db_tables d')) = map (\<lambda>u. if ur_id u = uid then filter (\<lambda>x. x \<noteq> HashToken (se_crypto en) (trim_space code)) (ur_recovery u)
       else ur_recovery u) (at_users (db_tables d))"
proof
  let ?h = "HashToken (se_crypto en) (trim_space code)"
  note c = consume_hit [OF assms(1)]
  then have "\<forall>u\<in>set (at_users (db_tables later)). \<not> (ur_id u = uid \<and> ?h \<in> set (ur_recovery u))" using assms(2)
    by (auto dest!: update_rows_gone [where Q = "\<lambda>u. ur_id u = uid \<and> ?h \<in> set (ur_recovery u)"])
  then have "count_rows (\<lambda>u. ur_id u = uid \<and> ?h \<in> set (ur_recovery u)) (at_users (db_tables later)) = 0" by (simp add: count_rows_def filter_empty_conv)
  then show "fst (consumeRecoveryCode en uid code later) = Inr False"
    by (simp add: consumeRecoveryCode_def Let_def attempt_def returnE_def ExecN_def stmt_def)
  show "map ur_recovery (at_users (db_tables d')) = map (\<lambda>u. if ur_id u = uid then filter (\<lambda>x. x \<noteq> ?h) (ur_recovery u) else ur_recovery u) (at_users (db_tables d))"
    using c by (auto simp: update_rows_def intro!: filter_True [symmetric])
qed

text \<open>
  Switching the second factor off asks for the password, but asking for a new secret switches it off as well, with nothing
  but a session.
\<close>

theorem totp_setup_drops_second_factor:
  assumes "healthy d" and "se_key en \<noteq> None"
  shows "\<forall>x\<in>set (at_users (db_tables (snd (handleTOTPSetup en u secret nonce d)))). ur_id x = us_id u \<longrightarrow> \<not> ur_totp_enabled x"
proof -
  from assms obtain enc where "db_tables (snd (handleTOTPSetup en u secret nonce d)) = (db_tables d)\<lparr>at_users :=
      update_rows (\<lambda>x. ur_id x = us_id u) (\<lambda>x. x\<lparr>ur_totp_secret := enc, ur_totp_enabled := False\<rparr>) (at_users (db_tables d))\<rparr>"
    by (auto simp: handleTOTPSetup_def encryptSecret_def tryE_def set_user_def Exec_def stmt_def healthy_def returnE_def)
  then show ?thesis by (auto dest!: update_rows_gone [where Q = "\<lambda>x. ur_id x = us_id u \<and> ur_totp_enabled x"])
qed

text \<open>
  The error of deleting the other sessions is ignored: a password change can be answered with success while a stolen session lives on.
\<close>

theorem password_change_may_keep_sessions:
  "let d = demo_auth_db\<lparr>db_tables := demo_auth\<lparr>at_sessions := [demo_session, demo_session\<lparr>sn_id := ''t2'', sn_token := ''stolen''\<rparr>]\<rparr>, db_fail := (\<lambda>n. n = 2)\<rparr>;
       res = handleChangePassword demo_session_env (demo_request ''POST'') demo_user [1] (Some (''correct'', ''battery staple'')) d
   in isl (fst res) = False \<and> map sn_id (at_sessions (db_tables (snd res))) = [''t1'', ''t2'']"
proof -
  have v: "VerifyPassword (se_crypto demo_session_env) ''correct'' demo_hash" by code_simp
  show ?thesis using v
    by (simp add: Let_def handleChangePassword_def decodeE_def user_where_def One_def tryE_def HashPassword_def set_user_def Exec_def stmt_def ignoring_def
        attempt_def audit_def returnE_def put_auth_audit_def demo_auth_db_def demo_db_def demo_auth_def demo_owner_def demo_session_def demo_user_def db_tick_def)
qed

end
