(* ===== verification/Job_Runner.thy ===== *)
theory Job_Runner
  imports Rule_Admin Panel_Session
begin

text \<open>
  The background worker (\<open>panel/internal/jobs/runner.go\<close>): the durable queue with its leases, the execution of rule fetches and
  service probes, the schedulers, the watch for silent nodes and the trimming of old rows. The tables are those of the
  rule pipeline and those the worker reads or writes besides. What a TLS probe meets is a parameter.

  A worker holds a job between the statement that leases it and the one that finishes it; other workers run in between. The
  relation \<open>worker_step\<close> interleaves any number of them.
\<close>

section \<open>State\<close>

record job_row =
  jo_id :: string
  jo_type :: string
  jo_payload :: json
  jo_state :: string
  jo_run_at :: int
  jo_attempts :: int
  jo_max :: int
  jo_owner :: string
  jo_lease :: "int option"
  jo_error :: string
  jo_dedupe :: "string option"
  jo_updated :: int

record probed_service =
  ps_id :: string
  ps_name :: string
  ps_slug :: string
  ps_enabled :: bool
  ps_probe :: "(string \<times> json) list"
  ps_group :: "string option"

record watched_node =
  wn_id :: string
  wn_name :: string
  wn_ipv4 :: "string option"
  wn_status :: string
  wn_seen :: "int option"
  wn_updated :: int

record jobs_db =
  jb_jobs :: "job_row list"
  jb_rules :: rules_db
  jb_services :: "probed_service list"
  jb_members :: "(string \<times> string \<times> bool) list"      \<comment> \<open>group, node, enabled\<close>
  jb_nodes :: "watched_node list"
  jb_samples :: "sample_row list"
  jb_sessions :: "session_row list"

datatype tls_probe = DialFailed string | HandshakeFailed string | NoPeerCert | WrongHost string | PeerOK string

record job_env =
  je_owner :: string
  je_builder :: builder
  je_health_retain :: int           \<comment> \<open>seconds\<close>
  je_audit_retain :: int
  je_minute :: "int \<Rightarrow> string"         \<comment> \<open>Format(2006-01-02T15:04)\<close>
  je_float :: "string \<Rightarrow> rat"          \<comment> \<open>the value of a JSON number\<close>
  je_tls :: "string \<Rightarrow> int \<Rightarrow> string \<Rightarrow> tls_probe"

text \<open>A statement sequence on the rule tables, run on the whole database.\<close>

definition on_rules :: "(rules_db, 'r) sql \<Rightarrow> (jobs_db, 'r) sql" where
  "on_rules m = on_part jb_rules (\<lambda>r t. t\<lparr>jb_rules := r\<rparr>) m"

definition put_job_events :: "(event_row list \<Rightarrow> event_row list) \<Rightarrow> jobs_db \<Rightarrow> jobs_db" where
  "put_job_events f t = t\<lparr>jb_rules := put_events f (jb_rules t)\<rparr>"

section \<open>The queue\<close>

definition Enqueue :: "string \<Rightarrow> json \<Rightarrow> int \<Rightarrow> string \<Rightarrow> (jobs_db, unit) sql" where
  "Enqueue ty payload run_at dedupe = Exec (\<lambda>now u t.
     let dk = (if dedupe \<noteq> [] then Some dedupe else None) in
     if dk \<noteq> None \<and> list_ex (\<lambda>j. jo_dedupe j = dk) (jb_jobs t) then Inr t
     else if list_ex (\<lambda>j. jo_id j = u) (jb_jobs t) then Inl ErrConflict
     else Inr (t\<lparr>jb_jobs := jb_jobs t @ [\<lparr>jo_id = u, jo_type = ty, jo_payload = payload, jo_state = ''queued'', jo_run_at = run_at, jo_attempts = 0,
       jo_max = 5, jo_owner = [], jo_lease = None, jo_error = [], jo_dedupe = dk, jo_updated = now\<rparr>]\<rparr>))"

definition due_job :: "int \<Rightarrow> job_row \<Rightarrow> bool" where
  "due_job now j \<longleftrightarrow> jo_state j = ''queued'' \<and> jo_run_at j \<le> now \<or>
     jo_state j = ''running'' \<and> (case jo_lease j of None \<Rightarrow> False | Some l \<Rightarrow> l < now)"

definition leased_job :: "string \<Rightarrow> int \<Rightarrow> job_row \<Rightarrow> job_row" where
  "leased_job owner now j = j\<lparr>jo_state := ''running'', jo_owner := owner, jo_lease := Some (now + 5 * 60), jo_attempts := jo_attempts j + 1, jo_updated := now\<rparr>"

definition lease_job :: "string \<Rightarrow> (jobs_db, job_row) sql" where
  "lease_job owner = stmt (\<lambda>now _ t.
     case sort_key jo_run_at (filter (due_job now) (jb_jobs t)) of
       [] \<Rightarrow> Inl ErrNotFound
     | j # _ \<Rightarrow> Inr (leased_job owner now j, t\<lparr>jb_jobs := update_rows (\<lambda>x. jo_id x = jo_id j) (leased_job owner now) (jb_jobs t)\<rparr>))"

text \<open>\<open>1<<min(attempts, 6)\<close> minutes.\<close>

definition backoff_seconds :: "int \<Rightarrow> int" where
  "backoff_seconds attempts = 2 ^ nat (min attempts 6) * 60"

definition finished_job :: "job_row \<Rightarrow> string option \<Rightarrow> int \<Rightarrow> job_row \<Rightarrow> job_row" where
  "finished_job j err now x =
     (case err of
        Some e \<Rightarrow> x\<lparr>jo_state := if jo_attempts j \<ge> jo_max j then ''failed'' else ''queued'', jo_error := take 500 e,
                    jo_run_at := now + backoff_seconds (jo_attempts j), jo_owner := [], jo_lease := None, jo_updated := now\<rparr>
      | None \<Rightarrow> x\<lparr>jo_state := ''done'', jo_owner := [], jo_lease := None, jo_error := [], jo_updated := now\<rparr>)"

definition finish_job :: "job_row \<Rightarrow> string option \<Rightarrow> (jobs_db, unit) sql" where
  "finish_job j err = Exec (\<lambda>now _ t. Inr (t\<lparr>jb_jobs := update_rows (\<lambda>x. jo_id x = jo_id j) (finished_job j err now) (jb_jobs t)\<rparr>))"

section \<open>Execution\<close>

text \<open>\<open>json.Unmarshal\<close> into a struct with one string field: keys match in any letter case, the last one wins.\<close>

fun field_loop :: "string \<Rightarrow> (string \<times> json) list \<Rightarrow> string \<Rightarrow> string option" where
  "field_loop k [] acc = Some acc"
| "field_loop k ((n, v) # fs) acc =
     (if equal_fold n k then
        case v of JStr s \<Rightarrow> field_loop k fs s | JNull \<Rightarrow> field_loop k fs acc | _ \<Rightarrow> None
      else field_loop k fs acc)"

definition string_field :: "string \<Rightarrow> json \<Rightarrow> string option" where
  "string_field k j = (case j of JObj fs \<Rightarrow> field_loop k fs [] | JNull \<Rightarrow> Some [] | _ \<Rightarrow> None)"

definition probeTLS :: "job_env \<Rightarrow> string \<Rightarrow> int \<Rightarrow> string \<Rightarrow> string \<times> string" where
  "probeTLS en ip port hostname =
     (case je_tls en ip port hostname of
        DialFailed e \<Rightarrow> (''tcp_unreachable'', e)
      | HandshakeFailed e \<Rightarrow>
          if contains_str e ''certificate'' then (''certificate_invalid'', e)
          else if contains_str e ''EOF'' \<or> contains_str e ''reset'' then (''tunnel_refused'', e)
          else (''handshake_failed'', e)
      | NoPeerCert \<Rightarrow> (''no_certificate'', ''peer presented no certificate'')
      | WrongHost e \<Rightarrow> (''wrong_certificate'', e)
      | PeerOK issuer \<Rightarrow> ([], issuer))"

definition probe_port :: "job_env \<Rightarrow> (string \<times> json) list \<Rightarrow> int" where
  "probe_port en probe =
     (case map_of probe ''port'' of
        Some (JNum n) \<Rightarrow> if je_float en n > 0 then \<lfloor>je_float en n\<rfloor> else 443
      | _ \<Rightarrow> 443)"

fun probe_nodes :: "job_env \<Rightarrow> probed_service \<Rightarrow> int \<Rightarrow> string \<Rightarrow> watched_node list \<Rightarrow> (jobs_db, unit) sql" where
  "probe_nodes en sv port hostname [] = returnE ()"
| "probe_nodes en sv port hostname (n # ns) =
     (case wn_ipv4 n of
        None \<Rightarrow> probe_nodes en sv port hostname ns
      | Some ip \<Rightarrow>
          (case probeTLS en ip port hostname of (code, detail) \<Rightarrow>
             ignoring (Exec (\<lambda>now _ t. Inr (t\<lparr>jb_samples := jb_samples t @ [\<lparr>hs_node = wn_id n, hs_service = Some (ps_id sv), hs_kind = ''service_probe'',
                 hs_success = (code = []), hs_code = code, hs_detail = take 300 detail, hs_at = now\<rparr>]\<rparr>)))
               (if code = [] then probe_nodes en sv port hostname ns
                else event put_job_events ''warn'' ''health'' ''probe_failed'' (Some (wn_id n)) (probe_nodes en sv port hostname ns))))"

definition probe_targets :: "string \<Rightarrow> jobs_db \<Rightarrow> watched_node list" where
  "probe_targets g t =
     concat (map (\<lambda>(grp, nid, en). filter (\<lambda>n. wn_id n = nid \<and> wn_status n \<noteq> ''disabled'') (jb_nodes t)) (filter (\<lambda>(grp, nid, en). grp = g \<and> en) (jb_members t)))"

definition probeService :: "job_env \<Rightarrow> string \<Rightarrow> (jobs_db, unit) sql" where
  "probeService en sid =
     tryE (One (\<lambda>t. filter (\<lambda>s. ps_id s = sid) (jb_services t))) (\<lambda>sv.
       let hostname = (case map_of (ps_probe sv) ''hostname'' of Some (JStr h) \<Rightarrow> h | _ \<Rightarrow> []) in
       if hostname = [] then returnE ()
       else case ps_group sv of
         None \<Rightarrow> returnE ()
       | Some g \<Rightarrow> tryE (Many (probe_targets g)) (\<lambda>nodes. probe_nodes en sv (probe_port en (ps_probe sv)) hostname nodes))"

definition execute :: "job_env \<Rightarrow> string \<Rightarrow> json \<Rightarrow> (jobs_db, unit) sql" where
  "execute en ty payload =
     (if ty = ''rule_fetch'' then
        (case string_field ''rule_set_id'' payload of
           None \<Rightarrow> throwE (PlainError ''json'')
         | Some rid \<Rightarrow>
             attempt (on_rules (Build (je_builder en) rid)) (\<lambda>b. case b of
               Inl e \<Rightarrow> event put_job_events ''warn'' ''rules'' ''scheduled_fetch_failed'' None (throwE e)
             | Inr res \<Rightarrow>
                 if br_unchanged res then returnE ()
                 else event put_job_events ''info'' ''rules'' ''scheduled_fetch'' None (returnE ())))
      else if ty = ''service_probe'' then
        (case string_field ''service_id'' payload of None \<Rightarrow> throwE (PlainError ''json'') | Some sid \<Rightarrow> probeService en sid)
      else throwE (PlainError ''unknown job type''))"

text \<open>\<open>err.Error()\<close>, as far as it is kept: whether there was an error.\<close>

definition error_message :: "go_error \<Rightarrow> string" where
  "error_message e = (case e of APIError s c \<Rightarrow> c | PlainError m \<Rightarrow> m | DBFailure \<Rightarrow> ''database'' | ErrNotFound \<Rightarrow> ''not found'' | ErrConflict \<Rightarrow> ''conflict'')"

definition runOnce :: "job_env \<Rightarrow> (jobs_db, unit) sql" where
  "runOnce en = attempt (lease_job (je_owner en)) (\<lambda>l. case l of
     Inl e \<Rightarrow> if e = ErrNotFound then returnE () else throwE e
   | Inr j \<Rightarrow> attempt (execute en (jo_type j) (jo_payload j)) (\<lambda>res.
       ignoring (finish_job j (case res of Inl e \<Rightarrow> Some (error_message e) | Inr _ \<Rightarrow> None)) (returnE ())))"

section \<open>Schedulers\<close>

definition due_sets :: "int \<Rightarrow> jobs_db \<Rightarrow> string list" where
  "due_sets now t = map rs_id (filter (\<lambda>s. rs_update_mode s \<noteq> ''manual_only'' \<and>
     (case rs_last_fetch s of None \<Rightarrow> True | Some f \<Rightarrow> f < now - rs_interval_sec s)) (rt_sets (jb_rules t)))"

fun enqueue_fetches :: "job_env \<Rightarrow> string list \<Rightarrow> (jobs_db, unit) sql" where
  "enqueue_fetches en [] = returnE ()"
| "enqueue_fetches en (rid # rids) = time_now (\<lambda>now.
     tryE (Enqueue ''rule_fetch'' (JObj [(''rule_set_id'', JStr rid)]) now (''rule_fetch:'' @ rid @ '':'' @ je_minute en now)) (\<lambda>_.
       enqueue_fetches en rids))"

definition scheduleRuleFetches :: "job_env \<Rightarrow> (jobs_db, unit) sql" where
  "scheduleRuleFetches en = tryE (stmt (\<lambda>now _ t. Inr (due_sets now t, t))) (enqueue_fetches en)"

fun enqueue_probes :: "job_env \<Rightarrow> string list \<Rightarrow> (jobs_db, unit) sql" where
  "enqueue_probes en [] = returnE ()"
| "enqueue_probes en (sid # sids) = time_now (\<lambda>now.
     ignoring (Enqueue ''service_probe'' (JObj [(''service_id'', JStr sid)]) now (''probe:'' @ sid @ '':'' @ je_minute en now))
       (enqueue_probes en sids))"

text \<open>\<open>probe->>'hostname' IS NOT NULL\<close>: the key is there and its value is not null.\<close>

definition scheduleProbes :: "job_env \<Rightarrow> (jobs_db, unit) sql" where
  "scheduleProbes en =
     tryE (Many (\<lambda>t. map ps_id (filter (\<lambda>s. ps_enabled s \<and> map_of (ps_probe s) ''hostname'' \<notin> {None, Some JNull}) (jb_services t))))
       (enqueue_probes en)"

section \<open>Housekeeping\<close>

definition stale_node :: "int \<Rightarrow> watched_node \<Rightarrow> bool" where
  "stale_node now n \<longleftrightarrow> wn_status n \<notin> {''maintenance'', ''disabled'', ''unhealthy''} \<and>
     (case wn_seen n of None \<Rightarrow> True | Some s \<Rightarrow> s < now - 120)"

definition markStaleNodes :: "job_env \<Rightarrow> (jobs_db, unit) sql" where
  "markStaleNodes en =
     tryE (ExecN (\<lambda>now _ t. Inr (count_rows (stale_node now) (jb_nodes t),
         t\<lparr>jb_nodes := update_rows (stale_node now) (\<lambda>n. n\<lparr>wn_status := ''unhealthy'', wn_updated := now\<rparr>) (jb_nodes t)\<rparr>))) (\<lambda>n.
       if n > 0 then event put_job_events ''error'' ''health'' ''heartbeat_lost'' None (returnE ()) else returnE ())"

text \<open>\<open>DELETE ... WHERE id IN (SELECT id ... LIMIT n)\<close>: at most so many of the rows that satisfy the condition.\<close>

fun delete_limit :: "nat \<Rightarrow> ('r \<Rightarrow> bool) \<Rightarrow> 'r list \<Rightarrow> 'r list" where
  "delete_limit k P [] = []"
| "delete_limit k P (r # rs) = (if P r \<and> k > 0 then delete_limit (k - 1) P rs else r # delete_limit k P rs)"

definition retention_batch :: nat where "retention_batch = 50000"

definition hours :: "int \<Rightarrow> int \<Rightarrow> int" where
  "hours dflt secs = (if secs = 0 then dflt else secs) div 3600 * 3600"

definition retention :: "job_env \<Rightarrow> (jobs_db, unit) sql" where
  "retention en =
     (let hr = hours (14 * 24 * 3600) (je_health_retain en); ar = hours (365 * 24 * 3600) (je_audit_retain en);
          rules = (\<lambda>f t. t\<lparr>jb_rules := f (jb_rules t)\<rparr>) in
      tryE (Exec (\<lambda>now _ t. Inr (t\<lparr>jb_samples := delete_limit retention_batch (\<lambda>x. hs_at x < now - hr) (jb_samples t)\<rparr>))) (\<lambda>_.
      tryE (Exec (\<lambda>now _ t. Inr (rules (put_events (delete_limit retention_batch (\<lambda>x. ev_at x < now - hr))) t))) (\<lambda>_.
      tryE (Exec (\<lambda>now _ t. Inr (rules (put_audit (delete_limit retention_batch (\<lambda>x. au_at x < now - ar))) t))) (\<lambda>_.
      tryE (Exec (\<lambda>now _ t. Inr (t\<lparr>jb_jobs := filter (\<lambda>j. \<not> (jo_state j \<in> {''done'', ''cancelled''} \<and> jo_updated j < now - 24 * 3600)) (jb_jobs t)\<rparr>))) (\<lambda>_.
      tryE (Exec (\<lambda>now _ t. Inr (rules (put_idem (filter (\<lambda>i. \<not> ik_created i < now - 48 * 3600))) t))) (\<lambda>_.
      Exec (\<lambda>now _ t. Inr (t\<lparr>jb_sessions := filter (\<lambda>s. \<not> sn_expires s < now - 24 * 3600) (jb_sessions t)\<rparr>))))))))"

section \<open>Invariants of the queue\<close>

lemma preserves_on_rules [preserves_rules]: "(\<And>x. I x \<Longrightarrow> preserves (\<lambda>r. I (x\<lparr>jb_rules := r\<rparr>)) m) \<Longrightarrow> preserves I (on_rules m)"
  unfolding on_rules_def by (rule preserves_on_part) auto

lemma steady_on_rules [steady_rules]: "steady m \<Longrightarrow> steady (on_rules m)"
  unfolding on_rules_def by (rule steady_on_part)

lemma preserves_rules_event: "(\<And>f t. I t \<Longrightarrow> I (t\<lparr>jb_rules := put_events f (jb_rules t)\<rparr>)) \<Longrightarrow> preserves I k \<Longrightarrow> preserves I (event put_job_events l c d n k)"
  by (rule preserves_event) (simp_all add: put_job_events_def)

text \<open>Execution leaves the queue alone.\<close>

abbreviation jobs_are :: "job_row list \<Rightarrow> jobs_db \<Rightarrow> bool" where
  "jobs_are J t \<equiv> jb_jobs t = J"

lemma jobs_event [preserves_rules]: "preserves (jobs_are J) k \<Longrightarrow> preserves (jobs_are J) (event put_job_events l c d n k)"
  by (rule preserves_rules_event) simp_all

lemma jobs_on_rules [preserves_rules]: "preserves (jobs_are J) (on_rules m)"
  by (rule preserves_on_rules) (simp add: preserves_def)

lemma jobs_probe_nodes [preserves_rules]: "preserves (jobs_are J) (probe_nodes en sv port h ns)"
proof (induction ns)
  case Nil
  show ?case by (simp add: preserves_rules)
next
  case (Cons n ns)
  show ?case unfolding probe_nodes.simps by (intro preserves_rules preserves_Exec Cons) auto
qed

lemma jobs_execute [preserves_rules]: "preserves (jobs_are J) (execute en ty payload)"
  unfolding execute_def probeService_def Let_def by (intro preserves_rules jobs_on_rules)

lemma steady_probe_nodes [steady_rules]: "steady (probe_nodes en sv port h ns)"
proof (induction ns)
  case Nil
  show ?case by (simp add: steady_rules)
next
  case (Cons n ns)
  show ?case unfolding probe_nodes.simps event_def by (intro steady_rules Cons)
qed

lemma steady_execute [steady_rules]: "steady (execute en ty payload)"
  unfolding execute_def probeService_def Let_def event_def by (intro steady_rules)

lemma steady_lease [steady_rules]: "steady (lease_job o')"
  unfolding lease_job_def by (intro steady_rules)

lemma lease_job_Inr:
  assumes "lease_job owner d = (Inr j, d')"
  shows "\<exists>j0. j0 \<in> set (jb_jobs (db_tables d)) \<and> due_job (db_now d) j0 \<and> (\<forall>x\<in>set (jb_jobs (db_tables d)). due_job (db_now d) x \<longrightarrow> jo_run_at j0 \<le> jo_run_at x) \<and>
    j = leased_job owner (db_now d) j0 \<and>
    db_tables d' = (db_tables d)\<lparr>jb_jobs := update_rows (\<lambda>x. jo_id x = jo_id j0) (leased_job owner (db_now d)) (jb_jobs (db_tables d))\<rparr>"
proof -
  let ?s = "sort_key jo_run_at (filter (due_job (db_now d)) (jb_jobs (db_tables d)))"
  from stmt_Inr [OF assms [unfolded lease_job_def]] obtain j0 js where s: "?s = j0 # js" "j = leased_job owner (db_now d) j0"
    "db_tables d' = (db_tables d)\<lparr>jb_jobs := update_rows (\<lambda>x. jo_id x = jo_id j0) (leased_job owner (db_now d)) (jb_jobs (db_tables d))\<rparr>"
    by (auto split: list.splits)
  have "j0 \<in> set ?s" unfolding s(1) by simp
  then have j0: "j0 \<in> set (jb_jobs (db_tables d))" "due_job (db_now d) j0" by simp_all
  have "sorted (map jo_run_at ?s)" by simp
  then have "\<forall>x\<in>set ?s. jo_run_at j0 \<le> jo_run_at x" unfolding s(1) by auto
  then have "\<forall>x\<in>set (jb_jobs (db_tables d)). due_job (db_now d) x \<longrightarrow> jo_run_at j0 \<le> jo_run_at x" by simp
  with j0 s(2,3) show ?thesis by blast
qed

definition queue_ok :: "jobs_db \<Rightarrow> bool" where
  "queue_ok t \<longleftrightarrow> distinct (map jo_id (jb_jobs t)) \<and> distinct (filter (\<lambda>k. k \<noteq> None) (map jo_dedupe (jb_jobs t)))"

lemma queue_map: "map jo_id (jb_jobs t') = map jo_id (jb_jobs t) \<Longrightarrow> map jo_dedupe (jb_jobs t') = map jo_dedupe (jb_jobs t) \<Longrightarrow> queue_ok t' = queue_ok t"
  by (simp add: queue_ok_def)

lemma queue_Enqueue [preserves_rules]: "preserves queue_ok (Enqueue ty p r k)"
  unfolding Enqueue_def
  by (rule preserves_Exec) (auto simp: queue_ok_def Let_def list_ex_iff split: if_splits, blast)

lemma queue_lease [preserves_rules]: "preserves queue_ok (lease_job owner)"
  unfolding preserves_def
proof (intro allI impI)
  fix d :: "jobs_db db" assume q: "queue_ok (db_tables d)"
  show "queue_ok (db_tables (snd (lease_job owner d)))"
  proof (cases "lease_job owner d")
    case (Pair r d')
    show ?thesis
    proof (cases r)
      case (Inl e)
      with Pair q show ?thesis by (auto simp: lease_job_def dest: stmt_Inl)
    next
      case (Inr j)
      with lease_job_Inr [of owner d j d'] Pair q show ?thesis by (auto simp: queue_ok_def map_update_rows leased_job_def)
    qed
  qed
qed

lemma finished_keeps [simp]: "jo_id (finished_job j err now x) = jo_id x" "jo_dedupe (finished_job j err now x) = jo_dedupe x"
  by (simp_all add: finished_job_def split: option.splits)

lemma queue_finish [preserves_rules]: "preserves queue_ok (finish_job j err)"
  unfolding finish_job_def by (rule preserves_Exec) (auto simp: queue_ok_def map_update_rows)

lemma queue_jobs: "(\<And>J. preserves (jobs_are J) m) \<Longrightarrow> preserves queue_ok m"
  by (auto simp: preserves_def queue_ok_def)

lemma queue_runOnce: "preserves queue_ok (runOnce en)"
  unfolding runOnce_def by (intro preserves_rules queue_jobs jobs_execute)

section \<open>Workers\<close>

text \<open>
  A configuration: the tables, the time, and the jobs that workers hold. A worker may lease, finish or be lost at any time, as
  others do; jobs are added and old rows trimmed in between. A worker is timely if it finishes within its lease.
\<close>

inductive worker_step :: "jobs_db \<times> int \<times> job_row list \<Rightarrow> jobs_db \<times> int \<times> job_row list \<Rightarrow> bool" where
  lease: "lease_job owner d = (Inr j, d') \<Longrightarrow> worker_step (db_tables d, db_now d, H) (db_tables d', db_now d, j # H)"
| finish: "j \<in> set H \<Longrightarrow> db_now d \<le> the (jo_lease j) \<Longrightarrow> worker_step (db_tables d, db_now d, H) (db_tables (snd (finish_job j err d)), db_now d, remove1 j H)"
| lost: "worker_step (t, now, H) (t, now, remove1 j H)"
| enqueue: "worker_step (db_tables d, db_now d, H) (db_tables (snd (Enqueue ty p r k d)), db_now d, H)"
| trim: "worker_step (db_tables d, db_now d, H) (db_tables (snd (retention en d)), db_now d, H)"
| other: "jb_jobs t' = jb_jobs t \<Longrightarrow> worker_step (t, now, H) (t', now, H)"
| wait: "now \<le> now' \<Longrightarrow> worker_step (t, now, H) (t, now', H)"

inductive workers_reachable :: "jobs_db \<times> int \<times> job_row list \<Rightarrow> bool" where
  start: "queue_ok t \<Longrightarrow> workers_reachable (t, now, [])"
| step: "workers_reachable c \<Longrightarrow> worker_step c c' \<Longrightarrow> workers_reachable c'"

definition live_holds :: "int \<Rightarrow> job_row list \<Rightarrow> job_row list" where
  "live_holds now H = filter (\<lambda>j. now \<le> the (jo_lease j)) H"

definition leases_ok :: "jobs_db \<times> int \<times> job_row list \<Rightarrow> bool" where
  "leases_ok c = (case c of (t, now, H) \<Rightarrow>
     distinct (map jo_id (jb_jobs t)) \<and> distinct (map jo_id (live_holds now H)) \<and>
     (\<forall>j\<in>set (live_holds now H). jo_lease j \<noteq> None \<and> (\<exists>x\<in>set (jb_jobs t). jo_id x = jo_id j \<and> jo_state x = ''running'' \<and> jo_lease x = jo_lease j)))"

lemma leases_okI:
  "distinct (map jo_id (jb_jobs t)) \<Longrightarrow> distinct (map jo_id (live_holds now H)) \<Longrightarrow>
   (\<And>j. j \<in> set (live_holds now H) \<Longrightarrow> jo_lease j \<noteq> None \<and> (\<exists>x\<in>set (jb_jobs t). jo_id x = jo_id j \<and> jo_state x = ''running'' \<and> jo_lease x = jo_lease j)) \<Longrightarrow>
   leases_ok (t, now, H)"
  by (simp add: leases_ok_def)

lemma live_remove1_eq: "live_holds now (remove1 j H) = remove1 j (live_holds now H)"
  by (simp add: live_holds_def filter_remove1)

lemma live_remove1: "distinct (map jo_id (live_holds now H)) \<Longrightarrow> distinct (map jo_id (live_holds now (remove1 j H)))"
  unfolding live_remove1_eq by (auto simp: distinct_map intro: inj_on_subset)

lemma live_remove1_notin:
  "distinct (map jo_id (live_holds now H)) \<Longrightarrow> j \<in> set H \<Longrightarrow> now \<le> the (jo_lease j) \<Longrightarrow> i \<in> set (live_holds now (remove1 j H)) \<Longrightarrow> jo_id i \<noteq> jo_id j"
  unfolding live_remove1_eq by (auto simp: distinct_map inj_on_def live_holds_def)

lemma leases_lease:
  assumes "leases_ok (db_tables d, db_now d, H)" and "lease_job owner d = (Inr j, d')"
  shows "leases_ok (db_tables d', db_now d, j # H)"
proof -
  let ?J = "jb_jobs (db_tables d)" and ?now = "db_now d"
  from lease_job_Inr [OF assms(2)] obtain j0 where j0: "j0 \<in> set ?J" "due_job ?now j0" "j = leased_job owner ?now j0"
    and t': "jb_jobs (db_tables d') = update_rows (\<lambda>x. jo_id x = jo_id j0) (leased_job owner ?now) ?J" by auto
  from assms(1) have dist: "distinct (map jo_id ?J)" and H: "distinct (map jo_id (live_holds ?now H))"
    and held: "\<And>i. i \<in> set (live_holds ?now H) \<Longrightarrow> jo_lease i \<noteq> None \<and> (\<exists>x\<in>set ?J. jo_id x = jo_id i \<and> jo_state x = ''running'' \<and> jo_lease x = jo_lease i)"
    by (auto simp: leases_ok_def)
  have free: "jo_id i \<noteq> jo_id j0" if "i \<in> set (live_holds ?now H)" for i
  proof
    assume "jo_id i = jo_id j0"
    with held [OF that] dist j0(1) have "jo_state j0 = ''running''" "jo_lease j0 = jo_lease i" "jo_lease i \<noteq> None" by (metis distinct_id_eq)+
    moreover have "?now \<le> the (jo_lease i)" using that by (simp add: live_holds_def)
    ultimately show False using j0(2) by (auto simp: due_job_def)
  qed
  have j: "jo_id j = jo_id j0" "jo_lease j = Some (?now + 300)" "jo_state j = ''running''" by (simp_all add: j0(3) leased_job_def)
  have live: "live_holds ?now (j # H) = j # live_holds ?now H" by (simp add: live_holds_def j)
  show ?thesis
  proof (rule leases_okI)
    show "distinct (map jo_id (jb_jobs (db_tables d')))" using dist by (simp add: t' map_update_rows leased_job_def)
    show "distinct (map jo_id (live_holds ?now (j # H)))" using H free j(1) by (force simp: live)
    fix i assume i: "i \<in> set (live_holds ?now (j # H))"
    show "jo_lease i \<noteq> None \<and> (\<exists>x\<in>set (jb_jobs (db_tables d')). jo_id x = jo_id i \<and> jo_state x = ''running'' \<and> jo_lease x = jo_lease i)"
    proof (cases "i = j")
      case True
      have "j \<in> set (jb_jobs (db_tables d'))" unfolding t' j0(3) by (rule update_rows_hit) (use j0 in simp_all)
      with True j show ?thesis by auto
    next
      case False
      with i live have "i \<in> set (live_holds ?now H)" by simp
      with held [OF this] free [OF this] obtain x where "x \<in> set ?J" "jo_id x = jo_id i" "jo_state x = ''running''" "jo_lease x = jo_lease i"
        "jo_id x \<noteq> jo_id j0" "jo_lease i \<noteq> None" by metis
      then show ?thesis unfolding t' using update_rows_kept [of x ?J "\<lambda>x. jo_id x = jo_id j0"] by blast
    qed
  qed
qed

lemma leases_kept:
  assumes "leases_ok (t, now, H)" and "distinct (map jo_id (jb_jobs t'))"
    and "\<And>x. x \<in> set (jb_jobs t) \<Longrightarrow> jo_state x = ''running'' \<Longrightarrow> x \<in> set (jb_jobs t')"
  shows "leases_ok (t', now, H)"
proof (rule leases_okI)
  show "distinct (map jo_id (live_holds now H))" using assms(1) by (simp add: leases_ok_def)
  fix j assume "j \<in> set (live_holds now H)"
  with assms(1) obtain x where "x \<in> set (jb_jobs t)" "jo_id x = jo_id j" "jo_state x = ''running''" "jo_lease x = jo_lease j" "jo_lease j \<noteq> None"
    by (fastforce simp: leases_ok_def)
  with assms(3) show "jo_lease j \<noteq> None \<and> (\<exists>x\<in>set (jb_jobs t'). jo_id x = jo_id j \<and> jo_state x = ''running'' \<and> jo_lease x = jo_lease j)" by blast
qed (rule assms(2))

lemma leases_finish:
  assumes ok: "leases_ok (db_tables d, db_now d, H)" and j: "j \<in> set H" "db_now d \<le> the (jo_lease j)"
  shows "leases_ok (db_tables (snd (finish_job j err d)), db_now d, remove1 j H)"
proof -
  let ?J = "jb_jobs (db_tables d)" and ?now = "db_now d"
  from ok have dist: "distinct (map jo_id ?J)" and H: "distinct (map jo_id (live_holds ?now H))" by (auto simp: leases_ok_def)
  let ?f = "finished_job j err ?now"
  have t': "jb_jobs (db_tables (snd (finish_job j err d))) = ?J \<or>
      jb_jobs (db_tables (snd (finish_job j err d))) = update_rows (\<lambda>x. jo_id x = jo_id j) ?f ?J"
    by (simp add: finish_job_def Exec_def stmt_def)
  show ?thesis
  proof (rule leases_okI)
    show "distinct (map jo_id (jb_jobs (db_tables (snd (finish_job j err d)))))" using t' dist by (auto simp: map_update_rows)
    show "distinct (map jo_id (live_holds ?now (remove1 j H)))" by (rule live_remove1 [OF H])
    fix i assume i: "i \<in> set (live_holds ?now (remove1 j H))"
    then have "i \<in> set (live_holds ?now H)" by (auto simp: live_holds_def dest: subsetD [OF set_remove1_subset])
    with ok obtain x where x: "x \<in> set ?J" "jo_id x = jo_id i" "jo_state x = ''running''" "jo_lease x = jo_lease i" "jo_lease i \<noteq> None"
      by (fastforce simp: leases_ok_def)
    have "jo_id x \<noteq> jo_id j" using live_remove1_notin [OF H j i] x(2) by simp
    then have "x \<in> set (jb_jobs (db_tables (snd (finish_job j err d))))" using t' x(1) update_rows_kept [of x ?J "\<lambda>x. jo_id x = jo_id j" ?f] by auto
    with x show "jo_lease i \<noteq> None \<and> (\<exists>x\<in>set (jb_jobs (db_tables (snd (finish_job j err d)))). jo_id x = jo_id i \<and> jo_state x = ''running'' \<and> jo_lease x = jo_lease i)"
      by blast
  qed
qed

lemma jobs_retention:
  "jb_jobs (db_tables (snd (retention en d))) = jb_jobs (db_tables d) \<or>
   jb_jobs (db_tables (snd (retention en d))) =
     filter (\<lambda>j. \<not> (jo_state j \<in> {''done'', ''cancelled''} \<and> jo_updated j < db_now d - 24 * 3600)) (jb_jobs (db_tables d))"
  by (simp add: retention_def Let_def tryE_def Exec_def stmt_def db_tick_def split: prod.splits sum.splits if_splits)

lemma leases_step: "worker_step c c' \<Longrightarrow> leases_ok c \<Longrightarrow> leases_ok c'"
proof (induction rule: worker_step.induct)
  case (lease owner d j d' H)
  then show ?case by (blast intro: leases_lease)
next
  case (finish j H d err)
  then show ?case by (blast intro: leases_finish)
next
  case (lost t now H j)
  then show ?case using live_remove1 [of now H j] by (auto simp: leases_ok_def live_remove1_eq dest: subsetD [OF set_remove1_subset])
next
  case (enqueue d H ty p r k)
  show ?case
  proof (rule leases_kept [OF enqueue])
    show "distinct (map jo_id (jb_jobs (db_tables (snd (Enqueue ty p r k d)))))" using enqueue
      by (auto simp: leases_ok_def Enqueue_def Exec_def stmt_def Let_def list_ex_iff)
    show "x \<in> set (jb_jobs (db_tables (snd (Enqueue ty p r k d))))" if "x \<in> set (jb_jobs (db_tables d))" for x using that
      by (auto simp: Enqueue_def Exec_def stmt_def Let_def)
  qed
next
  case (trim d H en)
  show ?case
  proof (rule leases_kept [OF trim])
    show "distinct (map jo_id (jb_jobs (db_tables (snd (retention en d)))))" using jobs_retention [of en d] trim
      by (auto simp: leases_ok_def distinct_map_filter)
    show "x \<in> set (jb_jobs (db_tables (snd (retention en d))))" if "x \<in> set (jb_jobs (db_tables d))" "jo_state x = ''running''" for x
      using jobs_retention [of en d] that by auto
  qed
next
  case (other t' t now H)
  then show ?case by (simp add: leases_ok_def)
next
  case (wait now now' t H)
  have "live_holds now' H = live_holds now' (live_holds now H)" using wait(1) by (auto simp: live_holds_def intro!: filter_cong)
  moreover have "distinct (map jo_id (live_holds now H))" using wait(2) by (simp add: leases_ok_def)
  ultimately have "distinct (map jo_id (live_holds now' H))" by (metis live_holds_def distinct_map_filter)
  moreover have "set (live_holds now' H) \<subseteq> set (live_holds now H)" using wait(1) by (auto simp: live_holds_def)
  ultimately show ?case using wait(2) by (auto simp: leases_ok_def)
qed

section \<open>Properties\<close>

text \<open>
  Property C16. No job is worked on twice at a time: however any number of workers lease, finish and get lost, with failing statements, while jobs
  are added and old ones trimmed, two workers whose leases have not run out never hold the same job, as long as a worker
  that finishes does so within its lease.
\<close>

theorem leases_exclusive:
  assumes "workers_reachable (t, now, H)"
  shows "distinct (map jo_id (filter (\<lambda>j. now \<le> the (jo_lease j)) H))"
proof -
  have "leases_ok c" if "workers_reachable c" for c
    using that
  proof (induction rule: workers_reachable.induct)
    case (start t now)
    then show ?case by (simp add: leases_ok_def live_holds_def queue_ok_def)
  next
    case (step c c')
    then show ?case by (blast intro: leases_step)
  qed
  from this [OF assms] show ?thesis by (simp add: leases_ok_def live_holds_def)
qed

definition demo_job :: "string \<Rightarrow> job_row" where
  "demo_job i = \<lparr>jo_id = i, jo_type = ''service_probe'', jo_payload = JNull, jo_state = ''queued'', jo_run_at = 5, jo_attempts = 0, jo_max = 5, jo_owner = [],
     jo_lease = None, jo_error = [], jo_dedupe = None, jo_updated = 0\<rparr>"

definition demo_jobs :: "job_row list \<Rightarrow> jobs_db" where
  "demo_jobs js = \<lparr>jb_jobs = js, jb_rules = empty_rules, jb_services = [], jb_members = [], jb_nodes = [], jb_samples = [], jb_sessions = []\<rparr>"

theorem leases_exclusive_witness:
  "\<exists>t H. length H = 2 \<and> workers_reachable (t, 1000, H) \<and> distinct (map jo_id (filter (\<lambda>j. 1000 \<le> the (jo_lease j)) H))"
proof -
  let ?d0 = "demo_db (demo_jobs [demo_job ''a'', demo_job ''b''])"
  let ?r1 = "lease_job ''w1'' ?d0"
  let ?r2 = "lease_job ''w2'' (snd ?r1)"
  have n: "db_now ?d0 = 1000" "db_now (snd ?r1) = 1000" using steady_lease [of "''w1''"] by (simp_all add: steady_def demo_db_def)
  have "case fst ?r1 of Inr _ \<Rightarrow> True | Inl _ \<Rightarrow> False" by code_simp
  then obtain j1 where j1: "?r1 = (Inr j1, snd ?r1)" by (cases ?r1; cases "fst ?r1") auto
  have "case fst ?r2 of Inr _ \<Rightarrow> True | Inl _ \<Rightarrow> False" by code_simp
  then obtain j2 where j2: "?r2 = (Inr j2, snd ?r2)" by (cases ?r2; cases "fst ?r2") auto
  have "workers_reachable (db_tables ?d0, 1000, [])" by (rule workers_reachable.start) (simp add: demo_db_def demo_jobs_def queue_ok_def demo_job_def)
  moreover from worker_step.lease [OF j1, of "[]"] have "worker_step (db_tables ?d0, 1000, []) (db_tables (snd ?r1), 1000, [j1])" unfolding n .
  ultimately have "workers_reachable (db_tables (snd ?r1), 1000, [j1])" by (rule workers_reachable.step)
  moreover from worker_step.lease [OF j2, of "[j1]"] have "worker_step (db_tables (snd ?r1), 1000, [j1]) (db_tables (snd ?r2), 1000, [j2, j1])" unfolding n .
  ultimately have r: "workers_reachable (db_tables (snd ?r2), 1000, [j2, j1])" by (rule workers_reachable.step)
  with leases_exclusive [OF r] show ?thesis by (intro exI [of _ "db_tables (snd ?r2)"] exI [of _ "[j2, j1]"]) simp
qed

text \<open>
  A tick of the worker touches at most one job, the one that has waited longest among the due ones, and on a database that answers it ends
  each attempt: an execution without error leaves the job done, a failed one puts it back for \<open>2 ^ min attempts 6\<close> minutes, until the
  attempts allowed are used up and it is marked failed. Done, failed and cancelled jobs are never run.
\<close>

theorem runOnce_correct:
  assumes "healthy d"
  shows "(\<forall>j\<in>set (jb_jobs (db_tables d)). \<not> due_job (db_now d) j) \<and> jb_jobs (db_tables (snd (runOnce en d))) = jb_jobs (db_tables d) \<or>
    (\<exists>j err. j \<in> set (jb_jobs (db_tables d)) \<and> due_job (db_now d) j \<and> jo_state j \<in> {''queued'', ''running''} \<and>
       (\<forall>x\<in>set (jb_jobs (db_tables d)). due_job (db_now d) x \<longrightarrow> jo_run_at j \<le> jo_run_at x) \<and>
       (err = None \<longleftrightarrow> fst (execute en (jo_type j) (jo_payload j) (snd (lease_job (je_owner en) d))) = Inr ()) \<and>
       jb_jobs (db_tables (snd (runOnce en d))) = update_rows (\<lambda>x. jo_id x = jo_id j) (\<lambda>x.
         let n = jo_attempts j + 1; y = leased_job (je_owner en) (db_now d) x in
         (case err of
            None \<Rightarrow> y\<lparr>jo_state := ''done'', jo_owner := [], jo_lease := None, jo_error := [], jo_updated := db_now d\<rparr>
          | Some e \<Rightarrow> y\<lparr>jo_state := if n \<ge> jo_max j then ''failed'' else ''queued'', jo_error := take 500 e,
              jo_run_at := db_now d + 2 ^ nat (min n 6) * 60, jo_owner := [], jo_lease := None, jo_updated := db_now d\<rparr>)) (jb_jobs (db_tables d)))"
proof (cases "lease_job (je_owner en) d")
  case (Pair r d1)
  show ?thesis
  proof (cases r)
    case (Inl e)
    with Pair assms have "sort_key jo_run_at (filter (due_job (db_now d)) (jb_jobs (db_tables d))) = []" "e = ErrNotFound"
      by (auto simp: lease_job_def stmt_def healthy_def split: list.splits if_splits)
    then have "filter (due_job (db_now d)) (jb_jobs (db_tables d)) = []" by (metis length_0_conv length_sort)
    moreover have "db_tables (snd (runOnce en d)) = db_tables d"
      using Pair Inl \<open>e = ErrNotFound\<close> by (auto simp: runOnce_def attempt_def returnE_def lease_job_def dest: stmt_Inl)
    ultimately show ?thesis by (auto simp: filter_empty_conv)
  next
    case (Inr l)
    from lease_job_Inr [OF Pair [unfolded Inr]] obtain j where j: "j \<in> set (jb_jobs (db_tables d))" "due_job (db_now d) j"
      "\<forall>x\<in>set (jb_jobs (db_tables d)). due_job (db_now d) x \<longrightarrow> jo_run_at j \<le> jo_run_at x" "l = leased_job (je_owner en) (db_now d) j"
      "db_tables d1 = (db_tables d)\<lparr>jb_jobs := update_rows (\<lambda>x. jo_id x = jo_id j) (leased_job (je_owner en) (db_now d)) (jb_jobs (db_tables d))\<rparr>" by blast
    have l: "jo_id l = jo_id j" "jo_type l = jo_type j" "jo_payload l = jo_payload j" "jo_attempts l = jo_attempts j + 1" "jo_max l = jo_max j"
      by (simp_all add: j(4) leased_job_def)
    have h1: "healthy d1" "db_now d1 = db_now d" using healthy_step [OF steady_lease assms] Pair steady_lease by (metis, metis steady_def snd_conv)
    obtain res d2 where x: "execute en (jo_type j) (jo_payload j) d1 = (res, d2)" by fastforce
    have h2: "healthy d2" "db_now d2 = db_now d" using healthy_step [OF steady_execute h1(1) x] steady_execute x h1(2) by (simp, metis steady_def snd_conv)
    have j2: "jb_jobs (db_tables d2) = jb_jobs (db_tables d1)" using preservesD [OF jobs_execute, of d1] x by (metis snd_conv)
    define err where "err = (case res of Inl e \<Rightarrow> Some (error_message e) | Inr _ \<Rightarrow> None)"
    have fin: "jb_jobs (db_tables (snd (runOnce en d))) = update_rows (\<lambda>x. jo_id x = jo_id l) (finished_job l err (db_now d)) (jb_jobs (db_tables d1))"
      using Pair Inr x h2 j2 by (simp add: runOnce_def attempt_def ignoring_def returnE_def l err_def finish_job_def Exec_def stmt_def healthy_def)
    have twice: "update_rows P f (update_rows P g rows) = update_rows P (\<lambda>x. f (g x)) rows" if "\<And>x. P (g x) = P x" for P :: "job_row \<Rightarrow> bool" and f g rows
      using that by (simp add: update_rows_def)
    have u: "update_rows (\<lambda>x. jo_id x = jo_id l) (finished_job l err (db_now d)) (jb_jobs (db_tables d1)) =
        update_rows (\<lambda>x. jo_id x = jo_id j) (\<lambda>x. finished_job l err (db_now d) (leased_job (je_owner en) (db_now d) x)) (jb_jobs (db_tables d))"
      by (simp add: j(5) l twice leased_job_def)
    have e: "err = None \<longleftrightarrow> fst (execute en (jo_type j) (jo_payload j) (snd (lease_job (je_owner en) d))) = Inr ()"
      using x Pair by (auto simp: err_def split: sum.splits)
    have s: "jo_state j \<in> {''queued'', ''running''}" using j(2) by (auto simp: due_job_def)
    show ?thesis
      by (rule disjI2, intro exI [of _ j] exI [of _ err] conjI j(1-3) s e) (simp only: trans [OF fin u] finished_job_def Let_def l backoff_seconds_def)
  qed
qed

theorem runOnce_correct_witness:
  "\<exists>j err. j \<in> set (jb_jobs (db_tables (demo_db (demo_jobs [demo_job ''a''])))) \<and>
     (err = None \<longleftrightarrow> fst (execute \<lparr>je_owner = ''w'', je_builder = demo_builder, je_health_retain = 0, je_audit_retain = 0, je_minute = (\<lambda>_. []),
        je_float = (\<lambda>_. 0), je_tls = (\<lambda>_ _ _. NoPeerCert)\<rparr> (jo_type j) (jo_payload j) (snd (lease_job ''w'' (demo_db (demo_jobs [demo_job ''a'']))))) = Inr ())"
proof -
  let ?d = "demo_db (demo_jobs [demo_job ''a''])"
  have h: "healthy ?d" by (simp add: healthy_def demo_db_def)
  have "\<not> (\<forall>j\<in>set (jb_jobs (db_tables ?d)). \<not> due_job (db_now ?d) j)" by (simp add: demo_db_def demo_jobs_def demo_job_def due_job_def)
  with runOnce_correct [OF h, where en = "\<lparr>je_owner = ''w'', je_builder = demo_builder, je_health_retain = 0, je_audit_retain = 0, je_minute = (\<lambda>_. []),
        je_float = (\<lambda>_. 0), je_tls = (\<lambda>_ _ _. NoPeerCert)\<rparr>"] show ?thesis by (simp only: job_env.simps) blast
qed

text \<open>
  The worker keeps what the rule pipeline promises: whatever runs in the background, at most one version of a rule set is active, the one the
  set points at.
\<close>

abbreviation rules_kept :: "jobs_db \<Rightarrow> bool" where
  "rules_kept t \<equiv> rules_wf (jb_rules t)"

lemma rules_kept_event [preserves_rules]: "preserves rules_kept k \<Longrightarrow> preserves rules_kept (event put_job_events l c d n k)"
  by (rule preserves_rules_event) simp_all

lemma rules_kept_build [preserves_rules]: "preserves rules_kept (on_rules (Build b rid))"
  by (rule preserves_on_rules) (simp add: rules_wf_Build)

lemma rules_kept_probe [preserves_rules]: "preserves rules_kept (probe_nodes en sv port h ns)"
proof (induction ns)
  case Nil
  show ?case by (simp add: preserves_rules)
next
  case (Cons n ns)
  show ?case unfolding probe_nodes.simps by (intro preserves_rules preserves_Exec Cons) auto
qed

lemma rules_kept_queue [preserves_rules]: "preserves rules_kept (lease_job owner)" "preserves rules_kept (finish_job j err)" "preserves rules_kept (Enqueue ty p r k)"
proof -
  show "preserves rules_kept (lease_job owner)" unfolding lease_job_def by (rule preserves_stmt) (auto split: list.splits)
  show "preserves rules_kept (finish_job j err)" unfolding finish_job_def by (rule preserves_Exec) auto
  show "preserves rules_kept (Enqueue ty p r k)" unfolding Enqueue_def by (rule preserves_Exec) (auto simp: Let_def split: if_splits)
qed

theorem worker_keeps_rules:
  "preserves rules_kept (runOnce en)" "preserves rules_kept (retention en)"
proof -
  show "preserves rules_kept (runOnce en)" unfolding runOnce_def execute_def probeService_def Let_def by (intro preserves_rules)
  show "preserves rules_kept (retention en)" unfolding retention_def Let_def by (intro preserves_rules preserves_Exec; auto)
qed

subsection \<open>What the leases do not give\<close>

text \<open>
  The statement that finishes a job does not ask who holds the lease: a worker that comes back after its lease ran out puts the job back
  in the queue under the worker that has taken it over, and a third one leases it while the second is at work.
\<close>

theorem stale_finish_frees_job:
  "let d0 = demo_db (demo_jobs [demo_job ''a'']);
       d1 = snd (lease_job ''w1'' d0);
       j1 = leased_job ''w1'' 1000 (demo_job ''a'');
       (r2, d2) = lease_job ''w2'' (d1\<lparr>db_now := 1301\<rparr>);
       d3 = snd (finish_job j1 (Some ''slow'') d2);
       (r4, d4) = lease_job ''w3'' (d3\<lparr>db_now := 1421\<rparr>)
   in (case (r2, r4) of (Inr j2, Inr j3) \<Rightarrow> jo_id j2 = jo_id j3 \<and> jo_lease j2 = Some 1601 \<and> 1421 \<le> the (jo_lease j2) | _ \<Rightarrow> False)"
  by code_simp

text \<open>A job whose worker is lost is leased again however often it was tried: only a reported failure counts against the attempts allowed.\<close>

theorem lost_worker_ignores_limit:
  "case fst (lease_job ''w'' (demo_db (demo_jobs [(demo_job ''a'')\<lparr>jo_state := ''running'', jo_attempts := 7, jo_lease := Some 900\<rparr>]))) of
     Inr j \<Rightarrow> jo_attempts j = 8 \<and> jo_max j = 5 | Inl _ \<Rightarrow> False"
  by code_simp

end
