(* ===== verification/Panel_Fleet.thy ===== *)
theory Panel_Fleet
  imports Rule_Admin Artifact_Model Log_Control
begin

text \<open>
  What the operator administers (\<open>panel/internal/api\<close>: \<open>groups.go\<close>, \<open>services.go\<close>, \<open>nodes.go\<close>, \<open>settings.go\<close>): nodes with their
  certificates, groups of nodes, services and settings. The constraints of the schema are checks of the
  statements. Certificates are issued by a parameter; rendering a row as JSON is one as well.

  The patches of nodes, groups and services share one form, an update under the version the client saw. Its
  contract is the locale \<open>versioned_table\<close>.
\<close>

section \<open>State\<close>

record node_row =
  nd_id :: string
  nd_name :: string
  nd_role :: string
  nd_ipv4 :: "string option"
  nd_ipv6 :: "string option"
  nd_relay :: "string option"           \<comment> \<open>relay_endpoint\<close>
  nd_sni :: "string option"             \<comment> \<open>relay_sni\<close>
  nd_mgmt :: string
  nd_region :: string
  nd_country :: string
  nd_notes :: string
  nd_agent :: string
  nd_status :: string
  nd_desired :: "string option"
  nd_applied :: "string option"
  nd_applied_seq :: int
  nd_seen :: "int option"
  nd_health :: "health option"
  nd_error :: string
  nd_version :: int
  nd_updated :: int

record identity_row =
  ix_node :: string
  ix_cert :: string
  ix_fp :: string
  ix_revoked :: "int option"
  ix_created :: int

record group_row =
  gp_id :: string
  gp_name :: string
  gp_mode :: string
  gp_settings :: json
  gp_version :: int
  gp_updated :: int

record member_row =
  mb_group :: string
  mb_node :: string
  mb_priority :: int
  mb_weight :: int
  mb_enabled :: bool

record service_row =
  sw_id :: string
  sw_name :: string
  sw_slug :: string
  sw_description :: string
  sw_enabled :: bool
  sw_rule_set :: "string option"
  sw_ingress :: "string option"
  sw_egress :: "string option"
  sw_ports :: "int list"
  sw_udp :: string
  sw_ttl :: int
  sw_priority :: int
  sw_notes :: string
  sw_probe :: json
  sw_version :: int
  sw_updated :: int

record revision_row =
  rw_id :: string
  rw_seq :: int
  rw_state :: string
  rw_hash :: string
  rw_manifest :: "manifest option"
  rw_error :: string
  rw_activated :: "int option"
  rw_updated :: int

record artifact_row =
  ax_rev :: string
  ax_node :: string
  ax_content :: bytes
  ax_sha :: string
  ax_size :: int

record deploy_row =
  dp_node :: string
  dp_rev :: string
  dp_state :: string
  dp_wave :: int
  dp_code :: string
  dp_detail :: string
  dp_started :: int
  dp_finished :: "int option"

record fleet_db =
  fl_nodes :: "node_row list"
  fl_identities :: "identity_row list"
  fl_in_groups :: "group_row list"
  fl_out_groups :: "group_row list"
  fl_in_members :: "member_row list"
  fl_out_members :: "member_row list"
  fl_services :: "service_row list"
  fl_settings :: "(string \<times> json) list"
  fl_revisions :: "revision_row list"
  fl_artifacts :: "artifact_row list"
  fl_deploys :: "deploy_row list"
  fl_samples :: "sample_row list"
  fl_rules :: rules_db                  \<comment> \<open>rule sets, and the tables of audit rows, events and idempotency keys\<close>

record fleet_env =
  fe_api :: api_env
  fe_wire :: wire_lib
  fe_node_json :: "node_row option \<Rightarrow> json"
  fe_group_json :: "group_row option \<Rightarrow> json"
  fe_service_json :: "service_row option \<Rightarrow> json"
  fe_ca_ok :: bool                      \<comment> \<open>LoadCA\<close>
  fe_issue :: "string \<Rightarrow> string \<Rightarrow> string list \<Rightarrow> (string \<times> string) option"  \<comment> \<open>name, role, addresses; certificate and key\<close>
  fe_fingerprint :: "string \<Rightarrow> string"
  fe_ca_pem :: string
  fe_panel_fp :: string
  fe_repo :: string

definition put_fleet_audit :: "(audit_row list \<Rightarrow> audit_row list) \<Rightarrow> fleet_db \<Rightarrow> fleet_db" where
  "put_fleet_audit f t = t\<lparr>fl_rules := put_audit f (fl_rules t)\<rparr>"

definition put_fleet_events :: "(event_row list \<Rightarrow> event_row list) \<Rightarrow> fleet_db \<Rightarrow> fleet_db" where
  "put_fleet_events f t = t\<lparr>fl_rules := put_events f (fl_rules t)\<rparr>"

definition put_fleet_idem :: "(idem_row list \<Rightarrow> idem_row list) \<Rightarrow> fleet_db \<Rightarrow> fleet_db" where
  "put_fleet_idem f t = t\<lparr>fl_rules := put_idem f (fl_rules t)\<rparr>"

definition coalesce :: "'a option \<Rightarrow> 'a \<Rightarrow> 'a" where
  "coalesce o' d = (case o' of None \<Rightarrow> d | Some v \<Rightarrow> v)"

definition first_some :: "'a option \<Rightarrow> 'a option \<Rightarrow> 'a option" where
  "first_some o' d = (case o' of None \<Rightarrow> d | Some v \<Rightarrow> Some v)"

definition nullif :: "string \<Rightarrow> string option" where
  "nullif s = (if s = [] then None else Some s)"

section \<open>Constraints\<close>

definition node_statuses :: "string list" where
  "node_statuses = [''unknown'', ''healthy'', ''degraded'', ''unhealthy'', ''maintenance'', ''disabled'']"

definition nodes_check :: "fleet_db \<Rightarrow> go_error option" where
  "nodes_check t =
     (if \<not> list_all (\<lambda>n. nd_role n \<in> {''ingress'', ''egress''} \<and> nd_status n \<in> set node_statuses) (fl_nodes t) then Some DBFailure
      else if \<not> distinct (map nd_name (fl_nodes t)) \<or> \<not> distinct (map nd_id (fl_nodes t)) then Some ErrConflict else None)"

definition groups_check :: "string list \<Rightarrow> group_row list \<Rightarrow> go_error option" where
  "groups_check modes gs =
     (if \<not> list_all (\<lambda>g. gp_mode g \<in> set modes) gs then Some DBFailure
      else if \<not> distinct (map gp_name gs) \<or> \<not> distinct (map gp_id gs) then Some ErrConflict else None)"

definition udp_modes :: "string list" where
  "udp_modes = [''disabled_fallback'', ''proxy'', ''separate_ip'']"

definition refers :: "string option \<Rightarrow> string list \<Rightarrow> bool" where
  "refers r ids \<longleftrightarrow> (case r of None \<Rightarrow> True | Some i \<Rightarrow> i \<in> set ids)"

definition services_check :: "fleet_db \<Rightarrow> go_error option" where
  "services_check t =
     (if \<not> list_all (\<lambda>s. sw_udp s \<in> set udp_modes \<and> 30 \<le> sw_ttl s \<and> sw_ttl s \<le> 300) (fl_services t) then Some DBFailure
      else if \<not> distinct (map sw_name (fl_services t)) \<or> \<not> distinct (map sw_slug (fl_services t)) \<or> \<not> distinct (map sw_id (fl_services t)) then Some ErrConflict
      else if \<not> list_all (\<lambda>s. refers (sw_rule_set s) (map rs_id (rt_sets (fl_rules t))) \<and> refers (sw_ingress s) (map gp_id (fl_in_groups t)) \<and>
           refers (sw_egress s) (map gp_id (fl_out_groups t))) (fl_services t) then Some ErrConflict
      else None)"

definition checked :: "('t \<Rightarrow> go_error option) \<Rightarrow> 'r \<Rightarrow> 't \<Rightarrow> go_error + ('r \<times> 't)" where
  "checked chk r t = (case chk t of Some e \<Rightarrow> Inl e | None \<Rightarrow> Inr (r, t))"

section \<open>Updates under a version\<close>

text \<open>\<open>UPDATE ... WHERE id=$1 AND ($2 = 0 OR version = $2)\<close>.\<close>

definition versioned_update :: "('t \<Rightarrow> 'r list) \<Rightarrow> (('r list \<Rightarrow> 'r list) \<Rightarrow> 't \<Rightarrow> 't) \<Rightarrow> ('r \<Rightarrow> string) \<Rightarrow> ('r \<Rightarrow> int) \<Rightarrow> ('t \<Rightarrow> go_error option) \<Rightarrow>
    (int \<Rightarrow> 'r \<Rightarrow> 'r) \<Rightarrow> string \<Rightarrow> int \<Rightarrow> ('t, nat) sql" where
  "versioned_update get put ident version chk step rid ver = ExecN (\<lambda>now _ t.
     let hit = (\<lambda>r. ident r = rid \<and> (ver = 0 \<or> version r = ver)) in
     if count_rows hit (get t) = 0 then Inr (0, t)
     else checked chk (count_rows hit (get t)) (put (update_rows hit (step now)) t))"

text \<open>
  The row before, a check, the update, the check of the version and the row after, for the audit log and the answer.
\<close>

definition versioned_patch :: "('t \<Rightarrow> 'r list) \<Rightarrow> (('r list \<Rightarrow> 'r list) \<Rightarrow> 't \<Rightarrow> 't) \<Rightarrow> ('r \<Rightarrow> string) \<Rightarrow> ('r \<Rightarrow> int) \<Rightarrow> ('t \<Rightarrow> go_error option) \<Rightarrow>
    (int \<Rightarrow> 'r \<Rightarrow> 'r) \<Rightarrow> string \<Rightarrow> int \<Rightarrow> go_error option \<Rightarrow> ('r \<Rightarrow> 'r option \<Rightarrow> ('t, 's) sql) \<Rightarrow> ('t, 's) sql" where
  "versioned_patch get put ident version chk step rid ver pre k =
     tryE (One (\<lambda>t. filter (\<lambda>r. ident r = rid) (get t))) (\<lambda>before. guardE pre
     (tryE (versioned_update get put ident version chk step rid ver) (\<lambda>n.
     guardE (checkVersion n ver)
       (attempt (One (\<lambda>t. filter (\<lambda>r. ident r = rid) (get t))) (\<lambda>found.
          k before (case found of Inl _ \<Rightarrow> None | Inr r \<Rightarrow> Some r))))))"

section \<open>Groups\<close>

text \<open>\<open>groupKind\<close>: the tables of the two kinds of groups and what they allow.\<close>

record group_kind =
  gk_role :: string
  gk_modes :: "string list"
  gk_groups :: "fleet_db \<Rightarrow> group_row list"
  gk_put_groups :: "(group_row list \<Rightarrow> group_row list) \<Rightarrow> fleet_db \<Rightarrow> fleet_db"
  gk_members :: "fleet_db \<Rightarrow> member_row list"
  gk_put_members :: "(member_row list \<Rightarrow> member_row list) \<Rightarrow> fleet_db \<Rightarrow> fleet_db"
  gk_column :: "service_row \<Rightarrow> string option"

definition put_in_groups :: "(group_row list \<Rightarrow> group_row list) \<Rightarrow> fleet_db \<Rightarrow> fleet_db" where
  "put_in_groups f t = t\<lparr>fl_in_groups := f (fl_in_groups t)\<rparr>"

definition put_out_groups :: "(group_row list \<Rightarrow> group_row list) \<Rightarrow> fleet_db \<Rightarrow> fleet_db" where
  "put_out_groups f t = t\<lparr>fl_out_groups := f (fl_out_groups t)\<rparr>"

definition put_in_members :: "(member_row list \<Rightarrow> member_row list) \<Rightarrow> fleet_db \<Rightarrow> fleet_db" where
  "put_in_members f t = t\<lparr>fl_in_members := f (fl_in_members t)\<rparr>"

definition put_out_members :: "(member_row list \<Rightarrow> member_row list) \<Rightarrow> fleet_db \<Rightarrow> fleet_db" where
  "put_out_members f t = t\<lparr>fl_out_members := f (fl_out_members t)\<rparr>"

definition ingressKind :: group_kind where
  "ingressKind = \<lparr>gk_role = ''ingress'', gk_modes = [''active_active'', ''primary_fallback'', ''weighted''], gk_groups = fl_in_groups,
     gk_put_groups = put_in_groups, gk_members = fl_in_members, gk_put_members = put_in_members, gk_column = sw_ingress\<rparr>"

definition egressKind :: group_kind where
  "egressKind = \<lparr>gk_role = ''egress'', gk_modes = [''primary_fallback'', ''weighted'', ''lowest_latency'', ''manual_fixed''], gk_groups = fl_out_groups,
     gk_put_groups = put_out_groups, gk_members = fl_out_members, gk_put_members = put_out_members, gk_column = sw_egress\<rparr>"

record group_request =
  gq_name :: string
  gq_mode :: string
  gq_settings :: "json option"

record group_patch =
  gt_name :: "string option"
  gt_mode :: "string option"
  gt_settings :: "json option"

definition insert_group :: "group_kind \<Rightarrow> group_request \<Rightarrow> (fleet_db, group_row) sql" where
  "insert_group k q = stmt (\<lambda>now u t.
     let g = \<lparr>gp_id = u, gp_name = gq_name q, gp_mode = gq_mode q, gp_settings = coalesce (gq_settings q) (JObj []), gp_version = 1, gp_updated = now\<rparr> in
     checked (\<lambda>t'. groups_check (gk_modes k) (gk_groups k t')) g (gk_put_groups k (\<lambda>gs. gs @ [g]) t))"

definition createGroup :: "group_kind \<Rightarrow> fleet_env \<Rightarrow> api_request \<Rightarrow> group_request option \<Rightarrow> (fleet_db, api_reply) sql" where
  "createGroup k en r body = decodeE body (\<lambda>req0.
     let req1 = req0\<lparr>gq_name := trim_space (gq_name req0)\<rparr> in
     if gq_name req1 = [] then throwE badRequest
     else let req2 = (if gq_mode req1 = [] then req1\<lparr>gq_mode := hd (gk_modes k)\<rparr> else req1) in
       if gq_mode req2 \<notin> set (gk_modes k) then throwE badRequest
       else tryE (insert_group k req2) (\<lambda>g.
         audit put_fleet_audit (audit_of (fe_api en) r (gk_role k @ ''_group.created'') (gk_role k @ ''_group'') (gp_id g) None (Some (fe_group_json en (Some g))))
           (returnE (Reply 201 (fe_group_json en (Some g))))))"

definition patched_group :: "group_patch \<Rightarrow> int \<Rightarrow> group_row \<Rightarrow> group_row" where
  "patched_group p now g = g\<lparr>gp_name := coalesce (gt_name p) (gp_name g), gp_mode := coalesce (gt_mode p) (gp_mode g),
     gp_settings := coalesce (gt_settings p) (gp_settings g), gp_updated := now, gp_version := gp_version g + 1\<rparr>"

definition patchGroup :: "group_kind \<Rightarrow> fleet_env \<Rightarrow> api_request \<Rightarrow> group_patch option \<Rightarrow> (fleet_db, api_reply) sql" where
  "patchGroup k en r body = decodeE body (\<lambda>req.
     if (case gt_mode req of None \<Rightarrow> False | Some m \<Rightarrow> m \<notin> set (gk_modes k)) then throwE badRequest
     else liftE (ifMatch r) (\<lambda>ver.
       let gid = aq_path r ''id'' in
       versioned_patch (gk_groups k) (gk_put_groups k) gp_id gp_version (\<lambda>t. groups_check (gk_modes k) (gk_groups k t)) (patched_group req) gid ver None (\<lambda>before after.
         audit put_fleet_audit (audit_of (fe_api en) r (gk_role k @ ''_group.updated'') (gk_role k @ ''_group'') gid
             (Some (fe_group_json en (Some before))) (Some (fe_group_json en after)))
           (returnE (Reply 200 (fe_group_json en after))))))"

text \<open>Members go with their group; services refer to it and keep it.\<close>

definition delete_group :: "group_kind \<Rightarrow> string \<Rightarrow> (fleet_db, nat) sql" where
  "delete_group k gid = ExecN (\<lambda>_ _ t.
     if list_ex (\<lambda>g. gp_id g = gid) (gk_groups k t) \<and> list_ex (\<lambda>s. gk_column k s = Some gid) (fl_services t) then Inl ErrConflict
     else Inr (count_rows (\<lambda>g. gp_id g = gid) (gk_groups k t),
            gk_put_members k (filter (\<lambda>m. mb_group m \<noteq> gid)) (gk_put_groups k (filter (\<lambda>g. gp_id g \<noteq> gid)) t)))"

definition deleteGroup :: "group_kind \<Rightarrow> fleet_env \<Rightarrow> api_request \<Rightarrow> (fleet_db, api_reply) sql" where
  "deleteGroup k en r =
     (let gid = aq_path r ''id'' in
      tryE (Many (\<lambda>t. filter (\<lambda>s. gk_column k s = Some gid) (fl_services t))) (\<lambda>users.
      if users \<noteq> [] then throwE conflictErr
      else tryE (delete_group k gid) (\<lambda>n.
        if n = 0 then throwE notFound
        else audit put_fleet_audit (audit_of (fe_api en) r (gk_role k @ ''_group.deleted'') (gk_role k @ ''_group'') gid None None)
               (returnE (Reply 200 (JObj [(''status'', JStr ''deleted'')]))))))"

record member_request =
  mq_node :: string
  mq_priority :: int
  mq_weight :: int
  mq_enabled :: "bool option"

definition upsert_member :: "group_kind \<Rightarrow> member_row \<Rightarrow> (fleet_db, unit) sql" where
  "upsert_member k m = Exec (\<lambda>_ _ t.
     if \<not> list_ex (\<lambda>g. gp_id g = mb_group m) (gk_groups k t) \<or> \<not> list_ex (\<lambda>n. nd_id n = mb_node m) (fl_nodes t) then Inl ErrConflict
     else let same = (\<lambda>x. mb_group x = mb_group m \<and> mb_node x = mb_node m) in
       Inr (gk_put_members k (\<lambda>ms. if list_ex same ms then update_rows same (\<lambda>_. m) ms else ms @ [m]) t))"

definition addMember :: "group_kind \<Rightarrow> fleet_env \<Rightarrow> api_request \<Rightarrow> (member_request \<Rightarrow> json) \<Rightarrow> member_request option \<Rightarrow> (fleet_db, api_reply) sql" where
  "addMember k en r to_json body = decodeE body (\<lambda>req.
     let gid = aq_path r ''id'' in
     attempt (One (\<lambda>t. map nd_role (filter (\<lambda>n. nd_id n = mq_node req) (fl_nodes t)))) (\<lambda>found.
       case found of
         Inl _ \<Rightarrow> throwE notFound
       | Inr role \<Rightarrow>
           if role \<noteq> gk_role k then throwE badRequest
           else let req' = req\<lparr>mq_priority := if mq_priority req \<le> 0 then 1 else mq_priority req, mq_weight := if mq_weight req \<le> 0 then 1 else mq_weight req\<rparr> in
             tryE (upsert_member k \<lparr>mb_group = gid, mb_node = mq_node req', mb_priority = mq_priority req', mb_weight = mq_weight req',
                 mb_enabled = coalesce (mq_enabled req') True\<rparr>) (\<lambda>_.
               audit put_fleet_audit (audit_of (fe_api en) r (gk_role k @ ''_group.member_added'') (gk_role k @ ''_group'') gid None (Some (to_json req')))
                 (returnE (Reply 200 (JObj [(''status'', JStr ''added'')]))))))"

definition removeMember :: "group_kind \<Rightarrow> fleet_env \<Rightarrow> api_request \<Rightarrow> (fleet_db, api_reply) sql" where
  "removeMember k en r =
     (let gid = aq_path r ''id''; nid = aq_path r ''node_id''; hit = (\<lambda>m. mb_group m = gid \<and> mb_node m = nid) in
      tryE (ExecN (\<lambda>_ _ t. Inr (count_rows hit (gk_members k t), gk_put_members k (filter (\<lambda>m. \<not> hit m)) t))) (\<lambda>n.
        if n = 0 then throwE notFound
        else audit put_fleet_audit (audit_of (fe_api en) r (gk_role k @ ''_group.member_removed'') (gk_role k @ ''_group'') gid
                 (Some (JObj [(''node_id'', JStr nid)])) None)
               (returnE (Reply 200 (JObj [(''status'', JStr ''removed'')])))))"

section \<open>Services\<close>

definition slug_char :: "char \<Rightarrow> bool" where
  "slug_char c \<longleftrightarrow> (CHR ''a'' \<le> c \<and> c \<le> CHR ''z'') \<or> is_digit c"

text \<open>\<open>slugRe\<close>: one letter or digit, up to 38 letters, digits and dashes, one letter or digit.\<close>

definition slugRe :: "string \<Rightarrow> bool" where
  "slugRe s \<longleftrightarrow> 2 \<le> length s \<and> length s \<le> 40 \<and> slug_char (hd s) \<and> slug_char (last s) \<and> list_all (\<lambda>c. slug_char c \<or> c = CHR ''-'') s"

text \<open>
  The loop of \<open>slugify\<close> goes over runes; as a run of other characters gives one dash, going over bytes gives the same.
\<close>

fun slug_loop :: "string \<Rightarrow> bool \<Rightarrow> string \<Rightarrow> string" where
  "slug_loop [] prevDash b = b"
| "slug_loop (c # cs) prevDash b =
     (if slug_char c then slug_loop cs False (b @ [c])
      else if \<not> prevDash \<and> b \<noteq> [] then slug_loop cs True (b @ ''-'') else slug_loop cs prevDash b)"

definition slugify :: "(string \<Rightarrow> string) \<Rightarrow> string \<Rightarrow> string" where
  "slugify u s = trim_char CHR ''-'' (slug_loop (to_lower u (trim_space s)) False [])"

record service_request =
  sr_name :: string
  sr_slug :: string
  sr_description :: string
  sr_enabled :: "bool option"
  sr_rule_set :: "string option"
  sr_ingress :: "string option"
  sr_egress :: "string option"
  sr_ports :: "int list"
  sr_udp :: string
  sr_ttl :: int
  sr_priority :: int
  sr_notes :: string
  sr_probe :: "json option"

definition insert_service :: "service_request \<Rightarrow> bool \<Rightarrow> (fleet_db, service_row) sql" where
  "insert_service q enabled = stmt (\<lambda>now u t.
     let s = \<lparr>sw_id = u, sw_name = sr_name q, sw_slug = sr_slug q, sw_description = sr_description q, sw_enabled = enabled, sw_rule_set = sr_rule_set q,
       sw_ingress = sr_ingress q, sw_egress = sr_egress q, sw_ports = sr_ports q, sw_udp = sr_udp q, sw_ttl = sr_ttl q, sw_priority = sr_priority q,
       sw_notes = sr_notes q, sw_probe = coalesce (sr_probe q) (JObj []), sw_version = 1, sw_updated = now\<rparr> in
     checked services_check s (t\<lparr>fl_services := fl_services t @ [s]\<rparr>))"

definition createService :: "fleet_env \<Rightarrow> api_request \<Rightarrow> service_request option \<Rightarrow> (fleet_db, api_reply) sql" where
  "createService en r body = decodeE body (\<lambda>req0.
     let req1 = req0\<lparr>sr_name := trim_space (sr_name req0)\<rparr>;
         req2 = (if sr_slug req1 = [] then req1\<lparr>sr_slug := slugify (ae_lower (fe_api en)) (sr_name req1)\<rparr> else req1) in
     if sr_name req2 = [] then throwE badRequest
     else if \<not> slugRe (sr_slug req2) then throwE badRequest
     else let req3 = (if sr_ttl req2 = 0 then req2\<lparr>sr_ttl := 60\<rparr> else req2) in
       if sr_ttl req3 < 30 \<or> sr_ttl req3 > 300 then throwE badRequest
       else let req4 = (if sr_priority req3 = 0 then req3\<lparr>sr_priority := 100\<rparr> else req3);
                req5 = (if sr_ports req4 = [] then req4\<lparr>sr_ports := [443]\<rparr> else req4);
                req6 = (if sr_udp req5 = [] then req5\<lparr>sr_udp := ''disabled_fallback''\<rparr> else req5)
            in if sr_udp req6 \<notin> set udp_modes then throwE badRequest
               else tryE (insert_service req6 (coalesce (sr_enabled req6) True)) (\<lambda>sv.
                 audit put_fleet_audit (audit_of (fe_api en) r ''service.created'' ''service'' (sw_id sv) None (Some (fe_service_json en (Some sv))))
                   (returnE (Reply 201 (fe_service_json en (Some sv))))))"

record service_patch =
  st_name :: "string option"
  st_description :: "string option"
  st_enabled :: "bool option"
  st_rule_set :: "string option"
  st_ingress :: "string option"
  st_egress :: "string option"
  st_ports :: "int list option"
  st_udp :: "string option"
  st_ttl :: "int option"
  st_priority :: "int option"
  st_notes :: "string option"
  st_probe :: "json option"

definition patched_service :: "service_patch \<Rightarrow> int \<Rightarrow> service_row \<Rightarrow> service_row" where
  "patched_service p now s =
     s\<lparr>sw_name := coalesce (st_name p) (sw_name s), sw_description := coalesce (st_description p) (sw_description s),
       sw_enabled := coalesce (st_enabled p) (sw_enabled s), sw_rule_set := first_some (st_rule_set p) (sw_rule_set s),
       sw_ingress := first_some (st_ingress p) (sw_ingress s), sw_egress := first_some (st_egress p) (sw_egress s),
       sw_ports := coalesce (st_ports p) (sw_ports s), sw_udp := coalesce (st_udp p) (sw_udp s), sw_ttl := coalesce (st_ttl p) (sw_ttl s),
       sw_priority := coalesce (st_priority p) (sw_priority s), sw_notes := coalesce (st_notes p) (sw_notes s),
       sw_probe := coalesce (st_probe p) (sw_probe s), sw_updated := now, sw_version := sw_version s + 1\<rparr>"

definition put_services :: "(service_row list \<Rightarrow> service_row list) \<Rightarrow> fleet_db \<Rightarrow> fleet_db" where
  "put_services f t = t\<lparr>fl_services := f (fl_services t)\<rparr>"

definition patchService :: "fleet_env \<Rightarrow> api_request \<Rightarrow> service_patch option \<Rightarrow> (fleet_db, api_reply) sql" where
  "patchService en r body = decodeE body (\<lambda>req.
     if (case st_ttl req of None \<Rightarrow> False | Some n \<Rightarrow> n < 30 \<or> n > 300) then throwE badRequest
     else liftE (ifMatch r) (\<lambda>ver.
       let sid = aq_path r ''id'' in
       versioned_patch fl_services put_services sw_id sw_version services_check (patched_service req) sid ver None (\<lambda>before after.
         audit put_fleet_audit (audit_of (fe_api en) r ''service.updated'' ''service'' sid (Some (fe_service_json en (Some before))) (Some (fe_service_json en after)))
           (returnE (Reply 200 (fe_service_json en after))))))"

definition deleteService :: "fleet_env \<Rightarrow> api_request \<Rightarrow> (fleet_db, api_reply) sql" where
  "deleteService en r =
     (let sid = aq_path r ''id'' in
      tryE (ExecN (\<lambda>_ _ t. Inr (count_rows (\<lambda>s. sw_id s = sid) (fl_services t),
          t\<lparr>fl_services := filter (\<lambda>s. sw_id s \<noteq> sid) (fl_services t), fl_samples := filter (\<lambda>h. hs_service h \<noteq> Some sid) (fl_samples t)\<rparr>))) (\<lambda>n.
        if n = 0 then throwE notFound
        else audit put_fleet_audit (audit_of (fe_api en) r ''service.deleted'' ''service'' sid None None)
               (returnE (Reply 200 (JObj [(''status'', JStr ''deleted'')])))))"

section \<open>Nodes\<close>

record node_patch =
  np_name :: "string option"
  np_ipv4 :: "string option"
  np_ipv6 :: "string option"
  np_relay :: "string option"
  np_sni :: "string option"
  np_mgmt :: "string option"
  np_region :: "string option"
  np_country :: "string option"
  np_notes :: "string option"
  np_status :: "string option"

definition put_nodes :: "(node_row list \<Rightarrow> node_row list) \<Rightarrow> fleet_db \<Rightarrow> fleet_db" where
  "put_nodes f t = t\<lparr>fl_nodes := f (fl_nodes t)\<rparr>"

definition patched_node :: "node_patch \<Rightarrow> int \<Rightarrow> node_row \<Rightarrow> node_row" where
  "patched_node p now n =
     n\<lparr>nd_name := coalesce (np_name p) (nd_name n), nd_ipv4 := first_some (np_ipv4 p) (nd_ipv4 n), nd_ipv6 := first_some (np_ipv6 p) (nd_ipv6 n),
       nd_relay := first_some (np_relay p) (nd_relay n), nd_sni := first_some (np_sni p) (nd_sni n), nd_mgmt := coalesce (np_mgmt p) (nd_mgmt n),
       nd_region := coalesce (np_region p) (nd_region n), nd_country := coalesce (np_country p) (nd_country n), nd_notes := coalesce (np_notes p) (nd_notes n),
       nd_status := coalesce (np_status p) (nd_status n), nd_updated := now, nd_version := nd_version n + 1\<rparr>"

definition patchNode :: "fleet_env \<Rightarrow> api_request \<Rightarrow> node_patch option \<Rightarrow> (fleet_db, api_reply) sql" where
  "patchNode en r body = decodeE body (\<lambda>p. liftE (ifMatch r) (\<lambda>ver.
     let nid = aq_path r ''id'';
         pre = (case np_status p of None \<Rightarrow> None | Some s \<Rightarrow> if s \<notin> set node_statuses then Some badRequest else None) in
     versioned_patch fl_nodes put_nodes nd_id nd_version nodes_check (patched_node p) nid ver pre (\<lambda>before after.
       audit put_fleet_audit (audit_of (fe_api en) r ''node.updated'' ''node'' nid (Some (fe_node_json en (Some before))) (Some (fe_node_json en after)))
         (returnE (Reply 200 (fe_node_json en after))))))"

text \<open>What refers to the node goes with it.\<close>

definition delete_node :: "string \<Rightarrow> (fleet_db, nat) sql" where
  "delete_node nid = ExecN (\<lambda>_ _ t. Inr (count_rows (\<lambda>n. nd_id n = nid) (fl_nodes t),
     t\<lparr>fl_nodes := filter (\<lambda>n. nd_id n \<noteq> nid) (fl_nodes t), fl_identities := filter (\<lambda>i. ix_node i \<noteq> nid) (fl_identities t),
       fl_in_members := filter (\<lambda>m. mb_node m \<noteq> nid) (fl_in_members t), fl_out_members := filter (\<lambda>m. mb_node m \<noteq> nid) (fl_out_members t),
       fl_artifacts := filter (\<lambda>a. ax_node a \<noteq> nid) (fl_artifacts t), fl_deploys := filter (\<lambda>p. dp_node p \<noteq> nid) (fl_deploys t),
       fl_samples := filter (\<lambda>h. hs_node h \<noteq> nid) (fl_samples t),
       fl_rules := put_events (filter (\<lambda>e. ev_node e \<noteq> Some nid)) (fl_rules t)\<rparr>))"

definition node_groups :: "string \<Rightarrow> fleet_db \<Rightarrow> string list" where
  "node_groups nid t =
     map mb_group (filter (\<lambda>m. mb_node m = nid \<and> list_ex (\<lambda>g. gp_id g = mb_group m) (fl_in_groups t)) (fl_in_members t)) @
     map mb_group (filter (\<lambda>m. mb_node m = nid \<and> list_ex (\<lambda>g. gp_id g = mb_group m) (fl_out_groups t)) (fl_out_members t))"

definition deleteNode :: "fleet_env \<Rightarrow> api_request \<Rightarrow> (fleet_db, api_reply) sql" where
  "deleteNode en r =
     (let nid = aq_path r ''id'' in
      tryE (Many (node_groups nid)) (\<lambda>deps.
      if deps \<noteq> [] then throwE conflictErr
      else tryE (delete_node nid) (\<lambda>n.
        if n = 0 then throwE notFound
        else audit put_fleet_audit (audit_of (fe_api en) r ''node.deleted'' ''node'' nid None None)
               (returnE (Reply 200 (JObj [(''status'', JStr ''deleted'')]))))))"

definition nodeMaintenance :: "fleet_env \<Rightarrow> api_request \<Rightarrow> bool option \<Rightarrow> (fleet_db, api_reply) sql" where
  "nodeMaintenance en r body = decodeE body (\<lambda>enabled.
     let status = (if enabled then ''maintenance'' else ''unknown''); nid = aq_path r ''id'' in
     tryE (ExecN (\<lambda>now _ t. Inr (count_rows (\<lambda>n. nd_id n = nid) (fl_nodes t),
         put_nodes (update_rows (\<lambda>n. nd_id n = nid) (\<lambda>n. n\<lparr>nd_status := status, nd_updated := now, nd_version := nd_version n + 1\<rparr>)) t))) (\<lambda>n.
       if n = 0 then throwE notFound
       else audit put_fleet_audit (audit_of (fe_api en) r ''node.maintenance'' ''node'' nid None (Some (JObj [(''enabled'', JBool enabled)])))
              (event put_fleet_events ''info'' ''panel'' ''node_maintenance'' (Some nid) (returnE (Reply 200 (JObj [(''status'', JStr status)]))))))"

record node_request =
  nq_name :: string
  nq_role :: string
  nq_mgmt :: string
  nq_ipv4 :: string
  nq_ipv6 :: string
  nq_relay_port :: int

definition installCommand :: "string \<Rightarrow> string \<Rightarrow> string" where
  "installCommand repo role =
     ''sudo bash -c '' @ [CHR 0x22] @ ''$(curl -fsSL https://raw.githubusercontent.com/'' @ (if repo = [] then ''vitalyor/smart-dns-proxy'' else repo) @
     ''/main/install.sh)'' @ [CHR 0x22] @ '' -- --role '' @ role"

definition nonEmptyIPs :: "string list \<Rightarrow> string list" where
  "nonEmptyIPs vals = foldl (\<lambda>out v. if v \<noteq> [] \<and> v \<notin> set out then out @ [v] else out) [] vals"

definition hostOf :: "net_lib \<Rightarrow> string \<Rightarrow> string" where
  "hostOf nl hp = (case split_host_port nl hp of Some (h, _) \<Rightarrow> h | None \<Rightarrow> [])"

definition public_host :: "node_request \<Rightarrow> string" where
  "public_host req = (if nq_ipv4 req = [] then nq_ipv6 req else nq_ipv4 req)"

definition mgmt_address :: "node_request \<Rightarrow> string" where
  "mgmt_address req =
     (let m = trim_space (nq_mgmt req) in
      if m = [] \<and> public_host req \<noteq> [] then public_host req @ '':3333'' else m)"

definition node_relay :: "node_request \<Rightarrow> string" where
  "node_relay req =
     (if nq_role req = ''egress'' \<and> public_host req \<noteq> []
      then public_host req @ '':'' @ dec_int (if nq_relay_port req = 0 then 8443 else nq_relay_port req) else [])"

text \<open>Any error of the insert is answered as a taken name.\<close>

definition insert_node :: "string \<Rightarrow> node_request \<Rightarrow> (fleet_db, string) sql" where
  "insert_node name req =
     attempt (stmt (\<lambda>now u t.
       let n = \<lparr>nd_id = u, nd_name = name, nd_role = nq_role req, nd_ipv4 = nullif (nq_ipv4 req), nd_ipv6 = nullif (nq_ipv6 req),
         nd_relay = nullif (node_relay req), nd_sni = Some name, nd_mgmt = mgmt_address req, nd_region = [], nd_country = [], nd_notes = [], nd_agent = [],
         nd_status = ''unknown'', nd_desired = None, nd_applied = None, nd_applied_seq = 0, nd_seen = None, nd_health = None, nd_error = [], nd_version = 1, nd_updated = now\<rparr> in
       checked nodes_check u (put_nodes (\<lambda>ns. ns @ [n]) t))) (\<lambda>res.
     case res of Inl _ \<Rightarrow> throwE ErrConflict | Inr u \<Rightarrow> returnE u)"

definition insert_identity :: "string \<Rightarrow> string \<Rightarrow> string \<Rightarrow> (fleet_db, unit) sql" where
  "insert_identity nid cert fp = Exec (\<lambda>now _ t.
     if list_ex (\<lambda>i. ix_fp i = fp) (fl_identities t) \<or> \<not> list_ex (\<lambda>n. nd_id n = nid) (fl_nodes t) then Inl ErrConflict
     else Inr (t\<lparr>fl_identities := fl_identities t @ [\<lparr>ix_node = nid, ix_cert = cert, ix_fp = fp, ix_revoked = None, ix_created = now\<rparr>]\<rparr>))"

definition register_node :: "fleet_env \<Rightarrow> string \<Rightarrow> node_request \<Rightarrow> (fleet_db, string \<times> string \<times> string) sql" where
  "register_node en name req = transaction
     (tryE (insert_node name req) (\<lambda>nid.
        if \<not> fe_ca_ok en then throwE internal_err
        else case fe_issue en name (nq_role req) (nonEmptyIPs [nq_ipv4 req, nq_ipv6 req, hostOf (ae_net (fe_api en)) (mgmt_address req)]) of
          None \<Rightarrow> throwE internal_err
        | Some (cert, key) \<Rightarrow> tryE (insert_identity nid cert (fe_fingerprint en cert)) (\<lambda>_. returnE (nid, cert, key))))"

definition create_node_action :: "fleet_env \<Rightarrow> api_request \<Rightarrow> string \<Rightarrow> node_request \<Rightarrow> (fleet_db, int \<times> json) sql" where
  "create_node_action en r name req =
     tryE (register_node en name req) (\<lambda>(nid, cert, key).
       audit put_fleet_audit (audit_of (fe_api en) r ''node.created'' ''node'' nid None
           (Some (JObj [(''role'', JStr (nq_role req)), (''name'', JStr name), (''mgmt_address'', JStr (mgmt_address req))])))
         (event put_fleet_events ''info'' ''panel'' ''node_created'' (Some nid)
           (returnE (201, JObj [(''node_id'', JStr nid), (''name'', JStr name), (''role'', JStr (nq_role req)), (''mgmt_address'', JStr (mgmt_address req)),
              (''bundle'', JStr (Encode (fe_wire en) \<lparr>bd_node_id = nid, bd_name = name, bd_role = nq_role req, bd_node_cert_pem = cert, bd_node_key_pem = key,
                 bd_ca_cert_pem = fe_ca_pem en, bd_panel_client_fp = fe_panel_fp en\<rparr>)),
              (''cert_fingerprint'', JStr (fe_fingerprint en cert)), (''install_command'', JStr (installCommand (fe_repo en) (nq_role req)))]))))"

definition createNode :: "fleet_env \<Rightarrow> api_request \<Rightarrow> string \<Rightarrow> node_request option \<Rightarrow> (fleet_db, api_reply) sql" where
  "createNode en r token body = decodeE body (\<lambda>req.
     if nq_role req \<notin> {''ingress'', ''egress''} then throwE badRequest
     else let name0 = trim_space (nq_name req); name = (if name0 = [] then nq_role req @ ''-'' @ token else name0) in
       idempotent (\<lambda>t. rt_idem (fl_rules t)) put_fleet_idem (aq_header r ''Idempotency-Key'') ''create_node'' (create_node_action en r name req))"

section \<open>Settings\<close>

definition settableKeys :: "string list" where
  "settableKeys = [''dns_upstream'', ''dns_access_mode'', ''dns_allowed_cidrs'', ''dns_rate_limit_qps'', ''dns_rate_limit_burst'', ''dns_max_concurrent'',
     ''doh_hostname'', ''dot_hostname'', ''doh_path'', ''publish_aaaa'', ''egress_resolver'', ''timezone'', ''quic_policy'', ''backup_dir'', ''log_level'', ''node_log_level'']"

definition defaultSettings :: "(string \<times> json) list" where
  "defaultSettings = [(''dns_upstream'', JStr ''unbound:53''), (''dns_access_mode'', JStr ''allowlist''), (''dns_allowed_cidrs'', JArr []),
     (''dns_rate_limit_qps'', JNum ''50''), (''dns_rate_limit_burst'', JNum ''250''), (''dns_max_concurrent'', JNum ''2048''), (''doh_hostname'', JStr []),
     (''dot_hostname'', JStr []), (''doh_path'', JStr ''/dns-query''), (''doh_path_tokens'', JArr []), (''publish_aaaa'', JStr ''false''),
     (''egress_resolver'', JStr ''1.1.1.1:53''), (''timezone'', JStr ''Europe/Moscow''), (''quic_policy'', JStr ''disabled_fallback''),
     (''backup_dir'', JStr ''/var/backups/smartdns''), (''log_level'', JStr ''info''), (''node_log_level'', JStr ''info'')]"

definition set_setting :: "string \<Rightarrow> json \<Rightarrow> (string \<times> json) list \<Rightarrow> (string \<times> json) list" where
  "set_setting k v ss = (if k \<in> set (map fst ss) then update_rows (\<lambda>p. fst p = k) (\<lambda>_. (k, v)) ss else ss @ [(k, v)])"

definition upsert_setting :: "string \<Rightarrow> json \<Rightarrow> (fleet_db, unit) sql" where
  "upsert_setting k v = Exec (\<lambda>_ _ t. Inr (t\<lparr>fl_settings := set_setting k v (fl_settings t)\<rparr>))"

text \<open>The order of a Go map is arbitrary: an argument.\<close>

fun SeedSettings :: "(string \<times> json) list \<Rightarrow> (fleet_db, unit) sql" where
  "SeedSettings [] = returnE ()"
| "SeedSettings ((k, v) # kvs) =
     tryE (Exec (\<lambda>_ _ t. Inr (if k \<in> set (map fst (fl_settings t)) then t else t\<lparr>fl_settings := fl_settings t @ [(k, v)]\<rparr>))) (\<lambda>_. SeedSettings kvs)"

text \<open>\<open>json.Unmarshal\<close> into a string, errors ignored.\<close>

definition json_text :: "json \<Rightarrow> string" where
  "json_text v = (case v of JStr s \<Rightarrow> s | _ \<Rightarrow> [])"

definition setting_ok :: "api_env \<Rightarrow> string \<Rightarrow> json \<Rightarrow> bool" where
  "setting_ok en k v \<longleftrightarrow> k \<in> set settableKeys \<and>
     (k = ''dns_access_mode'' \<longrightarrow> json_text v \<in> {''allowlist'', ''doh-token'', ''mtls'', ''restricted-public-dot''}) \<and>
     (k \<in> {''log_level'', ''node_log_level''} \<longrightarrow> snd (Parse_level (ae_lower en) (json_text v)) = None)"

fun put_loop :: "api_env \<Rightarrow> (string \<times> json) list \<Rightarrow> (fleet_db, unit) sql" where
  "put_loop en [] = returnE ()"
| "put_loop en ((k, v) # kvs) =
     (if \<not> setting_ok en k v then throwE badRequest
      else tryE (upsert_setting k v) (\<lambda>_. put_loop en kvs))"

text \<open>\<open>s.Cfg.Level\<close> is absent or a level; the new level is part of the answer.\<close>

definition putSettings :: "fleet_env \<Rightarrow> api_request \<Rightarrow> log_level option \<Rightarrow> (string \<times> json) list option \<Rightarrow> (fleet_db, api_reply \<times> log_level option) sql" where
  "putSettings en r level body = decodeE body (\<lambda>req.
     tryE (put_loop (fe_api en) req) (\<lambda>_.
       let (err, level') = (case (map_of req ''log_level'', level) of
           (Some v, Some lv) \<Rightarrow> (case Set_level (ae_lower (fe_api en)) (json_text v) lv of (e, lv', _) \<Rightarrow> (e, Some lv'))
         | _ \<Rightarrow> (None, level)) in
       if err \<noteq> None then throwE badRequest
       else audit put_fleet_audit (audit_of (fe_api en) r ''settings.updated'' ''settings'' [] None (Some (JObj req)))
              (returnE (Reply 200 (JObj [(''status'', JStr ''updated'')]), level'))))"

definition visible_settings :: "(string \<times> json) list \<Rightarrow> (string \<times> json) list" where
  "visible_settings ss = map (\<lambda>(k, v). if k = ''doh_path_tokens'' then (''doh_path_token_count'',
     JNum (dec_nat (case v of JArr xs \<Rightarrow> length xs | _ \<Rightarrow> 0))) else (k, v)) ss"

definition getSettings :: "(fleet_db, (string \<times> json) list) sql" where
  "getSettings = tryE (Many (\<lambda>t. sort_key fst (fl_settings t))) (\<lambda>rows. returnE (visible_settings rows))"

section \<open>The contract of updates under a version\<close>

locale versioned_table = table_lens get put for get :: "'t \<Rightarrow> 'r list" and put :: "('r list \<Rightarrow> 'r list) \<Rightarrow> 't \<Rightarrow> 't" +
  fixes ident :: "'r \<Rightarrow> string" and version :: "'r \<Rightarrow> int"
begin

lemma update_result:
  assumes "versioned_update get put ident version chk step rid ver d = (res, d')"
  shows "db_tables d' = db_tables d \<and> (\<forall>n. res = Inr n \<longrightarrow> n = 0) \<or>
    (\<exists>n. res = Inr n \<and> n = count_rows (\<lambda>r. ident r = rid \<and> (ver = 0 \<or> version r = ver)) (get (db_tables d)) \<and> n \<noteq> 0 \<and>
       db_tables d' = put (update_rows (\<lambda>r. ident r = rid \<and> (ver = 0 \<or> version r = ver)) (step (db_now d))) (db_tables d) \<and> chk (db_tables d') = None)"
  using assms by (auto simp: versioned_update_def ExecN_def stmt_def checked_def Let_def split: if_splits option.splits)

lemma preserves_update:
  assumes "\<And>hit now t. I t \<Longrightarrow> chk (put (update_rows hit (step now)) t) = None \<Longrightarrow> I (put (update_rows hit (step now)) t)"
  shows "preserves I (versioned_update get put ident version chk step rid ver)"
  unfolding versioned_update_def
  by (rule preserves_ExecN) (use assms in \<open>auto simp: Let_def checked_def split: if_splits option.splits\<close>)

lemma preserves_patch:
  assumes "\<And>hit now t. I t \<Longrightarrow> chk (put (update_rows hit (step now)) t) = None \<Longrightarrow> I (put (update_rows hit (step now)) t)"
    and "\<And>b a. preserves I (k b a)"
  shows "preserves I (versioned_patch get put ident version chk step rid ver pre k)"
  unfolding versioned_patch_def by (intro preserves_rules preserves_update assms(2)) (erule assms(1))

text \<open>No update is lost: with a version, the patch changes the row the client saw or nothing.\<close>

lemma patch_result:
  assumes run: "versioned_patch get put ident version chk step rid ver pre k d = (res, d')" and ver: "0 < ver"
    and k: "\<And>b a e. \<exists>x. fst (k b a e) = Inr x" "\<And>b a rows. preserves (\<lambda>t. get t = rows) (k b a)"
  shows "(\<exists>e. res = Inl e) \<and> get (db_tables d') = get (db_tables d) \<or>
    (\<exists>x. res = Inr x) \<and> (\<exists>r\<in>set (get (db_tables d)). ident r = rid \<and> version r = ver) \<and>
    get (db_tables d') = update_rows (\<lambda>r. ident r = rid \<and> version r = ver) (step (db_now d)) (get (db_tables d))"
proof -
  let ?hit = "\<lambda>r. ident r = rid \<and> version r = ver" and ?q = "One (\<lambda>t. filter (\<lambda>r. ident r = rid) (get t))"
  obtain r1 d1 where 1: "?q d = (r1, d1)" by fastforce
  have t1: "db_tables d1 = db_tables d" using reads_keep_tables(2) [of "\<lambda>t. filter (\<lambda>r. ident r = rid) (get t)" d] 1 by simp
  have n1: "db_now d1 = db_now d" using steady_typed(2) 1 by (metis steady_def snd_conv)
  show ?thesis
  proof (cases r1)
    case (Inl e)
    with run 1 t1 show ?thesis by (auto simp: versioned_patch_def tryE_def)
  next
    case (Inr before)
    show ?thesis
    proof (cases pre)
      case (Some e)
      with run 1 t1 Inr show ?thesis by (auto simp: versioned_patch_def tryE_def guardE_def throwE_def)
    next
      case None
      obtain r2 d2 where 2: "versioned_update get put ident version chk step rid ver d1 = (r2, d2)" by fastforce
      from update_result [OF 2] consider "db_tables d2 = db_tables d" "\<forall>n. r2 = Inr n \<longrightarrow> n = 0"
        | n where "r2 = Inr n" "n \<noteq> 0" "n = count_rows ?hit (get (db_tables d))" "get (db_tables d2) = update_rows ?hit (step (db_now d)) (get (db_tables d))"
        using ver t1 n1 by (auto simp: get_put)
      then show ?thesis
      proof cases
        case nothing: 1
        with run 1 2 Inr None ver show ?thesis
          by (cases r2) (auto simp: versioned_patch_def tryE_def guardE_def throwE_def checkVersion_def)
      next
        case (2 n)
        let ?rest = "attempt ?q (\<lambda>found. k before (case found of Inl _ \<Rightarrow> None | Inr r \<Rightarrow> Some r))"
        from run 1 \<open>versioned_update _ _ _ _ _ _ _ _ _ = _\<close> Inr None 2 have rest: "?rest d2 = (res, d')"
          by (simp add: versioned_patch_def tryE_def guardE_def checkVersion_def)
        have "preserves (\<lambda>t. get t = get (db_tables d2)) ?rest" by (intro preserves_rules k(2))
        from preservesD [OF this, of d2] rest have "get (db_tables d') = get (db_tables d2)" by simp
        moreover obtain r3 d3 where "?q d2 = (r3, d3)" by fastforce
        with rest have "k before (case r3 of Inl _ \<Rightarrow> None | Inr r \<Rightarrow> Some r) d3 = (res, d')" by (simp add: attempt_def)
        with k(1) [of before "case r3 of Inl _ \<Rightarrow> None | Inr r \<Rightarrow> Some r" d3] have "\<exists>x. res = Inr x" by simp
        moreover have "\<exists>r\<in>set (get (db_tables d)). ?hit r" using 2(2,3) by (auto simp: count_rows_def filter_empty_conv)
        ultimately show ?thesis using 2(4) by simp
      qed
    qed
  qed
qed

end

interpretation vn: versioned_table fl_nodes put_nodes nd_id nd_version
  by unfold_locales (simp add: put_nodes_def)

interpretation vs: versioned_table fl_services put_services sw_id sw_version
  by unfold_locales (simp add: put_services_def)

interpretation vi: versioned_table fl_in_groups put_in_groups gp_id gp_version
  by unfold_locales (simp add: put_in_groups_def)

interpretation vo: versioned_table fl_out_groups put_out_groups gp_id gp_version
  by unfold_locales (simp add: put_out_groups_def)

interpretation fleet_idem: idem_table "\<lambda>t. rt_idem (fl_rules t)" put_fleet_idem
  by unfold_locales (simp add: put_fleet_idem_def put_idem_def)

section \<open>The invariant\<close>

definition members_ok :: "string \<Rightarrow> group_row list \<Rightarrow> member_row list \<Rightarrow> (string \<times> string) list \<Rightarrow> bool" where
  "members_ok role gs ms nodes \<longleftrightarrow> (\<forall>m\<in>set ms. mb_group m \<in> gp_id ` set gs \<and> (mb_node m, role) \<in> set nodes)"

abbreviation node_roles :: "fleet_db \<Rightarrow> (string \<times> string) list" where
  "node_roles t \<equiv> map (\<lambda>n. (nd_id n, nd_role n)) (fl_nodes t)"

text \<open>What the other tables see of the rule tables.\<close>

abbreviation set_ids :: "fleet_db \<Rightarrow> string list" where
  "set_ids t \<equiv> map rs_id (rt_sets (fl_rules t))"

definition fleet_wf :: "fleet_db \<Rightarrow> bool" where
  "fleet_wf t \<longleftrightarrow> nodes_check t = None \<and> groups_check (gk_modes ingressKind) (fl_in_groups t) = None \<and> groups_check (gk_modes egressKind) (fl_out_groups t) = None \<and>
     services_check t = None \<and> members_ok ''ingress'' (fl_in_groups t) (fl_in_members t) (node_roles t) \<and>
     members_ok ''egress'' (fl_out_groups t) (fl_out_members t) (node_roles t)"

lemma nodes_check_cong: "fl_nodes t' = fl_nodes t \<Longrightarrow> nodes_check t' = nodes_check t"
  by (simp add: nodes_check_def)

lemma nodes_check_keeps [simp]:
  "nodes_check (t\<lparr>fl_in_groups := a\<rparr>) = nodes_check t" "nodes_check (t\<lparr>fl_out_groups := a\<rparr>) = nodes_check t"
  "nodes_check (t\<lparr>fl_in_members := b\<rparr>) = nodes_check t" "nodes_check (t\<lparr>fl_out_members := b\<rparr>) = nodes_check t"
  "nodes_check (t\<lparr>fl_services := c\<rparr>) = nodes_check t" "nodes_check (t\<lparr>fl_rules := e\<rparr>) = nodes_check t"
  by (rule nodes_check_cong, simp)+

lemma fleet_wf_rules [simp]: "set_ids (t\<lparr>fl_rules := r\<rparr>) = set_ids t \<Longrightarrow> fleet_wf (t\<lparr>fl_rules := r\<rparr>) = fleet_wf t"
  by (simp add: fleet_wf_def services_check_def)

lemma put_rules_sets [simp]:
  "rt_sets (put_audit f r) = rt_sets r" "rt_sets (put_events g r) = rt_sets r" "rt_sets (put_idem h r) = rt_sets r"
  by (simp_all add: put_audit_def put_events_def put_idem_def)

lemma fleet_audit [preserves_rules]: "preserves fleet_wf k \<Longrightarrow> preserves fleet_wf (audit put_fleet_audit row k)"
  by (rule preserves_audit) (simp_all add: put_fleet_audit_def)

lemma fleet_event [preserves_rules]: "preserves fleet_wf k \<Longrightarrow> preserves fleet_wf (event put_fleet_events l c d n k)"
  by (rule preserves_event) (simp_all add: put_fleet_events_def)

lemma fleet_idempotent [preserves_rules]: "preserves fleet_wf fn \<Longrightarrow> preserves fleet_wf (idempotent (\<lambda>t. rt_idem (fl_rules t)) put_fleet_idem key ep fn)"
  by (rule preserves_idempotent) (simp_all add: put_fleet_idem_def)

lemma members_same_ids: "gp_id ` set gs' = gp_id ` set gs \<Longrightarrow> members_ok role gs' ms ns = members_ok role gs ms ns"
  by (simp add: members_ok_def)

lemma members_filter: "members_ok role gs ms ns \<Longrightarrow> members_ok role gs (filter P ms) ns"
  by (simp add: members_ok_def)

lemma group_ids [simp]: "gp_id ` set (update_rows hit (patched_group p now) gs) = gp_id ` set gs"
  by (simp only: flip: set_map) (simp add: map_update_rows patched_group_def)

definition service_rows_ok :: "service_row list \<Rightarrow> bool" where
  "service_rows_ok ss \<longleftrightarrow> list_all (\<lambda>s. sw_udp s \<in> set udp_modes \<and> 30 \<le> sw_ttl s \<and> sw_ttl s \<le> 300) ss \<and>
     distinct (map sw_name ss) \<and> distinct (map sw_slug ss) \<and> distinct (map sw_id ss)"

definition refs_ok :: "string set \<Rightarrow> string set \<Rightarrow> string set \<Rightarrow> service_row list \<Rightarrow> bool" where
  "refs_ok R I E ss \<longleftrightarrow> (\<forall>s\<in>set ss. set_option (sw_rule_set s) \<subseteq> R \<and> set_option (sw_ingress s) \<subseteq> I \<and> set_option (sw_egress s) \<subseteq> E)"

lemma refers_iff: "refers r ids \<longleftrightarrow> set_option r \<subseteq> set ids"
  by (cases r) (simp_all add: refers_def)

lemma services_check_None:
  "services_check t = None \<longleftrightarrow> service_rows_ok (fl_services t) \<and> refs_ok (set (set_ids t)) (gp_id ` set (fl_in_groups t)) (gp_id ` set (fl_out_groups t)) (fl_services t)"
  unfolding services_check_def service_rows_ok_def refs_ok_def refers_iff by (auto simp: list_all_iff)

lemma refs_ok_mono: "refs_ok R I E ss \<Longrightarrow> R \<subseteq> R' \<Longrightarrow> I \<subseteq> I' \<Longrightarrow> E \<subseteq> E' \<Longrightarrow> refs_ok R' I' E' ss"
  unfolding refs_ok_def by (blast intro: order_trans)

lemma services_check_groups:
  "gp_id ` set (fl_in_groups t') = gp_id ` set (fl_in_groups t) \<Longrightarrow> gp_id ` set (fl_out_groups t') = gp_id ` set (fl_out_groups t) \<Longrightarrow>
   fl_services t' = fl_services t \<Longrightarrow> fl_rules t' = fl_rules t \<Longrightarrow> services_check t' = None \<longleftrightarrow> services_check t = None"
  by (simp add: services_check_None)

lemma services_check_more:
  "services_check t = None \<Longrightarrow> gp_id ` set (fl_in_groups t) \<subseteq> gp_id ` set (fl_in_groups t') \<Longrightarrow> gp_id ` set (fl_out_groups t) \<subseteq> gp_id ` set (fl_out_groups t') \<Longrightarrow>
   fl_services t' = fl_services t \<Longrightarrow> fl_rules t' = fl_rules t \<Longrightarrow> services_check t' = None"
  unfolding services_check_None by (auto intro: refs_ok_mono)

lemma members_more: "members_ok role gs ms ns \<Longrightarrow> gp_id ` set gs \<subseteq> gp_id ` set gs' \<Longrightarrow> set ns \<subseteq> set ns' \<Longrightarrow> members_ok role gs' ms ns'"
  by (auto simp: members_ok_def)

lemmas group_kind_defs = ingressKind_def egressKind_def put_in_groups_def put_out_groups_def put_in_members_def put_out_members_def

lemma fleet_insert_group [preserves_rules]:
  assumes "k \<in> {ingressKind, egressKind}"
  shows "preserves fleet_wf (insert_group k q)"
  unfolding insert_group_def Let_def
proof (rule preserves_stmt)
  fix now u t r t' assume wf: "fleet_wf t"
    and st: "checked (\<lambda>t'. groups_check (gk_modes k) (gk_groups k t')) \<lparr>gp_id = u, gp_name = gq_name q, gp_mode = gq_mode q, gp_settings = coalesce (gq_settings q) (JObj []), gp_version = 1, gp_updated = now\<rparr>
      (gk_put_groups k (\<lambda>gs. gs @ [\<lparr>gp_id = u, gp_name = gq_name q, gp_mode = gq_mode q, gp_settings = coalesce (gq_settings q) (JObj []), gp_version = 1, gp_updated = now\<rparr>]) t) = Inr (r, t')"
  then have c: "groups_check (gk_modes k) (gk_groups k t') = None" and t': "t' = gk_put_groups k (\<lambda>gs. gs @ [r]) t" by (auto simp: checked_def split: option.splits)
  from wf have s: "services_check t = None" by (simp add: fleet_wf_def)
  have "services_check t' = None" by (rule services_check_more [OF s]) (use assms in \<open>auto simp: t' group_kind_defs\<close>)
  then show "fleet_wf t'" using assms wf c
    by (auto simp: fleet_wf_def t' group_kind_defs intro: members_more)
qed

lemma fleet_patch_group [preserves_rules]:
  assumes "k \<in> {ingressKind, egressKind}" and "\<And>b a. preserves fleet_wf (c b a)"
  shows "preserves fleet_wf (versioned_patch (gk_groups k) (gk_put_groups k) gp_id gp_version (\<lambda>t. groups_check (gk_modes k) (gk_groups k t)) (patched_group p) gid ver pre c)"
proof -
  have i: "fleet_wf (put_in_groups (update_rows hit (patched_group p now)) t)"
    if "fleet_wf t" "groups_check (gk_modes ingressKind) (fl_in_groups (put_in_groups (update_rows hit (patched_group p now)) t)) = None" for hit now t
    using that services_check_groups [of "put_in_groups (update_rows hit (patched_group p now)) t" t]
    by (simp add: fleet_wf_def put_in_groups_def members_same_ids [OF group_ids])
  have o': "fleet_wf (put_out_groups (update_rows hit (patched_group p now)) t)"
    if "fleet_wf t" "groups_check (gk_modes egressKind) (fl_out_groups (put_out_groups (update_rows hit (patched_group p now)) t)) = None" for hit now t
    using that services_check_groups [of "put_out_groups (update_rows hit (patched_group p now)) t" t]
    by (simp add: fleet_wf_def put_out_groups_def members_same_ids [OF group_ids])
  from assms(1) consider "k = ingressKind" | "k = egressKind" by blast
  then show ?thesis
  proof cases
    case 1
    have "preserves fleet_wf (versioned_patch fl_in_groups put_in_groups gp_id gp_version (\<lambda>t. groups_check (gk_modes ingressKind) (fl_in_groups t)) (patched_group p) gid ver pre c)"
      by (rule vi.preserves_patch [OF i assms(2)])
    then show ?thesis by (simp add: 1 ingressKind_def)
  next
    case 2
    have "preserves fleet_wf (versioned_patch fl_out_groups put_out_groups gp_id gp_version (\<lambda>t. groups_check (gk_modes egressKind) (fl_out_groups t)) (patched_group p) gid ver pre c)"
      by (rule vo.preserves_patch [OF o' assms(2)])
    then show ?thesis by (simp add: 2 egressKind_def)
  qed
qed

lemma groups_check_filter: "groups_check modes gs = None \<Longrightarrow> groups_check modes (filter P gs) = None"
  by (auto simp: groups_check_def list_all_iff distinct_map_filter split: if_splits)

lemma members_delete: "members_ok role gs ms ns \<Longrightarrow> members_ok role (filter (\<lambda>g. gp_id g \<noteq> gid) gs) (filter (\<lambda>m. mb_group m \<noteq> gid) ms) ns"
  by (force simp: members_ok_def)

lemma fleet_delete_group [preserves_rules]:
  assumes "k \<in> {ingressKind, egressKind}"
  shows "preserves fleet_wf (delete_group k gid)"
  unfolding delete_group_def
proof (rule preserves_ExecN)
  fix now u t n t' assume wf: "fleet_wf t"
    and st: "(if list_ex (\<lambda>g. gp_id g = gid) (gk_groups k t) \<and> list_ex (\<lambda>s. gk_column k s = Some gid) (fl_services t) then Inl ErrConflict
     else Inr (count_rows (\<lambda>g. gp_id g = gid) (gk_groups k t),
            gk_put_members k (filter (\<lambda>m. mb_group m \<noteq> gid)) (gk_put_groups k (filter (\<lambda>g. gp_id g \<noteq> gid)) t))) = Inr (n, t')"
  then have t': "t' = gk_put_members k (filter (\<lambda>m. mb_group m \<noteq> gid)) (gk_put_groups k (filter (\<lambda>g. gp_id g \<noteq> gid)) t)"
    and free: "gid \<notin> gp_id ` set (gk_groups k t) \<or> (\<forall>s\<in>set (fl_services t). gk_column k s \<noteq> Some gid)" by (auto simp: list_ex_iff split: if_splits)
  have s: "service_rows_ok (fl_services t)" "refs_ok (set (set_ids t)) (gp_id ` set (fl_in_groups t)) (gp_id ` set (fl_out_groups t)) (fl_services t)"
    using wf by (auto simp: fleet_wf_def services_check_None)
  have "services_check t' = None" using s free assms unfolding services_check_None refs_ok_def
    by (auto simp: t' group_kind_defs) (blast+)
  then show "fleet_wf t'" using wf assms
    by (auto simp: t' fleet_wf_def group_kind_defs groups_check_filter members_delete)
qed

lemma fleet_members:
  assumes "fleet_wf t" and "k \<in> {ingressKind, egressKind}" and "members_ok (gk_role k) (gk_groups k t) (f (gk_members k t)) (node_roles t)"
  shows "fleet_wf (gk_put_members k f t)"
  using assms by (auto simp: fleet_wf_def group_kind_defs services_check_None)

lemma fleet_remove_member:
  assumes "k \<in> {ingressKind, egressKind}"
  shows "preserves fleet_wf (ExecN (\<lambda>_ _ t. Inr (count_rows hit (gk_members k t), gk_put_members k (filter (\<lambda>m. \<not> hit m)) t)))"
proof (rule preserves_ExecN)
  fix now u t n t' assume wf: "fleet_wf t" and st: "Inr (count_rows hit (gk_members k t), gk_put_members k (filter (\<lambda>m. \<not> hit m)) t) = (Inr (n, t') :: go_error + _)"
  have "members_ok (gk_role k) (gk_groups k t) (gk_members k t) (node_roles t)" using wf assms by (auto simp: fleet_wf_def group_kind_defs)
  then have "members_ok (gk_role k) (gk_groups k t) (filter (\<lambda>m. \<not> hit m) (gk_members k t)) (node_roles t)" by (rule members_filter)
  from fleet_members [OF wf assms, where f = "filter (\<lambda>m. \<not> hit m)", OF this] st show "fleet_wf t'" by simp
qed

lemma fleet_upsert_member:
  assumes wf: "fleet_wf (db_tables d)" and k: "k \<in> {ingressKind, egressKind}" and m: "(mb_node m, gk_role k) \<in> set (node_roles (db_tables d))"
  shows "fleet_wf (db_tables (snd (upsert_member k m d)))"
proof (cases "upsert_member k m d")
  case (Pair r d')
  show ?thesis
  proof (cases r)
    case (Inl e)
    with Pair wf show ?thesis by (auto simp: upsert_member_def dest: Exec_Inl)
  next
    case (Inr x)
    let ?same = "\<lambda>x. mb_group x = mb_group m \<and> mb_node x = mb_node m"
    let ?f = "\<lambda>ms. if list_ex ?same ms then update_rows ?same (\<lambda>_. m) ms else ms @ [m]"
    from Exec_Inr [OF Pair [unfolded Inr upsert_member_def]] have t': "db_tables d' = gk_put_members k ?f (db_tables d)"
      and "list_ex (\<lambda>g. gp_id g = mb_group m) (gk_groups k (db_tables d))" by (auto simp: Let_def split: if_splits)
    then have g: "mb_group m \<in> gp_id ` set (gk_groups k (db_tables d))" by (force simp: list_ex_iff)
    have "members_ok (gk_role k) (gk_groups k (db_tables d)) (gk_members k (db_tables d)) (node_roles (db_tables d))" using wf k by (auto simp: fleet_wf_def group_kind_defs)
    then have "members_ok (gk_role k) (gk_groups k (db_tables d)) (?f (gk_members k (db_tables d))) (node_roles (db_tables d))"
      using g m by (auto simp: members_ok_def set_update_rows)
    from fleet_members [OF wf k, where f = ?f, OF this] t' Pair show ?thesis by simp
  qed
qed

lemma fleet_insert_service [preserves_rules]: "preserves fleet_wf (insert_service q e)"
  unfolding insert_service_def Let_def
  by (rule preserves_stmt) (auto simp: checked_def fleet_wf_def split: option.splits)

lemma fleet_patch_service [preserves_rules]:
  assumes "\<And>b a. preserves fleet_wf (c b a)"
  shows "preserves fleet_wf (versioned_patch fl_services put_services sw_id sw_version services_check step sid ver pre c)"
  by (rule vs.preserves_patch [OF _ assms]) (simp add: fleet_wf_def put_services_def)

lemma fleet_delete_service:
  "preserves fleet_wf (ExecN (\<lambda>_ _ t. Inr (count_rows (\<lambda>s. sw_id s = sid) (fl_services t),
     t\<lparr>fl_services := filter (\<lambda>s. sw_id s \<noteq> sid) (fl_services t), fl_samples := filter (\<lambda>h. hs_service h \<noteq> Some sid) (fl_samples t)\<rparr>)))"
proof (rule preserves_ExecN)
  fix now u t n t' assume wf: "fleet_wf t"
    and st: "Inr (count_rows (\<lambda>s. sw_id s = sid) (fl_services t),
     t\<lparr>fl_services := filter (\<lambda>s. sw_id s \<noteq> sid) (fl_services t), fl_samples := filter (\<lambda>h. hs_service h \<noteq> Some sid) (fl_samples t)\<rparr>) = (Inr (n, t') :: go_error + _)"
  then have t': "t' = t\<lparr>fl_services := filter (\<lambda>s. sw_id s \<noteq> sid) (fl_services t), fl_samples := filter (\<lambda>h. hs_service h \<noteq> Some sid) (fl_samples t)\<rparr>" by simp
  have "services_check t' = None" using wf unfolding fleet_wf_def services_check_None
    by (auto simp: t' service_rows_ok_def refs_ok_def list_all_iff distinct_map_filter)
  then show "fleet_wf t'" using wf nodes_check_cong [of t' t] by (simp add: fleet_wf_def t')
qed

lemma node_roles_patched: "node_roles (put_nodes (update_rows hit (patched_node p now)) t) = node_roles t"
  by (simp add: put_nodes_def map_update_rows patched_node_def)

lemma fleet_nodes:
  assumes "fleet_wf t" and "set (node_roles t) \<subseteq> set (node_roles (put_nodes f t))" and "nodes_check (put_nodes f t) = None"
  shows "fleet_wf (put_nodes f t)"
  using assms members_more [of "''ingress''" "fl_in_groups t" "fl_in_members t" "node_roles t" "fl_in_groups t" "node_roles (put_nodes f t)"]
    members_more [of "''egress''" "fl_out_groups t" "fl_out_members t" "node_roles t" "fl_out_groups t" "node_roles (put_nodes f t)"]
  by (simp add: fleet_wf_def put_nodes_def services_check_None)

lemma fleet_patch_node [preserves_rules]:
  assumes "\<And>b a. preserves fleet_wf (c b a)"
  shows "preserves fleet_wf (versioned_patch fl_nodes put_nodes nd_id nd_version nodes_check (patched_node p) nid ver pre c)"
  by (rule vn.preserves_patch [OF _ assms]) (rule fleet_nodes, simp_all add: node_roles_patched)

definition node_ok :: "node_row \<Rightarrow> bool" where
  "node_ok n \<longleftrightarrow> nd_role n \<in> {''ingress'', ''egress''} \<and> nd_status n \<in> set node_statuses"

lemma nodes_check_None: "nodes_check t = None \<longleftrightarrow> (\<forall>n\<in>set (fl_nodes t). node_ok n) \<and> distinct (map nd_name (fl_nodes t)) \<and> distinct (map nd_id (fl_nodes t))"
  unfolding nodes_check_def node_ok_def [symmetric] by (auto simp: list_all_iff)

lemma nodes_check_map:
  assumes "nodes_check t = None" and "\<And>n. nd_id (f n) = nd_id n \<and> nd_name (f n) = nd_name n \<and> nd_role (f n) = nd_role n"
    and "\<And>n. nd_status n \<in> set node_statuses \<Longrightarrow> nd_status (f n) \<in> set node_statuses"
  shows "nodes_check (put_nodes (update_rows hit f) t) = None"
proof -
  have "node_ok (f n)" if "node_ok n" for n using that assms(2,3) [of n] by (simp add: node_ok_def)
  with assms(1,2) show ?thesis by (auto simp: nodes_check_None put_nodes_def map_update_rows set_update_rows)
qed

lemma fleet_maintenance:
  assumes "st \<in> set node_statuses"
  shows "preserves fleet_wf (ExecN (\<lambda>now _ t. Inr (count_rows (\<lambda>n. nd_id n = nid) (fl_nodes t),
     put_nodes (update_rows (\<lambda>n. nd_id n = nid) (\<lambda>n. n\<lparr>nd_status := st, nd_updated := now, nd_version := nd_version n + 1\<rparr>)) t)))"
proof (rule preserves_ExecN)
  fix now u t n t' assume wf: "fleet_wf t" and st: "Inr (count_rows (\<lambda>n. nd_id n = nid) (fl_nodes t),
     put_nodes (update_rows (\<lambda>n. nd_id n = nid) (\<lambda>n. n\<lparr>nd_status := st, nd_updated := now, nd_version := nd_version n + 1\<rparr>)) t) = (Inr (n, t') :: go_error + _)"
  let ?f = "\<lambda>n. n\<lparr>nd_status := st, nd_updated := now, nd_version := nd_version n + 1\<rparr>"
  have "nodes_check (put_nodes (update_rows (\<lambda>n. nd_id n = nid) ?f) t) = None" by (rule nodes_check_map) (use wf assms in \<open>simp_all add: fleet_wf_def\<close>)
  then have "fleet_wf (put_nodes (update_rows (\<lambda>n. nd_id n = nid) ?f) t)" by (intro fleet_nodes wf) (simp_all add: put_nodes_def map_update_rows)
  with st show "fleet_wf t'" by simp
qed

lemma fleet_delete_node [preserves_rules]: "preserves fleet_wf (delete_node nid)"
  unfolding delete_node_def
proof (rule preserves_ExecN)
  fix now u t n t' assume wf: "fleet_wf t" and st: "Inr (count_rows (\<lambda>n. nd_id n = nid) (fl_nodes t),
     t\<lparr>fl_nodes := filter (\<lambda>n. nd_id n \<noteq> nid) (fl_nodes t), fl_identities := filter (\<lambda>i. ix_node i \<noteq> nid) (fl_identities t),
       fl_in_members := filter (\<lambda>m. mb_node m \<noteq> nid) (fl_in_members t), fl_out_members := filter (\<lambda>m. mb_node m \<noteq> nid) (fl_out_members t),
       fl_artifacts := filter (\<lambda>a. ax_node a \<noteq> nid) (fl_artifacts t), fl_deploys := filter (\<lambda>p. dp_node p \<noteq> nid) (fl_deploys t),
       fl_samples := filter (\<lambda>h. hs_node h \<noteq> nid) (fl_samples t),
       fl_rules := put_events (filter (\<lambda>e. ev_node e \<noteq> Some nid)) (fl_rules t)\<rparr>) = (Inr (n, t') :: go_error + _)"
  then have t': "fl_nodes t' = filter (\<lambda>n. nd_id n \<noteq> nid) (fl_nodes t)" "fl_in_members t' = filter (\<lambda>m. mb_node m \<noteq> nid) (fl_in_members t)"
    "fl_out_members t' = filter (\<lambda>m. mb_node m \<noteq> nid) (fl_out_members t)" "fl_in_groups t' = fl_in_groups t" "fl_out_groups t' = fl_out_groups t"
    "fl_services t' = fl_services t" "rt_sets (fl_rules t') = rt_sets (fl_rules t)" by auto
  have m: "members_ok role gs (filter (\<lambda>m. mb_node m \<noteq> nid) ms) (node_roles t')" if "members_ok role gs ms (node_roles t)" for role gs ms
    using that by (fastforce simp: members_ok_def t')
  have "nodes_check t' = None" using wf by (simp add: fleet_wf_def nodes_check_None t' distinct_map_filter)
  moreover have "services_check t' = None" using wf by (simp add: fleet_wf_def services_check_None t')
  ultimately show "fleet_wf t'" using wf m by (simp add: fleet_wf_def t'(2-5))
qed

lemma fleet_insert_node [preserves_rules]: "preserves fleet_wf (insert_node name req)"
  unfolding insert_node_def Let_def
  by (intro preserves_rules preserves_stmt) (auto simp: checked_def put_nodes_def split: option.splits intro!: fleet_nodes [unfolded put_nodes_def])

lemma fleet_insert_identity [preserves_rules]: "preserves fleet_wf (insert_identity nid c f)"
  unfolding insert_identity_def
  by (rule preserves_Exec) (auto simp: fleet_wf_def nodes_check_None services_check_None split: if_splits)

lemma fleet_settings [preserves_rules]: "preserves fleet_wf (upsert_setting k v)"
  unfolding upsert_setting_def by (rule preserves_Exec) (auto simp: fleet_wf_def nodes_check_None services_check_None)

lemma fleet_put_loop [preserves_rules]: "preserves fleet_wf (put_loop en kvs)"
  by (induction en kvs rule: put_loop.induct) (auto intro: preserves_returnE preserves_throwE preserves_tryE fleet_settings)

section \<open>All handlers\<close>

lemma tryE_keeps: "I (db_tables (snd (m d))) \<Longrightarrow> (\<And>r. preserves I (f r)) \<Longrightarrow> I (db_tables (snd (tryE m f d)))"
  by (cases "m d"; cases "fst (m d)") (auto simp: tryE_def dest: preservesD)

lemma fleet_addMember:
  assumes k: "k \<in> {ingressKind, egressKind}"
  shows "preserves fleet_wf (addMember k en r js body)"
  unfolding preserves_def
proof (intro allI impI)
  fix d :: "fleet_db db" assume wf: "fleet_wf (db_tables d)"
  show "fleet_wf (db_tables (snd (addMember k en r js body d)))"
  proof (cases body)
    case None
    with wf show ?thesis by (simp add: addMember_def decodeE_def throwE_def)
  next
    case (Some req)
    let ?q = "One (\<lambda>t. map nd_role (filter (\<lambda>n. nd_id n = mq_node req) (fl_nodes t)))"
    obtain f d1 where q: "?q d = (f, d1)" by fastforce
    have t1: "db_tables d1 = db_tables d" using reads_keep_tables(2) [of "\<lambda>t. map nd_role (filter (\<lambda>n. nd_id n = mq_node req) (fl_nodes t))" d] q by simp
    show ?thesis
    proof (cases "f = Inr (gk_role k)")
      case True
      from One_Inr [OF q [unfolded True]] obtain rs where
        "map nd_role (filter (\<lambda>n. nd_id n = mq_node req) (fl_nodes (db_tables d))) = gk_role k # rs" by (elim conjE exE) (rule that)
      then have "gk_role k \<in> set (map nd_role (filter (\<lambda>n. nd_id n = mq_node req) (fl_nodes (db_tables d))))" by (simp only: list.set) simp
      then obtain n where n: "n \<in> set (fl_nodes (db_tables d))" "nd_id n = mq_node req" "nd_role n = gk_role k" by auto
      from imageI [OF n(1), of "\<lambda>n. (nd_id n, nd_role n)"] have m: "(mq_node req, gk_role k) \<in> set (node_roles (db_tables d1))"
        by (simp only: t1 set_map n(2,3))
      let ?req = "req\<lparr>mq_priority := if mq_priority req \<le> 0 then 1 else mq_priority req, mq_weight := if mq_weight req \<le> 0 then 1 else mq_weight req\<rparr>"
      let ?m = "\<lparr>mb_group = aq_path r ''id'', mb_node = mq_node ?req, mb_priority = mq_priority ?req, mb_weight = mq_weight ?req, mb_enabled = coalesce (mq_enabled ?req) True\<rparr>"
      let ?aud = "audit put_fleet_audit (audit_of (fe_api en) r (gk_role k @ ''_group.member_added'') (gk_role k @ ''_group'') (aq_path r ''id'') None (Some (js ?req)))
           (returnE (Reply 200 (JObj [(''status'', JStr ''added'')])))"
      have run: "addMember k en r js body d = tryE (upsert_member k ?m) (\<lambda>_. ?aud) d1"
        using Some q True by (simp add: addMember_def decodeE_def attempt_def Let_def)
      have w2: "fleet_wf (db_tables (snd (upsert_member k ?m d1)))" by (rule fleet_upsert_member) (use wf k m in \<open>simp_all add: t1\<close>)
      have aud: "preserves fleet_wf ?aud" by (intro preserves_rules)
      show ?thesis unfolding run by (rule tryE_keeps [where I = fleet_wf]) (rule w2, rule aud)
    next
      case False
      with Some q have "snd (addMember k en r js body d) = d1"
        by (cases f) (simp_all add: addMember_def decodeE_def attempt_def Let_def throwE_def)
      with t1 wf show ?thesis by simp
    qed
  qed
qed

lemma fleet_handlers:
  assumes k: "k \<in> {ingressKind, egressKind}"
  shows "preserves fleet_wf (createGroup k en r gb)" "preserves fleet_wf (patchGroup k en r gp)" "preserves fleet_wf (deleteGroup k en r)"
    "preserves fleet_wf (removeMember k en r)" "preserves fleet_wf (createService en r sb)" "preserves fleet_wf (patchService en r sp)"
    "preserves fleet_wf (deleteService en r)" "preserves fleet_wf (createNode en r token nb)" "preserves fleet_wf (patchNode en r np)"
    "preserves fleet_wf (deleteNode en r)" "preserves fleet_wf (nodeMaintenance en r mb)" "preserves fleet_wf (putSettings en r lv pb)"
proof -
  show "preserves fleet_wf (createGroup k en r gb)" "preserves fleet_wf (patchGroup k en r gp)" "preserves fleet_wf (deleteGroup k en r)"
    unfolding createGroup_def patchGroup_def deleteGroup_def Let_def by (intro preserves_rules k)+
  show "preserves fleet_wf (removeMember k en r)" unfolding removeMember_def Let_def by (intro preserves_rules fleet_remove_member k)
  show "preserves fleet_wf (createService en r sb)" "preserves fleet_wf (patchService en r sp)"
    unfolding createService_def patchService_def Let_def by (intro preserves_rules)+
  show "preserves fleet_wf (deleteService en r)" unfolding deleteService_def Let_def by (intro preserves_rules fleet_delete_service)
  show "preserves fleet_wf (createNode en r token nb)"
    unfolding createNode_def create_node_action_def register_node_def Let_def by (intro preserves_rules)
  show "preserves fleet_wf (patchNode en r np)" "preserves fleet_wf (deleteNode en r)"
    unfolding patchNode_def deleteNode_def Let_def by (intro preserves_rules)+
  show "preserves fleet_wf (nodeMaintenance en r mb)"
    unfolding nodeMaintenance_def Let_def by (intro preserves_rules fleet_maintenance) (simp add: node_statuses_def)
  show "preserves fleet_wf (putSettings en r lv pb)"
    unfolding putSettings_def Let_def by (intro preserves_rules)
qed

inductive fleet_step :: "fleet_db \<Rightarrow> fleet_db \<Rightarrow> bool" where
  group_created: "k \<in> {ingressKind, egressKind} \<Longrightarrow> fleet_step (db_tables d) (db_tables (snd (createGroup k en r gb d)))"
| group_patched: "k \<in> {ingressKind, egressKind} \<Longrightarrow> fleet_step (db_tables d) (db_tables (snd (patchGroup k en r gp d)))"
| group_deleted: "k \<in> {ingressKind, egressKind} \<Longrightarrow> fleet_step (db_tables d) (db_tables (snd (deleteGroup k en r d)))"
| member_added: "k \<in> {ingressKind, egressKind} \<Longrightarrow> fleet_step (db_tables d) (db_tables (snd (addMember k en r js ab d)))"
| member_removed: "k \<in> {ingressKind, egressKind} \<Longrightarrow> fleet_step (db_tables d) (db_tables (snd (removeMember k en r d)))"
| service_created: "fleet_step (db_tables d) (db_tables (snd (createService en r sb d)))"
| service_patched: "fleet_step (db_tables d) (db_tables (snd (patchService en r sp d)))"
| service_deleted: "fleet_step (db_tables d) (db_tables (snd (deleteService en r d)))"
| node_created: "fleet_step (db_tables d) (db_tables (snd (createNode en r token nb d)))"
| node_patched: "fleet_step (db_tables d) (db_tables (snd (patchNode en r np d)))"
| node_deleted: "fleet_step (db_tables d) (db_tables (snd (deleteNode en r d)))"
| node_maintained: "fleet_step (db_tables d) (db_tables (snd (nodeMaintenance en r mb d)))"
| settings_put: "fleet_step (db_tables d) (db_tables (snd (putSettings en r lv pb d)))"

definition empty_fleet :: "rules_db \<Rightarrow> fleet_db" where
  "empty_fleet rules = \<lparr>fl_nodes = [], fl_identities = [], fl_in_groups = [], fl_out_groups = [], fl_in_members = [], fl_out_members = [], fl_services = [],
     fl_settings = [], fl_revisions = [], fl_artifacts = [], fl_deploys = [], fl_samples = [], fl_rules = rules\<rparr>"

inductive fleet_reachable :: "fleet_db \<Rightarrow> bool" where
  start: "fleet_reachable (empty_fleet rules)"
| step: "fleet_reachable t \<Longrightarrow> fleet_step t t' \<Longrightarrow> fleet_reachable t'"

lemma fleet_step_wf: "fleet_step t t' \<Longrightarrow> fleet_wf t \<Longrightarrow> fleet_wf t'"
proof (induction rule: fleet_step.induct)
qed (rule preservesD [OF fleet_addMember] preservesD [OF fleet_handlers(1)] preservesD [OF fleet_handlers(2)] preservesD [OF fleet_handlers(3)]
      preservesD [OF fleet_handlers(4)] preservesD [OF fleet_handlers(5)] preservesD [OF fleet_handlers(6)] preservesD [OF fleet_handlers(7)]
      preservesD [OF fleet_handlers(8)] preservesD [OF fleet_handlers(9)] preservesD [OF fleet_handlers(10)] preservesD [OF fleet_handlers(11)]
      preservesD [OF fleet_handlers(12)]; (assumption | rule insertI1))+

lemma fleet_reachable_wf: "fleet_reachable t \<Longrightarrow> fleet_wf t"
proof (induction rule: fleet_reachable.induct)
  case (start rules)
  show ?case by (simp add: empty_fleet_def fleet_wf_def nodes_check_None services_check_None groups_check_def members_ok_def service_rows_ok_def refs_ok_def)
next
  case (step t t')
  then show ?case by (blast intro: fleet_step_wf)
qed

section \<open>Properties\<close>


definition demo_fleet_env :: fleet_env where
  "demo_fleet_env = \<lparr>fe_api = \<lparr>ae_lower = (\<lambda>s. s), ae_parse_ip = (\<lambda>_. True), ae_net = plain_net\<rparr>, fe_wire = demo_wire, fe_node_json = (\<lambda>_. JNull),
     fe_group_json = (\<lambda>_. JNull), fe_service_json = (\<lambda>_. JNull), fe_ca_ok = True, fe_issue = (\<lambda>name _ _. Some (''cert '' @ name, ''key '' @ name)),
     fe_fingerprint = (\<lambda>c. c), fe_ca_pem = [], fe_panel_fp = [], fe_repo = []\<rparr>"

definition demo_call :: "string \<Rightarrow> string \<Rightarrow> api_request" where
  "demo_call key obj = (demo_request ''POST'')\<lparr>aq_header := (\<lambda>h. if h = ''Idempotency-Key'' then key else []), aq_path := (\<lambda>_. obj)\<rparr>"

definition demo_node_request :: node_request where
  "demo_node_request = \<lparr>nq_name = ''in1'', nq_role = ''ingress'', nq_mgmt = [], nq_ipv4 = ''192.0.2.1'', nq_ipv6 = [], nq_relay_port = 0\<rparr>"

definition demo_fleet1 :: fleet_db where
  "demo_fleet1 = db_tables (snd (createNode demo_fleet_env (demo_call ''k1'' []) ''t'' (Some demo_node_request) (demo_db (empty_fleet empty_rules))))"

definition demo_fleet2 :: fleet_db where
  "demo_fleet2 = db_tables (snd (createGroup ingressKind demo_fleet_env (demo_call [] []) (Some \<lparr>gq_name = ''front'', gq_mode = [], gq_settings = None\<rparr>) (demo_db demo_fleet1)))"

definition demo_fleet3 :: fleet_db where
  "demo_fleet3 = db_tables (snd (addMember ingressKind demo_fleet_env (demo_call [] ''id-0'') (\<lambda>_. JNull)
     (Some \<lparr>mq_node = ''id-2'', mq_priority = 0, mq_weight = 0, mq_enabled = None\<rparr>) (demo_db demo_fleet2)))"

definition demo_service :: service_request where
  "demo_service = \<lparr>sr_name = ''AI Chat'', sr_slug = [], sr_description = [], sr_enabled = None, sr_rule_set = None, sr_ingress = Some ''id-0'', sr_egress = None,
     sr_ports = [], sr_udp = [], sr_ttl = 0, sr_priority = 0, sr_notes = [], sr_probe = None\<rparr>"

definition demo_fleet :: fleet_db where
  "demo_fleet = db_tables (snd (createService demo_fleet_env (demo_call [] []) (Some demo_service) (demo_db demo_fleet3)))"

lemma demo_fleet_reachable: "fleet_reachable demo_fleet"
proof -
  have k: "ingressKind \<in> {ingressKind, egressKind}" by simp
  have t: "fleet_step (db_tables (demo_db t)) t' \<Longrightarrow> fleet_step t t'" for t t' by (simp add: demo_db_def)
  have 1: "fleet_reachable demo_fleet1" unfolding demo_fleet1_def by (rule fleet_reachable.step [OF fleet_reachable.start t [OF node_created]])
  have 2: "fleet_reachable demo_fleet2" unfolding demo_fleet2_def by (rule fleet_reachable.step [OF 1 t [OF group_created [OF k]]])
  have 3: "fleet_reachable demo_fleet3" unfolding demo_fleet3_def by (rule fleet_reachable.step [OF 2 t [OF member_added [OF k]]])
  show ?thesis unfolding demo_fleet_def by (rule fleet_reachable.step [OF 3 t [OF service_created]])
qed


subsection \<open>Concurrent edits\<close>

text \<open>
  Two administrators who edit the same object from the same version: the first patch moves the row to the next version, the
  second one is refused and changes nothing.
\<close>

lemma audit_answers: "\<exists>x. fst (audit put_fleet_audit row (returnE v) e) = Inr x"
  by (simp add: audit_def ignoring_def attempt_def returnE_def case_prod_beta)

lemma audit_keeps_rows:
  assumes "\<And>f t. g (put_fleet_audit f t) = g t"
  shows "preserves (\<lambda>t. g t = rows) (audit put_fleet_audit row (returnE v))"
  by (rule preserves_audit) (simp_all add: assms preserves_returnE)

theorem patchService_loses_no_update:
  assumes "ifMatch r = Inr ver" and "0 < ver" and "patchService en r (Some p) d = (res, d')"
  shows "(\<exists>e. res = Inl e) \<and> fl_services (db_tables d') = fl_services (db_tables d) \<or>
    (\<exists>x. res = Inr x) \<and> (\<exists>s\<in>set (fl_services (db_tables d)). sw_id s = aq_path r ''id'' \<and> sw_version s = ver) \<and>
    fl_services (db_tables d') = update_rows (\<lambda>s. sw_id s = aq_path r ''id'' \<and> sw_version s = ver) (patched_service p (db_now d)) (fl_services (db_tables d))"
proof (cases "case st_ttl p of None \<Rightarrow> False | Some n \<Rightarrow> n < 30 \<or> n > 300")
  case True
  with assms(3) show ?thesis by (auto simp: patchService_def decodeE_def throwE_def)
next
  case False
  note run = assms(3) [unfolded patchService_def decodeE_def option.case Let_def liftE_def assms(1) sum.case]
  show ?thesis
    by (rule vs.patch_result [OF run [unfolded if_not_P [OF False]] assms(2)])
      (rule audit_answers, rule audit_keeps_rows, simp add: put_fleet_audit_def)
qed

theorem patchNode_loses_no_update:
  assumes "ifMatch r = Inr ver" and "0 < ver" and "patchNode en r (Some p) d = (res, d')"
  shows "(\<exists>e. res = Inl e) \<and> fl_nodes (db_tables d') = fl_nodes (db_tables d) \<or>
    (\<exists>x. res = Inr x) \<and> (\<exists>n\<in>set (fl_nodes (db_tables d)). nd_id n = aq_path r ''id'' \<and> nd_version n = ver) \<and>
    fl_nodes (db_tables d') = update_rows (\<lambda>n. nd_id n = aq_path r ''id'' \<and> nd_version n = ver) (patched_node p (db_now d)) (fl_nodes (db_tables d))"
  by (rule vn.patch_result [OF assms(3) [unfolded patchNode_def decodeE_def option.case Let_def liftE_def assms(1) sum.case] assms(2)])
    (rule audit_answers, rule audit_keeps_rows, simp add: put_fleet_audit_def)

subsection \<open>Slugs\<close>

lemma slug_loop_shape:
  assumes "list_all (\<lambda>c. slug_char c \<or> c = CHR ''-'') b" and "b = [] \<or> slug_char (hd b)" 
  shows "list_all (\<lambda>c. slug_char c \<or> c = CHR ''-'') (slug_loop cs p b) \<and> (slug_loop cs p b = [] \<or> slug_char (hd (slug_loop cs p b)))"
  using assms by (induction cs p b rule: slug_loop.induct) (auto simp: hd_append)

lemma dash_no_slug: "\<not> slug_char CHR ''-''"
  by code_simp

lemma trim_end:
  assumes "b = [] \<or> slug_char (hd b)" and "list_all (\<lambda>c. slug_char c \<or> c = CHR ''-'') b"
  defines "t \<equiv> trim_char CHR ''-'' b"
  shows "list_all (\<lambda>c. slug_char c \<or> c = CHR ''-'') t \<and> (t \<noteq> [] \<longrightarrow> slug_char (hd t) \<and> slug_char (last t))"
proof -
  have d: "dropWhile (\<lambda>x. x = CHR ''-'') b = b" using assms(1) dash_no_slug by (cases b) auto
  let ?u = "dropWhile (\<lambda>x. x = CHR ''-'') (rev b)"
  have t: "t = rev ?u" by (simp add: t_def trim_char_def d)
  have b: "b = t @ rev (takeWhile (\<lambda>x. x = CHR ''-'') (rev b))"
    by (metis t rev_append rev_rev_ident takeWhile_dropWhile_id)
  have l: "list_all (\<lambda>c. slug_char c \<or> c = CHR ''-'') t" using assms(2) by (subst (asm) b) simp
  moreover have "slug_char (hd t)" if "t \<noteq> []"
    using assms(1) that b by (metis append_is_Nil_conv hd_append2)
  moreover have "slug_char (last t)" if "t \<noteq> []"
  proof -
    from that t have "?u \<noteq> []" by simp
    then have "hd ?u \<noteq> CHR ''-''" by (rule hd_dropWhile)
    moreover have "last t = hd ?u" using t by (simp add: last_rev)
    moreover have "last t \<in> set t" using that by simp
    ultimately show ?thesis using l by (auto simp: list_all_iff)
  qed
  ultimately show ?thesis by blast
qed

text \<open>
  A slug made from a name is a valid one unless it is too short or too long: a name without two Latin letters or digits needs an
  explicit slug.
\<close>

theorem slugify_valid: "slugRe (slugify u s) \<longleftrightarrow> 2 \<le> length (slugify u s) \<and> length (slugify u s) \<le> 40"
proof -
  let ?b = "slug_loop (to_lower u (trim_space s)) False []"
  have "list_all (\<lambda>c. slug_char c \<or> c = CHR ''-'') ?b \<and> (?b = [] \<or> slug_char (hd ?b))" by (rule slug_loop_shape) simp_all
  then have "list_all (\<lambda>c. slug_char c \<or> c = CHR ''-'') (slugify u s) \<and>
      (slugify u s \<noteq> [] \<longrightarrow> slug_char (hd (slugify u s)) \<and> slug_char (last (slugify u s)))"
    unfolding slugify_def by (intro trim_end) simp_all
  then show ?thesis by (auto simp: slugRe_def)
qed

subsection \<open>Registration repeated\<close>

abbreviation fleet_idem_is :: "idem_row list \<Rightarrow> fleet_db \<Rightarrow> bool" where
  "fleet_idem_is x t \<equiv> rt_idem (fl_rules t) = x"

lemma fleet_idem_logs [preserves_rules]:
  "preserves (fleet_idem_is x) k \<Longrightarrow> preserves (fleet_idem_is x) (audit put_fleet_audit row k)"
  "preserves (fleet_idem_is x) k \<Longrightarrow> preserves (fleet_idem_is x) (event put_fleet_events l c d n k)"
  by (rule preserves_audit preserves_event; simp add: put_fleet_audit_def put_fleet_events_def put_audit_def put_events_def)+

lemma fleet_idem_inserts [preserves_rules]:
  "preserves (fleet_idem_is x) (insert_node name req)" "preserves (fleet_idem_is x) (insert_identity nid c f)"
proof -
  show "preserves (fleet_idem_is x) (insert_node name req)" unfolding insert_node_def Let_def
    by (intro preserves_rules preserves_stmt) (auto simp: checked_def put_nodes_def split: option.splits)
  show "preserves (fleet_idem_is x) (insert_identity nid c f)" unfolding insert_identity_def
    by (rule preserves_Exec) (auto split: if_splits)
qed

lemma fleet_idem_create: "preserves (fleet_idem_is x) (create_node_action en r name req)"
  unfolding create_node_action_def register_node_def Let_def by (intro preserves_rules)

lemma steady_create_node: "steady (create_node_action en r name req)"
  unfolding create_node_action_def register_node_def insert_node_def insert_identity_def audit_def event_def Let_def by (intro steady_rules)

text \<open>
  A registration repeated under its key creates no second node and answers with the certificate and the private key of the
  first: the answer, bundle included, is read back from \<open>idempotency_keys\<close>, where the first call stored it.
\<close>

theorem node_bundle_replayed:
  assumes "aq_header r ''Idempotency-Key'' \<noteq> []" and "aq_header r ''Idempotency-Key'' \<notin> ik_key ` set (rt_idem (fl_rules (db_tables d)))"
    and "healthy d" and "nq_role req \<in> {''ingress'', ''egress''}" and "createNode en r token (Some req) d = (Inr (Reply st body), d1)"
  shows "fst (createNode en r token' (Some req) d1) = Inr (Replayed st body) \<and> db_tables (snd (createNode en r token' (Some req) d1)) = db_tables d1"
proof -
  let ?name = "\<lambda>tok. if trim_space (nq_name req) = [] then nq_role req @ ''-'' @ tok else trim_space (nq_name req)"
  have c: "createNode en r tok (Some req) = idempotent (\<lambda>t. rt_idem (fl_rules t)) put_fleet_idem (aq_header r ''Idempotency-Key'') ''create_node''
      (create_node_action en r (?name tok) req)" for tok using assms(4) by (simp add: createNode_def decodeE_def Let_def del: insert_iff)
  have keep: "rt_idem (fl_rules (db_tables (snd (create_node_action en r (?name token) req e)))) = rt_idem (fl_rules (db_tables e))" for e
    by (rule preservesD [OF fleet_idem_create]) (rule refl)
  from fleet_idem.replay [OF assms(1,2,3) steady_create_node keep assms(5) [unfolded c]] show ?thesis unfolding c by blast
qed

theorem node_bundle_replayed_witness:
  "(case fst (createNode demo_fleet_env (demo_call ''k1'' []) ''t'' (Some demo_node_request) (demo_db (empty_fleet empty_rules))) of
     Inr (Reply st body) \<Rightarrow> fst (createNode demo_fleet_env (demo_call ''k1'' []) ''u'' (Some demo_node_request)
       (snd (createNode demo_fleet_env (demo_call ''k1'' []) ''t'' (Some demo_node_request) (demo_db (empty_fleet empty_rules))))) = Inr (Replayed st body)
   | _ \<Rightarrow> False)"
proof -
  let ?run = "createNode demo_fleet_env (demo_call ''k1'' []) ''t'' (Some demo_node_request) (demo_db (empty_fleet empty_rules))"
  have "case fst ?run of Inr (Reply st body) \<Rightarrow> st = 201 | _ \<Rightarrow> False" by code_simp
  then obtain st body where f: "fst ?run = Inr (Reply st body)" by (auto split: sum.splits api_reply.splits)
  then have run: "?run = (Inr (Reply st body), snd ?run)" by (simp add: prod_eq_iff)
  have k: "aq_header (demo_call ''k1'' []) ''Idempotency-Key'' = ''k1''" by (simp add: demo_call_def)
  have i: "rt_idem (fl_rules (db_tables (demo_db (empty_fleet empty_rules)))) = []" by (simp add: demo_db_def empty_fleet_def empty_rules_def)
  have r: "nq_role demo_node_request \<in> {''ingress'', ''egress''}" by (simp add: demo_node_request_def)
  from node_bundle_replayed [OF _ _ demo_healthy r run, of "''u''"] show ?thesis unfolding f k i by simp
qed

subsection \<open>Settings\<close>

lemma put_loop_settings:
  assumes "put_loop en kvs d = (Inr (), d')"
  shows "fl_settings (db_tables d') = foldl (\<lambda>ss (k, v). set_setting k v ss) (fl_settings (db_tables d)) kvs \<and> list_all (\<lambda>(k, v). setting_ok en k v) kvs"
  using assms
proof (induction en kvs arbitrary: d rule: put_loop.induct)
  case (2 en k v kvs)
  from "2.prems" obtain d1 where ok: "setting_ok en k v" and u: "upsert_setting k v d = (Inr (), d1)" and l: "put_loop en kvs d1 = (Inr (), d')"
    by (auto simp: tryE_Inr throwE_def split: if_splits)
  from u have "fl_settings (db_tables d1) = set_setting k v (fl_settings (db_tables d))"
    unfolding upsert_setting_def by - (drule Exec_Inr, simp, drule sym, simp)
  with "2.IH" [OF _ l] ok show ?case by simp
qed (simp add: returnE_def)

lemma set_setting_lookup: "map_of (set_setting k v ss) k' = (if k' = k then Some v else map_of ss k')"
proof -
  have other: "map_of (map (\<lambda>p. if fst p = k then (k, v) else p) ss) k' = map_of ss k'" if "k' \<noteq> k" using that by (induction ss) auto
  have same: "map_of (map (\<lambda>p. if fst p = k then (k, v) else p) ss) k = (if k \<in> fst ` set ss then Some v else None)" by (induction ss) auto
  have "map_of ss k = None" if "k \<notin> fst ` set ss" using that by (simp add: map_of_eq_None_iff)
  with other same show ?thesis by (auto simp: set_setting_def update_rows_def map_add_def split: option.splits)
qed

text \<open>
  A request that succeeds has stored every value it names, each of them a known key with a valid value.
\<close>

lemma settings_fold_lookup:
  "map_of (foldl (\<lambda>ss (k, v). set_setting k v ss) ss kvs) key = (case map_of (rev kvs) key of None \<Rightarrow> map_of ss key | Some v \<Rightarrow> Some v)"
  by (induction kvs arbitrary: ss) (auto simp: set_setting_lookup map_add_def split: option.splits)

theorem putSettings_stores:
  assumes "putSettings en r lv (Some req) d = (Inr x, d')" and "distinct (map fst req)"
  shows "list_all (\<lambda>(k, v). k \<in> set settableKeys \<and> map_of (fl_settings (db_tables d')) k = Some v) req"
proof -
  obtain x1 d1 where 1: "put_loop (fe_api en) req d = (x1, d1)" by fastforce
  from assms(1) have x1: "x1 = Inr ()" by (cases x1) (simp_all add: putSettings_def decodeE_def tryE_def 1)
  note 1 = 1 [unfolded x1]
  have keeps: "preserves (\<lambda>t. fl_settings t = fl_settings (db_tables d1)) (audit put_fleet_audit row (returnE v))" for row v
    by (rule audit_keeps_rows) (simp add: put_fleet_audit_def)
  from assms(1) have "fl_settings (db_tables d') = fl_settings (db_tables d1)"
    by (simp add: putSettings_def decodeE_def tryE_def 1 Let_def case_prod_beta throwE_def split: if_splits)
      (use preservesD [OF keeps, of d1] in \<open>force dest: arg_cong [where f = snd]\<close>)
  from put_loop_settings [OF 1] have "map_of (fl_settings (db_tables d')) k = Some v" if "(k, v) \<in> set req" for k v
    using that assms(2) \<open>fl_settings (db_tables d') = _\<close> by (simp add: settings_fold_lookup rev_map [symmetric])
  with put_loop_settings [OF 1] show ?thesis by (auto simp: list_all_iff setting_ok_def)
qed

definition demo_settings :: "(string \<times> json) list" where
  "demo_settings = [(''doh_path'', JStr ''/q''), (''log_level'', JStr ''loud'')]"

text \<open>
  There is no transaction around the loop: a request refused for one of its keys has stored the ones before it, which of them
  depends on the order in which Go walks the map, and no audit row tells.
\<close>

theorem settings_partly_applied:
  "(case putSettings demo_fleet_env (demo_call [] []) None (Some demo_settings) (demo_db (empty_fleet empty_rules)) of
     (res, d') \<Rightarrow> res = Inl badRequest \<and> fl_settings (db_tables d') = [(''doh_path'', JStr ''/q'')] \<and> rt_audit (fl_rules (db_tables d')) = [])"
  by code_simp

end
