(* ===== verification/Node_Pusher.thy ===== *)
theory Node_Pusher
  imports Artifact_Model Net_Guard
begin

text \<open>
  The outbound side of the panel (\<open>panel/internal/pusher/pusher.go\<close>): requests to the management port of a node over
  mutual TLS, with a manual check of the certificate the node presents. The network is an argument: what
  a dialled address presents in the handshake, and what it answers to a request. Verifying a chain, JSON, URL
  syntax and SHA-256 are parameters.
\<close>

section \<open>Data\<close>

record push_target =
  tg_node :: string
  tg_name :: string
  tg_addr :: string
  tg_fp :: string

record push_result =
  pr_revision :: string
  pr_sequence :: int
  pr_status :: string

record cert_request =
  cr_domain :: string
  cr_email :: string
  cr_force :: bool
  cr_staging :: bool

record cert_result =
  ct_ok :: bool
  ct_domain :: string
  ct_not_after :: string
  ct_error :: string

record panel_net =
  pn_dial :: "string \<Rightarrow> bytes list option"      \<comment> \<open>the certificates of the peer, leaf first\<close>
  pn_serve :: "string \<Rightarrow> string \<Rightarrow> string \<Rightarrow> bytes option \<Rightarrow> (int \<times> bytes) option"  \<comment> \<open>address, method, path, body; status and body\<close>

record push_lib =
  pl_net :: net_lib
  pl_sha256 :: "bytes \<Rightarrow> bytes"
  pl_chain_ok :: "bytes \<Rightarrow> bytes list \<Rightarrow> bool" \<comment> \<open>leaf.Verify against the CA pool, with intermediates\<close>
  pl_url_ok :: "string \<Rightarrow> bool"               \<comment> \<open>http.NewRequest\<close>
  pl_json_push :: "bytes \<Rightarrow> push_result option"
  pl_json_health :: "bytes \<Rightarrow> health option"
  pl_json_cert :: "bytes \<Rightarrow> cert_result option"
  pl_cert_body :: "cert_request \<Rightarrow> bytes"

datatype push_error =
    BadRequest | Unreachable | NoNodeCert | NotOurCA | FingerprintMismatch | RequestFailed | NodeRejected int | BadAnswer

section \<open>Requests\<close>

text \<open>\<open>VerifyConnection\<close> of \<open>tlsFor\<close>.\<close>

definition tlsFor :: "push_lib \<Rightarrow> push_target \<Rightarrow> bytes list \<Rightarrow> push_error option" where
  "tlsFor pl t certs =
     (case certs of
        [] \<Rightarrow> Some NoNodeCert
      | leaf # rest \<Rightarrow>
          if \<not> pl_chain_ok pl leaf rest then Some NotOurCA
          else if tg_fp t \<noteq> [] \<and> hex_encode (pl_sha256 pl leaf) \<noteq> tg_fp t then Some FingerprintMismatch
          else None)"

text \<open>\<open>net.JoinHostPort\<close>: a host with a colon or a zone is put in brackets.\<close>

definition JoinHostPort :: "string \<Rightarrow> string \<Rightarrow> string" where
  "JoinHostPort host port =
     (if CHR '':'' \<in> set host \<or> CHR ''%'' \<in> set host then ''['' @ host @ '']:'' @ port else host @ '':'' @ port)"

definition node_addr :: "push_lib \<Rightarrow> push_target \<Rightarrow> string" where
  "node_addr pl t = (if split_host_port (pl_net pl) (tg_addr t) = None then JoinHostPort (tg_addr t) ''3333'' else tg_addr t)"

text \<open>
  One request. The second component is what the panel has sent once the handshake is done; the first megabyte of
  the answer are read.
\<close>

type_synonym sent = "(string \<times> string \<times> string \<times> bytes option) option"

definition doTimeout :: "push_lib \<Rightarrow> panel_net \<Rightarrow> push_target \<Rightarrow> string \<Rightarrow> string \<Rightarrow> bytes option \<Rightarrow> (push_error + bytes \<times> int) \<times> sent" where
  "doTimeout pl nw t method path body =
     (let addr = node_addr pl t in
      if \<not> pl_url_ok pl (''https://'' @ addr @ path) then (Inl BadRequest, None)
      else (case pn_dial nw addr of
          None \<Rightarrow> (Inl Unreachable, None)
        | Some certs \<Rightarrow>
            (case tlsFor pl t certs of
               Some e \<Rightarrow> (Inl e, None)
             | None \<Rightarrow>
                 ((case pn_serve nw addr method path body of
                     None \<Rightarrow> Inl RequestFailed
                   | Some (code, raw) \<Rightarrow> Inr (take (2 ^ 20) raw, code)), Some (addr, method, path, body)))))"

definition parse_answer :: "(bytes \<Rightarrow> 'r option) \<Rightarrow> push_error + bytes \<times> int \<Rightarrow> push_error + 'r" where
  "parse_answer parse res =
     (case res of
        Inl e \<Rightarrow> Inl e
      | Inr (raw, code) \<Rightarrow>
          if code \<noteq> 200 then Inl (NodeRejected code)
          else (case parse raw of None \<Rightarrow> Inl BadAnswer | Some v \<Rightarrow> Inr v))"

definition PushConfig :: "push_lib \<Rightarrow> panel_net \<Rightarrow> push_target \<Rightarrow> bytes \<Rightarrow> push_error + push_result" where
  "PushConfig pl nw t artifact = parse_answer (pl_json_push pl) (fst (doTimeout pl nw t ''POST'' ''/v1/config'' (Some artifact)))"

definition IssueCert :: "push_lib \<Rightarrow> panel_net \<Rightarrow> push_target \<Rightarrow> cert_request \<Rightarrow> push_error + cert_result" where
  "IssueCert pl nw t req = parse_answer (pl_json_cert pl) (fst (doTimeout pl nw t ''POST'' ''/v1/cert/issue'' (Some (pl_cert_body pl req))))"

definition Poll :: "push_lib \<Rightarrow> panel_net \<Rightarrow> push_target \<Rightarrow> push_error + health" where
  "Poll pl nw t = parse_answer (pl_json_health pl) (fst (doTimeout pl nw t ''GET'' ''/v1/health'' None))"

section \<open>The pin\<close>

lemma tlsFor_None:
  "tlsFor pl t certs = None \<longleftrightarrow>
   (\<exists>leaf rest. certs = leaf # rest \<and> pl_chain_ok pl leaf rest \<and> (tg_fp t \<noteq> [] \<longrightarrow> hex_encode (pl_sha256 pl leaf) = tg_fp t))"
  by (auto simp: tlsFor_def split: list.splits)

lemma doTimeout_sent:
  "snd (doTimeout pl nw t method path body) = Some rq \<longleftrightarrow>
   rq = (node_addr pl t, method, path, body) \<and> pl_url_ok pl (''https://'' @ node_addr pl t @ path) \<and>
   (\<exists>certs. pn_dial nw (node_addr pl t) = Some certs \<and> tlsFor pl t certs = None)"
  by (auto simp: doTimeout_def Let_def split: option.splits)

lemma parse_answer_Inr: "parse_answer parse res = Inr v \<longleftrightarrow> (\<exists>raw. res = Inr (raw, 200) \<and> parse raw = Some v)"
  by (auto simp: parse_answer_def split: sum.splits option.splits)

lemma doTimeout_Inr:
  "fst (doTimeout pl nw t method path body) = Inr (raw, code) \<longleftrightarrow>
   snd (doTimeout pl nw t method path body) \<noteq> None \<and>
   (\<exists>full. pn_serve nw (node_addr pl t) method path body = Some (code, full) \<and> raw = take (2 ^ 20) full)"
  by (auto simp: doTimeout_def Let_def split: option.splits)

text \<open>
  Nothing is sent to an impostor: whatever address the panel has on record, a request leaves it only towards a peer
  whose certificate the internal CA has signed and, when a fingerprint is on record, only towards the holder of
  exactly that certificate.
\<close>

lemma sent_only_to_pinned:
  assumes "snd (doTimeout pl nw t method path body) = Some rq"
  shows "\<exists>leaf rest. pn_dial nw (node_addr pl t) = Some (leaf # rest) \<and> pl_chain_ok pl leaf rest \<and> (tg_fp t \<noteq> [] \<longrightarrow> hex_encode (pl_sha256 pl leaf) = tg_fp t)"
  using assms by (auto simp: doTimeout_sent tlsFor_None)

lemma PushConfig_Inr:
  assumes "PushConfig pl nw t artifact = Inr res"
  shows "\<exists>rq. snd (doTimeout pl nw t ''POST'' ''/v1/config'' (Some artifact)) = Some rq"
    and "\<exists>full. pn_serve nw (node_addr pl t) ''POST'' ''/v1/config'' (Some artifact) = Some (200, full) \<and> pl_json_push pl (take (2 ^ 20) full) = Some res"
proof -
  from assms obtain raw where "fst (doTimeout pl nw t ''POST'' ''/v1/config'' (Some artifact)) = Inr (raw, 200)" "pl_json_push pl raw = Some res"
    by (auto simp: PushConfig_def parse_answer_Inr)
  then show "\<exists>rq. snd (doTimeout pl nw t ''POST'' ''/v1/config'' (Some artifact)) = Some rq"
    "\<exists>full. pn_serve nw (node_addr pl t) ''POST'' ''/v1/config'' (Some artifact) = Some (200, full) \<and> pl_json_push pl (take (2 ^ 20) full) = Some res"
    by (auto simp: doTimeout_Inr)
qed

end
