(* ===== verification/Panel_Rollout.thy ===== *)
theory Panel_Rollout
  imports Panel_Fleet Config_Compiler Node_Pusher
begin

text \<open>
  From the administered state to the nodes (\<open>panel/internal/api\<close>: \<open>revisions.go\<close>, \<open>dispatch.go\<close>): compiling the tables
  into a revision, starting and rolling back a rollout, pushing the artifacts and polling the nodes.

  The goroutines that talk to different nodes are run one after the other, in the order of an argument where it
  matters. \<open>startRollout\<close> starts the push in the background: here it is a separate operation that may run at any
  later time. \<open>ORDER BY\<close> a text column goes by the key the collation gives the text.
\<close>

record rollout_env =
  ro_fleet :: fleet_env
  ro_builder :: builder
  ro_pusher :: "push_lib option"
  ro_net :: panel_net
  ro_lab :: bool
  ro_key :: bytes
  ro_clock :: int                       \<comment> \<open>time.Now in the compiler\<close>
  ro_collate :: "string \<Rightarrow> string"
  ro_output_json :: "compile_output \<Rightarrow> json"
  ro_error_text :: "push_error \<Rightarrow> string"     \<comment> \<open>the texts of errors\<close>
  ro_fail_text :: "go_error \<Rightarrow> string"
  ro_compile_text :: "compile_error \<Rightarrow> string"

section \<open>Settings\<close>

definition setting_of :: "string \<Rightarrow> (fleet_db, json) sql" where
  "setting_of key = One (\<lambda>t. map snd (filter (\<lambda>p. fst p = key) (fl_settings t)))"

definition getSetting :: "string \<Rightarrow> string \<Rightarrow> (fleet_db, string) sql" where
  "getSetting key def = attempt (setting_of key) (\<lambda>r. returnE (case r of
     Inr (JStr s) \<Rightarrow> if s = [] then def else s
   | _ \<Rightarrow> def))"

definition getSettingInt :: "string \<Rightarrow> int \<Rightarrow> (fleet_db, int) sql" where
  "getSettingInt key def = attempt (setting_of key) (\<lambda>r. returnE (case r of
     Inr (JNum s) \<Rightarrow> (case parse_int64 s of Some n \<Rightarrow> n | None \<Rightarrow> def)
   | Inr JNull \<Rightarrow> 0
   | _ \<Rightarrow> def))"

text \<open>An element that is not a string is left empty; \<^term>\<open>None\<close> is the nil slice.\<close>

definition setting_list :: "string \<Rightarrow> (fleet_db, string list option) sql" where
  "setting_list key = attempt (setting_of key) (\<lambda>r. returnE (case r of
     Inr (JArr xs) \<Rightarrow> Some (map json_text xs)
   | _ \<Rightarrow> None))"

definition getSettingList :: "string \<Rightarrow> (fleet_db, string list) sql" where
  "getSettingList key = tryE (setting_list key) (\<lambda>xs. returnE (coalesce xs []))"

definition dnsConfig :: "(fleet_db, dns_config) sql" where
  "dnsConfig =
     tryE (getSetting ''dns_upstream'' ''unbound:53'') (\<lambda>upstream.
     tryE (getSetting ''doh_hostname'' []) (\<lambda>doh.
     tryE (getSetting ''dot_hostname'' []) (\<lambda>dot.
     tryE (getSetting ''dns_access_mode'' ''allowlist'') (\<lambda>mode.
     tryE (getSettingList ''dns_allowed_cidrs'') (\<lambda>cidrs.
     tryE (getSettingList ''doh_path_tokens'') (\<lambda>tokens.
     tryE (getSettingInt ''dns_rate_limit_qps'' 50) (\<lambda>qps.
     tryE (getSettingInt ''dns_rate_limit_burst'' 250) (\<lambda>burst.
     tryE (getSettingInt ''dns_max_concurrent'' 2048) (\<lambda>conc.
     tryE (getSetting ''publish_aaaa'' ''false'') (\<lambda>aaaa.
     returnE \<lparr>dc_upstream = upstream,
       dc_access = \<lparr>da_mode = mode, da_allowed_cidrs = cidrs, da_doh_path_tokens = tokens, da_rate_limit_qps = qps, da_rate_limit_burst = burst,
         da_max_concurrent = conc\<rparr>,
       dc_min_ttl = 30, dc_max_ttl = 300, dc_publish_aaaa = (aaaa = ''true''), dc_block_https_rr = True, dc_log_queries = False,
       dc_doh_hostname = doh, dc_dot_hostname = dot\<rparr>))))))))))"

text \<open>The lists the device handlers edit; \<open>strings.EqualFold\<close> is a parameter.\<close>

definition appendSettingList :: "(string \<Rightarrow> string \<Rightarrow> bool) \<Rightarrow> string \<Rightarrow> string \<Rightarrow> (fleet_db, unit) sql" where
  "appendSettingList same_text key v =
     tryE (getSettingList key) (\<lambda>xs.
       if list_ex (\<lambda>x. same_text x v) xs then returnE ()
       else upsert_setting key (JArr (map JStr (xs @ [v]))))"

definition removeSettingList :: "(string \<Rightarrow> string \<Rightarrow> bool) \<Rightarrow> string \<Rightarrow> string \<Rightarrow> (fleet_db, unit) sql" where
  "removeSettingList same_text key v =
     tryE (setting_list key) (\<lambda>xs.
       upsert_setting key (case xs of None \<Rightarrow> JNull | Some l \<Rightarrow> JArr (map JStr (filter (\<lambda>x. \<not> same_text x v) l))))"

section \<open>Compiling\<close>

definition deref :: "string option \<Rightarrow> string" where
  "deref p = (case p of None \<Rightarrow> [] | Some s \<Rightarrow> s)"

text \<open>Enabled members of a group joined with their nodes, by priority and name.\<close>

definition member_nodes :: "member_row list \<Rightarrow> node_row list \<Rightarrow> string \<Rightarrow> (member_row \<times> node_row) list" where
  "member_nodes ms ns gid =
     concat (map (\<lambda>m. map (Pair m) (filter (\<lambda>n. nd_id n = mb_node m) ns)) (filter (\<lambda>m. mb_group m = gid \<and> mb_enabled m) ms))"

definition memberIDs :: "rollout_env \<Rightarrow> (fleet_db \<Rightarrow> member_row list) \<Rightarrow> string option \<Rightarrow> (fleet_db, string list) sql" where
  "memberIDs en members grp = (case grp of
     None \<Rightarrow> returnE []
   | Some gid \<Rightarrow> tryE (Many (\<lambda>t. sort_key (mb_priority \<circ> fst) (sort_key (ro_collate en \<circ> nd_name \<circ> snd) (member_nodes (members t) (fl_nodes t) gid)))) (\<lambda>rows.
       returnE (map (mb_node \<circ> fst) rows)))"

definition egressMembers :: "string option \<Rightarrow> (fleet_db, egress_member list) sql" where
  "egressMembers grp = (case grp of
     None \<Rightarrow> returnE []
   | Some gid \<Rightarrow> tryE (Many (\<lambda>t. sort_key (mb_priority \<circ> fst) (member_nodes (fl_out_members t) (fl_nodes t) gid))) (\<lambda>rows.
       returnE (map (\<lambda>(m, _). \<lparr>em_node_id = mb_node m, em_priority = mb_priority m, em_weight = mb_weight m\<rparr>) rows)))"

record service_view =
  vw_row :: service_row
  vw_ingress_mode :: "string option"
  vw_egress_mode :: "string option"
  vw_version :: "string option"
  vw_hash :: "string option"

definition service_views :: "rollout_env \<Rightarrow> fleet_db \<Rightarrow> service_view list" where
  "service_views en t =
     map (\<lambda>s.
       let rule_set = Option.bind (sw_rule_set s) (\<lambda>i. find (\<lambda>x. rs_id x = i) (rt_sets (fl_rules t)));
           ver = Option.bind rule_set rs_active_version in
       \<lparr>vw_row = s,
        vw_ingress_mode = map_option gp_mode (Option.bind (sw_ingress s) (\<lambda>i. find (\<lambda>g. gp_id g = i) (fl_in_groups t))),
        vw_egress_mode = map_option gp_mode (Option.bind (sw_egress s) (\<lambda>i. find (\<lambda>g. gp_id g = i) (fl_out_groups t))),
        vw_version = ver,
        vw_hash = map_option rv_hash (Option.bind ver (\<lambda>v. find (\<lambda>r. rv_id r = v) (rt_versions (fl_rules t))))\<rparr>)
       (sort_key (ro_collate en \<circ> sw_slug) (filter sw_enabled (fl_services t)))"

definition node_eligible :: "node_row \<Rightarrow> bool" where
  "node_eligible n \<longleftrightarrow> nd_status n \<noteq> ''maintenance'' \<and> nd_status n \<noteq> ''disabled'' \<and> nd_status n \<noteq> ''unhealthy''"

definition node_view :: "node_row \<Rightarrow> node_input" where
  "node_view n = \<lparr>ni_id = nd_id n, ni_name = nd_name n, ni_role = nd_role n, ni_public_ipv4 = deref (nd_ipv4 n), ni_public_ipv6 = deref (nd_ipv6 n),
     ni_relay_endpoint = deref (nd_relay n), ni_relay_sni = deref (nd_sni n), ni_eligible = node_eligible n\<rparr>"

fun gather_services :: "rollout_env \<Rightarrow> service_view list \<Rightarrow> (fleet_db, service_input list) sql" where
  "gather_services en [] = returnE []"
| "gather_services en (v # vs) =
     (case vw_version v of
        None \<Rightarrow> throwE (PlainError ''no active rule list version'')
      | Some ver \<Rightarrow>
          tryE (Many (\<lambda>t. entries_of_version (ro_builder en) ver (fl_rules t))) (\<lambda>entries.
          tryE (memberIDs en fl_in_members (sw_ingress (vw_row v))) (\<lambda>ins.
          if ins = [] then throwE (PlainError ''no ingress'')
          else tryE (egressMembers (sw_egress (vw_row v))) (\<lambda>egs.
            if egs = [] then throwE (PlainError ''no egress'')
            else tryE (gather_services en vs) (\<lambda>rest.
              let s = vw_row v in
              returnE (\<lparr>si_id = sw_id s, si_slug = sw_slug s, si_name = sw_name s, si_priority = sw_priority s, si_ttl = of_int (sw_ttl s),
                si_allowed_ports = sw_ports s, si_udp_mode = sw_udp s, si_entries = entries, si_rule_set_hash = deref (vw_hash v),
                si_ingress_nodes = ins, si_ingress_mode = deref (vw_ingress_mode v), si_egress_members = egs,
                si_egress_mode = deref (vw_egress_mode v), si_policy = zero_policy\<rparr> # rest))))))"

definition gather_input :: "rollout_env \<Rightarrow> (fleet_db, compile_input) sql" where
  "gather_input en =
     tryE (Many (\<lambda>t. sort_key (ro_collate en \<circ> nd_name) (fl_nodes t))) (\<lambda>nodes.
     if nodes = [] then throwE (PlainError ''no nodes'')
     else tryE (Many (service_views en)) (\<lambda>views.
       if views = [] then throwE (PlainError ''no enabled services'')
       else tryE (getSetting ''node_log_level'' ''info'') (\<lambda>lvl.
         tryE dnsConfig (\<lambda>dns.
         tryE (getSetting ''egress_resolver'' ''1.1.1.1:53'') (\<lambda>resolver.
         tryE (gather_services en views) (\<lambda>services.
         returnE \<lparr>ci_revision_id = [], ci_sequence = 0, ci_services = services, ci_nodes = map node_view nodes, ci_dns = dns,
           ci_ingress = \<lparr>ic_client_hello_timeout_ms = 3000, ic_max_pre_read_bytes = 16384, ic_dial_timeout_ms = 8000, ic_idle_timeout_sec = 300, ic_max_sessions = 10000\<rparr>,
           ci_egress_tuning = \<lparr>ec_allow = \<lparr>Exact = [], Suffix = [], Regex = []\<rparr>, ec_allowed_ports = [], ec_resolver = resolver, ec_dial_timeout_ms = 8000, ec_idle_timeout_sec = 300,
             ec_max_sessions = 10000, ec_allow_private_destinations = False\<rparr>,
           ci_min_agent_ver = ''1.0.0'', ci_lab_mode = ro_lab en, ci_log_level = lvl, ci_signing_key = ro_key en\<rparr>))))))"

text \<open>\<open>ApplyStoredLogLevel\<close>, run at the start of the panel.\<close>

definition ApplyStoredLogLevel :: "api_env \<Rightarrow> log_level option \<Rightarrow> (fleet_db, log_level option) sql" where
  "ApplyStoredLogLevel en level = (case level of
     None \<Rightarrow> returnE None
   | Some lv \<Rightarrow> tryE (getSetting ''log_level'' []) (\<lambda>s. returnE (Some (fst (Follow (ae_lower en) s lv)))))"

section \<open>Storing a revision\<close>

definition put_revisions :: "(revision_row list \<Rightarrow> revision_row list) \<Rightarrow> fleet_db \<Rightarrow> fleet_db" where
  "put_revisions f t = t\<lparr>fl_revisions := f (fl_revisions t)\<rparr>"

text \<open>
  A transaction whose body can also give up with a value: \<open>Begin\<close>, the body, then \<open>Commit\<close> or the deferred \<open>Rollback\<close>.
\<close>

definition transaction_unless :: "('r \<Rightarrow> bool) \<Rightarrow> ('t, 'r) sql \<Rightarrow> ('t, 'r) sql" where
  "transaction_unless gives_up m d =
     (if db_fail d (db_ops d) then (Inl DBFailure, db_tick d)
      else case m (db_tick d) of
        (Inl e, d1) \<Rightarrow> (Inl e, d1\<lparr>db_tables := db_tables d\<rparr>)
      | (Inr r, d1) \<Rightarrow>
          if gives_up r then (Inr r, d1\<lparr>db_tables := db_tables d\<rparr>)
          else if db_fail d1 (db_ops d1) then (Inl DBFailure, (db_tick d1)\<lparr>db_tables := db_tables d\<rparr>)
          else (Inr r, db_tick d1))"

definition insert_revision :: "(fleet_db, string \<times> int) sql" where
  "insert_revision = tryE next_serial (\<lambda>sq. stmt (\<lambda>now u t.
     if list_ex (\<lambda>r. rw_id r = u) (fl_revisions t) then Inl ErrConflict
     else Inr ((u, sq), put_revisions (\<lambda>rs. rs @ [\<lparr>rw_id = u, rw_seq = sq, rw_state = ''draft'', rw_hash = [], rw_manifest = None, rw_error = [],
       rw_activated = None, rw_updated = now\<rparr>]) t)))"

definition insert_artifact :: "wire_lib \<Rightarrow> string \<Rightarrow> string \<Rightarrow> bytes \<Rightarrow> (fleet_db, unit) sql" where
  "insert_artifact wl rid nid content = Exec (\<lambda>_ _ t.
     if \<not> list_ex (\<lambda>r. rw_id r = rid) (fl_revisions t) \<or> \<not> list_ex (\<lambda>n. nd_id n = nid) (fl_nodes t) \<or>
        list_ex (\<lambda>a. ax_rev a = rid \<and> ax_node a = nid) (fl_artifacts t) then Inl ErrConflict
     else Inr (t\<lparr>fl_artifacts := fl_artifacts t @ [\<lparr>ax_rev = rid, ax_node = nid, ax_content = content, ax_sha = SHA256Hex wl content, ax_size = int (length content)\<rparr>]\<rparr>))"

fun insert_artifacts :: "wire_lib \<Rightarrow> string \<Rightarrow> (string \<times> bytes) list \<Rightarrow> (fleet_db, unit) sql" where
  "insert_artifacts wl rid [] = returnE ()"
| "insert_artifacts wl rid ((nid, content) # as) = tryE (insert_artifact wl rid nid content) (\<lambda>_. insert_artifacts wl rid as)"

text \<open>The artifacts of the compiler as a list; the order in which Go walks the map does not matter for the rows.\<close>

definition artifact_list :: "compile_input \<Rightarrow> compile_output \<Rightarrow> (string \<times> bytes) list" where
  "artifact_list inp out = map (\<lambda>i. (i, the (co_artifacts out i))) (filter (\<lambda>i. co_artifacts out i \<noteq> None) (remdups (map ni_id (ci_nodes inp))))"

definition set_compiled :: "string \<Rightarrow> compile_output \<Rightarrow> (fleet_db, unit) sql" where
  "set_compiled rid out = Exec (\<lambda>now _ t. Inr (put_revisions (update_rows (\<lambda>r. rw_id r = rid)
     (\<lambda>r. r\<lparr>rw_state := ''compiled'', rw_hash := mf_model_sha256 (co_manifest out), rw_manifest := Some (co_manifest out), rw_updated := now\<rparr>)) t))"

definition set_validation_failed :: "string \<Rightarrow> string \<Rightarrow> (fleet_db, unit) sql" where
  "set_validation_failed rid msg = Exec (\<lambda>now _ t. Inr (put_revisions (update_rows (\<lambda>r. rw_id r = rid)
     (\<lambda>r. r\<lparr>rw_state := ''validation_failed'', rw_error := msg, rw_updated := now\<rparr>)) t))"

text \<open>
  The body of the transaction. The update that marks a failed revision runs on another connection while the
  transaction is open, so it sees the tables without the new row: as if it ran after the rollback.
\<close>

definition fill_revision :: "rollout_env \<Rightarrow> compile_input \<Rightarrow> string \<Rightarrow> (fleet_db, compile_error \<times> string + compile_output \<times> string) sql" where
  "fill_revision en inp rid =
     (case Compile (fe_wire (ro_fleet en)) (ro_clock en) inp of
        Inl e \<Rightarrow> returnE (Inl (e, rid))
      | Inr out \<Rightarrow> tryE (insert_artifacts (fe_wire (ro_fleet en)) rid (artifact_list inp out)) (\<lambda>_.
          tryE (set_compiled rid out) (\<lambda>_. returnE (Inr (out, rid)))))"

definition store_revision :: "rollout_env \<Rightarrow> compile_input \<Rightarrow> (fleet_db, compile_error \<times> string + compile_output \<times> string) sql" where
  "store_revision en inp = transaction_unless isl
     (tryE insert_revision (\<lambda>(rid, sq). fill_revision en (inp\<lparr>ci_revision_id := rid, ci_sequence := sq\<rparr>) rid))"

definition compile_state :: "rollout_env \<Rightarrow> bool \<Rightarrow> (fleet_db, compile_error + compile_output \<times> string) sql" where
  "compile_state en dryRun = tryE (gather_input en) (\<lambda>inp.
     if dryRun then (case Compile (fe_wire (ro_fleet en)) (ro_clock en) (inp\<lparr>ci_revision_id := ''00000000-0000-0000-0000-000000000000''\<rparr>) of
         Inl e \<Rightarrow> returnE (Inl e)
       | Inr out \<Rightarrow> returnE (Inr (out, [])))
     else tryE (store_revision en inp) (\<lambda>res. case res of
         Inl (e, rid) \<Rightarrow> ignoring (set_validation_failed rid (ro_compile_text en e)) (returnE (Inl e))
       | Inr x \<Rightarrow> returnE (Inr x)))"

section \<open>Rollouts\<close>

definition upsert_deploy :: "deploy_row \<Rightarrow> (deploy_row \<Rightarrow> deploy_row) \<Rightarrow> deploy_row list \<Rightarrow> deploy_row list" where
  "upsert_deploy row upd ds =
     (let same = (\<lambda>p. dp_node p = dp_node row \<and> dp_rev p = dp_rev row) in
      if list_ex same ds then update_rows same upd ds else ds @ [row])"

definition set_pending :: "string \<Rightarrow> string \<Rightarrow> int \<Rightarrow> (fleet_db, unit) sql" where
  "set_pending rid nid wave = Exec (\<lambda>now _ t.
     if \<not> list_ex (\<lambda>r. rw_id r = rid) (fl_revisions t) \<or> \<not> list_ex (\<lambda>n. nd_id n = nid) (fl_nodes t) then Inl ErrConflict
     else Inr (t\<lparr>fl_deploys := upsert_deploy
       \<lparr>dp_node = nid, dp_rev = rid, dp_state = ''pending'', dp_wave = wave, dp_code = [], dp_detail = [], dp_started = now, dp_finished = None\<rparr>
       (\<lambda>p. p\<lparr>dp_state := ''pending'', dp_wave := wave, dp_code := [], dp_detail := [], dp_started := now, dp_finished := None\<rparr>) (fl_deploys t)\<rparr>))"

definition set_desired :: "string \<Rightarrow> string \<Rightarrow> (fleet_db, unit) sql" where
  "set_desired rid nid = Exec (\<lambda>now _ t.
     if list_ex (\<lambda>n. nd_id n = nid) (fl_nodes t) \<and> \<not> list_ex (\<lambda>r. rw_id r = rid) (fl_revisions t) then Inl ErrConflict
     else Inr (put_nodes (update_rows (\<lambda>n. nd_id n = nid) (\<lambda>n. n\<lparr>nd_desired := Some rid, nd_updated := now\<rparr>)) t))"

definition set_revision_state :: "string \<Rightarrow> string \<Rightarrow> (fleet_db, unit) sql" where
  "set_revision_state rid st = Exec (\<lambda>now _ t. Inr (put_revisions (update_rows (\<lambda>r. rw_id r = rid) (\<lambda>r. r\<lparr>rw_state := st, rw_updated := now\<rparr>)) t))"

fun assign_waves :: "string \<Rightarrow> string list \<Rightarrow> (string \<times> string) list \<Rightarrow> (fleet_db, unit) sql" where
  "assign_waves rid seen [] = set_revision_state rid ''deploying''"
| "assign_waves rid seen ((nid, role) # as) =
     tryE (set_pending rid nid (if role \<in> set seen then 1 else 0)) (\<lambda>_.
     tryE (set_desired rid nid) (\<lambda>_. assign_waves rid (if role \<in> set seen then seen else role # seen) as))"

definition rollout_nodes :: "rollout_env \<Rightarrow> string \<Rightarrow> fleet_db \<Rightarrow> (string \<times> string) list" where
  "rollout_nodes en rid t = map (\<lambda>n. (nd_id n, nd_role n)) (sort_key nd_role (sort_key (ro_collate en \<circ> nd_name)
     (concat (map (\<lambda>a. filter (\<lambda>n. nd_id n = ax_node a) (fl_nodes t)) (filter (\<lambda>a. ax_rev a = rid) (fl_artifacts t))))))"

text \<open>The push that follows is the operation \<open>pushRevision\<close> below.\<close>

definition startRollout :: "rollout_env \<Rightarrow> string \<Rightarrow> (fleet_db, unit) sql" where
  "startRollout en rid =
     tryE (One (\<lambda>t. filter (\<lambda>r. rw_id r = rid) (fl_revisions t))) (\<lambda>r.
     if rw_state r = ''validation_failed'' then throwE conflictErr
     else tryE (Many (rollout_nodes en rid)) (\<lambda>arts.
       if arts = [] then throwE conflictErr
       else tryE (transaction (assign_waves rid [] arts)) (\<lambda>_.
         event put_fleet_events ''info'' ''rollout'' ''deploy_started'' None (returnE ()))))"

text \<open>The body is read only when the request announces one.\<close>

definition compileRevision :: "rollout_env \<Rightarrow> api_request \<Rightarrow> int \<Rightarrow> (bool \<times> bool) option \<Rightarrow> (fleet_db, api_reply) sql" where
  "compileRevision en r content_length body = decodeE (if content_length > 0 then body else Some (False, False)) (\<lambda>(deploy, dryRun).
     idempotent (\<lambda>t. rt_idem (fl_rules t)) put_fleet_idem (aq_header r ''Idempotency-Key'') ''compile''
       (attempt (compile_state en dryRun) (\<lambda>res. case res of
          Inl e \<Rightarrow> throwE (APIError 422 ''compile_failed'')
        | Inr (Inl (ConflictError cs)) \<Rightarrow> throwE (APIError 409 ''rule_conflict'')
        | Inr (Inl _) \<Rightarrow> throwE (APIError 422 ''compile_failed'')
        | Inr (Inr (out, rid)) \<Rightarrow>
            let fields = [(''revision_id'', JStr rid), (''output'', ro_output_json en out), (''dry_run'', JBool dryRun)] in
            if dryRun then returnE (200, JObj fields)
            else audit put_fleet_audit (audit_of (fe_api (ro_fleet en)) r ''revision.compiled'' ''revision'' rid None (Some (ro_output_json en out)))
              (if deploy then tryE (startRollout en rid) (\<lambda>_. returnE (201, JObj (fields @ [(''deploying'', JBool True)])))
               else returnE (201, JObj fields)))))"

definition deployRevision :: "rollout_env \<Rightarrow> api_request \<Rightarrow> (fleet_db, api_reply) sql" where
  "deployRevision en r =
     (let rid = aq_path r ''id'' in
      idempotent (\<lambda>t. rt_idem (fl_rules t)) put_fleet_idem (aq_header r ''Idempotency-Key'') ''deploy''
        (tryE (startRollout en rid) (\<lambda>_.
          audit put_fleet_audit (audit_of (fe_api (ro_fleet en)) r ''revision.deploy_started'' ''revision'' rid None None)
            (returnE (202, JObj [(''status'', JStr ''deploying''), (''revision_id'', JStr rid)])))))"

definition rollback_targets :: "string \<Rightarrow> fleet_db \<Rightarrow> string list" where
  "rollback_targets rid t = map rw_id (sort_key (\<lambda>r. - the (rw_activated r))
     (filter (\<lambda>r. rw_state r \<in> {''active'', ''superseded'', ''partially_active''} \<and> rw_id r \<noteq> rid \<and> rw_activated r \<noteq> None) (fl_revisions t)))"

definition rollbackRevision :: "rollout_env \<Rightarrow> api_request \<Rightarrow> (fleet_db, api_reply) sql" where
  "rollbackRevision en r =
     (let rid = aq_path r ''id'' in
      idempotent (\<lambda>t. rt_idem (fl_rules t)) put_fleet_idem (aq_header r ''Idempotency-Key'') ''rollback''
        (attempt (One (rollback_targets rid)) (\<lambda>found. case found of
           Inl _ \<Rightarrow> throwE conflictErr
         | Inr prev \<Rightarrow>
             tryE (startRollout en prev) (\<lambda>_.
             tryE (set_revision_state rid ''rolled_back'') (\<lambda>_.
             audit put_fleet_audit (audit_of (fe_api (ro_fleet en)) r ''revision.rolled_back'' ''revision'' rid None (Some (JObj [(''target'', JStr prev)])))
               (event put_fleet_events ''warn'' ''rollout'' ''rollback'' None
                 (returnE (202, JObj [(''status'', JStr ''rolling_back''), (''target_revision_id'', JStr prev)]))))))))"

section \<open>Progress of a rollout\<close>

definition deploys_of :: "string \<Rightarrow> fleet_db \<Rightarrow> deploy_row list" where
  "deploys_of rid t = filter (\<lambda>p. dp_rev p = rid) (fl_deploys t)"

definition progress :: "deploy_row list \<Rightarrow> string option" where
  "progress ds =
     (let total = length ds; applied = count_rows (\<lambda>p. dp_state p = ''applied'') ds;
          failed = count_rows (\<lambda>p. dp_state p \<in> {''failed'', ''rolled_back''}) ds in
      if applied = total \<and> total > 0 then Some ''active''
      else if applied > 0 \<and> applied + failed = total then Some ''partially_active''
      else if failed = total \<and> total > 0 then Some ''validation_failed''
      else None)"

definition promote :: "string \<Rightarrow> string \<Rightarrow> (fleet_db, unit) sql" where
  "promote rid st = Exec (\<lambda>now _ t. Inr (put_revisions (update_rows (\<lambda>r. rw_id r = rid)
     (\<lambda>r. r\<lparr>rw_state := st,
        rw_activated := (if st \<in> {''active'', ''partially_active''} then Some (coalesce (rw_activated r) now) else rw_activated r), rw_updated := now\<rparr>)) t))"

definition supersede_others :: "string \<Rightarrow> (fleet_db, unit) sql" where
  "supersede_others rid = Exec (\<lambda>now _ t. Inr (put_revisions (update_rows (\<lambda>r. rw_state r = ''active'' \<and> rw_id r \<noteq> rid)
     (\<lambda>r. r\<lparr>rw_state := ''superseded'', rw_updated := now\<rparr>)) t))"

definition reconcileRevisionState :: "string \<Rightarrow> (fleet_db, unit) sql" where
  "reconcileRevisionState rid = attempt (One (\<lambda>t. [deploys_of rid t])) (\<lambda>c. case c of
     Inl _ \<Rightarrow> returnE ()
   | Inr ds \<Rightarrow> (case progress ds of
         None \<Rightarrow> returnE ()
       | Some st \<Rightarrow> ignoring (promote rid st)
           (if st = ''active'' then ignoring (supersede_others rid) (returnE ()) else returnE ())))"

section \<open>Pushing\<close>

definition live_identity :: "string \<Rightarrow> fleet_db \<Rightarrow> identity_row list" where
  "live_identity nid t = sort_key (\<lambda>i. - ix_created i) (filter (\<lambda>i. ix_node i = nid \<and> ix_revoked i = None) (fl_identities t))"

definition target_rows :: "string \<Rightarrow> fleet_db \<Rightarrow> push_target list" where
  "target_rows nid t = concat (map (\<lambda>n. map (\<lambda>i. \<lparr>tg_node = nid, tg_name = nd_name n, tg_addr = nd_mgmt n, tg_fp = ix_fp i\<rparr>) (live_identity nid t))
     (filter (\<lambda>n. nd_id n = nid) (fl_nodes t)))"

definition targetFor :: "string \<Rightarrow> (fleet_db, push_target) sql" where
  "targetFor nid = tryE (One (target_rows nid)) (\<lambda>row.
     if tg_addr row = [] then throwE (PlainError ''no management address'') else returnE row)"

definition finished_at :: "string \<Rightarrow> int \<Rightarrow> int option" where
  "finished_at st now = (if st = ''applied'' \<or> st = ''failed'' then Some now else None)"

definition push_record :: "string \<Rightarrow> string \<Rightarrow> string \<Rightarrow> string \<Rightarrow> string \<Rightarrow> (fleet_db, unit) sql" where
  "push_record nid rid st code detail = Exec (\<lambda>now _ t.
     if \<not> list_ex (\<lambda>r. rw_id r = rid) (fl_revisions t) \<or> \<not> list_ex (\<lambda>n. nd_id n = nid) (fl_nodes t) then Inl ErrConflict
     else Inr (t\<lparr>fl_deploys := upsert_deploy
       \<lparr>dp_node = nid, dp_rev = rid, dp_state = st, dp_wave = 0, dp_code = code, dp_detail = take 1000 detail, dp_started = now, dp_finished = finished_at st now\<rparr>
       (\<lambda>p. p\<lparr>dp_state := st, dp_code := code, dp_detail := take 1000 detail, dp_finished := finished_at st now\<rparr>) (fl_deploys t)\<rparr>))"

definition recordPush :: "string \<Rightarrow> string \<Rightarrow> string \<Rightarrow> string \<Rightarrow> string \<Rightarrow> (fleet_db, unit) sql" where
  "recordPush nid rid st code detail = ignoring (push_record nid rid st code detail) (returnE ())"

definition knows_revision :: "string \<Rightarrow> fleet_db \<Rightarrow> bool" where
  "knows_revision rid t \<longleftrightarrow> list_ex (\<lambda>r. rw_id r = rid) (fl_revisions t)"

definition set_applied :: "string \<Rightarrow> push_result \<Rightarrow> (fleet_db, unit) sql" where
  "set_applied nid res = Exec (\<lambda>now _ t.
     if list_ex (\<lambda>n. nd_id n = nid) (fl_nodes t) \<and> \<not> knows_revision (pr_revision res) t then Inl ErrConflict
     else Inr (put_nodes (update_rows (\<lambda>n. nd_id n = nid)
       (\<lambda>n. n\<lparr>nd_applied := Some (pr_revision res), nd_applied_seq := pr_sequence res, nd_error := [], nd_updated := now\<rparr>)) t))"

definition pushOne :: "rollout_env \<Rightarrow> push_lib \<Rightarrow> string \<Rightarrow> string \<Rightarrow> bytes \<Rightarrow> (fleet_db, unit) sql" where
  "pushOne en pl rid nid artifact = attempt (targetFor nid) (\<lambda>tg. case tg of
     Inl e \<Rightarrow> recordPush nid rid ''failed'' ''no_target'' (ro_fail_text en e)
   | Inr t \<Rightarrow> (case PushConfig pl (ro_net en) t artifact of
         Inl e \<Rightarrow> recordPush nid rid ''failed'' ''unreachable'' (ro_error_text en e)
       | Inr res \<Rightarrow> tryE (recordPush nid rid ''applied'' [] []) (\<lambda>_.
           ignoring (set_applied nid res) (reconcileRevisionState rid))))"

fun forEachNode :: "('a \<Rightarrow> ('t, unit) sql) \<Rightarrow> 'a list \<Rightarrow> ('t, unit) sql" where
  "forEachNode fn [] = returnE ()"
| "forEachNode fn (x # xs) = tryE (fn x) (\<lambda>_. forEachNode fn xs)"

definition revision_artifacts :: "string \<Rightarrow> fleet_db \<Rightarrow> (string \<times> bytes) list" where
  "revision_artifacts rid t = map (\<lambda>a. (ax_node a, ax_content a)) (filter (\<lambda>a. ax_rev a = rid) (fl_artifacts t))"

definition pushRevision :: "rollout_env \<Rightarrow> string \<Rightarrow> (fleet_db, unit) sql" where
  "pushRevision en rid = (case ro_pusher en of
     None \<Rightarrow> returnE ()
   | Some pl \<Rightarrow> attempt (Many (revision_artifacts rid)) (\<lambda>res. case res of
         Inl _ \<Rightarrow> returnE ()
       | Inr arts \<Rightarrow> forEachNode (\<lambda>(nid, content). pushOne en pl rid nid content) arts))"

section \<open>Polling\<close>

definition poll_rows :: "fleet_db \<Rightarrow> (push_target \<times> string option) list" where
  "poll_rows t = concat (map (\<lambda>n. map (\<lambda>i. (\<lparr>tg_node = nd_id n, tg_name = nd_name n, tg_addr = nd_mgmt n, tg_fp = ix_fp i\<rparr>, nd_desired n))
       (filter (\<lambda>i. ix_node i = nd_id n \<and> ix_revoked i = None) (fl_identities t)))
     (filter (\<lambda>n. nd_mgmt n \<noteq> [] \<and> nd_status n \<noteq> ''disabled'') (fl_nodes t)))"

definition poll_failed :: "string \<Rightarrow> string \<Rightarrow> (fleet_db, unit) sql" where
  "poll_failed nid msg = Exec (\<lambda>now _ t. Inr (put_nodes (update_rows (\<lambda>n. nd_id n = nid \<and> nd_status n \<notin> {''maintenance'', ''disabled''})
     (\<lambda>n. n\<lparr>nd_status := ''unhealthy'', nd_error := take 300 msg, nd_updated := now\<rparr>)) t))"

definition reported_status :: "health \<Rightarrow> string" where
  "reported_status h = (if hl_status h \<noteq> ''healthy'' \<and> hl_status h \<noteq> ''degraded'' then ''unknown'' else hl_status h)"

definition poll_ok :: "string \<Rightarrow> health \<Rightarrow> (fleet_db, unit) sql" where
  "poll_ok nid h = Exec (\<lambda>now _ t.
     if hl_applied_revision_id h \<noteq> [] \<and> list_ex (\<lambda>n. nd_id n = nid) (fl_nodes t) \<and> \<not> knows_revision (hl_applied_revision_id h) t then Inl ErrConflict
     else Inr (put_nodes (update_rows (\<lambda>n. nd_id n = nid)
       (\<lambda>n. n\<lparr>nd_status := (if nd_status n \<in> {''maintenance'', ''disabled''} then nd_status n else reported_status h),
          nd_applied := first_some (nullif (hl_applied_revision_id h)) (nd_applied n), nd_applied_seq := hl_applied_sequence h, nd_health := Some h,
          nd_seen := Some now, nd_error := hl_last_err h, nd_agent := coalesce (nullif (hl_version h)) (nd_agent n), nd_updated := now\<rparr>)) t))"

definition poll_sample :: "string \<Rightarrow> health \<Rightarrow> (fleet_db, unit) sql" where
  "poll_sample nid h = Exec (\<lambda>now _ t.
     if \<not> list_ex (\<lambda>n. nd_id n = nid) (fl_nodes t) then Inl ErrConflict
     else Inr (t\<lparr>fl_samples := fl_samples t @ [\<lparr>hs_node = nid, hs_service = None, hs_kind = ''poll'', hs_success = (reported_status h = ''healthy''),
       hs_code = [], hs_detail = [], hs_at = now\<rparr>]\<rparr>))"

definition drifted :: "string option \<Rightarrow> health \<Rightarrow> bool" where
  "drifted desired h \<longleftrightarrow> desired \<noteq> None \<and> desired \<noteq> Some [] \<and> desired \<noteq> Some (hl_applied_revision_id h)"

definition repush :: "rollout_env \<Rightarrow> push_lib \<Rightarrow> string \<Rightarrow> string \<Rightarrow> (fleet_db, unit) sql" where
  "repush en pl rid nid =
     attempt (One (\<lambda>t. map ax_content (filter (\<lambda>a. ax_rev a = rid \<and> ax_node a = nid) (fl_artifacts t)))) (\<lambda>found. case found of
       Inl _ \<Rightarrow> returnE ()
     | Inr content \<Rightarrow> pushOne en pl rid nid content)"

definition poll_node :: "rollout_env \<Rightarrow> push_lib \<Rightarrow> push_target \<times> string option \<Rightarrow> (fleet_db, unit) sql" where
  "poll_node en pl row =
     (let (t, desired) = row; nid = tg_node t in
      case Poll pl (ro_net en) t of
        Inl e \<Rightarrow> ignoring (poll_failed nid (ro_error_text en e)) (returnE ())
      | Inr h \<Rightarrow> ignoring (poll_ok nid h) (ignoring (poll_sample nid h)
          (if drifted desired h then repush en pl (deref desired) nid else returnE ())))"

definition pollOnce :: "rollout_env \<Rightarrow> push_lib \<Rightarrow> (fleet_db, unit) sql" where
  "pollOnce en pl = attempt (Many poll_rows) (\<lambda>res. case res of
     Inl _ \<Rightarrow> returnE ()
   | Inr rows \<Rightarrow> forEachNode (poll_node en pl) rows)"

definition cert_json :: "cert_result \<Rightarrow> json" where
  "cert_json res = JObj ([(''ok'', JBool (ct_ok res))] @ (if ct_domain res = [] then [] else [(''domain'', JStr (ct_domain res))]) @
     (if ct_not_after res = [] then [] else [(''not_after'', JStr (ct_not_after res))]) @ (if ct_error res = [] then [] else [(''error'', JStr (ct_error res))]))"

definition nodeCertificate :: "rollout_env \<Rightarrow> api_request \<Rightarrow> cert_request option \<Rightarrow> (fleet_db, api_reply) sql" where
  "nodeCertificate en r body = (case ro_pusher en of
     None \<Rightarrow> throwE (PlainError ''push client is not configured'')
   | Some pl \<Rightarrow> decodeE body (\<lambda>req.
       if trim_space (cr_domain req) = [] then throwE badRequest
       else let nid = aq_path r ''id'' in
         tryE (targetFor nid) (\<lambda>t. case IssueCert pl (ro_net en) t req of
           Inl e \<Rightarrow> throwE (PlainError ''node unreachable'')
         | Inr res \<Rightarrow>
             audit put_fleet_audit (audit_of (fe_api (ro_fleet en)) r ''node.certificate'' ''node'' nid None
                 (Some (JObj [(''domain'', JStr (cr_domain req)), (''ok'', JBool (ct_ok res)), (''staging'', JBool (cr_staging req))])))
               (event put_fleet_events (if ct_ok res then ''info'' else ''warn'') ''panel'' (if ct_ok res then ''cert_issued'' else ''cert_failed'') (Some nid)
                 (returnE (Reply 200 (cert_json res)))))))"

section \<open>Well-formed tables\<close>

definition revision_states :: "string list" where
  "revision_states = [''draft'', ''compiled'', ''validation_failed'', ''awaiting_approval'', ''deploying'', ''active'', ''partially_active'', ''superseded'', ''rolled_back'']"

definition deploy_states :: "string list" where
  "deploy_states = [''pending'', ''downloading'', ''validating'', ''applying'', ''applied'', ''failed'', ''rolled_back'', ''skipped'']"

abbreviation rev_ids :: "fleet_db \<Rightarrow> string set" where
  "rev_ids t \<equiv> rw_id ` set (fl_revisions t)"

abbreviation node_ids :: "fleet_db \<Rightarrow> string set" where
  "node_ids t \<equiv> nd_id ` set (fl_nodes t)"

definition node_refs_ok :: "fleet_db \<Rightarrow> bool" where
  "node_refs_ok t \<longleftrightarrow> (\<forall>n\<in>set (fl_nodes t). set_option (nd_desired n) \<subseteq> rev_ids t \<and> set_option (nd_applied n) \<subseteq> rev_ids t)"

definition rollout_wf :: "fleet_db \<Rightarrow> bool" where
  "rollout_wf t \<longleftrightarrow> (\<forall>r\<in>set (fl_revisions t). rw_state r \<in> set revision_states) \<and> distinct (map rw_id (fl_revisions t)) \<and>
     (\<forall>a\<in>set (fl_artifacts t). ax_rev a \<in> rev_ids t \<and> ax_node a \<in> node_ids t) \<and> distinct (map (\<lambda>a. (ax_rev a, ax_node a)) (fl_artifacts t)) \<and>
     (\<forall>p\<in>set (fl_deploys t). dp_state p \<in> set deploy_states \<and> dp_rev p \<in> rev_ids t \<and> dp_node p \<in> node_ids t) \<and>
     distinct (map (\<lambda>p. (dp_node p, dp_rev p)) (fl_deploys t)) \<and> node_refs_ok t"

lemma rollout_wf_cong:
  assumes "fl_revisions t' = fl_revisions t" "fl_artifacts t' = fl_artifacts t" "fl_deploys t' = fl_deploys t" "fl_nodes t' = fl_nodes t"
  shows "rollout_wf t' = rollout_wf t"
  using assms by (simp add: rollout_wf_def node_refs_ok_def)

lemma rollout_wf_other [simp]:
  "rollout_wf (t\<lparr>fl_identities := a\<rparr>) = rollout_wf t" "rollout_wf (t\<lparr>fl_in_groups := b\<rparr>) = rollout_wf t" "rollout_wf (t\<lparr>fl_out_groups := b\<rparr>) = rollout_wf t"
  "rollout_wf (t\<lparr>fl_in_members := c\<rparr>) = rollout_wf t" "rollout_wf (t\<lparr>fl_out_members := c\<rparr>) = rollout_wf t" "rollout_wf (t\<lparr>fl_services := s\<rparr>) = rollout_wf t"
  "rollout_wf (t\<lparr>fl_settings := x\<rparr>) = rollout_wf t" "rollout_wf (t\<lparr>fl_samples := y\<rparr>) = rollout_wf t" "rollout_wf (t\<lparr>fl_rules := z\<rparr>) = rollout_wf t"
  by (rule rollout_wf_cong; simp)+

lemma rollout_wf_nodes:
  assumes "rollout_wf t" and "nd_id ` set ns = node_ids t"
    and "\<And>n. n \<in> set ns \<Longrightarrow> set_option (nd_desired n) \<subseteq> rev_ids t \<and> set_option (nd_applied n) \<subseteq> rev_ids t"
  shows "rollout_wf (t\<lparr>fl_nodes := ns\<rparr>)"
  using assms by (simp add: rollout_wf_def node_refs_ok_def)

lemma rollout_wf_update_nodes:
  assumes "rollout_wf t" and "\<And>n. nd_id (f n) = nd_id n"
    and "\<And>n. n \<in> set (fl_nodes t) \<Longrightarrow> P n \<Longrightarrow> set_option (nd_desired (f n)) \<subseteq> rev_ids t \<and> set_option (nd_applied (f n)) \<subseteq> rev_ids t"
  shows "rollout_wf (put_nodes (update_rows P f) t)"
  unfolding put_nodes_def
proof (rule rollout_wf_nodes [OF assms(1)])
  show "nd_id ` set (update_rows P f (fl_nodes t)) = node_ids t" using map_update_rows [of nd_id f P "fl_nodes t", OF assms(2)] by (metis list.set_map)
  show "set_option (nd_desired n) \<subseteq> rev_ids t \<and> set_option (nd_applied n) \<subseteq> rev_ids t" if "n \<in> set (update_rows P f (fl_nodes t))" for n
    using that assms(1,3) by (auto simp: set_update_rows rollout_wf_def node_refs_ok_def split: if_splits)
qed

lemma rollout_wf_update_revisions:
  assumes "rollout_wf t" and "\<And>r. rw_id (f r) = rw_id r" and "\<And>r. rw_state (f r) \<in> set revision_states"
  shows "rollout_wf (put_revisions (update_rows P f) t)"
proof -
  have i: "map rw_id (update_rows P f (fl_revisions t)) = map rw_id (fl_revisions t)" by (rule map_update_rows) (rule assms(2))
  then have "rw_id ` set (update_rows P f (fl_revisions t)) = rev_ids t" by (metis list.set_map)
  with i assms(1,3) show ?thesis by (auto simp: rollout_wf_def node_refs_ok_def put_revisions_def set_update_rows)
qed

lemma upsert_deploy_keys:
  assumes "\<And>p. dp_node (f p) = dp_node p \<and> dp_rev (f p) = dp_rev p" and "distinct (map (\<lambda>p. (dp_node p, dp_rev p)) ds)"
  shows "distinct (map (\<lambda>p. (dp_node p, dp_rev p)) (upsert_deploy row f ds))"
  using assms by (auto simp: upsert_deploy_def Let_def map_update_rows list_ex_iff)

lemma rollout_wf_upsert:
  assumes "rollout_wf t" and "\<And>p. dp_node (f p) = dp_node p \<and> dp_rev (f p) = dp_rev p \<and> dp_state (f p) = dp_state row" and "dp_state row \<in> set deploy_states"
    and "dp_rev row \<in> rev_ids t" and "dp_node row \<in> node_ids t"
  shows "rollout_wf (t\<lparr>fl_deploys := upsert_deploy row f (fl_deploys t)\<rparr>)"
proof -
  have "distinct (map (\<lambda>p. (dp_node p, dp_rev p)) (upsert_deploy row f (fl_deploys t)))"
    by (rule upsert_deploy_keys) (use assms(1,2) in \<open>auto simp: rollout_wf_def\<close>)
  moreover have "\<forall>p\<in>set (upsert_deploy row f (fl_deploys t)). dp_state p \<in> set deploy_states \<and> dp_rev p \<in> rev_ids t \<and> dp_node p \<in> node_ids t"
    using assms by (auto simp: upsert_deploy_def Let_def set_update_rows rollout_wf_def)
  ultimately show ?thesis using assms(1) by (simp add: rollout_wf_def node_refs_ok_def)
qed

subsection \<open>What the statements keep\<close>

lemma wf_log [preserves_rules]:
  "preserves rollout_wf k \<Longrightarrow> preserves rollout_wf (audit put_fleet_audit row k)"
  "preserves rollout_wf k \<Longrightarrow> preserves rollout_wf (event put_fleet_events l c d n k)"
  by (rule preserves_audit preserves_event; simp add: put_fleet_audit_def put_fleet_events_def)+

lemma rollout_wf_idempotent [preserves_rules]:
  "preserves rollout_wf fn \<Longrightarrow> preserves rollout_wf (idempotent (\<lambda>t. rt_idem (fl_rules t)) put_fleet_idem key ep fn)"
  by (rule preserves_idempotent) (simp_all add: put_fleet_idem_def)

lemma node_refs_keep: "node_refs_ok (t\<lparr>fl_artifacts := as\<rparr>) = node_refs_ok t"
  by (simp add: node_refs_ok_def)

lemma wf_insert_revision [preserves_rules]: "preserves rollout_wf insert_revision"
  unfolding insert_revision_def
  by (intro preserves_rules preserves_stmt)
    (auto simp: put_revisions_def rollout_wf_def node_refs_ok_def revision_states_def list_ex_iff split: if_splits)

lemma wf_insert_artifact [preserves_rules]: "preserves rollout_wf (insert_artifact wl rid nid c)"
  unfolding insert_artifact_def
  by (rule preserves_Exec) (auto simp: rollout_wf_def node_refs_keep list_ex_iff split: if_splits; blast)

lemma wf_insert_artifacts [preserves_rules]: "preserves rollout_wf (insert_artifacts wl rid as)"
  by (induction wl rid as rule: insert_artifacts.induct) (auto intro: preserves_rules)

lemma wf_revision_updates [preserves_rules]:
  "preserves rollout_wf (set_compiled rid out)" "preserves rollout_wf (set_validation_failed rid msg)" "preserves rollout_wf (supersede_others rid)"
  "st \<in> set revision_states \<Longrightarrow> preserves rollout_wf (set_revision_state rid st)" "st \<in> set revision_states \<Longrightarrow> preserves rollout_wf (promote rid st)"
  unfolding set_compiled_def set_validation_failed_def supersede_others_def set_revision_state_def promote_def
  by (rule preserves_Exec, auto intro!: rollout_wf_update_revisions simp: revision_states_def)+

lemma wf_set_pending [preserves_rules]: "preserves rollout_wf (set_pending rid nid w)"
  unfolding set_pending_def
  by (rule preserves_Exec) (auto simp: list_ex_iff deploy_states_def split: if_splits intro!: rollout_wf_upsert)

lemma wf_recordPush: "st \<in> set deploy_states \<Longrightarrow> preserves rollout_wf (recordPush nid rid st code detail)"
  unfolding recordPush_def push_record_def
  by (intro preserves_rules preserves_Exec) (auto simp: list_ex_iff split: if_splits intro!: rollout_wf_upsert)

lemma wf_node_updates [preserves_rules]:
  "preserves rollout_wf (set_desired rid nid)" "preserves rollout_wf (set_applied nid res)" "preserves rollout_wf (poll_failed nid msg)" "preserves rollout_wf (poll_ok nid h)"
proof -
  have kept: "set_option (nd_desired n) \<subseteq> rev_ids t" "set_option (nd_applied n) \<subseteq> rev_ids t" if "rollout_wf t" "n \<in> set (fl_nodes t)" for t n
    using that by (auto simp: rollout_wf_def node_refs_ok_def)
  show "preserves rollout_wf (set_desired rid nid)" unfolding set_desired_def
    by (rule preserves_Exec) (auto simp: list_ex_iff dest: kept split: if_splits intro!: rollout_wf_update_nodes)
  show "preserves rollout_wf (set_applied nid res)" unfolding set_applied_def knows_revision_def
    by (rule preserves_Exec) (auto simp: list_ex_iff dest: kept split: if_splits intro!: rollout_wf_update_nodes)
  show "preserves rollout_wf (poll_failed nid msg)" unfolding poll_failed_def
    by (rule preserves_Exec) (auto dest: kept intro!: rollout_wf_update_nodes)
  show "preserves rollout_wf (poll_ok nid h)" unfolding poll_ok_def knows_revision_def
    by (rule preserves_Exec)
      (auto simp: list_ex_iff first_some_def nullif_def dest: kept split: if_splits option.splits intro!: rollout_wf_update_nodes)
qed

lemma wf_poll_sample [preserves_rules]: "preserves rollout_wf (poll_sample nid h)"
  unfolding poll_sample_def by (rule preserves_Exec) (auto split: if_splits)

lemma wf_reads [preserves_rules]:
  "preserves I (setting_of k)" "preserves I (getSetting k s)" "preserves I (getSettingInt k i)" "preserves I (setting_list k)" "preserves I (getSettingList k)"
  "preserves I dnsConfig" "preserves I (memberIDs en ms g)" "preserves I (egressMembers g)"
  unfolding dnsConfig_def getSetting_def getSettingInt_def getSettingList_def setting_list_def setting_of_def memberIDs_def egressMembers_def
  by (intro preserves_rules)+

lemma wf_gather_services [preserves_rules]: "preserves I (gather_services en vs)"
  by (induction en vs rule: gather_services.induct) (auto simp: Let_def intro!: preserves_rules)

lemma wf_gather_input [preserves_rules]: "preserves I (gather_input en)"
  unfolding gather_input_def by (intro preserves_rules)

lemma preserves_transaction_unless [preserves_rules]:
  assumes "preserves I m"
  shows "preserves I (transaction_unless g m)"
  unfolding preserves_def
proof (intro allI impI)
  fix d :: "_ db" assume i: "I (db_tables d)"
  then have "I (db_tables (snd (m (db_tick d))))" by (intro preservesD [OF assms]) simp
  with i show "I (db_tables (snd (transaction_unless g m d)))"
    by (cases "m (db_tick d)"; cases "fst (m (db_tick d))") (auto simp: transaction_unless_def)
qed

lemma wf_compile_state [preserves_rules]: "preserves rollout_wf (compile_state en dry)"
  unfolding compile_state_def store_revision_def fill_revision_def by (intro preserves_rules)

lemma wf_assign_waves [preserves_rules]: "preserves rollout_wf (assign_waves rid seen as)"
  by (induction rid seen as rule: assign_waves.induct) (auto simp: revision_states_def intro!: preserves_rules)

lemma wf_startRollout [preserves_rules]: "preserves rollout_wf (startRollout en rid)"
  unfolding startRollout_def by (intro preserves_rules)

lemma progress_states: "progress ds = Some st \<Longrightarrow> st \<in> set revision_states"
  by (auto simp: progress_def revision_states_def Let_def split: if_splits)

lemma wf_reconcile [preserves_rules]: "preserves rollout_wf (reconcileRevisionState rid)"
  unfolding reconcileRevisionState_def by (intro preserves_rules progress_states)

lemma wf_pushOne [preserves_rules]: "preserves rollout_wf (pushOne en pl rid nid c)"
  unfolding pushOne_def targetFor_def
  by (intro preserves_rules wf_recordPush) (simp_all add: deploy_states_def)

lemma preserves_forEachNode [preserves_rules]: "(\<And>x. preserves I (fn x)) \<Longrightarrow> preserves I (forEachNode fn xs)"
  by (induction xs) (auto intro: preserves_rules)

lemma wf_rollout_operations:
  "preserves rollout_wf (compileRevision en r len body)" "preserves rollout_wf (deployRevision en r)" "preserves rollout_wf (rollbackRevision en r)"
  "preserves rollout_wf (pushRevision en rid)" "preserves rollout_wf (pollOnce en pl)" "preserves rollout_wf (nodeCertificate en r cb)"
proof -
  show "preserves rollout_wf (compileRevision en r len body)"
    unfolding compileRevision_def Let_def
    by (intro preserves_rules) (auto split: compile_error.splits intro: preserves_throwE)
  show "preserves rollout_wf (deployRevision en r)" unfolding deployRevision_def Let_def by (intro preserves_rules)
  show "preserves rollout_wf (rollbackRevision en r)" unfolding rollbackRevision_def Let_def
    by (intro preserves_rules) (simp add: revision_states_def)
  show "preserves rollout_wf (pushRevision en rid)" unfolding pushRevision_def by (intro preserves_rules)
  show "preserves rollout_wf (pollOnce en pl)" unfolding pollOnce_def poll_node_def repush_def Let_def by (intro preserves_rules)
  show "preserves rollout_wf (nodeCertificate en r cb)" unfolding nodeCertificate_def targetFor_def Let_def by (intro preserves_rules)
qed

subsection \<open>What the administration keeps\<close>

lemma wf_kind_puts [simp]:
  assumes "k \<in> {ingressKind, egressKind}"
  shows "rollout_wf (gk_put_groups k f t) = rollout_wf t" "rollout_wf (gk_put_members k g t) = rollout_wf t"
  using assms by (auto simp: ingressKind_def egressKind_def put_in_groups_def put_out_groups_def put_in_members_def put_out_members_def)

lemma wf_group_statements:
  assumes k: "k \<in> {ingressKind, egressKind}"
  shows "preserves rollout_wf (insert_group k q)" "preserves rollout_wf (delete_group k gid)" "preserves rollout_wf (upsert_member k m)"
    "preserves rollout_wf (ExecN (\<lambda>_ _ t. Inr (c t, gk_put_members k h t)))"
  unfolding insert_group_def delete_group_def upsert_member_def Let_def
  by (rule preserves_stmt preserves_ExecN preserves_Exec, auto simp: checked_def wf_kind_puts [OF k] simp del: insert_iff split: if_splits option.splits)+

lemma wf_service_statements:
  "preserves rollout_wf (insert_service q b)"
  "preserves rollout_wf (ExecN (\<lambda>_ _ t. Inr (c t, t\<lparr>fl_services := u t, fl_samples := v t\<rparr>)))"
  unfolding insert_service_def Let_def
  by (rule preserves_stmt preserves_ExecN; auto simp: checked_def split: option.splits)+

lemma wf_delete_node: "preserves rollout_wf (delete_node nid)"
  unfolding delete_node_def
  by (rule preserves_ExecN) (auto simp: rollout_wf_def node_refs_ok_def distinct_map_filter)

lemma wf_insert_node: "preserves rollout_wf (insert_node name req)"
  unfolding insert_node_def Let_def
  by (intro preserves_rules preserves_stmt) (auto simp: checked_def put_nodes_def rollout_wf_def node_refs_ok_def split: option.splits)

lemma wf_insert_identity: "preserves rollout_wf (insert_identity nid c f)"
  unfolding insert_identity_def by (rule preserves_Exec) (auto split: if_splits)

lemma wf_settings [preserves_rules]: "preserves rollout_wf (upsert_setting k v)"
  unfolding upsert_setting_def by (rule preserves_Exec) auto

lemma wf_put_loop: "preserves rollout_wf (put_loop en kvs)"
  by (induction en kvs rule: put_loop.induct) (auto intro: preserves_rules)

lemma wf_put_rows [simp]: "rollout_wf (put_services f t) = rollout_wf t"
  by (simp add: put_services_def)

lemma wf_patched_node:
  assumes "rollout_wf t"
  shows "rollout_wf (put_nodes (update_rows P (patched_node p now)) t)"
  by (rule rollout_wf_update_nodes [OF assms]) (use assms in \<open>auto simp: patched_node_def rollout_wf_def node_refs_ok_def\<close>)

lemma wf_maintenance:
  "preserves rollout_wf (ExecN (\<lambda>now _ t. Inr (c t, put_nodes (update_rows (\<lambda>n. nd_id n = nid) (\<lambda>n. n\<lparr>nd_status := st, nd_updated := now, nd_version := nd_version n + 1\<rparr>)) t)))"
proof (rule preserves_ExecN)
  fix now u t n t' assume wf: "rollout_wf t" and st: "Inr (c t, put_nodes (update_rows (\<lambda>n. nd_id n = nid) (\<lambda>n. n\<lparr>nd_status := st, nd_updated := now, nd_version := nd_version n + 1\<rparr>)) t) =
      (Inr (n, t') :: go_error + _)"
  have "rollout_wf (put_nodes (update_rows (\<lambda>n. nd_id n = nid) (\<lambda>n. n\<lparr>nd_status := st, nd_updated := now, nd_version := nd_version n + 1\<rparr>)) t)"
    by (rule rollout_wf_update_nodes [OF wf]) (use wf in \<open>auto simp: rollout_wf_def node_refs_ok_def\<close>)
  with st show "rollout_wf t'" by simp
qed

lemma wf_kind_patch:
  assumes "k \<in> {ingressKind, egressKind}" and "\<And>b a. preserves rollout_wf (f b a)"
  shows "preserves rollout_wf (versioned_patch (gk_groups k) (gk_put_groups k) gp_id gp_version chk step rid ver pre f)"
proof -
  from assms(1) consider "k = ingressKind" | "k = egressKind" by blast
  then show ?thesis
  proof cases
    case 1
    show ?thesis unfolding 1 by (simp add: ingressKind_def) (intro vi.preserves_patch assms(2), simp add: put_in_groups_def)
  next
    case 2
    show ?thesis unfolding 2 by (simp add: egressKind_def) (intro vo.preserves_patch assms(2), simp add: put_out_groups_def)
  qed
qed

lemma wf_fleet_handlers:
  assumes k: "k \<in> {ingressKind, egressKind}"
  shows "preserves rollout_wf (createGroup k en r gb)" "preserves rollout_wf (patchGroup k en r gp)" "preserves rollout_wf (deleteGroup k en r)"
    "preserves rollout_wf (addMember k en r js ab)" "preserves rollout_wf (removeMember k en r)" "preserves rollout_wf (createService en r sb)"
    "preserves rollout_wf (patchService en r sp)" "preserves rollout_wf (deleteService en r)" "preserves rollout_wf (createNode en r token nb)"
    "preserves rollout_wf (patchNode en r np)" "preserves rollout_wf (deleteNode en r)" "preserves rollout_wf (nodeMaintenance en r mb)"
    "preserves rollout_wf (putSettings en r lv pb)"
proof -
  note G = preserves_rules wf_group_statements [OF k] wf_kind_patch [OF k]
  show "preserves rollout_wf (createGroup k en r gb)" "preserves rollout_wf (patchGroup k en r gp)" "preserves rollout_wf (deleteGroup k en r)"
    "preserves rollout_wf (addMember k en r js ab)" "preserves rollout_wf (removeMember k en r)"
    unfolding createGroup_def patchGroup_def deleteGroup_def addMember_def removeMember_def Let_def by (intro G)+
  show "preserves rollout_wf (createService en r sb)" unfolding createService_def Let_def by (intro preserves_rules wf_service_statements)
  show "preserves rollout_wf (patchService en r sp)" unfolding patchService_def Let_def
    by (intro preserves_rules vs.preserves_patch) simp
  show "preserves rollout_wf (deleteService en r)" unfolding deleteService_def Let_def by (intro preserves_rules wf_service_statements)
  show "preserves rollout_wf (createNode en r token nb)"
    unfolding createNode_def create_node_action_def register_node_def Let_def by (intro preserves_rules wf_insert_node wf_insert_identity)
  show "preserves rollout_wf (patchNode en r np)" unfolding patchNode_def Let_def
    by (intro preserves_rules vn.preserves_patch) (rule wf_patched_node)
  show "preserves rollout_wf (deleteNode en r)" unfolding deleteNode_def Let_def by (intro preserves_rules wf_delete_node)
  show "preserves rollout_wf (nodeMaintenance en r mb)" unfolding nodeMaintenance_def Let_def by (intro preserves_rules wf_maintenance)
  show "preserves rollout_wf (putSettings en r lv pb)" unfolding putSettings_def Let_def by (intro preserves_rules wf_put_loop)
qed

subsection \<open>Rollouts leave the fleet consistent\<close>

lemma fleet_wf_rollout_tables [simp]:
  "fleet_wf (t\<lparr>fl_revisions := a\<rparr>) = fleet_wf t" "fleet_wf (t\<lparr>fl_artifacts := b\<rparr>) = fleet_wf t" "fleet_wf (t\<lparr>fl_deploys := c\<rparr>) = fleet_wf t"
  "fleet_wf (t\<lparr>fl_samples := e\<rparr>) = fleet_wf t" "fleet_wf (put_revisions f t) = fleet_wf t"
  by (simp_all add: fleet_wf_def nodes_check_None services_check_None put_revisions_def)

lemma fleet_wf_node_update:
  assumes "fleet_wf t" and "\<And>n. nd_id (f n) = nd_id n \<and> nd_name (f n) = nd_name n \<and> nd_role (f n) = nd_role n"
    and "\<And>n. nd_status n \<in> set node_statuses \<Longrightarrow> nd_status (f n) \<in> set node_statuses"
  shows "fleet_wf (put_nodes (update_rows P f) t)"
proof -
  have "nodes_check (put_nodes (update_rows P f) t) = None" by (rule nodes_check_map) (use assms in \<open>simp_all add: fleet_wf_def\<close>)
  then show ?thesis using assms(2) by (intro fleet_nodes assms(1)) (simp_all add: put_nodes_def map_update_rows)
qed

lemma reported_status_known: "reported_status h \<in> set node_statuses"
  by (simp add: reported_status_def node_statuses_def)

lemma fleet_rollout_statements [preserves_rules]:
  "preserves fleet_wf insert_revision" "preserves fleet_wf (insert_artifact wl rid nid c)" "preserves fleet_wf (set_compiled rid out)"
  "preserves fleet_wf (set_validation_failed rid msg)" "preserves fleet_wf (set_pending rid nid w)" "preserves fleet_wf (set_revision_state rid st)"
  "preserves fleet_wf (promote rid st)" "preserves fleet_wf (supersede_others rid)" "preserves fleet_wf (recordPush nid rid st code detail)"
  "preserves fleet_wf (poll_sample nid h)"
  unfolding insert_revision_def insert_artifact_def set_compiled_def set_validation_failed_def set_pending_def set_revision_state_def promote_def
    supersede_others_def recordPush_def push_record_def poll_sample_def
  by ((intro preserves_rules preserves_stmt preserves_Exec; auto split: if_splits))+

lemma fleet_rollout_nodes [preserves_rules]:
  "preserves fleet_wf (set_desired rid nid)" "preserves fleet_wf (set_applied nid res)" "preserves fleet_wf (poll_failed nid msg)" "preserves fleet_wf (poll_ok nid h)"
proof -
  show "preserves fleet_wf (set_desired rid nid)" "preserves fleet_wf (set_applied nid res)" unfolding set_desired_def set_applied_def
    by (rule preserves_Exec, auto split: if_splits intro!: fleet_wf_node_update)+
  show "preserves fleet_wf (poll_failed nid msg)" unfolding poll_failed_def
    by (rule preserves_Exec) (auto simp: node_statuses_def intro!: fleet_wf_node_update)
  show "preserves fleet_wf (poll_ok nid h)" unfolding poll_ok_def
    by (rule preserves_Exec) (auto simp: reported_status_known split: if_splits intro!: fleet_wf_node_update)
qed

lemma fleet_rollout_loops [preserves_rules]:
  "preserves fleet_wf (insert_artifacts wl rid as)" "preserves fleet_wf (assign_waves rid' seen ns)"
proof -
  show "preserves fleet_wf (insert_artifacts wl rid as)"
    by (induction wl rid as rule: insert_artifacts.induct) (auto intro: preserves_rules)
  show "preserves fleet_wf (assign_waves rid' seen ns)"
    by (induction rid' seen ns rule: assign_waves.induct) (auto intro!: preserves_rules)
qed

lemma fleet_compile_state [preserves_rules]: "preserves fleet_wf (compile_state en dry)"
  unfolding compile_state_def store_revision_def fill_revision_def by (intro preserves_rules)

lemma fleet_startRollout [preserves_rules]: "preserves fleet_wf (startRollout en rid)"
  unfolding startRollout_def by (intro preserves_rules)

lemma fleet_pushOne [preserves_rules]: "preserves fleet_wf (pushOne en pl rid nid c)"
  unfolding pushOne_def targetFor_def reconcileRevisionState_def by (intro preserves_rules)

lemma fleet_rollout_operations:
  "preserves fleet_wf (compileRevision en r len body)" "preserves fleet_wf (deployRevision en r)" "preserves fleet_wf (rollbackRevision en r)"
  "preserves fleet_wf (pushRevision en rid)" "preserves fleet_wf (pollOnce en pl)" "preserves fleet_wf (nodeCertificate en r cb)"
proof -
  show "preserves fleet_wf (compileRevision en r len body)"
    unfolding compileRevision_def Let_def
    by (intro preserves_rules) (auto split: compile_error.splits intro: preserves_throwE)
  show "preserves fleet_wf (deployRevision en r)" "preserves fleet_wf (rollbackRevision en r)"
    unfolding deployRevision_def rollbackRevision_def Let_def by (intro preserves_rules)+
  show "preserves fleet_wf (pushRevision en rid)" unfolding pushRevision_def by (intro preserves_rules)
  show "preserves fleet_wf (pollOnce en pl)" unfolding pollOnce_def poll_node_def repush_def Let_def by (intro preserves_rules)
  show "preserves fleet_wf (nodeCertificate en r cb)" unfolding nodeCertificate_def targetFor_def Let_def by (intro preserves_rules)
qed

section \<open>Runs of the panel\<close>

text \<open>
  Any sequence of requests, background pushes and polls, each on a database whose statements may fail and with whatever the
  network answers.
\<close>

inductive panel_step :: "fleet_db \<Rightarrow> fleet_db \<Rightarrow> bool" where
  administer: "fleet_step t t' \<Longrightarrow> panel_step t t'"
| compiled: "panel_step (db_tables d) (db_tables (snd (compileRevision en r len body d)))"
| deployed: "panel_step (db_tables d) (db_tables (snd (deployRevision en r d)))"
| rolled_back: "panel_step (db_tables d) (db_tables (snd (rollbackRevision en r d)))"
| pushed: "panel_step (db_tables d) (db_tables (snd (pushRevision en rid d)))"
| polled: "panel_step (db_tables d) (db_tables (snd (pollOnce en pl d)))"
| certified: "panel_step (db_tables d) (db_tables (snd (nodeCertificate en r cb d)))"

inductive panel_reachable :: "fleet_db \<Rightarrow> bool" where
  fresh: "panel_reachable (empty_fleet rules)"
| run: "panel_reachable t \<Longrightarrow> panel_step t t' \<Longrightarrow> panel_reachable t'"

lemma fleet_step_rollout_wf: "fleet_step t t' \<Longrightarrow> rollout_wf t \<Longrightarrow> rollout_wf t'"
proof (induction rule: fleet_step.induct)
qed (rule preservesD [OF wf_fleet_handlers(1)] preservesD [OF wf_fleet_handlers(2)] preservesD [OF wf_fleet_handlers(3)]
      preservesD [OF wf_fleet_handlers(4)] preservesD [OF wf_fleet_handlers(5)] preservesD [OF wf_fleet_handlers(6)] preservesD [OF wf_fleet_handlers(7)]
      preservesD [OF wf_fleet_handlers(8)] preservesD [OF wf_fleet_handlers(9)] preservesD [OF wf_fleet_handlers(10)] preservesD [OF wf_fleet_handlers(11)]
      preservesD [OF wf_fleet_handlers(12)] preservesD [OF wf_fleet_handlers(13)]; (assumption | rule insertI1))+

lemma panel_step_wf: "panel_step t t' \<Longrightarrow> fleet_wf t \<and> rollout_wf t \<Longrightarrow> fleet_wf t' \<and> rollout_wf t'"
proof (induction rule: panel_step.induct)
  case (administer t t')
  then show ?case using fleet_step_wf fleet_step_rollout_wf by blast
qed (intro conjI; rule preservesD [OF fleet_rollout_operations(1)] preservesD [OF fleet_rollout_operations(2)] preservesD [OF fleet_rollout_operations(3)]
      preservesD [OF fleet_rollout_operations(4)] preservesD [OF fleet_rollout_operations(5)] preservesD [OF fleet_rollout_operations(6)]
      preservesD [OF wf_rollout_operations(1)] preservesD [OF wf_rollout_operations(2)] preservesD [OF wf_rollout_operations(3)]
      preservesD [OF wf_rollout_operations(4)] preservesD [OF wf_rollout_operations(5)] preservesD [OF wf_rollout_operations(6)]; blast)+

lemma panel_reachable_wf: "panel_reachable t \<Longrightarrow> fleet_wf t \<and> rollout_wf t"
proof (induction rule: panel_reachable.induct)
  case (fresh rules)
  show ?case using fleet_reachable_wf [OF fleet_reachable.start] by (auto simp: rollout_wf_def node_refs_ok_def empty_fleet_def)
next
  case (run t t')
  from panel_step_wf [OF run.hyps(2) run.IH] show ?case .
qed

section \<open>Compiling is all or nothing\<close>

definition artifact_row_of :: "wire_lib \<Rightarrow> string \<Rightarrow> string \<times> bytes \<Rightarrow> artifact_row" where
  "artifact_row_of wl rid a = \<lparr>ax_rev = rid, ax_node = fst a, ax_content = snd a, ax_sha = SHA256Hex wl (snd a), ax_size = int (length (snd a))\<rparr>"

lemma insert_artifact_Inr:
  assumes "insert_artifact wl rid nid c d = (Inr x, d')"
  shows "db_tables d' = (db_tables d)\<lparr>fl_artifacts := fl_artifacts (db_tables d) @ [artifact_row_of wl rid (nid, c)]\<rparr>"
  using Exec_Inr [OF assms [unfolded insert_artifact_def]] by (simp add: artifact_row_of_def split: if_splits)

lemma insert_artifacts_Inr:
  "insert_artifacts wl rid as d = (Inr x, d') \<Longrightarrow>
   db_tables d' = (db_tables d)\<lparr>fl_artifacts := fl_artifacts (db_tables d) @ map (artifact_row_of wl rid) as\<rparr>"
proof (induction wl rid as arbitrary: d rule: insert_artifacts.induct)
  case (2 wl rid nid c as)
  from "2.prems" obtain y d1 where 1: "insert_artifact wl rid nid c d = (Inr y, d1)" and r: "insert_artifacts wl rid as d1 = (Inr x, d')"
    by (auto simp: tryE_Inr)
  from insert_artifact_Inr [OF 1] "2.IH" [OF r] show ?case by simp
qed (simp add: returnE_def)

lemma insert_revision_Inr:
  assumes "insert_revision d = (Inr (rid, sq), d')"
  shows "rid \<notin> rev_ids (db_tables d)"
    and "\<exists>r. db_tables d' = put_revisions (\<lambda>rs. rs @ [r]) (db_tables d) \<and> rw_id r = rid"
proof -
  from assms have "stmt (\<lambda>now u t. if list_ex (\<lambda>r. rw_id r = u) (fl_revisions t) then Inl ErrConflict
      else Inr ((u, db_serial d + 1), put_revisions (\<lambda>rs. rs @ [\<lparr>rw_id = u, rw_seq = db_serial d + 1, rw_state = ''draft'', rw_hash = [], rw_manifest = None,
        rw_error = [], rw_activated = None, rw_updated = now\<rparr>]) t)) (d\<lparr>db_serial := db_serial d + 1\<rparr>) = (Inr (rid, sq), d')"
    by (simp add: insert_revision_def tryE_def next_serial_def)
  note st = stmt_Inr [OF this]
  then show "rid \<notin> rev_ids (db_tables d)" by (auto simp: list_ex_iff split: if_splits)
  let ?r = "\<lparr>rw_id = rid, rw_seq = db_serial d + 1, rw_state = ''draft'', rw_hash = [], rw_manifest = None, rw_error = [], rw_activated = None, rw_updated = db_now d\<rparr>"
  from st have "db_tables d' = put_revisions (\<lambda>rs. rs @ [?r]) (db_tables d)" by (auto split: if_splits)
  then show "\<exists>r. db_tables d' = put_revisions (\<lambda>rs. rs @ [r]) (db_tables d) \<and> rw_id r = rid" by (intro exI [of _ ?r]) simp
qed

lemma insert_revision_Inl: "insert_revision d = (Inl e, d') \<Longrightarrow> db_tables d' = db_tables d"
  by (auto simp: insert_revision_def tryE_Inl next_serial_def dest!: stmt_Inl)

lemma transaction_unless_Inl: "transaction_unless g m d = (Inl e, d') \<Longrightarrow> db_tables d' = db_tables d"
  by (auto simp: transaction_unless_def split: if_splits prod.splits sum.splits)

lemma transaction_unless_Inr:
  "transaction_unless g m d = (Inr r, d') \<Longrightarrow>
   \<exists>d1. m (db_tick d) = (Inr r, d1) \<and> db_tables d' = (if g r then db_tables d else db_tables d1)"
  by (auto simp: transaction_unless_def split: if_splits prod.splits sum.splits)

lemma fill_revision_done:
  assumes "fill_revision en inp rid d = (Inr (Inr (out, rid')), d')" and "rid \<notin> rw_id ` set rs" and "fl_revisions (db_tables d) = rs @ [r]" and "rw_id r = rid"
  shows "rid' = rid \<and> Compile (fe_wire (ro_fleet en)) (ro_clock en) inp = Inr out \<and>
    (\<exists>r'. fl_revisions (db_tables d') = rs @ [r'] \<and> rw_id r' = rid \<and> rw_state r' = ''compiled'' \<and> rw_manifest r' = Some (co_manifest out)) \<and>
    fl_artifacts (db_tables d') = fl_artifacts (db_tables d) @ map (artifact_row_of (fe_wire (ro_fleet en)) rid) (artifact_list inp out)"
proof -
  from assms(1) obtain x y d1 where c: "Compile (fe_wire (ro_fleet en)) (ro_clock en) inp = Inr out" and r: "rid' = rid"
    and a: "insert_artifacts (fe_wire (ro_fleet en)) rid (artifact_list inp out) d = (Inr x, d1)" and s: "set_compiled rid out d1 = (Inr y, d')"
    by (cases "Compile (fe_wire (ro_fleet en)) (ro_clock en) inp") (auto simp: fill_revision_def tryE_Inr returnE_def)
  let ?f = "\<lambda>r. r\<lparr>rw_state := ''compiled'', rw_hash := mf_model_sha256 (co_manifest out), rw_manifest := Some (co_manifest out), rw_updated := db_now d1\<rparr>"
  from Exec_Inr [OF s [unfolded set_compiled_def]] have t: "db_tables d' = put_revisions (update_rows (\<lambda>r. rw_id r = rid) ?f) (db_tables d1)" by simp
  have "update_rows (\<lambda>r. rw_id r = rid) ?f rs = rs" using assms(2) by (auto simp: update_rows_def intro!: map_idI)
  with assms(3,4) have "fl_revisions (db_tables d') = rs @ [?f r]" by (simp add: t insert_artifacts_Inr [OF a] put_revisions_def update_rows_def)
  moreover have "fl_artifacts (db_tables d') = fl_artifacts (db_tables d) @ map (artifact_row_of (fe_wire (ro_fleet en)) rid) (artifact_list inp out)"
    by (simp add: t insert_artifacts_Inr [OF a] put_revisions_def)
  moreover have "rw_id (?f r) = rid" using assms(4) by simp
  ultimately show ?thesis using c r by (intro conjI exI [of _ "?f r"]) simp_all
qed

lemma store_revision_done:
  assumes "store_revision en inp d = (Inr (Inr (out, rid)), d')"
  shows "rid \<notin> rev_ids (db_tables d) \<and>
    (\<exists>sq r. Compile (fe_wire (ro_fleet en)) (ro_clock en) (inp\<lparr>ci_revision_id := rid, ci_sequence := sq\<rparr>) = Inr out \<and>
      fl_revisions (db_tables d') = fl_revisions (db_tables d) @ [r] \<and> rw_id r = rid \<and> rw_state r = ''compiled'' \<and> rw_manifest r = Some (co_manifest out) \<and>
      fl_artifacts (db_tables d') = fl_artifacts (db_tables d) @
        map (artifact_row_of (fe_wire (ro_fleet en)) rid) (artifact_list (inp\<lparr>ci_revision_id := rid, ci_sequence := sq\<rparr>) out))"
proof -
  from transaction_unless_Inr [OF assms [unfolded store_revision_def]] obtain d1 where
    m: "tryE insert_revision (\<lambda>(rid, sq). fill_revision en (inp\<lparr>ci_revision_id := rid, ci_sequence := sq\<rparr>) rid) (db_tick d) = (Inr (Inr (out, rid)), d1)"
    and d': "db_tables d' = db_tables d1" by auto
  from m obtain rid' sq d2 where i: "insert_revision (db_tick d) = (Inr (rid', sq), d2)"
    and f: "fill_revision en (inp\<lparr>ci_revision_id := rid', ci_sequence := sq\<rparr>) rid' d2 = (Inr (Inr (out, rid)), d1)" by (auto simp: tryE_Inr)
  from insert_revision_Inr [OF i] obtain r where fresh: "rid' \<notin> rev_ids (db_tables d)"
    and r: "fl_revisions (db_tables d2) = fl_revisions (db_tables d) @ [r]" "fl_artifacts (db_tables d2) = fl_artifacts (db_tables d)" "rw_id r = rid'"
    by (auto simp: put_revisions_def)
  from fill_revision_done [OF f fresh r(1,3)] fresh show ?thesis unfolding d' r(2) by blast
qed

lemma store_revision_undone:
  assumes "store_revision en inp d = (res, d')" and "\<And>x. res \<noteq> Inr (Inr x)"
  shows "db_tables d' = db_tables d" and "\<And>e rid. res = Inr (Inl (e, rid)) \<Longrightarrow> rid \<notin> rev_ids (db_tables d)"
proof -
  show "db_tables d' = db_tables d"
  proof (cases res)
    case (Inl e)
    with assms(1) show ?thesis unfolding store_revision_def by (auto dest: transaction_unless_Inl)
  next
    case (Inr y)
    with assms(2) have "isl y" by (cases y) auto
    with transaction_unless_Inr [OF assms(1) [unfolded store_revision_def Inr]] show ?thesis by auto
  qed
  fix e rid assume "res = Inr (Inl (e, rid))"
  with transaction_unless_Inr [of isl _ d "Inl (e, rid)" d'] assms(1) obtain d1 where
    m: "tryE insert_revision (\<lambda>(rid, sq). fill_revision en (inp\<lparr>ci_revision_id := rid, ci_sequence := sq\<rparr>) rid) (db_tick d) = (Inr (Inl (e, rid)), d1)"
    unfolding store_revision_def by blast
  then obtain rid' sq d2 where i: "insert_revision (db_tick d) = (Inr (rid', sq), d2)"
    and f: "fill_revision en (inp\<lparr>ci_revision_id := rid', ci_sequence := sq\<rparr>) rid' d2 = (Inr (Inl (e, rid)), d1)" by (auto simp: tryE_Inr)
  from f have "rid = rid'"
    by (cases "Compile (fe_wire (ro_fleet en)) (ro_clock en) (inp\<lparr>ci_revision_id := rid', ci_sequence := sq\<rparr>)") (auto simp: fill_revision_def tryE_Inr returnE_def)
  with insert_revision_Inr(1) [OF i] show "rid \<notin> rev_ids (db_tables d)" by simp
qed

lemma artifact_list_set:
  assumes "Compile wl now inp = Inr out"
  shows "(nid, c) \<in> set (artifact_list inp out) \<longleftrightarrow> co_artifacts out nid = Some c"
proof -
  obtain acc compiled where c: "compile_nodes wl inp compiled acc (ci_nodes inp) (Map.empty, Map.empty) = Inr (co_artifacts out, co_configs out)"
    using assms by (rule Compile_Inr) blast
  have "dom (co_artifacts out) = ni_id ` set (ci_nodes inp)" using compile_nodes_dom [OF c] by simp
  moreover have "(nid, c) \<in> set (artifact_list inp out) \<longleftrightarrow> nid \<in> ni_id ` set (ci_nodes inp) \<and> co_artifacts out nid = Some c"
    by (force simp: artifact_list_def image_iff)
  ultimately show ?thesis by (metis domI)
qed

lemma gather_input_tables: "gather_input en d = (r, d') \<Longrightarrow> db_tables d' = db_tables d"
  using preservesD [OF wf_gather_input, of "\<lambda>t. t = db_tables d" d en] by simp

lemma compile_state_cases:
  assumes "compile_state en False d = (res, d')"
  obtains (failed) "\<And>x. res \<noteq> Inr (Inr x)" "fl_revisions (db_tables d') = fl_revisions (db_tables d)" "fl_artifacts (db_tables d') = fl_artifacts (db_tables d)"
  | (stored) out rid inp d1 where "res = Inr (Inr (out, rid))" "db_tables d1 = db_tables d" "store_revision en inp d1 = (Inr (Inr (out, rid)), d')"
proof -
  obtain r1 d1 where g: "gather_input en d = (r1, d1)" by fastforce
  note t1 = gather_input_tables [OF g]
  show thesis
  proof (cases r1)
    case (Inl e)
    with assms g t1 show thesis by (intro failed) (auto simp: compile_state_def tryE_def)
  next
    case (Inr inp)
    obtain r2 d2 where s: "store_revision en inp d1 = (r2, d2)" by fastforce
    show thesis
    proof (cases "\<exists>x. r2 = Inr (Inr x)")
      case True
      then obtain out rid where r2: "r2 = Inr (Inr (out, rid))" by auto
      with assms g Inr s have "res = Inr (Inr (out, rid))" "d' = d2" by (simp_all add: compile_state_def tryE_def returnE_def)
      then show thesis using stored [OF _ t1] s r2 by blast
    next
      case False
      then have n: "\<And>x. r2 \<noteq> Inr (Inr x)" by blast
      note t2 = store_revision_undone [OF s n]
      show thesis
      proof (cases r2)
        case (Inl e)
        with assms g Inr s t1 t2(1) show thesis by (intro failed) (auto simp: compile_state_def tryE_def)
      next
        case r2: (Inr y)
        with n obtain e rid where y: "y = Inl (e, rid)" by (cases y) auto
        with r2 t2 t1 have fresh: "rid \<notin> rev_ids (db_tables d2)" by simp
        from assms g Inr s r2 y have run: "res = Inr (Inl e)" "d' = snd (set_validation_failed rid (ro_compile_text en e) d2)"
          by (simp_all add: compile_state_def tryE_def ignoring_def attempt_def returnE_def case_prod_beta)
        have "update_rows (\<lambda>r. rw_id r = rid) f (fl_revisions (db_tables d2)) = fl_revisions (db_tables d2)" for f
          using fresh by (auto simp: update_rows_def intro!: map_idI)
        then have "preserves (\<lambda>t. fl_revisions t = fl_revisions (db_tables d2) \<and> fl_artifacts t = fl_artifacts (db_tables d2)) (set_validation_failed rid (ro_compile_text en e))"
          unfolding set_validation_failed_def by (intro preserves_Exec) (auto simp: put_revisions_def)
        from preservesD [OF this, of d2] run t1 t2(1) show thesis by (intro failed) auto
      qed
    qed
  qed
qed

text \<open>
  Property C10. Compiling is all or nothing: a compilation that succeeds adds one revision, marked compiled, with the manifest and exactly
  the artifacts the compiler produced, and leaves every other revision as it was; one that fails, in the tables, in the rules or in
  the database, leaves no revision and no artifact behind.
\<close>

theorem compile_all_or_nothing:
  assumes "compile_state en False d = (res, d')" and "rollout_wf (db_tables d)"
  shows "case res of
      Inr (Inr (out, rid)) \<Rightarrow> rid \<notin> rev_ids (db_tables d) \<and>
        (\<exists>r. fl_revisions (db_tables d') = fl_revisions (db_tables d) @ [r] \<and> rw_id r = rid \<and> rw_state r = ''compiled'' \<and> rw_manifest r = Some (co_manifest out)) \<and>
        (\<forall>nid c. (nid, c) \<in> set (revision_artifacts rid (db_tables d')) \<longleftrightarrow> co_artifacts out nid = Some c) \<and>
        (\<forall>other. other \<noteq> rid \<longrightarrow> revision_artifacts other (db_tables d') = revision_artifacts other (db_tables d))
    | _ \<Rightarrow> fl_revisions (db_tables d') = fl_revisions (db_tables d) \<and> fl_artifacts (db_tables d') = fl_artifacts (db_tables d)"
  using assms(1)
proof (cases rule: compile_state_cases)
  case failed
  then show ?thesis by (auto split: sum.splits)
next
  case (stored out rid inp d1)
  let ?inp = "\<lambda>sq. inp\<lparr>ci_revision_id := rid, ci_sequence := sq\<rparr>" and ?wl = "fe_wire (ro_fleet en)"
  from store_revision_done [OF stored(3)] stored(2) obtain sq r where fresh: "rid \<notin> rev_ids (db_tables d)"
    and c: "Compile ?wl (ro_clock en) (?inp sq) = Inr out"
    and r: "fl_revisions (db_tables d') = fl_revisions (db_tables d) @ [r]" "rw_id r = rid" "rw_state r = ''compiled''" "rw_manifest r = Some (co_manifest out)"
    and a: "fl_artifacts (db_tables d') = fl_artifacts (db_tables d) @ map (artifact_row_of ?wl rid) (artifact_list (?inp sq) out)" by auto
  have none: "filter (\<lambda>a. ax_rev a = rid) (fl_artifacts (db_tables d)) = []"
    using assms(2) fresh by (auto simp: rollout_wf_def filter_empty_conv)
  have row: "ax_rev (artifact_row_of ?wl rid x) = rid" "(ax_node (artifact_row_of ?wl rid x), ax_content (artifact_row_of ?wl rid x)) = x" for x
    by (simp_all add: artifact_row_of_def)
  have "revision_artifacts rid (db_tables d') = artifact_list (?inp sq) out"
    by (simp add: revision_artifacts_def a none row filter_map comp_def)
  then have "\<forall>nid c. (nid, c) \<in> set (revision_artifacts rid (db_tables d')) \<longleftrightarrow> co_artifacts out nid = Some c" using artifact_list_set [OF c] by simp
  moreover have "revision_artifacts other (db_tables d') = revision_artifacts other (db_tables d)" if "other \<noteq> rid" for other
    using that by (auto simp: revision_artifacts_def a row filter_map comp_def)
  ultimately show ?thesis using stored(1) fresh r by auto
qed

section \<open>A rollout reaches its end\<close>

text \<open>What a rollout does not change.\<close>

definition fixed_part :: "fleet_db \<Rightarrow> artifact_row list \<times> identity_row list \<times> (string \<times> string \<times> string) list \<times> string list" where
  "fixed_part t = (fl_artifacts t, fl_identities t, map (\<lambda>n. (nd_id n, nd_name n, nd_mgmt n)) (fl_nodes t), map rw_id (fl_revisions t))"

lemma fixed_part_keeps:
  "fixed_part (t\<lparr>fl_deploys := ds\<rparr>) = fixed_part t" "fixed_part (t\<lparr>fl_rules := r\<rparr>) = fixed_part t"
  "(\<And>n. nd_id (f n) = nd_id n \<and> nd_name (f n) = nd_name n \<and> nd_mgmt (f n) = nd_mgmt n) \<Longrightarrow> fixed_part (put_nodes (update_rows P f) t) = fixed_part t"
  "(\<And>r. rw_id (g r) = rw_id r) \<Longrightarrow> fixed_part (put_revisions (update_rows Q g) t) = fixed_part t"
  by (simp_all add: fixed_part_def put_nodes_def put_revisions_def map_update_rows)

lemma fixed_ids:
  assumes "fixed_part t' = fixed_part t"
  shows "rev_ids t' = rev_ids t" "node_ids t' = node_ids t" "revision_artifacts rid t' = revision_artifacts rid t"
proof -
  from assms have n: "map fst (map (\<lambda>n. (nd_id n, nd_name n, nd_mgmt n)) (fl_nodes t')) = map fst (map (\<lambda>n. (nd_id n, nd_name n, nd_mgmt n)) (fl_nodes t))"
    and r: "map rw_id (fl_revisions t') = map rw_id (fl_revisions t)" and a: "fl_artifacts t' = fl_artifacts t" by (simp_all add: fixed_part_def)
  from n have "map nd_id (fl_nodes t') = map nd_id (fl_nodes t)" by (simp add: comp_def)
  then show "node_ids t' = node_ids t" by (metis list.set_map)
  from r show "rev_ids t' = rev_ids t" by (metis list.set_map)
  from a show "revision_artifacts rid t' = revision_artifacts rid t" by (simp add: revision_artifacts_def)
qed

lemma target_rows_fixed:
  assumes "fixed_part t' = fixed_part t"
  shows "target_rows nid t' = target_rows nid t"
proof -
  let ?g = "\<lambda>t. \<lambda>(i, n, m). map (\<lambda>x. \<lparr>tg_node = nid, tg_name = n, tg_addr = m, tg_fp = ix_fp x\<rparr>) (live_identity nid t)"
  have "target_rows nid t = concat (map (?g t) (filter (\<lambda>x. fst x = nid) (map (\<lambda>n. (nd_id n, nd_name n, nd_mgmt n)) (fl_nodes t))))" for t
    by (simp add: target_rows_def filter_map comp_def)
  moreover have "live_identity nid t' = live_identity nid t" using assms by (simp add: fixed_part_def live_identity_def)
  ultimately show ?thesis using assms by (simp add: fixed_part_def)
qed

lemma fixed_statements [preserves_rules]:
  "preserves (\<lambda>t. fixed_part t = x) (set_pending rid nid w)" "preserves (\<lambda>t. fixed_part t = x) (set_desired rid nid)"
  "preserves (\<lambda>t. fixed_part t = x) (set_revision_state rid st)" "preserves (\<lambda>t. fixed_part t = x) (recordPush nid rid st code detail)"
  "preserves (\<lambda>t. fixed_part t = x) (set_applied nid res)" "preserves (\<lambda>t. fixed_part t = x) (promote rid st)"
  "preserves (\<lambda>t. fixed_part t = x) (supersede_others rid)"
  unfolding set_pending_def set_desired_def set_revision_state_def recordPush_def push_record_def set_applied_def promote_def supersede_others_def
  by ((intro preserves_rules preserves_Exec; auto simp: fixed_part_keeps split: if_splits))+

lemma fixed_event [preserves_rules]:
  "preserves (\<lambda>t. fixed_part t = x) k \<Longrightarrow> preserves (\<lambda>t. fixed_part t = x) (event put_fleet_events l c d n k)"
  by (rule preserves_event) (simp_all add: put_fleet_events_def fixed_part_keeps)

lemma fixed_assign_waves [preserves_rules]: "preserves (\<lambda>t. fixed_part t = x) (assign_waves rid seen as)"
  by (induction rid seen as rule: assign_waves.induct) (auto intro!: preserves_rules)

lemma fixed_startRollout: "preserves (\<lambda>t. fixed_part t = x) (startRollout en rid)"
  unfolding startRollout_def by (intro preserves_rules)

lemma fixed_pushOne: "preserves (\<lambda>t. fixed_part t = x) (pushOne en pl rid nid c)"
  unfolding pushOne_def targetFor_def reconcileRevisionState_def by (intro preserves_rules)

lemma Exec_guarded:
  assumes "Exec (\<lambda>now u t. if c t then Inl e else Inr (g now u t)) d = (Inr r, d')"
  shows "db_tables d' = g (db_now d) (db_uuid d (db_ops d)) (db_tables d)" and "\<not> c (db_tables d)"
  using Exec_Inr [OF assms] by (simp_all split: if_splits)

lemma upsert_deploy_nodes:
  assumes "\<And>p. dp_node (f p) = dp_node p \<and> dp_rev (f p) = dp_rev p"
  shows "dp_node ` set (filter (\<lambda>p. dp_rev p = dp_rev row) (upsert_deploy row f ds)) = insert (dp_node row) (dp_node ` set (filter (\<lambda>p. dp_rev p = dp_rev row) ds))"
proof (cases "list_ex (\<lambda>p. dp_node p = dp_node row \<and> dp_rev p = dp_rev row) ds")
  case True
  let ?same = "\<lambda>p. dp_node p = dp_node row \<and> dp_rev p = dp_rev row"
  have "map (\<lambda>p. (dp_node p, dp_rev p)) (update_rows ?same f ds) = map (\<lambda>p. (dp_node p, dp_rev p)) ds" by (rule map_update_rows) (simp add: assms)
  from arg_cong [OF this, of set] have e: "(\<lambda>p. (dp_node p, dp_rev p)) ` set (update_rows ?same f ds) = (\<lambda>p. (dp_node p, dp_rev p)) ` set ds"
    by (simp only: list.set_map)
  have pick: "dp_node ` set (filter (\<lambda>p. dp_rev p = dp_rev row) xs) = {n. (n, dp_rev row) \<in> (\<lambda>p. (dp_node p, dp_rev p)) ` set xs}" for xs
    by (auto simp: image_iff)
  have "dp_node row \<in> dp_node ` set (filter (\<lambda>p. dp_rev p = dp_rev row) ds)" using True by (auto simp: list_ex_iff image_iff)
  moreover have "upsert_deploy row f ds = update_rows ?same f ds" using True by (simp add: upsert_deploy_def)
  ultimately show ?thesis by (simp only: pick e insert_absorb)
next
  case False
  then show ?thesis by (simp add: upsert_deploy_def Let_def)
qed

text \<open>Starting: every node with an artifact is pending.\<close>

lemma set_pending_nodes:
  assumes "set_pending rid nid w d = (Inr x, d')"
  shows "dp_node ` set (deploys_of rid (db_tables d')) = insert nid (dp_node ` set (deploys_of rid (db_tables d)))"
proof -
  let ?row = "\<lparr>dp_node = nid, dp_rev = rid, dp_state = ''pending'', dp_wave = w, dp_code = [], dp_detail = [], dp_started = db_now d, dp_finished = None\<rparr>"
  let ?f = "\<lambda>p. p\<lparr>dp_state := ''pending'', dp_wave := w, dp_code := [], dp_detail := [], dp_started := db_now d, dp_finished := None\<rparr>"
  from Exec_guarded(1) [OF assms [unfolded set_pending_def]] have "fl_deploys (db_tables d') = upsert_deploy ?row ?f (fl_deploys (db_tables d))" by simp
  with upsert_deploy_nodes [of ?f ?row] show ?thesis by (simp add: deploys_of_def)
qed

lemma deploys_kept [preserves_rules]:
  "preserves (\<lambda>t. fl_deploys t = x) (set_desired rid nid)" "preserves (\<lambda>t. fl_deploys t = x) (set_revision_state rid st)"
  "preserves (\<lambda>t. fl_deploys t = x) k \<Longrightarrow> preserves (\<lambda>t. fl_deploys t = x) (event put_fleet_events l c d n k)"
  unfolding set_desired_def set_revision_state_def
  by (rule preserves_Exec preserves_event; auto simp: put_nodes_def put_revisions_def put_fleet_events_def split: if_splits)+

lemma assign_waves_nodes:
  "assign_waves rid seen as d = (Inr x, d') \<Longrightarrow>
   dp_node ` set (deploys_of rid (db_tables d')) = dp_node ` set (deploys_of rid (db_tables d)) \<union> fst ` set as"
proof (induction rid seen as arbitrary: d rule: assign_waves.induct)
  case (1 rid seen)
  then show ?case using preservesD [OF deploys_kept(2) [where x = "fl_deploys (db_tables d)"], of d rid "''deploying''"] by (simp add: deploys_of_def)
next
  case (2 rid seen nid role as)
  from "2.prems" obtain y z d1 d2 where p: "set_pending rid nid (if role \<in> set seen then 1 else 0) d = (Inr y, d1)" and s: "set_desired rid nid d1 = (Inr z, d2)"
    and r: "assign_waves rid (if role \<in> set seen then seen else role # seen) as d2 = (Inr x, d')" unfolding assign_waves.simps tryE_Inr by blast
  have "fl_deploys (db_tables d2) = fl_deploys (db_tables d1)" using preservesD [OF deploys_kept(1) [where x = "fl_deploys (db_tables d1)" and rid = rid and nid = nid], of d1] s by simp
  with "2.IH" [OF r] set_pending_nodes [OF p] show ?case by (auto simp: deploys_of_def)
qed

lemma rollout_nodes_set:
  assumes "rollout_wf t"
  shows "fst ` set (rollout_nodes en rid t) = fst ` set (revision_artifacts rid t)"
proof -
  have "ax_node a \<in> node_ids t" if "a \<in> set (fl_artifacts t)" for a using assms that by (simp add: rollout_wf_def)
  then have "{nd_id n | n a. a \<in> set (fl_artifacts t) \<and> ax_rev a = rid \<and> n \<in> set (fl_nodes t) \<and> nd_id n = ax_node a} = {ax_node a | a. a \<in> set (fl_artifacts t) \<and> ax_rev a = rid}"
    by (auto simp: image_iff) metis
  moreover have "fst ` set (rollout_nodes en rid t) = {nd_id n | n a. a \<in> set (fl_artifacts t) \<and> ax_rev a = rid \<and> n \<in> set (fl_nodes t) \<and> nd_id n = ax_node a}"
    by (auto simp: rollout_nodes_def image_iff; metis)
  moreover have "fst ` set (revision_artifacts rid t) = {ax_node a | a. a \<in> set (fl_artifacts t) \<and> ax_rev a = rid}"
    by (auto simp: revision_artifacts_def image_iff)
  ultimately show ?thesis by simp
qed

lemma startRollout_pending:
  assumes run: "startRollout en rid d = (Inr x, d')" and wf: "rollout_wf (db_tables d)"
  shows "dp_node ` set (deploys_of rid (db_tables d')) = dp_node ` set (deploys_of rid (db_tables d)) \<union> fst ` set (revision_artifacts rid (db_tables d))"
    and "revision_artifacts rid (db_tables d) \<noteq> []" and "rid \<in> rev_ids (db_tables d)" and "fixed_part (db_tables d') = fixed_part (db_tables d)"
proof -
  obtain r d1 where 1: "One (\<lambda>t. filter (\<lambda>r. rw_id r = rid) (fl_revisions t)) d = (Inr r, d1)"
    and r1: "(if rw_state r = ''validation_failed'' then throwE conflictErr
       else tryE (Many (rollout_nodes en rid)) (\<lambda>arts. if arts = [] then throwE conflictErr
         else tryE (transaction (assign_waves rid [] arts)) (\<lambda>_. event put_fleet_events ''info'' ''rollout'' ''deploy_started'' None (returnE ())))) d1 = (Inr x, d')"
    using run unfolding startRollout_def tryE_Inr by blast
  from One_Inr [OF 1] have t1: "db_tables d1 = db_tables d" and rid: "\<exists>rs. filter (\<lambda>r. rw_id r = rid) (fl_revisions (db_tables d)) = r # rs" by auto
  from rid have "r \<in> set (filter (\<lambda>r. rw_id r = rid) (fl_revisions (db_tables d)))" by (metis list.set_intros(1))
  then show "rid \<in> rev_ids (db_tables d)" by auto
  from r1 obtain arts d2 where 2: "Many (rollout_nodes en rid) d1 = (Inr arts, d2)"
    and r2: "(if arts = [] then throwE conflictErr else tryE (transaction (assign_waves rid [] arts)) (\<lambda>_. event put_fleet_events ''info'' ''rollout'' ''deploy_started'' None (returnE ()))) d2 = (Inr x, d')"
    by (cases "rw_state r = ''validation_failed''") (simp_all add: throwE_def tryE_Inr, blast)
  from Many_Inr [OF 2] t1 have arts: "arts = rollout_nodes en rid (db_tables d)" and t2: "db_tables d2 = db_tables d" by simp_all
  from r2 obtain y d3 where ne: "arts \<noteq> []" and 3: "transaction (assign_waves rid [] arts) d2 = (Inr y, d3)"
    and 4: "event put_fleet_events ''info'' ''rollout'' ''deploy_started'' None (returnE ()) d3 = (Inr x, d')"
    by (cases "arts = []") (simp_all add: throwE_def tryE_Inr, blast)
  from transaction_Inr [OF 3] obtain d4 where w: "assign_waves rid [] arts (db_tick d2) = (Inr y, d4)" and t3: "db_tables d3 = db_tables d4" by blast
  have "preserves (\<lambda>t. fl_deploys t = fl_deploys (db_tables d3)) (event put_fleet_events ''info'' ''rollout'' ''deploy_started'' None (returnE ()))"
    by (intro preserves_rules)
  from preservesD [OF this, of d3] 4 have "fl_deploys (db_tables d') = fl_deploys (db_tables d3)" by simp
  with assign_waves_nodes [OF w] t2 t3 arts rollout_nodes_set [OF wf, of en rid]
  show "dp_node ` set (deploys_of rid (db_tables d')) = dp_node ` set (deploys_of rid (db_tables d)) \<union> fst ` set (revision_artifacts rid (db_tables d))"
    by (simp add: deploys_of_def)
  show "revision_artifacts rid (db_tables d) \<noteq> []" using ne arts rollout_nodes_set [OF wf, of en rid] by auto
  show "fixed_part (db_tables d') = fixed_part (db_tables d)" using preservesD [OF fixed_startRollout [where x = "fixed_part (db_tables d)" and en = en and rid = rid], of d] run by simp
qed

text \<open>One delivery on a sound database.\<close>

definition db_after :: "'t db \<Rightarrow> 't \<Rightarrow> 't db" where
  "db_after d t = (db_tick d)\<lparr>db_tables := t\<rparr>"

lemma db_after_simps [simp]: "db_tables (db_after d t) = t" "db_now (db_after d t) = db_now d" "healthy (db_after d t) = healthy d"
  by (simp_all add: db_after_def healthy_def db_tick_def)

lemma Exec_healthy: "healthy d \<Longrightarrow> f (db_now d) (db_uuid d (db_ops d)) (db_tables d) = Inr t \<Longrightarrow> Exec f d = (Inr (), db_after d t)"
  by (simp add: Exec_def stmt_def healthy_def db_after_def)

lemma One_healthy: "healthy d \<Longrightarrow> q (db_tables d) = r # rs \<Longrightarrow> One q d = (Inr r, db_after d (db_tables d))"
  by (simp add: One_def stmt_def healthy_def db_after_def)

definition reconciled :: "int \<Rightarrow> string \<Rightarrow> fleet_db \<Rightarrow> fleet_db" where
  "reconciled now rid t = (case progress (deploys_of rid t) of
     None \<Rightarrow> t
   | Some st \<Rightarrow>
       let t1 = put_revisions (update_rows (\<lambda>r. rw_id r = rid) (\<lambda>r. r\<lparr>rw_state := st,
         rw_activated := (if st \<in> {''active'', ''partially_active''} then Some (coalesce (rw_activated r) now) else rw_activated r), rw_updated := now\<rparr>)) t in
       if st = ''active'' then put_revisions (update_rows (\<lambda>r. rw_state r = ''active'' \<and> rw_id r \<noteq> rid) (\<lambda>r. r\<lparr>rw_state := ''superseded'', rw_updated := now\<rparr>)) t1 else t1)"

lemma reconcile_healthy:
  assumes "healthy d"
  shows "\<exists>d'. reconcileRevisionState rid d = (Inr (), d') \<and> db_tables d' = reconciled (db_now d) rid (db_tables d) \<and> healthy d' \<and> db_now d' = db_now d"
  using assms
  by (simp add: reconcileRevisionState_def attempt_def One_healthy ignoring_def reconciled_def promote_def supersede_others_def Exec_healthy returnE_def Let_def
      cong: if_cong split: option.splits)

definition delivered :: "int \<Rightarrow> string \<Rightarrow> string \<Rightarrow> push_result \<Rightarrow> fleet_db \<Rightarrow> fleet_db" where
  "delivered now rid nid res t =
     put_nodes (update_rows (\<lambda>n. nd_id n = nid)
       (\<lambda>n. n\<lparr>nd_applied := Some (pr_revision res), nd_applied_seq := pr_sequence res, nd_error := [], nd_updated := now\<rparr>))
       (t\<lparr>fl_deploys := upsert_deploy
         \<lparr>dp_node = nid, dp_rev = rid, dp_state = ''applied'', dp_wave = 0, dp_code = [], dp_detail = [], dp_started = now, dp_finished = Some now\<rparr>
         (\<lambda>p. p\<lparr>dp_state := ''applied'', dp_code := [], dp_detail := [], dp_finished := Some now\<rparr>) (fl_deploys t)\<rparr>)"

lemma list_ex_ids: "nid \<in> node_ids t \<Longrightarrow> list_ex (\<lambda>n. nd_id n = nid) (fl_nodes t)" "rid \<in> rev_ids t \<Longrightarrow> list_ex (\<lambda>r. rw_id r = rid) (fl_revisions t)"
  by (auto simp: list_ex_iff)

lemma pushOne_healthy:
  assumes h: "healthy d" and tg: "target_rows nid (db_tables d) = tg # rest" "tg_addr tg \<noteq> []" and p: "PushConfig pl (ro_net en) tg c = Inr res"
    and ids: "pr_revision res \<in> rev_ids (db_tables d)" "rid \<in> rev_ids (db_tables d)" "nid \<in> node_ids (db_tables d)"
  shows "\<exists>d'. pushOne en pl rid nid c d = (Inr (), d') \<and> db_tables d' = reconciled (db_now d) rid (delivered (db_now d) rid nid res (db_tables d)) \<and>
    healthy d' \<and> db_now d' = db_now d"
proof -
  let ?d1 = "db_after d (db_tables d)" and ?now = "db_now d"
  let ?t2 = "(db_tables d)\<lparr>fl_deploys := upsert_deploy
         \<lparr>dp_node = nid, dp_rev = rid, dp_state = ''applied'', dp_wave = 0, dp_code = [], dp_detail = [], dp_started = ?now, dp_finished = Some ?now\<rparr>
         (\<lambda>p. p\<lparr>dp_state := ''applied'', dp_code := [], dp_detail := [], dp_finished := Some ?now\<rparr>) (fl_deploys (db_tables d))\<rparr>"
  let ?t3 = "delivered ?now rid nid res (db_tables d)"
  have t: "targetFor nid d = (Inr tg, ?d1)" using One_healthy [of d "target_rows nid", OF h tg(1)] tg(2) by (simp add: targetFor_def tryE_def returnE_def)
  have r: "recordPush nid rid ''applied'' [] [] ?d1 = (Inr (), db_after ?d1 ?t2)"
    using h ids list_ex_ids(1) [OF ids(3)] list_ex_ids(2) [OF ids(2)]
    by (simp add: recordPush_def push_record_def ignoring_def attempt_def Exec_healthy returnE_def finished_at_def)
  have s: "set_applied nid res (db_after ?d1 ?t2) = (Inr (), db_after (db_after ?d1 ?t2) ?t3)"
    unfolding set_applied_def
    by (rule Exec_healthy) (use h ids list_ex_ids(2) [OF ids(1)] in \<open>simp_all add: knows_revision_def delivered_def\<close>)
  from reconcile_healthy [of "db_after (db_after ?d1 ?t2) ?t3" rid] h obtain d' where
    "reconcileRevisionState rid (db_after (db_after ?d1 ?t2) ?t3) = (Inr (), d')" "db_tables d' = reconciled ?now rid ?t3" "healthy d'" "db_now d' = ?now"
    by auto
  then show ?thesis using t r s p by (simp add: pushOne_def attempt_def tryE_def ignoring_def)
qed

text \<open>How far a rollout of the revision has come: the nodes in a set are done.\<close>

definition rollout_at :: "string \<Rightarrow> string set \<Rightarrow> string set \<Rightarrow> fleet_db \<Rightarrow> bool" where
  "rollout_at rid nodes ok t \<longleftrightarrow> dp_node ` set (deploys_of rid t) = nodes \<and> (\<forall>p\<in>set (deploys_of rid t). dp_node p \<in> ok \<longrightarrow> dp_state p = ''applied'') \<and>
     (\<forall>n\<in>set (fl_nodes t). nd_id n \<in> ok \<longrightarrow> nd_applied n = Some rid)"

lemma reconciled_keeps [simp]: "fl_deploys (reconciled now rid t) = fl_deploys t" "fl_nodes (reconciled now rid t) = fl_nodes t"
  by (simp_all add: reconciled_def put_revisions_def Let_def split: option.splits)

lemma rollout_at_reconciled [simp]: "rollout_at rid ns ok (reconciled now rid t) = rollout_at rid ns ok t"
  by (simp add: rollout_at_def deploys_of_def)

lemma upsert_deploy_applied:
  assumes "p \<in> set (upsert_deploy row f ds)" and "\<And>q. dp_node (f q) = dp_node q \<and> dp_rev (f q) = dp_rev q \<and> dp_state (f q) = dp_state row"
  shows "dp_node p = dp_node row \<and> dp_rev p = dp_rev row \<and> dp_state p = dp_state row \<or> p \<in> set ds \<and> \<not> (dp_node p = dp_node row \<and> dp_rev p = dp_rev row)"
proof (cases "list_ex (\<lambda>p. dp_node p = dp_node row \<and> dp_rev p = dp_rev row) ds")
  case True
  with assms(1) obtain q where q: "q \<in> set ds" "p = (if dp_node q = dp_node row \<and> dp_rev q = dp_rev row then f q else q)"
    by (auto simp: upsert_deploy_def set_update_rows)
  then show ?thesis using assms(2) [of q] by (cases "dp_node q = dp_node row \<and> dp_rev q = dp_rev row") auto
next
  case False
  with assms(1) have "p = row \<or> p \<in> set ds" by (simp add: upsert_deploy_def)
  with False show ?thesis by (auto simp: list_ex_iff)
qed

lemma delivered_nodes:
  assumes "n \<in> set (fl_nodes (delivered now rid nid res t))"
  shows "nd_id n = nid \<and> nd_applied n = Some (pr_revision res) \<or> nd_id n \<noteq> nid \<and> n \<in> set (fl_nodes t)"
proof -
  let ?g = "\<lambda>n. n\<lparr>nd_applied := Some (pr_revision res), nd_applied_seq := pr_sequence res, nd_error := [], nd_updated := now\<rparr>"
  from assms obtain m where m: "m \<in> set (fl_nodes t)" "n = (if nd_id m = nid then ?g m else m)"
    by (simp add: delivered_def put_nodes_def set_update_rows) blast
  then show ?thesis by (cases "nd_id m = nid") simp_all
qed

lemma rollout_at_delivered:
  assumes "rollout_at rid nodes ok t" and "nid \<in> nodes" and "pr_revision res = rid"
  shows "rollout_at rid nodes (insert nid ok) (delivered now rid nid res t)"
proof -
  let ?row = "\<lparr>dp_node = nid, dp_rev = rid, dp_state = ''applied'', dp_wave = 0, dp_code = [], dp_detail = [], dp_started = now, dp_finished = Some now\<rparr>"
  let ?f = "\<lambda>p. p\<lparr>dp_state := ''applied'', dp_code := [], dp_detail := [], dp_finished := Some now\<rparr>"
  have d: "fl_deploys (delivered now rid nid res t) = upsert_deploy ?row ?f (fl_deploys t)" by (simp add: delivered_def put_nodes_def)
  have "dp_node ` set (deploys_of rid (delivered now rid nid res t)) = nodes"
    using upsert_deploy_nodes [of ?f ?row "fl_deploys t"] assms(1,2) by (auto simp: deploys_of_def d rollout_at_def)
  moreover have "dp_state p = ''applied''" if "p \<in> set (deploys_of rid (delivered now rid nid res t))" "dp_node p \<in> insert nid ok" for p
    using upsert_deploy_applied [of p ?row ?f "fl_deploys t"] that assms(1) by (auto simp: deploys_of_def d rollout_at_def)
  moreover have "nd_applied n = Some rid" if "n \<in> set (fl_nodes (delivered now rid nid res t))" "nd_id n \<in> insert nid ok" for n
    using delivered_nodes [OF that(1)] that(2) assms(1,3) by (auto simp: rollout_at_def)
  ultimately show ?thesis by (simp add: rollout_at_def)
qed

lemma all_applied_active:
  assumes "rollout_at rid nodes nodes t" and "nodes \<noteq> {}"
  shows "progress (deploys_of rid t) = Some ''active''"
proof -
  have "dp_state p = ''applied''" if "p \<in> set (deploys_of rid t)" for p using assms(1) that by (auto simp: rollout_at_def)
  then have "filter (\<lambda>p. dp_state p = ''applied'') (deploys_of rid t) = deploys_of rid t" by (simp add: filter_id_conv)
  moreover have "deploys_of rid t \<noteq> []" using assms by (auto simp: rollout_at_def)
  ultimately show ?thesis by (simp add: progress_def count_rows_def)
qed

definition only_active :: "string \<Rightarrow> fleet_db \<Rightarrow> bool" where
  "only_active rid t \<longleftrightarrow> (\<forall>r\<in>set (fl_revisions t). (rw_id r = rid \<longrightarrow> rw_state r = ''active'' \<and> rw_activated r \<noteq> None) \<and> (rw_state r = ''active'' \<longrightarrow> rw_id r = rid))"

lemma reconciled_active:
  assumes "progress (deploys_of rid t) = Some ''active''"
  shows "only_active rid (reconciled now rid t)"
  unfolding only_active_def
proof
  let ?f = "\<lambda>r. r\<lparr>rw_state := ''active'', rw_activated := Some (coalesce (rw_activated r) now), rw_updated := now\<rparr>"
  let ?g = "\<lambda>r. r\<lparr>rw_state := ''superseded'', rw_updated := now\<rparr>"
  fix r assume "r \<in> set (fl_revisions (reconciled now rid t))"
  then have "r \<in> set (update_rows (\<lambda>r. rw_state r = ''active'' \<and> rw_id r \<noteq> rid) ?g (update_rows (\<lambda>r. rw_id r = rid) ?f (fl_revisions t)))"
    by (simp add: reconciled_def assms put_revisions_def)
  from iffD1 [OF set_update_rows this] obtain q where m: "q \<in> set (update_rows (\<lambda>r. rw_id r = rid) ?f (fl_revisions t))"
    and q: "r = (if rw_state q = ''active'' \<and> rw_id q \<noteq> rid then ?g q else q)" by (rule bexE)
  from iffD1 [OF set_update_rows m] obtain s where "q = (if rw_id s = rid then ?f s else s)" by (rule bexE)
  then have "rw_id q = rid \<longrightarrow> rw_state q = ''active'' \<and> rw_activated q \<noteq> None" by (cases "rw_id s = rid") simp_all
  with q show "(rw_id r = rid \<longrightarrow> rw_state r = ''active'' \<and> rw_activated r \<noteq> None) \<and> (rw_state r = ''active'' \<longrightarrow> rw_id r = rid)"
    by (cases "rw_state q = ''active'' \<and> rw_id q \<noteq> rid") auto
qed

definition answers :: "rollout_env \<Rightarrow> push_lib \<Rightarrow> string \<Rightarrow> fleet_db \<Rightarrow> string \<times> bytes \<Rightarrow> bool" where
  "answers en pl rid t a \<longleftrightarrow> (\<exists>tg rest res. target_rows (fst a) t = tg # rest \<and> tg_addr tg \<noteq> [] \<and> PushConfig pl (ro_net en) tg (snd a) = Inr res \<and> pr_revision res = rid)"

lemma answers_fixed: "fixed_part t' = fixed_part t \<Longrightarrow> answers en pl rid t' a = answers en pl rid t a"
  unfolding answers_def by (drule target_rows_fixed [of t' t "fst a"]) (simp only:)

lemma push_loop:
  assumes "healthy d" and "rid \<in> rev_ids (db_tables d)" and "fst ` set arts \<subseteq> nodes" and "nodes \<subseteq> node_ids (db_tables d)"
    and "\<forall>a\<in>set arts. answers en pl rid (db_tables d) a" and "rollout_at rid nodes ok (db_tables d)" and "ok \<union> fst ` set arts = nodes" and "arts \<noteq> []"
  shows "\<exists>d'. forEachNode (\<lambda>(nid, content). pushOne en pl rid nid content) arts d = (Inr (), d') \<and> rollout_at rid nodes nodes (db_tables d') \<and> only_active rid (db_tables d')"
  using assms
proof (induction arts arbitrary: d ok)
  case (Cons a arts)
  obtain nid c where a: "a = (nid, c)" by (cases a)
  from Cons.prems(5) a obtain tg rest res where tg: "target_rows nid (db_tables d) = tg # rest" "tg_addr tg \<noteq> []"
    and p: "PushConfig pl (ro_net en) tg c = Inr res" and r: "pr_revision res = rid" by (auto simp: answers_def)
  have nid: "nid \<in> nodes" "nid \<in> node_ids (db_tables d)" using Cons.prems(3,4) a by auto
  from pushOne_healthy [OF Cons.prems(1) tg p _ Cons.prems(2) nid(2)] r Cons.prems(2) obtain d1 where
    d1: "pushOne en pl rid nid c d = (Inr (), d1)" "db_tables d1 = reconciled (db_now d) rid (delivered (db_now d) rid nid res (db_tables d))" "healthy d1" by auto
  let ?t = "delivered (db_now d) rid nid res (db_tables d)"
  from rollout_at_delivered [OF Cons.prems(6) nid(1) r] have at1: "rollout_at rid nodes (insert nid ok) ?t" .
  then have at: "rollout_at rid nodes (insert nid ok) (db_tables d1)" by (simp add: d1(2))
  have fx: "fixed_part (db_tables d1) = fixed_part (db_tables d)"
    using preservesD [OF fixed_pushOne [where x = "fixed_part (db_tables d)" and en = en and pl = pl and rid = rid and nid = nid and c = c], of d] d1(1) by simp
  show ?case
  proof (cases "arts = []")
    case True
    with Cons.prems(7) a have "insert nid ok = nodes" by auto
    with at at1 all_applied_active [of rid nodes ?t] nid(1) have "rollout_at rid nodes nodes (db_tables d1)" "only_active rid (db_tables d1)"
      by (auto simp: d1(2) intro: reconciled_active)
    with True a d1(1) show ?thesis by (simp add: tryE_def returnE_def)
  next
    case False
    have "\<exists>d'. forEachNode (\<lambda>(nid, content). pushOne en pl rid nid content) arts d1 = (Inr (), d') \<and> rollout_at rid nodes nodes (db_tables d') \<and> only_active rid (db_tables d')"
    proof (rule Cons.IH [OF d1(3) _ _ _ _ at _ False])
      show "rid \<in> rev_ids (db_tables d1)" "nodes \<subseteq> node_ids (db_tables d1)" using Cons.prems(2,4) fixed_ids [OF fx] by simp_all
      show "\<forall>a\<in>set arts. answers en pl rid (db_tables d1) a" using Cons.prems(5) answers_fixed [OF fx] by simp
      show "fst ` set arts \<subseteq> nodes" "insert nid ok \<union> fst ` set arts = nodes" using Cons.prems(3,7) a by auto
    qed
    with a d1(1) show ?thesis by (simp add: tryE_def)
  qed
qed simp


section \<open>What is recorded as applied\<close>

lemma recordPush_rows:
  assumes "recordPush nid rid st code detail d = (res, d')" and "p \<in> set (fl_deploys (db_tables d'))"
  shows "res = Inr () \<and> (dp_node p = nid \<and> dp_rev p = rid \<and> dp_state p = st \<or> p \<in> set (fl_deploys (db_tables d)))"
proof -
  obtain r1 d1 where x: "push_record nid rid st code detail d = (r1, d1)" by fastforce
  from assms(1) x have e: "res = Inr ()" "d' = d1" by (simp_all add: recordPush_def ignoring_def attempt_def returnE_def)
  show ?thesis
  proof (cases r1)
    case (Inl f)
    with x assms(2) e show ?thesis by (auto simp: push_record_def dest: Exec_Inl)
  next
    case (Inr u)
    let ?row = "\<lparr>dp_node = nid, dp_rev = rid, dp_state = st, dp_wave = 0, dp_code = code, dp_detail = take 1000 detail, dp_started = db_now d, dp_finished = finished_at st (db_now d)\<rparr>"
    let ?f = "\<lambda>p. p\<lparr>dp_state := st, dp_code := code, dp_detail := take 1000 detail, dp_finished := finished_at st (db_now d)\<rparr>"
    from Exec_guarded(1) [OF x [unfolded Inr push_record_def]] assms(2) e(2) have "p \<in> set (upsert_deploy ?row ?f (fl_deploys (db_tables d)))" by simp
    from upsert_deploy_applied [OF this] e(1) show ?thesis by auto
  qed
qed

lemma target_rows_identity:
  assumes "tg \<in> set (target_rows nid t)"
  shows "tg_node tg = nid \<and> (\<exists>i\<in>set (fl_identities t). ix_node i = nid \<and> ix_revoked i = None \<and> tg_fp tg = ix_fp i)"
  using assms by (auto simp: target_rows_def live_identity_def)

lemma targetFor_tables:
  assumes "targetFor nid d = (r, d')"
  shows "db_tables d' = db_tables d" and "r = Inr tg \<Longrightarrow> tg \<in> set (target_rows nid (db_tables d)) \<and> tg_addr tg \<noteq> []"
proof -
  have "preserves (\<lambda>t. t = db_tables d) (targetFor nid)" unfolding targetFor_def by (intro preserves_rules)
  from preservesD [OF this, of d] assms show "db_tables d' = db_tables d" by simp
  assume "r = Inr tg"
  with assms obtain d1 where "One (target_rows nid) d = (Inr tg, d1)" "tg_addr tg \<noteq> []"
    by (auto simp: targetFor_def tryE_Inr throwE_def returnE_def split: if_splits)
  with One_Inr [of "target_rows nid" d tg d1] show "tg \<in> set (target_rows nid (db_tables d)) \<and> tg_addr tg \<noteq> []" by (metis list.set_intros(1))
qed

lemma deploys_rest [preserves_rules]:
  "preserves (\<lambda>t. fl_deploys t = x) (set_applied nid res)" "preserves (\<lambda>t. fl_deploys t = x) (promote rid st)" "preserves (\<lambda>t. fl_deploys t = x) (supersede_others rid)"
  unfolding set_applied_def promote_def supersede_others_def
  by (rule preserves_Exec, auto simp: put_nodes_def put_revisions_def split: if_splits)+


section \<open>Polling\<close>

lemma fixed_poll [preserves_rules]:
  "preserves (\<lambda>t. fixed_part t = x) (poll_ok nid h)" "preserves (\<lambda>t. fixed_part t = x) (poll_sample nid h)"
  unfolding poll_ok_def poll_sample_def
  by (rule preserves_Exec; auto simp: fixed_part_keeps fixed_part_def put_nodes_def map_update_rows split: if_splits)+

lemma steady_poll: "steady (poll_ok nid h)" "steady (poll_sample nid h)"
  unfolding poll_ok_def poll_sample_def by (intro steady_rules)+

text \<open>
  Drift is repaired: a node that answers a poll with another revision than the one it should run is pushed that revision again, and
  when it acknowledges, the panel has it on record with the revision it should run.
\<close>

theorem drift_repaired:
  assumes "healthy d" and "Poll pl (ro_net en) t = Inr h" and "drifted (Some rid) h" and "tg_node t = nid"
    and "map ax_content (filter (\<lambda>a. ax_rev a = rid \<and> ax_node a = nid) (fl_artifacts (db_tables d))) = c # cs"
    and "answers en pl rid (db_tables d) (nid, c)" and "rid \<in> rev_ids (db_tables d)" and "nid \<in> node_ids (db_tables d)"
  shows "\<exists>d'. poll_node en pl (t, Some rid) d = (Inr (), d') \<and> (\<forall>n\<in>set (fl_nodes (db_tables d')). nd_id n = nid \<longrightarrow> nd_applied n = Some rid)"
proof -
  obtain r1 d1 r2 d2 where 1: "poll_ok nid h d = (r1, d1)" and 2: "poll_sample nid h d1 = (r2, d2)" by fastforce
  have h: "healthy d2" by (rule healthy_step [OF steady_poll(2) healthy_step [OF steady_poll(1) assms(1) 1] 2])
  have "fixed_part (db_tables d1) = fixed_part (db_tables d)" using preservesD [OF fixed_poll(1) [where x = "fixed_part (db_tables d)" and nid = nid and h = h], of d] 1 by simp
  moreover have "fixed_part (db_tables d2) = fixed_part (db_tables d1)" using preservesD [OF fixed_poll(2) [where x = "fixed_part (db_tables d1)" and nid = nid and h = h], of d1] 2 by simp
  ultimately have fx: "fixed_part (db_tables d2) = fixed_part (db_tables d)" by simp
  let ?q = "\<lambda>t. map ax_content (filter (\<lambda>a. ax_rev a = rid \<and> ax_node a = nid) (fl_artifacts t))"
  have "?q (db_tables d2) = c # cs" using assms(5) fx by (simp add: fixed_part_def)
  note o = One_healthy [of d2 ?q, OF h this]
  let ?d3 = "db_after d2 (db_tables d2)"
  from assms(6) answers_fixed [OF fx, of en pl rid "(nid, c)"] obtain tg rest res where
    a: "target_rows nid (db_tables ?d3) = tg # rest" "tg_addr tg \<noteq> []" "PushConfig pl (ro_net en) tg c = Inr res" "pr_revision res = rid"
    by (auto simp: answers_def)
  from pushOne_healthy [of ?d3, OF _ a(1-3), of rid] h a(4) assms(7,8) fixed_ids [OF fx] obtain d' where
    p: "pushOne en pl rid nid c ?d3 = (Inr (), d')" and t: "db_tables d' = reconciled (db_now d2) rid (delivered (db_now d2) rid nid res (db_tables d2))" by auto
  have "poll_node en pl (t, Some rid) d = (Inr (), d')"
    using assms(2-4) 1 2 o p by (simp add: poll_node_def ignoring_def attempt_def repush_def deref_def)
  moreover have "nd_applied n = Some rid" if "n \<in> set (fl_nodes (db_tables d'))" "nd_id n = nid" for n
    using delivered_nodes [of n "db_now d2" rid nid res "db_tables d2"] that a(4) by (simp add: t)
  ultimately show ?thesis by blast
qed

section \<open>Gaps\<close>

lemma failing_push_revisions:
  assumes "\<And>tg c. \<exists>e. PushConfig pl (ro_net en) tg c = Inl e"
  shows "preserves (\<lambda>t. fl_revisions t = x) (pushOne en pl rid nid c)"
proof -
  have r: "preserves (\<lambda>t. fl_revisions t = x) (recordPush nid rid st code detail)" for st code detail
    unfolding recordPush_def push_record_def by (intro preserves_rules preserves_Exec) (auto split: if_splits)
  have "PushConfig pl (ro_net en) tg c \<noteq> Inr y" for tg y using assms [of tg c] by auto
  then show ?thesis unfolding pushOne_def targetFor_def by (intro preserves_rules r) (auto split: sum.splits intro: r)
qed

text \<open>
  A rollout in which every push fails never ends: the state of a revision is reconsidered only after a successful push, so it stays deploying
  and is never marked as failed.
\<close>

theorem failed_rollout_stays_deploying:
  assumes "ro_pusher en = Some pl" and "\<And>tg c. \<exists>e. PushConfig pl (ro_net en) tg c = Inl e"
  shows "fl_revisions (db_tables (snd (pushRevision en rid d))) = fl_revisions (db_tables d)"
proof -
  have "preserves (\<lambda>t. fl_revisions t = fl_revisions (db_tables d)) (pushRevision en rid)"
    unfolding pushRevision_def assms(1) option.case by (intro preserves_rules failing_push_revisions assms(2))
  from preservesD [OF this, of d] show ?thesis by simp
qed

text \<open>
  A node that reports a revision the database does not know, after a restore for instance, cannot be polled: the update violates the foreign
  key, the error is dropped, and neither its status nor the time it was seen is recorded.
\<close>

theorem unknown_revision_hides_node:
  assumes "hl_applied_revision_id h \<noteq> []" and "nid \<in> node_ids (db_tables d)" and "\<not> knows_revision (hl_applied_revision_id h) (db_tables d)"
  shows "db_tables (snd (poll_ok nid h d)) = db_tables d"
  using assms by (auto simp: poll_ok_def Exec_def stmt_def list_ex_iff)

text \<open>A list setting that cannot be read counts as empty, and the next edit replaces it.\<close>

theorem unread_list_is_lost:
  "map_of (fl_settings (db_tables (snd (appendSettingList (=) ''doh_path_tokens'' ''b''
     ((demo_db ((empty_fleet empty_rules)\<lparr>fl_settings := [(''doh_path_tokens'', JArr [JStr ''a''])]\<rparr>))\<lparr>db_fail := (\<lambda>n. n = 0)\<rparr>))))) ''doh_path_tokens'' =
   Some (JArr [JStr ''b''])"
  by code_simp

lemma steady_assign_waves [steady_rules]: "steady (assign_waves rid seen as)"
  by (induction rid seen as rule: assign_waves.induct)
    (auto simp: set_pending_def set_desired_def set_revision_state_def intro!: steady_rules)

lemma revision_ids_pushOne: "preserves (\<lambda>t. map rw_id (fl_revisions t) = x) (pushOne en pl rid nid c)"
proof -
  have "map rw_id (fl_revisions t) = snd (snd (snd (fixed_part t)))" for t by (simp add: fixed_part_def)
  moreover have "preserves (\<lambda>t. snd (snd (snd (fixed_part t))) = x) (pushOne en pl rid nid c)"
    unfolding preserves_def
  proof (intro allI impI)
    fix d :: "fleet_db db" assume "snd (snd (snd (fixed_part (db_tables d)))) = x"
    then show "snd (snd (snd (fixed_part (db_tables (snd (pushOne en pl rid nid c d)))))) = x"
      using preservesD [OF fixed_pushOne [where x = "fixed_part (db_tables d)" and en = en and pl = pl and rid = rid and nid = nid and c = c], of d] by simp
  qed
  ultimately show ?thesis by simp
qed

section \<open>Examples\<close>

definition demo_pusher :: push_lib where
  "demo_pusher = \<lparr>pl_net = plain_net, pl_sha256 = (\<lambda>b. b), pl_chain_ok = (\<lambda>_ _. True), pl_url_ok = (\<lambda>_. True),
     pl_json_push = (\<lambda>b. Some \<lparr>pr_revision = string_of_bytes b, pr_sequence = 1, pr_status = ''healthy''\<rparr>), pl_json_health = (\<lambda>_. None), pl_json_cert = (\<lambda>_. None),
     pl_cert_body = (\<lambda>_. [])\<rparr>"

definition demo_net :: "string \<Rightarrow> panel_net" where
  "demo_net rid = \<lparr>pn_dial = (\<lambda>a. if a = ''10.0.0.1:3333'' then Some [[1]] else None), pn_serve = (\<lambda>_ _ _ _. Some (200, bytes_of_string rid))\<rparr>"

definition demo_rollout_env :: rollout_env where
  "demo_rollout_env = \<lparr>ro_fleet = demo_fleet_env, ro_builder = demo_builder, ro_pusher = Some demo_pusher, ro_net = demo_net ''r1'', ro_lab = False, ro_key = [],
     ro_clock = 0, ro_collate = (\<lambda>s. s), ro_output_json = (\<lambda>_. JNull), ro_error_text = (\<lambda>_. []), ro_fail_text = (\<lambda>_. []), ro_compile_text = (\<lambda>_. [])\<rparr>"

definition demo_row :: "string \<Rightarrow> string \<Rightarrow> node_row" where
  "demo_row i role = \<lparr>nd_id = i, nd_name = i, nd_role = role, nd_ipv4 = Some ''192.0.2.1'', nd_ipv6 = None, nd_relay = Some ''192.0.2.1:8443'', nd_sni = None, nd_mgmt = ''10.0.0.1'',
     nd_region = [], nd_country = [], nd_notes = [], nd_agent = [], nd_status = ''healthy'', nd_desired = None, nd_applied = None, nd_applied_seq = 0, nd_seen = None,
     nd_health = None, nd_error = [], nd_version = 1, nd_updated = 0\<rparr>"

definition demo_rev_row :: revision_row where
  "demo_rev_row = \<lparr>rw_id = ''r1'', rw_seq = 1, rw_state = ''compiled'', rw_hash = [], rw_manifest = None, rw_error = [], rw_activated = None, rw_updated = 0\<rparr>"

definition demo_compiled :: fleet_db where
  "demo_compiled = (empty_fleet empty_rules)\<lparr>fl_nodes := [demo_row ''n1'' ''ingress''],
     fl_identities := [\<lparr>ix_node = ''n1'', ix_cert = [], ix_fp = ''01'', ix_revoked = None, ix_created = 0\<rparr>], fl_revisions := [demo_rev_row],
     fl_artifacts := [\<lparr>ax_rev = ''r1'', ax_node = ''n1'', ax_content = [7], ax_sha = [], ax_size = 1\<rparr>]\<rparr>"

lemma demo_compiled_wf: "rollout_wf demo_compiled"
  by (simp add: rollout_wf_def node_refs_ok_def demo_compiled_def demo_rev_row_def demo_row_def empty_fleet_def revision_states_def)

lemma demo_target_rows: "target_rows ''n1'' demo_compiled = [\<lparr>tg_node = ''n1'', tg_name = ''n1'', tg_addr = ''10.0.0.1'', tg_fp = ''01''\<rparr>]"
  by code_simp

abbreviation demo_tg :: push_target where
  "demo_tg \<equiv> \<lparr>tg_node = ''n1'', tg_name = ''n1'', tg_addr = ''10.0.0.1'', tg_fp = ''01''\<rparr>"

lemma demo_push_answer: "PushConfig demo_pusher (demo_net ''r1'') demo_tg [7] = Inr \<lparr>pr_revision = ''r1'', pr_sequence = 1, pr_status = ''healthy''\<rparr>"
proof -
  have addr: "node_addr demo_pusher demo_tg = ''10.0.0.1:3333''" and tls: "tlsFor demo_pusher demo_tg [[1]] = None" by code_simp+
  have whole: "take (2 ^ 20) (bytes_of_string ''r1'') = bytes_of_string ''r1''" by (simp add: bytes_of_string_def)
  have json: "pl_json_push demo_pusher (bytes_of_string ''r1'') = Some \<lparr>pr_revision = ''r1'', pr_sequence = 1, pr_status = ''healthy''\<rparr>" by code_simp
  have "pl_url_ok demo_pusher u" for u by (simp add: demo_pusher_def)
  then have "fst (doTimeout demo_pusher (demo_net ''r1'') demo_tg ''POST'' ''/v1/config'' (Some [7])) = Inr (bytes_of_string ''r1'', 200)"
    unfolding doTimeout_def addr Let_def by (simp add: tls whole demo_net_def)
  then show ?thesis by (simp add: PushConfig_def parse_answer_def json)
qed

lemma demo_answers: "answers demo_rollout_env demo_pusher ''r1'' demo_compiled (''n1'', [7])"
  unfolding answers_def using demo_target_rows demo_push_answer by (intro exI [of _ demo_tg]) (simp add: demo_rollout_env_def)

lemma demo_artifacts: "revision_artifacts ''r1'' demo_compiled = [(''n1'', [7])]"
  by code_simp



definition demo_admin :: fleet_db where
  "demo_admin = (empty_fleet demo_rules)\<lparr>fl_nodes := [demo_row ''n1'' ''ingress'', demo_row ''n2'' ''egress''],
     fl_in_groups := [\<lparr>gp_id = ''g1'', gp_name = ''g1'', gp_mode = ''active_active'', gp_settings = JObj [], gp_version = 1, gp_updated = 0\<rparr>],
     fl_out_groups := [\<lparr>gp_id = ''g2'', gp_name = ''g2'', gp_mode = ''weighted'', gp_settings = JObj [], gp_version = 1, gp_updated = 0\<rparr>],
     fl_in_members := [\<lparr>mb_group = ''g1'', mb_node = ''n1'', mb_priority = 1, mb_weight = 1, mb_enabled = True\<rparr>],
     fl_out_members := [\<lparr>mb_group = ''g2'', mb_node = ''n2'', mb_priority = 1, mb_weight = 1, mb_enabled = True\<rparr>],
     fl_services := [\<lparr>sw_id = ''v'', sw_name = ''v'', sw_slug = ''vv'', sw_description = [], sw_enabled = True, sw_rule_set = Some ''s2'', sw_ingress = Some ''g1'', sw_egress = Some ''g2'',
       sw_ports = [443], sw_udp = ''disabled_fallback'', sw_ttl = 60, sw_priority = 100, sw_notes = [], sw_probe = JObj [], sw_version = 1, sw_updated = 0\<rparr>]\<rparr>"

lemma demo_admin_compiles: "(case fst (compile_state demo_rollout_env False (demo_db demo_admin)) of Inr (Inr (out, rid)) \<Rightarrow> True | _ \<Rightarrow> False)"
  by code_simp

theorem compile_all_or_nothing_witness:
  "\<exists>r. fl_revisions (db_tables (snd (compile_state demo_rollout_env False (demo_db demo_admin)))) = [r] \<and> rw_state r = ''compiled''"
proof -
  let ?run = "compile_state demo_rollout_env False (demo_db demo_admin)"
  from demo_admin_compiles obtain out rid where r: "fst ?run = Inr (Inr (out, rid))" by (auto split: sum.splits)
  have t: "db_tables (demo_db demo_admin) = demo_admin" by (simp add: demo_db_def)
  have w: "rollout_wf (db_tables (demo_db demo_admin))"
    unfolding t by (simp add: rollout_wf_def node_refs_ok_def demo_admin_def demo_row_def empty_fleet_def)
  have e: "fl_revisions (db_tables (demo_db demo_admin)) = []" unfolding t by (simp add: demo_admin_def empty_fleet_def)
  have "?run = (fst ?run, snd ?run)" by simp
  from compile_all_or_nothing [OF this w] show ?thesis unfolding r e by auto
qed

section \<open>Typing of the stored state\<close>

lemma fleet_panel_reachable: "fleet_reachable t \<Longrightarrow> panel_reachable t"
proof (induction rule: fleet_reachable.induct)
  case (start rules)
  show ?case by (rule panel_reachable.fresh)
next
  case (step t t')
  from panel_reachable.run [OF step.IH panel_step.administer [OF step.hyps(2)]] show ?case .
qed

text \<open>
  Property C14. In every state the panel can reach, by requests, background pushes and polls in any order and with any failures, the rollout tables
  are well typed: revisions and deployments are in states the schema knows, an artifact and a deployment belong to an existing revision and an
  existing node and there is at most one of each per node and revision, every node has a known role and status, and the revision a node
  should run and the one it runs exist.
\<close>

theorem panel_state_typed:
  assumes "panel_reachable t"
  shows "(\<forall>r\<in>set (fl_revisions t). rw_state r \<in> set revision_states) \<and>
    (\<forall>p\<in>set (fl_deploys t). dp_state p \<in> set deploy_states \<and> dp_rev p \<in> rev_ids t \<and> dp_node p \<in> node_ids t) \<and>
    (\<forall>a\<in>set (fl_artifacts t). ax_rev a \<in> rev_ids t \<and> ax_node a \<in> node_ids t) \<and>
    (\<forall>n\<in>set (fl_nodes t). nd_role n \<in> {''ingress'', ''egress''} \<and> nd_status n \<in> set node_statuses \<and>
       set_option (nd_desired n) \<subseteq> rev_ids t \<and> set_option (nd_applied n) \<subseteq> rev_ids t) \<and>
    distinct (map (\<lambda>p. (dp_node p, dp_rev p)) (fl_deploys t)) \<and> distinct (map (\<lambda>a. (ax_rev a, ax_node a)) (fl_artifacts t)) \<and> distinct (map rw_id (fl_revisions t))"
proof -
  from panel_reachable_wf [OF assms] have f: "nodes_check t = None" and r: "rollout_wf t" by (simp_all add: fleet_wf_def)
  from f have "\<forall>n\<in>set (fl_nodes t). nd_role n \<in> {''ingress'', ''egress''} \<and> nd_status n \<in> set node_statuses"
    unfolding nodes_check_def by (simp add: list_all_iff split: if_splits)
  moreover from r have "\<forall>n\<in>set (fl_nodes t). set_option (nd_desired n) \<subseteq> rev_ids t \<and> set_option (nd_applied n) \<subseteq> rev_ids t"
    by (simp add: rollout_wf_def node_refs_ok_def)
  ultimately show ?thesis using r unfolding rollout_wf_def by blast
qed

theorem panel_state_typed_witness:
  "\<exists>n. n \<in> set (fl_nodes demo_fleet) \<and> nd_role n \<in> {''ingress'', ''egress''} \<and> nd_status n \<in> set node_statuses"
proof -
  have "map nd_id (fl_nodes demo_fleet) = [''id-2'']" by code_simp
  then obtain n where "n \<in> set (fl_nodes demo_fleet)" by (cases "fl_nodes demo_fleet") auto
  with panel_state_typed [OF fleet_panel_reachable [OF demo_fleet_reachable]] show ?thesis by blast
qed

end
