(* ===== verification/Panel_Devices.thy ===== *)
theory Panel_Devices
  imports Panel_Rollout Panel_Auth DNS_Server
begin

text \<open>
  The profiles a device is set up with (\<open>panel/internal/api/devices.go\<close>): their table, the handlers that create,
  list, delete and render them, and the path token of a profile, which the resolver of a node
  admits by its hash. The table stands beside those of \<open>Panel_Fleet\<close>. \<open>crypto/rand\<close> is a parameter that gives the
  bytes of each read, \<open>strings.EqualFold\<close> is one with a law for hexadecimal text, and the texts in Russian
  are looked up in a table, so that the model keeps what stands where in them.
\<close>

section \<open>Tokens\<close>

text \<open>\<open>base64.RawURLEncoding\<close> writes the other alphabet and no padding.\<close>

definition b64url_encode :: "bytes \<Rightarrow> string" where
  "b64url_encode bs = map (\<lambda>c. if c = CHR ''+'' then CHR ''-'' else if c = CHR ''/'' then CHR ''_'' else c) (b64raw_encode bs)"

text \<open>\<open>rand.Read\<close>: the bytes the \<open>i\<close>-th read of a request gets.\<close>

type_synonym random = "nat \<Rightarrow> nat \<Rightarrow> bytes"

definition RandomToken :: "random \<Rightarrow> nat \<Rightarrow> nat \<Rightarrow> string" where
  "RandomToken rnd i n = b64url_encode (rnd i n)"

section \<open>State\<close>

record device_row =
  dv_id :: string
  dv_name :: string
  dv_type :: string
  dv_config :: json
  dv_token_hash :: string
  dv_revoked :: "int option"
  dv_version :: int
  dv_created :: int

record device_db =
  dd_fleet :: fleet_db
  dd_profiles :: "device_row list"

record device_env =
  de_fleet :: fleet_env
  de_collate :: "string \<Rightarrow> string"
  de_fold :: "string \<Rightarrow> string \<Rightarrow> bool"      \<comment> \<open>strings.EqualFold\<close>
  de_random :: random
  de_profile_json :: "device_row \<Rightarrow> json"
  de_text :: "string \<Rightarrow> string"               \<comment> \<open>the Russian texts\<close>

definition on_fleet :: "(fleet_db, 'r) sql \<Rightarrow> (device_db, 'r) sql" where
  "on_fleet m = on_part dd_fleet (\<lambda>f t. t\<lparr>dd_fleet := f\<rparr>) m"

definition put_device_audit :: "(audit_row list \<Rightarrow> audit_row list) \<Rightarrow> device_db \<Rightarrow> device_db" where
  "put_device_audit f t = t\<lparr>dd_fleet := put_fleet_audit f (dd_fleet t)\<rparr>"

section \<open>Handlers\<close>

text \<open>A nil slice is \<open>null\<close>. \<open>dnsEndpoints\<close> ignores the error of its query.\<close>

definition json_strings :: "string list \<Rightarrow> json" where
  "json_strings xs = (if xs = [] then JNull else JArr (map JStr xs))"

definition ingress_rows :: "device_env \<Rightarrow> fleet_db \<Rightarrow> node_row list" where
  "ingress_rows en t = sort_key (de_collate en \<circ> nd_name) (filter (\<lambda>n. nd_role n = ''ingress'' \<and> nd_status n \<noteq> ''disabled'') (fl_nodes t))"

definition dnsEndpoints :: "device_env \<Rightarrow> (fleet_db, json) sql" where
  "dnsEndpoints en =
     attempt (Many (ingress_rows en)) (\<lambda>found.
     let rows = (case found of Inl _ \<Rightarrow> [] | Inr ns \<Rightarrow> ns) in
     tryE (getSetting ''doh_hostname'' []) (\<lambda>doh.
     tryE (getSetting ''dot_hostname'' []) (\<lambda>dot.
     tryE (getSetting ''doh_path'' ''/dns-query'') (\<lambda>path.
     tryE (getSetting ''dns_access_mode'' ''allowlist'') (\<lambda>mode.
     returnE (JObj [(''access_mode'', JStr mode), (''doh_hostname'', JStr doh), (''doh_path'', JStr path), (''dot_hostname'', JStr dot),
       (''ingress_ipv4'', json_strings (List.map_filter nd_ipv4 rows)), (''ingress_ipv6'', json_strings (List.map_filter nd_ipv6 rows))]))))))"

definition listDeviceProfiles :: "device_env \<Rightarrow> (device_db, api_reply) sql" where
  "listDeviceProfiles en =
     tryE (Many (\<lambda>t. rev (sort_key dv_created (dd_profiles t)))) (\<lambda>rows.
     tryE (on_fleet (dnsEndpoints en)) (\<lambda>endpoints.
     returnE (Reply 200 (JObj [(''defaults'', endpoints), (''items'', JArr (map (de_profile_json en) rows))]))))"

record device_request =
  dq_name :: string
  dq_type :: string

definition device_types :: "string list" where
  "device_types = [''android_dot'', ''apple_doh'', ''apple_dot'', ''windows_doh'', ''router'', ''plain'']"

definition carries_token :: "string \<Rightarrow> bool" where
  "carries_token ty \<longleftrightarrow> ty = ''apple_doh'' \<or> ty = ''windows_doh'' \<or> ty = ''router''"

definition insert_profile :: "string \<Rightarrow> string \<Rightarrow> json \<Rightarrow> string \<Rightarrow> (device_db, device_row) sql" where
  "insert_profile name ty cfg h = stmt (\<lambda>now u t.
     let p = \<lparr>dv_id = u, dv_name = name, dv_type = ty, dv_config = cfg, dv_token_hash = h, dv_revoked = None, dv_version = 1, dv_created = now\<rparr> in
     if ty \<notin> set device_types \<or> list_ex (\<lambda>q. dv_id q = u) (dd_profiles t) then Inl ErrConflict
     else Inr (p, t\<lparr>dd_profiles := dd_profiles t @ [p]\<rparr>))"

definition profile_config :: "device_env \<Rightarrow> string \<Rightarrow> json \<Rightarrow> string \<Rightarrow> json" where
  "profile_config en ty endpoints token =
     JObj ((''endpoints'', endpoints) # (if carries_token ty then [(''path_token'', JStr token)] else []) @
       (if ty = ''android_dot'' then [(''warning'', JStr (de_text en ''android_dot warning''))] else []))"

definition createDeviceProfile :: "device_env \<Rightarrow> api_request \<Rightarrow> device_request option \<Rightarrow> (device_db, api_reply) sql" where
  "createDeviceProfile en r body = decodeE body (\<lambda>req.
     if dq_type req \<notin> set device_types then throwE badRequest
     else if trim_space (dq_name req) = [] then throwE badRequest
     else tryE (on_fleet (dnsEndpoints en)) (\<lambda>endpoints.
       let token = (if carries_token (dq_type req) then RandomToken (de_random en) 0 18 else []);
           h = (if carries_token (dq_type req) then SHA256Hex (fe_wire (de_fleet en)) (bytes_of_string token) else []) in
       tryE (insert_profile (dq_name req) (dq_type req) (profile_config en (dq_type req) endpoints token) h) (\<lambda>p.
       tryE (if h \<noteq> [] then on_fleet (appendSettingList (de_fold en) ''doh_path_tokens'' h) else returnE ()) (\<lambda>_.
       audit put_device_audit (audit_of (fe_api (de_fleet en)) r ''device_profile.created'' ''device_profile'' (dv_id p) None
           (Some (JObj [(''name'', JStr (dq_name req)), (''type'', JStr (dq_type req))])))
         (returnE (Reply 201 (JObj [(''profile'', de_profile_json en p), (''token'', JStr token)])))))))"

definition deleteDeviceProfile :: "device_env \<Rightarrow> api_request \<Rightarrow> (device_db, api_reply) sql" where
  "deleteDeviceProfile en r =
     (let pid = aq_path r ''id'' in
      attempt (One (\<lambda>t. map dv_token_hash (filter (\<lambda>p. dv_id p = pid) (dd_profiles t)))) (\<lambda>found.
      let h = (case found of Inl _ \<Rightarrow> [] | Inr x \<Rightarrow> x) in
      tryE (ExecN (\<lambda>_ _ t. Inr (count_rows (\<lambda>p. dv_id p = pid) (dd_profiles t), t\<lparr>dd_profiles := filter (\<lambda>p. dv_id p \<noteq> pid) (dd_profiles t)\<rparr>))) (\<lambda>n.
      if n = 0 then throwE notFound
      else ignoring (if h \<noteq> [] then on_fleet (removeSettingList (de_fold en) ''doh_path_tokens'' h) else returnE ())
        (audit put_device_audit (audit_of (fe_api (de_fleet en)) r ''device_profile.deleted'' ''device_profile'' pid None None)
          (returnE (Reply 200 (JObj [(''status'', JStr ''deleted'')])))))))"

section \<open>Rendering\<close>

text \<open>\<open>for _, r := range s\<close>: the bytes of the rune in front, 1 for a byte that starts none.\<close>

definition cont :: "nat \<Rightarrow> nat \<Rightarrow> string \<Rightarrow> nat \<Rightarrow> bool" where
  "cont lo hi s i \<longleftrightarrow> i < length s \<and> lo \<le> (of_char (s ! i) :: nat) \<and> (of_char (s ! i) :: nat) \<le> hi"

definition rune_width :: "string \<Rightarrow> nat" where
  "rune_width s =
     (let b = (of_char (hd s) :: nat);
          rest = cont 0x80 0xBF s in
      if 0xC2 \<le> b \<and> b \<le> 0xDF \<and> rest 1 then 2
      else if 0xE0 \<le> b \<and> b \<le> 0xEF \<and> cont (if b = 0xE0 then 0xA0 else 0x80) (if b = 0xED then 0x9F else 0xBF) s 1 \<and> rest 2 then 3
      else if 0xF0 \<le> b \<and> b \<le> 0xF4 \<and> cont (if b = 0xF0 then 0x90 else 0x80) (if b = 0xF4 then 0x8F else 0xBF) s 1 \<and> rest 2 \<and> rest 3 then 4
      else 1)"

lemma rune_width_pos [simp]: "0 < rune_width s"
  by (simp add: rune_width_def Let_def)

definition name_char :: "char \<Rightarrow> bool" where
  "name_char c = (list_ex (\<lambda>(first, last). first \<le> c \<and> c \<le> last) [(CHR ''a'', CHR ''z''), (CHR ''A'', CHR ''Z''), (CHR ''0'', CHR ''9'')] \<or>
     c \<in> set ''-_'')"

function safe_loop :: "string \<Rightarrow> string" where
  "safe_loop s =
     (if s = [] then [] else if name_char (hd s) then hd s # safe_loop (tl s)
      else CHR ''-'' # safe_loop (drop (rune_width s) s))"
  by pat_completeness auto
termination
  by (relation "measure length") auto

declare safe_loop.simps [simp del]

definition safeName :: "string \<Rightarrow> string" where
  "safeName s = (let out = trim_char CHR ''-'' (safe_loop s) in if out = [] then ''smartdns-profile'' else out)"

text \<open>\<open>strings.NewReplacer\<close> with texts of one byte replaces byte by byte.\<close>

definition xml_char :: "char \<Rightarrow> string" where
  "xml_char c =
     (if c = CHR ''&'' then ''&amp;'' else if c = CHR ''<'' then ''&lt;'' else if c = CHR ''>'' then ''&gt;''
      else if c = CHR 0x22 then ''&quot;'' else [c])"

definition xmlEscape :: "string \<Rightarrow> string" where
  "xmlEscape s = concat (map xml_char s)"

text \<open>A new line with its indentation.\<close>

definition indent :: "nat \<Rightarrow> string" where
  "indent n = CHR 0x0A # replicate n (CHR 0x09)"

definition key_tag :: "string \<Rightarrow> string" where
  "key_tag k = ''<key>'' @ k @ ''</key>''"

definition string_tag :: "string \<Rightarrow> string" where
  "string_tag v = ''<string>'' @ v @ ''</string>''"

definition dns_settings :: "device_row \<Rightarrow> string \<Rightarrow> string \<Rightarrow> string list \<Rightarrow> string" where
  "dns_settings p dohURL dotHost ingressV4 =
     (if dv_type p = ''apple_doh'' \<and> dohURL \<noteq> []
      then indent 4 @ key_tag ''DNSProtocol'' @ string_tag ''HTTPS'' @ indent 4 @ key_tag ''ServerURL'' @ string_tag (xmlEscape dohURL)
      else indent 4 @ key_tag ''DNSProtocol'' @ string_tag ''TLS'' @ indent 4 @ key_tag ''ServerName'' @ string_tag (xmlEscape dotHost)) @
     (if length ingressV4 > 0
      then indent 4 @ key_tag ''ServerAddresses'' @ indent 4 @ ''<array>'' @ concat (map (\<lambda>ip. indent 5 @ string_tag (xmlEscape ip)) ingressV4) @ indent 4 @ ''</array>''
      else [])"

definition appleMobileconfig :: "random \<Rightarrow> device_row \<Rightarrow> string \<Rightarrow> string \<Rightarrow> string list \<Rightarrow> string" where
  "appleMobileconfig rnd p dohURL dotHost ingressV4 =
     (let uuid1 = RandomToken rnd 0 16; uuid2 = RandomToken rnd 1 16; name = xmlEscape (dv_name p) in
      ''<?xml version=\"1.0\" encoding=\"UTF-8\"?>'' @ indent 0 @
      ''<!DOCTYPE plist PUBLIC \"-//Apple//DTD PLIST 1.0//EN\" \"http://www.apple.com/DTDs/PropertyList-1.0.dtd\">'' @ indent 0 @
      ''<plist version=\"1.0\">'' @ indent 0 @ ''<dict>'' @
      indent 1 @ key_tag ''PayloadContent'' @ indent 1 @ ''<array>'' @ indent 2 @ ''<dict>'' @
      indent 3 @ key_tag ''DNSSettings'' @ indent 3 @ ''<dict>'' @ dns_settings p dohURL dotHost ingressV4 @ indent 3 @ ''</dict>'' @
      indent 3 @ key_tag ''PayloadDescription'' @ string_tag ''SmartDNS encrypted DNS configuration'' @
      indent 3 @ key_tag ''PayloadDisplayName'' @ string_tag name @
      indent 3 @ key_tag ''PayloadIdentifier'' @ string_tag (''net.smartdns.dnsSettings.'' @ dv_id p) @
      indent 3 @ key_tag ''PayloadType'' @ string_tag ''com.apple.dnsSettings.managed'' @
      indent 3 @ key_tag ''PayloadUUID'' @ string_tag uuid1 @
      indent 3 @ key_tag ''PayloadVersion'' @ ''<integer>1</integer>'' @ indent 2 @ ''</dict>'' @ indent 1 @ ''</array>'' @
      indent 1 @ key_tag ''PayloadDisplayName'' @ string_tag name @
      indent 1 @ key_tag ''PayloadIdentifier'' @ string_tag (''net.smartdns.profile.'' @ dv_id p) @
      indent 1 @ key_tag ''PayloadRemovalDisallowed'' @ ''<false/>'' @
      indent 1 @ key_tag ''PayloadType'' @ string_tag ''Configuration'' @
      indent 1 @ key_tag ''PayloadUUID'' @ string_tag uuid2 @
      indent 1 @ key_tag ''PayloadVersion'' @ ''<integer>1</integer>'' @ indent 0 @ ''</dict>'' @ indent 0 @ ''</plist>'' @ indent 0)"

text \<open>
  The instructions. A text that holds Russian words is named by its place: \<open>tx\<close> gives its words, up to the value
  that is printed into it.
\<close>

definition firstOr :: "string list \<Rightarrow> string \<Rightarrow> string" where
  "firstOr v def = (case v of [] \<Rightarrow> def | x # _ \<Rightarrow> x)"

definition setup_steps :: "(string \<Rightarrow> string) \<Rightarrow> string \<Rightarrow> string \<Rightarrow> string \<Rightarrow> string list \<Rightarrow> string" where
  "setup_steps tx ty dohURL dotHost v4 =
     (if ty = ''android_dot'' then
        tx ''android title'' @ tx ''android 1'' @ tx ''android 2'' @ tx ''android 3'' @ ''`'' @ dotHost @ ''`'' @ indent 0 @ indent 0 @ tx ''android note'' @
        (if length v4 > 1 then tx ''android addresses'' @ join_with '', '' v4 @ indent 0 else []) @ tx ''android limits''
      else if ty = ''windows_doh'' then
        tx ''windows title'' @ tx ''windows 1'' @ tx ''windows 2'' @ ''`'' @ firstOr v4 (tx ''ingress address'') @ ''`'' @ indent 0 @
        (if length v4 > 1 then tx ''windows alternative'' @ ''`'' @ v4 ! 1 @ ''`'' @ tx ''windows fallback'' else []) @
        tx ''windows 3'' @ ''`'' @ dohURL @ ''`'' @ indent 0 @ indent 0 @ tx ''windows note''
      else if ty = ''router'' then
        tx ''router title'' @ ''opkg update && opkg install https-dns-proxy'' @ indent 0 @
        ''uci set https-dns-proxy.@https-dns-proxy[0].resolver_url='' @ [CHR 0x27] @ dohURL @ [CHR 0x27] @ indent 0 @
        ''uci commit https-dns-proxy && /etc/init.d/https-dns-proxy restart'' @ indent 0 @ ''```'' @ indent 0 @ indent 0 @
        tx ''router stubby'' @ ''`'' @ dotHost @ ''`.'' @ indent 0
      else tx ''plain title'' @ concat (map (\<lambda>a. ''- '' @ a @ indent 0) v4) @ tx ''plain note'')"

definition instructions :: "(string \<Rightarrow> string) \<Rightarrow> device_row \<Rightarrow> string \<Rightarrow> string \<Rightarrow> string list \<Rightarrow> string" where
  "instructions tx p dohURL dotHost v4 =
     ''# '' @ dv_name p @ indent 0 @ indent 0 @ setup_steps tx (dv_type p) dohURL dotHost v4 @ tx ''check'' @ tx ''limits''"

text \<open>\<open>x, _ := m[k].(string)\<close>, and the strings of an array.\<close>

definition json_get :: "string \<Rightarrow> json \<Rightarrow> json" where
  "json_get k j = (case j of JObj kvs \<Rightarrow> (case map_of kvs k of None \<Rightarrow> JNull | Some v \<Rightarrow> v) | _ \<Rightarrow> JNull)"

definition json_texts :: "json \<Rightarrow> string list" where
  "json_texts j = (case j of JArr xs \<Rightarrow> List.map_filter (\<lambda>x. case x of JStr s \<Rightarrow> Some s | _ \<Rightarrow> None) xs | _ \<Rightarrow> [])"

definition trim_right :: "char \<Rightarrow> string \<Rightarrow> string" where
  "trim_right c s = rev (dropWhile (\<lambda>x. x = c) (rev s))"

text \<open>The host of the URL a device asks, and its path.\<close>

definition profile_host :: "device_row \<Rightarrow> string" where
  "profile_host p = json_text (json_get ''doh_hostname'' (json_get ''endpoints'' (dv_config p)))"

definition profile_base :: "device_row \<Rightarrow> string" where
  "profile_base p =
     (let path = json_text (json_get ''doh_path'' (json_get ''endpoints'' (dv_config p))) in
      trim_right CHR ''/'' (if path = [] then ''/dns-query'' else path))"

definition profile_path :: "device_row \<Rightarrow> string" where
  "profile_path p =
     (let token = json_text (json_get ''path_token'' (dv_config p)) in
      profile_base p @ (if token \<noteq> [] then ''/'' @ token else []))"

definition doh_url :: "device_row \<Rightarrow> string" where
  "doh_url p = (if profile_host p \<noteq> [] then ''https://'' @ profile_host p @ profile_path p else [])"

record profile_file =
  dl_type :: string
  dl_disposition :: string
  dl_body :: string

definition downloadDeviceProfile :: "device_env \<Rightarrow> api_request \<Rightarrow> (device_db, profile_file) sql" where
  "downloadDeviceProfile en r =
     tryE (One (\<lambda>t. filter (\<lambda>p. dv_id p = aq_path r ''id'') (dd_profiles t))) (\<lambda>p.
     let endpoints = json_get ''endpoints'' (dv_config p);
         dotHost = json_text (json_get ''dot_hostname'' endpoints);
         v4 = json_texts (json_get ''ingress_ipv4'' endpoints);
         attachment = (\<lambda>ext. ''attachment; filename=\"'' @ safeName (dv_name p) @ ext @ ''\"'') in
     returnE (if dv_type p = ''apple_doh'' \<or> dv_type p = ''apple_dot''
       then \<lparr>dl_type = ''application/x-apple-aspen-config'', dl_disposition = attachment ''.mobileconfig'',
              dl_body = appleMobileconfig (de_random en) p (doh_url p) dotHost v4\<rparr>
       else \<lparr>dl_type = ''text/markdown; charset=utf-8'', dl_disposition = attachment ''.md'',
              dl_body = instructions (de_text en) p (doh_url p) dotHost v4\<rparr>))"

section \<open>Rendered files\<close>

text \<open>The name of the file stays inside its quotes.\<close>

lemma name_char_safe_loop: "list_all name_char (safe_loop s)"
  by (induction s rule: safe_loop.induct) (simp add: safe_loop.simps name_char_def)

lemma trim_char_set: "set (trim_char c s) \<subseteq> set s"
  unfolding trim_char_def by (auto dest!: set_dropWhileD)

theorem safeName_correct: "safeName s \<noteq> [] \<and> list_all name_char (safeName s)"
proof (cases "trim_char CHR ''-'' (safe_loop s) = []")
  case True
  have "list_all name_char ''smartdns-profile''" by code_simp
  with True show ?thesis by (simp add: safeName_def)
next
  case False
  then have e: "safeName s = trim_char CHR ''-'' (safe_loop s)" by (simp add: safeName_def)
  with False name_char_safe_loop [of s] trim_char_set [of "CHR ''-''" "safe_loop s"] show ?thesis
    unfolding e by (auto simp: list_all_iff)
qed

text \<open>What a reader of XML makes of the escaped text.\<close>

function xmlUnescape :: "string \<Rightarrow> string" where
  "xmlUnescape s =
     (if s = [] then []
      else if has_prefix s ''&amp;'' then CHR ''&'' # xmlUnescape (drop 5 s)
      else if has_prefix s ''&lt;'' then CHR ''<'' # xmlUnescape (drop 4 s)
      else if has_prefix s ''&gt;'' then CHR ''>'' # xmlUnescape (drop 4 s)
      else if has_prefix s ''&quot;'' then CHR 0x22 # xmlUnescape (drop 6 s)
      else hd s # xmlUnescape (tl s))"
  by pat_completeness auto
termination
  by (relation "measure length") auto

declare xmlUnescape.simps [simp del]

theorem xml_roundtrip: "xmlUnescape (xmlEscape s) = s"
proof (induction s)
  case Nil
  show ?case by (simp add: xmlEscape_def xmlUnescape.simps)
next
  case (Cons c s)
  have e: "xmlEscape (c # s) = xml_char c @ xmlEscape s" by (simp add: xmlEscape_def)
  show ?case unfolding e xmlUnescape.simps [of "xml_char c @ xmlEscape s"] using Cons
    by (simp add: xml_char_def has_prefix_def)
qed

definition markup :: "string \<Rightarrow> string" where
  "markup s = filter (\<lambda>c. c \<in> {CHR ''<'', CHR ''>'', CHR 0x22}) s"

lemma markup_simps [simp]:
  "markup [] = []" "markup (c # s) = (if c \<in> {CHR ''<'', CHR ''>'', CHR 0x22} then c # markup s else markup s)"
  "markup (a @ b) = markup a @ markup b"
  by (simp_all add: markup_def)

lemma markup_escaped [simp]: "markup (xmlEscape s) = []"
  by (induction s) (auto simp: xmlEscape_def xml_char_def)

lemma markup_concat [simp]: "markup (concat xs) = concat (map markup xs)"
  by (induction xs) simp_all

lemma markup_tags [simp]: "markup (string_tag v) = ''<>'' @ markup v @ ''<>''" "markup (key_tag v) = ''<>'' @ markup v @ ''<>''"
  by (simp_all add: string_tag_def key_tag_def)

text \<open>
  The markup of an Apple profile does not depend on what the operator or the settings put into it: the
  characters that XML gives a meaning stand where they stand in a profile without a name, with a URL of
  one letter, no host name and empty addresses.
\<close>

theorem mobileconfig_no_injection:
  "markup (appleMobileconfig rnd p dohURL dotHost ips) =
   markup (appleMobileconfig rnd (p\<lparr>dv_name := []\<rparr>) (if dohURL = [] then [] else ''u'') [] (replicate (length ips) []))"
proof -
  have "markup (dns_settings p dohURL dotHost ips) =
      markup (dns_settings (p\<lparr>dv_name := []\<rparr>) (if dohURL = [] then [] else ''u'') [] (replicate (length ips) []))"
    by (simp add: dns_settings_def comp_def map_replicate_const)
  then show ?thesis by (simp add: appleMobileconfig_def Let_def)
qed

section \<open>The path token of a profile\<close>

lemma b64url_no_slash: "CHR ''/'' \<notin> set (b64url_encode bs)"
  by (auto simp: b64url_encode_def)

lemma b64url_nonempty: "bs \<noteq> [] \<Longrightarrow> b64url_encode bs \<noteq> []"
  by (cases bs rule: b64_encode.cases) (simp_all add: b64url_encode_def b64raw_encode_def b64_char_ok)

lemma trim_char_token: "t \<noteq> [] \<Longrightarrow> c \<notin> set t \<Longrightarrow> trim_char c (c # t) = t \<and> trim_char c t = t"
proof -
  assume t: "t \<noteq> []" "c \<notin> set t"
  then obtain x xs y ys where "t = x # xs" "x \<noteq> c" "rev t = y # ys" "y \<noteq> c"
    by (metis list.set_intros(1) neq_Nil_conv rev_is_Nil_conv set_rev)
  moreover from this have "rev (y # ys) = t" by (metis rev_rev_ident)
  ultimately show ?thesis by (simp add: trim_char_def)
qed

lemma doh_token_of_path:
  assumes "t \<noteq> []" and "CHR ''/'' \<notin> set t" and "base = p \<or> base = p @ ''/''"
  shows "doh_token lib base (p @ ''/'' @ t) = sha256_hex lib t"
proof -
  have "trim_prefix (p @ ''/'' @ t) base \<in> {t, CHR ''/'' # t}"
    using assms(3) by (auto simp: trim_prefix_def has_prefix_def)
  then show ?thesis using trim_char_token [OF assms(1,2)] assms(1) by (auto simp: doh_token_def Let_def)
qed

text \<open>The value of a list setting.\<close>

definition stored_list :: "string \<Rightarrow> fleet_db \<Rightarrow> string list" where
  "stored_list k t = (case map_of (fl_settings t) k of Some (JArr xs) \<Rightarrow> map json_text xs | _ \<Rightarrow> [])"

lemma setting_rows: "case map_of ss k of None \<Rightarrow> map snd (filter (\<lambda>p. fst p = k) ss) = [] | Some v \<Rightarrow> \<exists>vs. map snd (filter (\<lambda>p. fst p = k) ss) = v # vs"
  by (induction ss) (auto split: option.splits)

lemma setting_of_healthy:
  assumes "healthy d"
  shows "\<exists>d'. setting_of k d = (case map_of (fl_settings (db_tables d)) k of None \<Rightarrow> Inl ErrNotFound | Some v \<Rightarrow> Inr v, d')"
proof -
  have "One (\<lambda>t. map snd (filter (\<lambda>p. fst p = k) (fl_settings t))) d =
      (case map_of (fl_settings (db_tables d)) k of None \<Rightarrow> (Inl ErrNotFound, db_tick d) | Some v \<Rightarrow> (Inr v, (db_tick d)\<lparr>db_tables := db_tables d\<rparr>))"
    using assms setting_rows [where ss = "fl_settings (db_tables d)" and k = k]
    by (auto simp: One_def stmt_def healthy_def split: option.splits)
  then show ?thesis by (auto simp: setting_of_def split: option.splits)
qed

lemma getSettingList_healthy: "healthy d \<Longrightarrow> fst (getSettingList k d) = Inr (stored_list k (db_tables d))"
  using setting_of_healthy [of d k]
  by (auto simp: getSettingList_def setting_list_def stored_list_def attempt_def tryE_def returnE_def coalesce_def split: option.splits json.splits)

lemma steady_reads [steady_rules]: "steady (getSetting k s)" "steady (setting_list k)" "steady (getSettingList k)" "steady (getSettingInt k i)"
  unfolding getSetting_def getSettingInt_def getSettingList_def setting_list_def setting_of_def by (intro steady_rules)+

text \<open>Reading settings neither changes the tables nor what fails, and so it may be followed through \<open>dnsConfig\<close>.\<close>

definition same_view :: "fleet_db db \<Rightarrow> fleet_db db \<Rightarrow> bool" where
  "same_view d e \<longleftrightarrow> db_tables e = db_tables d \<and> (healthy d \<longrightarrow> healthy e)"

lemma same_viewI:
  assumes "\<And>I. preserves I m" and "steady m" and "m d = (r, e)"
  shows "same_view d e"
  unfolding same_view_def using preservesD [OF assms(1) [of "\<lambda>t. t = db_tables d"], of d] healthy_step [OF assms(2) _ assms(3)] assms(3) by simp

lemma getSetting_view: "getSetting k s d = (r, e) \<Longrightarrow> same_view d e" "getSettingInt k i d = (r', e) \<Longrightarrow> same_view d e"
    "getSettingList k d = (r'', e) \<Longrightarrow> same_view d e"
  by (rule same_viewI, rule wf_reads, rule steady_reads, assumption)+

lemma same_view_trans: "same_view d e \<Longrightarrow> same_view e f \<Longrightarrow> same_view d f"
  by (auto simp: same_view_def)

lemma dnsConfig_tokens:
  assumes "healthy d" and "dnsConfig d = (Inr dc, d')"
  shows "da_doh_path_tokens (dc_access dc) = stored_list ''doh_path_tokens'' (db_tables d)"
proof -
  from assms(2) obtain u1 d1 u2 d2 u3 d3 u4 d4 u5 d5 toks d6 where
    s: "getSetting ''dns_upstream'' ''unbound:53'' d = (Inr u1, d1)" "getSetting ''doh_hostname'' [] d1 = (Inr u2, d2)"
      "getSetting ''dot_hostname'' [] d2 = (Inr u3, d3)" "getSetting ''dns_access_mode'' ''allowlist'' d3 = (Inr u4, d4)"
      "getSettingList ''dns_allowed_cidrs'' d4 = (Inr u5, d5)" and t: "getSettingList ''doh_path_tokens'' d5 = (Inr toks, d6)"
    and dc: "da_doh_path_tokens (dc_access dc) = toks"
    unfolding dnsConfig_def tryE_Inr by (auto simp: returnE_def)
  have "same_view d d5" using getSetting_view(1) [OF s(1)] getSetting_view(1) [OF s(2)] getSetting_view(1) [OF s(3)]
      getSetting_view(1) [OF s(4)] getSetting_view(3) [OF s(5)] by (blast intro: same_view_trans)
  with assms(1) getSettingList_healthy [of d5 "''doh_path_tokens''"] t dc show ?thesis by (simp add: same_view_def)
qed

text \<open>What \<open>strings.EqualFold\<close> says of a hexadecimal text agrees with lower case.\<close>

definition hex_text :: "string \<Rightarrow> bool" where
  "hex_text h \<longleftrightarrow> set h \<subseteq> set ''0123456789abcdef''"

definition folds :: "(string \<Rightarrow> string) \<Rightarrow> (string \<Rightarrow> string \<Rightarrow> bool) \<Rightarrow> bool" where
  "folds lw same \<longleftrightarrow> (\<forall>x h. hex_text h \<longrightarrow> same x h = (to_lower lw x = to_lower lw h))"

lemma hex_text_encode: "hex_text (hex_encode bs)"
proof -
  have "list_all (\<lambda>i. hex_digit i \<in> set ''0123456789abcdef'') [0..<16]" by code_simp
  then have "i < 16 \<Longrightarrow> hex_digit i \<in> set ''0123456789abcdef''" for i by (simp only: list_all_iff set_upt) auto
  then have "hex_digit (unat b div 16) \<in> set ''0123456789abcdef'' \<and> hex_digit (unat b mod 16) \<in> set ''0123456789abcdef''" for b :: byte
    using unat_byte_div(2) [of b] mod_less_divisor [of 16 "unat b"] by simp
  then show ?thesis unfolding hex_text_def hex_encode_def by (simp only: set_concat set_map) fastforce
qed

lemma getSettingList_read:
  assumes "getSettingList k d = (Inr xs, d1)" and "xs \<noteq> []"
  shows "xs = stored_list k (db_tables d)"
proof -
  from assms obtain v e where "setting_of k d = (Inr (JArr v), e)" "xs = map json_text v"
    by (auto simp: getSettingList_def setting_list_def attempt_def tryE_def returnE_def coalesce_def split: prod.splits sum.splits json.splits option.splits)
  with setting_rows [where ss = "fl_settings (db_tables d)" and k = k] show ?thesis
    by (auto simp: stored_list_def setting_of_def dest!: One_Inr split: option.splits)
qed

lemma stored_list_upsert: "upsert_setting k v d = (Inr (), d') \<Longrightarrow> stored_list k (db_tables d') = (case v of JArr xs \<Rightarrow> map json_text xs | _ \<Rightarrow> [])"
  unfolding upsert_setting_def by (drule Exec_Inr) (drule sym, auto simp: stored_list_def set_setting_lookup split: json.splits)

lemma json_text_JStr [simp]: "map (json_text \<circ> JStr) xs = xs"
  by (induction xs) (simp_all add: json_text_def)

lemma append_stores:
  assumes "appendSettingList same k v d = (Inr (), d')"
  shows "\<exists>x\<in>set (stored_list k (db_tables d')). x = v \<or> same x v"
proof -
  from assms obtain xs d1 where r: "getSettingList k d = (Inr xs, d1)"
    and w: "(if list_ex (\<lambda>x. same x v) xs then returnE () else upsert_setting k (JArr (map JStr (xs @ [v])))) d1 = (Inr (), d')"
    unfolding appendSettingList_def tryE_Inr by blast
  show ?thesis
  proof (cases "list_ex (\<lambda>x. same x v) xs")
    case True
    then have "xs \<noteq> []" by auto
    with r have "xs = stored_list k (db_tables d)" by (rule getSettingList_read)
    moreover from getSetting_view(3) [OF r] have "db_tables d1 = db_tables d" by (simp add: same_view_def)
    ultimately show ?thesis using True w by (auto simp: returnE_def list_ex_iff)
  next
    case False
    with w have "stored_list k (db_tables d') = xs @ [v]"
      using stored_list_upsert [of k "JArr (map JStr (xs @ [v]))" d1 d'] by (simp add: json_text_def)
    then show ?thesis by simp
  qed
qed

lemma remove_stores:
  assumes "healthy d" and "removeSettingList same k v d = (r, d')"
  shows "stored_list k (db_tables d') = filter (\<lambda>x. \<not> same x v) (stored_list k (db_tables d))"
proof -
  define found where "found = (case map_of (fl_settings (db_tables d)) k of Some (JArr xs) \<Rightarrow> Some (map json_text xs) | _ \<Rightarrow> None)"
  have l: "stored_list k (db_tables d) = coalesce found []"
    by (simp add: found_def stored_list_def coalesce_def split: option.splits json.splits)
  obtain d1 where s: "setting_list k d = (Inr found, d1)"
    using setting_of_healthy [OF assms(1), of k]
    by (auto simp: setting_list_def attempt_def returnE_def found_def split: option.splits json.splits)
  have "healthy d1" using healthy_step [OF steady_reads(2) assms(1) s] .
  then have "fst (upsert_setting k x d1) = Inr ()" for x by (simp add: upsert_setting_def Exec_def stmt_def healthy_def)
  moreover from assms(2) s have w: "upsert_setting k (case found of None \<Rightarrow> JNull | Some l \<Rightarrow> JArr (map JStr (filter (\<lambda>x. \<not> same x v) l))) d1 = (r, d')"
    by (simp add: removeSettingList_def tryE_def)
  ultimately have "r = Inr ()" by (metis fst_conv)
  with stored_list_upsert w show ?thesis unfolding l by (cases found) (auto simp: coalesce_def)
qed

lemma AllowClient_token:
  "AllowClient lib (Apply_router lib nl c rt) ip h \<longleftrightarrow> AllowClient lib (Apply_router lib nl c rt) ip [] \<or>
     da_mode (dc_access (nc_dns c)) = ''doh-token'' \<and> h \<noteq> [] \<and>
     (\<exists>t\<in>set (da_doh_path_tokens (dc_access (nc_dns c))). to_lower (uni_lower lib) h = to_lower (uni_lower lib) t)"
  by (auto simp: AllowClient_def Apply_router_def Let_def image_iff)

text \<open>What a creation that succeeds leaves behind.\<close>

lemma preserves_device_audit:
  "(\<And>f t. I t \<Longrightarrow> I (put_device_audit f t)) \<Longrightarrow> preserves I (audit put_device_audit row (returnE v))"
  by (rule preserves_audit) (simp_all add: preserves_returnE)

lemma insert_profile_Inr:
  "insert_profile name ty cfg h d = (Inr p, d') \<Longrightarrow>
     db_tables d' = (db_tables d)\<lparr>dd_profiles := dd_profiles (db_tables d) @ [p]\<rparr> \<and> dv_token_hash p = h \<and> dv_config p = cfg"
  by (auto simp: insert_profile_def stmt_def Let_def split: if_splits)

lemma created_profile:
  assumes run: "createDeviceProfile en r (Some req) d = (Inr reply, d1)" and ty: "carries_token (dq_type req)"
    and sum: "\<forall>b. sha256_sum (fe_wire (de_fleet en)) b \<noteq> []"
  defines "token \<equiv> RandomToken (de_random en) 0 18"
  defines "h \<equiv> SHA256Hex (fe_wire (de_fleet en)) (bytes_of_string token)"
  shows "\<exists>p. dd_profiles (db_tables d1) = dd_profiles (db_tables d) @ [p] \<and> dv_token_hash p = h \<and>
    json_get ''path_token'' (dv_config p) = JStr token \<and>
    (\<exists>x\<in>set (stored_list ''doh_path_tokens'' (dd_fleet (db_tables d1))). x = h \<or> de_fold en x h)"
proof -
  have h: "h \<noteq> []" using sum by (metis SHA256Hex_def h_def length_0_conv length_hex_encode mult_is_0 zero_neq_numeral)
  from run obtain ep e0 p e1 e2 where
    ep: "on_fleet (dnsEndpoints en) d = (Inr ep, e0)" and
    ins: "insert_profile (dq_name req) (dq_type req) (profile_config en (dq_type req) ep token) h e0 = (Inr p, e1)" and
    app: "on_fleet (appendSettingList (de_fold en) ''doh_path_tokens'' h) e1 = (Inr (), e2)" and
    aud: "snd (audit put_device_audit (audit_of (fe_api (de_fleet en)) r ''device_profile.created'' ''device_profile'' (dv_id p) None
        (Some (JObj [(''name'', JStr (dq_name req)), (''type'', JStr (dq_type req))])))
        (returnE (Reply 201 (JObj [(''profile'', de_profile_json en p), (''token'', JStr token)]))) e2) = d1"
    unfolding createDeviceProfile_def decodeE_def option.case
    by (auto simp: ty h token_def [symmetric] h_def [symmetric] Let_def tryE_Inr throwE_def split: if_splits)
  have "dd_profiles (db_tables e0) = dd_profiles (db_tables d)"
    using ep by (auto simp: on_fleet_def on_part_Inr)
  then have p: "dd_profiles (db_tables e1) = dd_profiles (db_tables d) @ [p]" "dv_token_hash p = h"
      "dv_config p = profile_config en (dq_type req) ep token"
    using insert_profile_Inr [OF ins] by simp_all
  have e2: "dd_profiles (db_tables e2) = dd_profiles (db_tables e1)"
      "\<exists>x\<in>set (stored_list ''doh_path_tokens'' (dd_fleet (db_tables e2))). x = h \<or> de_fold en x h"
    using app append_stores by (auto simp: on_fleet_def on_part_Inr)
  let ?same = "\<lambda>t. dd_profiles t = dd_profiles (db_tables e2) \<and> fl_settings (dd_fleet t) = fl_settings (dd_fleet (db_tables e2))"
  have "?same (db_tables d1)" unfolding aud [symmetric]
    by (rule preservesD [OF preserves_device_audit]) (simp_all add: put_device_audit_def put_fleet_audit_def)
  with e2 p ty show ?thesis by (auto simp: stored_list_def profile_config_def json_get_def)
qed

text \<open>
  Property C38. A profile with a path token gives access: once its creation has been answered, the settings are
  compiled into the configuration of a node, and the resolver runs in token mode, a device that asks
  the path of the profile is admitted from any address, under the base path of the profile with or
  without the final slash.
\<close>

theorem device_token_admitted:
  assumes "createDeviceProfile en r (Some req) d = (Inr reply, d1)" and "carries_token (dq_type req)"
    and "length (de_random en 0 18) = 18" and "\<forall>b. length (sha256_sum (fe_wire (de_fleet en)) b) = 32"
    and "\<forall>s. sha256_hex lib s = SHA256Hex (fe_wire (de_fleet en)) (bytes_of_string s)" and "folds (uni_lower lib) (de_fold en)"
    and "healthy e" and "db_tables e = dd_fleet (db_tables d1)" and "dnsConfig e = (Inr (nc_dns c), e')"
    and "da_mode (dc_access (nc_dns c)) = ''doh-token''"
  shows "\<exists>p. dd_profiles (db_tables d1) = dd_profiles (db_tables d) @ [p] \<and>
    (\<forall>base. base = profile_base p \<or> base = profile_base p @ ''/'' \<longrightarrow>
       AllowClient lib (Apply_router lib nl c rt) ip (doh_token lib base (profile_path p)))"
proof -
  let ?token = "RandomToken (de_random en) 0 18" and ?h = "SHA256Hex (fe_wire (de_fleet en)) (bytes_of_string (RandomToken (de_random en) 0 18))"
  have "\<forall>b. sha256_sum (fe_wire (de_fleet en)) b \<noteq> []" using assms(4) by (metis list.size(3) zero_neq_numeral)
  from created_profile [OF assms(1,2) this] obtain p x where p: "dd_profiles (db_tables d1) = dd_profiles (db_tables d) @ [p]"
      "json_get ''path_token'' (dv_config p) = JStr ?token"
    and x: "x \<in> set (stored_list ''doh_path_tokens'' (dd_fleet (db_tables d1)))" "x = ?h \<or> de_fold en x ?h" by blast
  have "de_random en 0 18 \<noteq> []" using assms(3) by auto
  then have t: "?token \<noteq> []" "CHR ''/'' \<notin> set ?token" by (simp_all add: RandomToken_def b64url_nonempty b64url_no_slash)
  then have path: "profile_path p = profile_base p @ ''/'' @ ?token" by (simp add: profile_path_def p(2) json_text_def)
  have h: "hex_text ?h" unfolding SHA256Hex_def by (rule hex_text_encode)
  have "?h \<noteq> []" using assms(4) by (metis SHA256Hex_def length_hex_encode list.size(3) mult_is_0 zero_neq_numeral)
  moreover from x(2) h assms(6) have "to_lower (uni_lower lib) ?h = to_lower (uni_lower lib) x" by (auto simp: folds_def)
  moreover have "x \<in> set (da_doh_path_tokens (dc_access (nc_dns c)))" using dnsConfig_tokens [OF assms(7,9)] x(1) assms(8) by simp
  ultimately have "AllowClient lib (Apply_router lib nl c rt) ip ?h" unfolding AllowClient_token [of lib nl c rt ip ?h] using assms(10) by blast
  then have "AllowClient lib (Apply_router lib nl c rt) ip (doh_token lib base (profile_path p))"
    if "base = profile_base p \<or> base = profile_base p @ ''/''" for base
    unfolding path doh_token_of_path [OF t that] using assms(5) by simp
  with p(1) show ?thesis by blast
qed

lemma stored_list_cong: "fl_settings s = fl_settings t \<Longrightarrow> stored_list k s = stored_list k t"
  by (simp add: stored_list_def)

lemma deleted_profile:
  assumes "healthy d" and run: "deleteDeviceProfile en r d = (Inr reply, d1)"
    and p: "filter (\<lambda>p. dv_id p = aq_path r ''id'') (dd_profiles (db_tables d)) = [p]" and h: "dv_token_hash p \<noteq> []"
  shows "dd_profiles (db_tables d1) = filter (\<lambda>q. q \<noteq> p) (dd_profiles (db_tables d)) \<and>
    stored_list ''doh_path_tokens'' (dd_fleet (db_tables d1)) =
      filter (\<lambda>x. \<not> de_fold en x (dv_token_hash p)) (stored_list ''doh_path_tokens'' (dd_fleet (db_tables d)))"
proof -
  let ?del = "(db_tables d)\<lparr>dd_profiles := filter (\<lambda>p. dv_id p \<noteq> aq_path r ''id'') (dd_profiles (db_tables d))\<rparr>"
  define e where "e = (db_tick (db_tick d))\<lparr>db_tables := ?del\<rparr>"
  have e: "healthy e" "db_tables e = ?del" using assms(1) by (simp_all add: e_def healthy_def db_tick_def)
  have "\<not> db_fail d n" for n using assms(1) by (simp add: healthy_def)
  with run p h obtain rr e2 where rem: "on_fleet (removeSettingList (de_fold en) ''doh_path_tokens'' (dv_token_hash p)) e = (rr, e2)"
    and aud: "snd (audit put_device_audit (audit_of (fe_api (de_fleet en)) r ''device_profile.deleted'' ''device_profile'' (aq_path r ''id'') None None)
          (returnE (Reply 200 (JObj [(''status'', JStr ''deleted'')]))) e2) = d1"
    by (auto simp: deleteDeviceProfile_def attempt_def One_def ExecN_def stmt_def Let_def tryE_def ignoring_def count_rows_def e_def db_tick_def
        split: prod.splits)
  have e2: "dd_profiles (db_tables e2) = dd_profiles ?del"
      "stored_list ''doh_path_tokens'' (dd_fleet (db_tables e2)) = filter (\<lambda>x. \<not> de_fold en x (dv_token_hash p)) (stored_list ''doh_path_tokens'' (dd_fleet (db_tables d)))"
    using rem remove_stores [of "part_db dd_fleet e"] e by (auto simp: on_fleet_def on_part_Inr)
  let ?same = "\<lambda>t. dd_profiles t = dd_profiles (db_tables e2) \<and> fl_settings (dd_fleet t) = fl_settings (dd_fleet (db_tables e2))"
  have "?same (db_tables d1)" unfolding aud [symmetric]
    by (rule preservesD [OF preserves_device_audit]) (simp_all add: put_device_audit_def put_fleet_audit_def)
  moreover have "filter (\<lambda>q. dv_id q \<noteq> aq_path r ''id'') (dd_profiles (db_tables d)) = filter (\<lambda>q. q \<noteq> p) (dd_profiles (db_tables d))"
  proof (rule filter_cong [OF refl])
    fix q assume "q \<in> set (dd_profiles (db_tables d))"
    then have "dv_id q = aq_path r ''id'' \<longleftrightarrow> q \<in> set (filter (\<lambda>p. dv_id p = aq_path r ''id'') (dd_profiles (db_tables d)))" by simp
    then show "(dv_id q \<noteq> aq_path r ''id'') = (q \<noteq> p)" unfolding p by simp
  qed
  ultimately have "dd_profiles (db_tables d1) = filter (\<lambda>q. q \<noteq> p) (dd_profiles (db_tables d))" using e2(1) by simp
  moreover have "stored_list ''doh_path_tokens'' (dd_fleet (db_tables d1)) = stored_list ''doh_path_tokens'' (dd_fleet (db_tables e2))"
    by (rule stored_list_cong) (rule conjunct2 [OF \<open>?same (db_tables d1)\<close>])
  ultimately show ?thesis unfolding e2(2) by (rule conjI)
qed

text \<open>
  Property C39. Deleting a profile takes its access away: when no statement fails, in the configuration compiled from
  the settings after it, the token of the profile admits nobody who is not admitted without a token.
\<close>

theorem deleted_token_refused:
  assumes "healthy d" and "deleteDeviceProfile en r d = (Inr reply, d1)"
    and "filter (\<lambda>p. dv_id p = aq_path r ''id'') (dd_profiles (db_tables d)) = [p]"
    and "dv_token_hash p = SHA256Hex wl b" and "sha256_sum wl b \<noteq> []" and "folds (uni_lower lib) (de_fold en)"
    and "healthy e" and "db_tables e = dd_fleet (db_tables d1)" and "dnsConfig e = (Inr (nc_dns c), e')"
  shows "p \<notin> set (dd_profiles (db_tables d1)) \<and>
    AllowClient lib (Apply_router lib nl c rt) ip (SHA256Hex wl b) = AllowClient lib (Apply_router lib nl c rt) ip []"
proof -
  have ne: "SHA256Hex wl b \<noteq> []" using assms(5) by (metis SHA256Hex_def length_0_conv length_hex_encode mult_is_0 zero_neq_numeral)
  have h: "hex_text (SHA256Hex wl b)" unfolding SHA256Hex_def by (rule hex_text_encode)
  from deleted_profile [OF assms(1-3)] ne assms(4) have D: "dd_profiles (db_tables d1) = filter (\<lambda>q. q \<noteq> p) (dd_profiles (db_tables d))"
    "stored_list ''doh_path_tokens'' (dd_fleet (db_tables d1)) =
       filter (\<lambda>x. \<not> de_fold en x (SHA256Hex wl b)) (stored_list ''doh_path_tokens'' (dd_fleet (db_tables d)))" by simp_all
  have "da_doh_path_tokens (dc_access (nc_dns c)) = filter (\<lambda>x. \<not> de_fold en x (SHA256Hex wl b)) (stored_list ''doh_path_tokens'' (dd_fleet (db_tables d)))"
    using dnsConfig_tokens [OF assms(7,9)] assms(8) D(2) by simp
  moreover have "de_fold en x (SHA256Hex wl b)" if "to_lower (uni_lower lib) (SHA256Hex wl b) = to_lower (uni_lower lib) x" for x
    using assms(6) h that by (simp add: folds_def)
  ultimately show ?thesis unfolding AllowClient_token [of lib nl c rt ip "SHA256Hex wl b"] using D(1) by auto
qed

definition demo_device_env :: device_env where
  "demo_device_env = \<lparr>de_fleet = demo_fleet_env, de_collate = (\<lambda>s. s), de_fold = (\<lambda>x h. to_lower (\<lambda>s. s) x = to_lower (\<lambda>s. s) h),
     de_random = (\<lambda>_ n. replicate n 7), de_profile_json = (\<lambda>_. JNull), de_text = (\<lambda>s. s)\<rparr>"

definition demo_device_lib :: domain_lib where
  "demo_device_lib = plain_lib\<lparr>uni_lower := (\<lambda>s. s), sha256_hex := (\<lambda>s. SHA256Hex demo_wire (bytes_of_string s))\<rparr>"

definition demo_devices :: "device_db db" where
  "demo_devices = demo_db \<lparr>dd_fleet = (empty_fleet empty_rules)\<lparr>fl_settings := [(''dns_access_mode'', JStr ''doh-token'')]\<rparr>, dd_profiles = []\<rparr>"

definition demo_creation :: "(go_error + api_reply) \<times> device_db db" where
  "demo_creation = createDeviceProfile demo_device_env (demo_call [] []) (Some \<lparr>dq_name = ''phone'', dq_type = ''apple_doh''\<rparr>) demo_devices"

definition demo_deletion :: "(go_error + api_reply) \<times> device_db db" where
  "demo_deletion = deleteDeviceProfile demo_device_env (demo_call [] ''id-5'') (snd demo_creation)"

text \<open>The configuration compiled from the settings of a database.\<close>

definition demo_node_config :: "device_db db \<Rightarrow> node_config" where
  "demo_node_config d = zero_config\<lparr>nc_dns := (case fst (dnsConfig (part_db dd_fleet d)) of Inr dc \<Rightarrow> dc | Inl _ \<Rightarrow> zero_dns)\<rparr>"

lemma answered: "\<not> isl (fst x) \<Longrightarrow> \<exists>r. x = (Inr r, snd x)"
  by (cases x; cases "fst x") auto

lemma demo_dns_config:
  assumes "\<not> isl (fst (dnsConfig (part_db dd_fleet d)))"
  shows "dnsConfig (part_db dd_fleet d) = (Inr (nc_dns (demo_node_config d)), snd (dnsConfig (part_db dd_fleet d)))"
  using assms by (cases "dnsConfig (part_db dd_fleet d)") (auto simp: demo_node_config_def isl_def split: sum.splits)

lemma demo_device_laws:
  "length (de_random demo_device_env 0 18) = 18" "\<forall>b. length (sha256_sum (fe_wire (de_fleet demo_device_env)) b) = 32"
  "\<forall>s. sha256_hex demo_device_lib s = SHA256Hex (fe_wire (de_fleet demo_device_env)) (bytes_of_string s)"
  "folds (uni_lower demo_device_lib) (de_fold demo_device_env)"
  by (simp_all add: demo_device_env_def demo_device_lib_def demo_fleet_env_def demo_wire_def folds_def min_def)

lemma steady_create: "steady (createDeviceProfile en r b)"
  unfolding createDeviceProfile_def decodeE_def dnsEndpoints_def insert_profile_def appendSettingList_def upsert_setting_def on_fleet_def audit_def Let_def
  by (intro steady_rules)

lemma steady_delete: "steady (deleteDeviceProfile en r)"
  unfolding deleteDeviceProfile_def removeSettingList_def upsert_setting_def on_fleet_def audit_def Let_def by (intro steady_rules)

lemma demo_device_runs:
  "\<not> isl (fst demo_creation)" "\<not> isl (fst demo_deletion)"
  "\<not> isl (fst (dnsConfig (part_db dd_fleet (snd demo_creation))))" "\<not> isl (fst (dnsConfig (part_db dd_fleet (snd demo_deletion))))"
  "da_mode (dc_access (nc_dns (demo_node_config (snd demo_creation)))) = ''doh-token''"
  "map profile_base (dd_profiles (db_tables (snd demo_creation))) = [''/dns-query'']"
  by code_simp+

lemma demo_devices_healthy: "healthy demo_devices" "healthy (snd demo_creation)"
proof -
  show h: "healthy demo_devices" by (simp add: demo_devices_def demo_db_def healthy_def)
  show "healthy (snd demo_creation)" unfolding demo_creation_def
    by (rule healthy_step [OF steady_create h]) (rule prod.collapse [symmetric])
qed

theorem device_token_admitted_witness:
  "\<exists>p. dd_profiles (db_tables (snd demo_creation)) = [p] \<and>
     AllowClient demo_device_lib (Apply_router demo_device_lib plain_net (demo_node_config (snd demo_creation)) zero_router) (AddrV4 0)
       (doh_token demo_device_lib ''/dns-query'' (profile_path p))"
proof -
  let ?c = "demo_node_config (snd demo_creation)"
  from demo_device_runs(1) obtain reply where run: "createDeviceProfile demo_device_env (demo_call [] []) (Some \<lparr>dq_name = ''phone'', dq_type = ''apple_doh''\<rparr>) demo_devices =
      (Inr reply, snd demo_creation)" unfolding demo_creation_def by (auto dest: answered)
  have ty: "carries_token (dq_type \<lparr>dq_name = ''phone'', dq_type = ''apple_doh''\<rparr>)" by (simp add: carries_token_def)
  have h: "healthy (part_db dd_fleet (snd demo_creation))" using demo_devices_healthy(2) by simp
  have t: "db_tables (part_db dd_fleet (snd demo_creation)) = dd_fleet (db_tables (snd demo_creation))" by simp
  have e: "dd_profiles (db_tables demo_devices) = []" by (simp add: demo_devices_def demo_db_def)
  from device_token_admitted [OF run ty demo_device_laws h t demo_dns_config [OF demo_device_runs(3)] demo_device_runs(5), where nl = plain_net and rt = zero_router and ip = "AddrV4 0"]
  obtain p where p: "dd_profiles (db_tables (snd demo_creation)) = [p]"
    "\<And>base. base = profile_base p \<or> base = profile_base p @ ''/'' \<Longrightarrow>
       AllowClient demo_device_lib (Apply_router demo_device_lib plain_net ?c zero_router) (AddrV4 0) (doh_token demo_device_lib base (profile_path p))"
    unfolding e append_Nil by blast
  from demo_device_runs(6) have "profile_base p = ''/dns-query''" unfolding p(1) by simp
  with p(2) [of "''/dns-query''"] p(1) show ?thesis by simp
qed

theorem deleted_token_refused_witness:
  "\<exists>h. map dv_token_hash (dd_profiles (db_tables (snd demo_creation))) = [h] \<and> dd_profiles (db_tables (snd demo_deletion)) = [] \<and>
     AllowClient demo_device_lib (Apply_router demo_device_lib plain_net (demo_node_config (snd demo_deletion)) zero_router) (AddrV4 0) h =
     AllowClient demo_device_lib (Apply_router demo_device_lib plain_net (demo_node_config (snd demo_deletion)) zero_router) (AddrV4 0) []"
proof -
  let ?b = "bytes_of_string (RandomToken (de_random demo_device_env) 0 18)"
  from demo_device_runs(2) obtain reply where run: "deleteDeviceProfile demo_device_env (demo_call [] ''id-5'') (snd demo_creation) = (Inr reply, snd demo_deletion)"
    unfolding demo_deletion_def by (auto dest: answered)
  have "map dv_token_hash (dd_profiles (db_tables (snd demo_creation))) = [SHA256Hex demo_wire ?b] \<and>
      map dv_id (dd_profiles (db_tables (snd demo_creation))) = [aq_path (demo_call [] ''id-5'') ''id''] \<and> dd_profiles (db_tables (snd demo_deletion)) = []" by code_simp
  then obtain p where p: "dd_profiles (db_tables (snd demo_creation)) = [p]" "dv_token_hash p = SHA256Hex demo_wire ?b" "dv_id p = aq_path (demo_call [] ''id-5'') ''id''"
    and gone: "dd_profiles (db_tables (snd demo_deletion)) = []" by auto
  have f: "filter (\<lambda>p. dv_id p = aq_path (demo_call [] ''id-5'') ''id'') (dd_profiles (db_tables (snd demo_creation))) = [p]" by (simp add: p(1,3))
  have s: "sha256_sum demo_wire ?b \<noteq> []" using demo_device_laws(2) by (simp add: demo_device_env_def demo_fleet_env_def) (metis list.size(3) zero_neq_numeral)
  have h: "healthy (part_db dd_fleet (snd demo_deletion))" 
    using demo_devices_healthy(2) healthy_step [OF steady_delete demo_devices_healthy(2) run] by simp
  have t: "db_tables (part_db dd_fleet (snd demo_deletion)) = dd_fleet (db_tables (snd demo_deletion))" by simp
  from deleted_token_refused [OF demo_devices_healthy(2) run f p(2) s demo_device_laws(4) h t demo_dns_config [OF demo_device_runs(4)],
      where nl = plain_net and rt = zero_router and ip = "AddrV4 0"] p gone
  show ?thesis by simp
qed

text \<open>
  The answer of a deletion does not depend on the write of the token list: when that statement fails, the
  profile is gone, the answer is a success, and the token stays in the settings.
\<close>

theorem deleted_device_keeps_token:
  "case deleteDeviceProfile demo_device_env (demo_call [] ''id-5'')
       ((snd demo_creation)\<lparr>db_fail := (\<lambda>n. n = db_ops (snd demo_creation) + 3)\<rparr>) of (res, d) \<Rightarrow>
     res = Inr (Reply 200 (JObj [(''status'', JStr ''deleted'')])) \<and> dd_profiles (db_tables d) = [] \<and>
     stored_list ''doh_path_tokens'' (dd_fleet (db_tables d)) = map dv_token_hash (dd_profiles (db_tables (snd demo_creation)))"
  by code_simp

end
