(* ===== verification/Spec2Isabelle.thy ===== *)
theory Spec2Isabelle
  imports DNS_Server SNI_Proxy Egress_Relay Config_Compiler Node_Agent Hot_Reload Metrics_Registry Job_Runner Panel_Devices
begin

text \<open>
  \<^bold>\<open>A verification library for smart-dns-proxy.\<close>

  The program lets selected domain names leave through chosen egress servers. A panel holds services
  with their domain rules and compiles them into a revision: one configuration per node and a signed
  manifest. A node agent receives the configuration of its node over mutual TLS and swaps it in. On
  an ingress node the DNS frontend answers managed names with the ingress addresses and forwards
  everything else, and the SNI proxy reads the server name of a TLS connection without decrypting it
  and carries the bytes to a relay on an egress node, which resolves and dials the destination when
  its allowlist permits.

  \<^bold>\<open>Theories and the code they model\<close> (paths under \<open>src/\<close>).

  \<^item> \<open>Go_Prelude\<close>, \<open>Go_Encoding\<close>, \<open>Go_Files\<close>: the Go types and the standard library the sources use
    (strings, base64, hex, decimal text, the \<open>os\<close> package over an explicit file system whose system
    calls can fail at any point).
  \<^item> \<open>Domain_Set\<close>, \<open>Domain_Matcher\<close> (\<open>shared/domainset\<close>): parsing, normalising, merging, hashing and
    comparing rule lists; the compiled matcher. Shown: what a parsed list holds, what \<open>Merge\<close> and
    \<open>Diff\<close> compute, that matching is coverage by an entry at a label boundary.
  \<^item> \<open>Net_Guard\<close> (\<open>shared/netguard\<close>): blocked address ranges, resolution and the dialer hook.
  \<^item> \<open>Artifact_Model\<close> (\<open>shared/model\<close>): the wire structs, the manifest signature, the enrolment bundle.
  \<^item> \<open>Client_Hello\<close> (\<open>shared/sniff\<close>): the ClientHello parser with checked indexing. Shown: it never
    panics and accepts exactly the encodings of structured hellos.
  \<^item> \<open>Tunnel_Frame\<close> (\<open>shared/tunnel\<close>): CONNECT frames, status bytes, the splice.
  \<^item> \<open>Route_Table\<close> (a locale for choosing the most specific route), \<open>DNS_Router\<close>, \<open>Rate_Limiter\<close>,
    \<open>DNS_Server\<close> (\<open>node/dnsfe\<close>): routing, access control, token buckets, query handling and DoH.
  \<^item> \<open>Egress_Selector\<close>, \<open>SNI_Proxy\<close> (\<open>node/proxy\<close>), \<open>Egress_Relay\<close> (\<open>node/relay\<close>), \<open>Session_Gate\<close> (a locale
    for the session counter both handlers use, with its interleavings as an inductive relation).
  \<^item> \<open>Config_Compiler\<close> (\<open>panel/internal/compiler\<close>): conflict detection, node configurations, manifest.
  \<^item> \<open>Node_Agent\<close> (\<open>agent/internal/agentcore\<close>): enrolment, pushes, health, pruning. Shown: a push is atomic
    for the data plane whatever system call fails, succeeds on a sound disk, and pruning never touches
    the revisions in use.
  \<^item> \<open>Hot_Reload\<close> (\<open>node/nodecfg/loader.go\<close>, \<open>shared/tlsutil\<close>): how a swapped file reaches the running
    processes.
  \<^item> \<open>Log_Control\<close> (\<open>shared/logging\<close>), \<open>Metrics_Registry\<close> (\<open>shared/metrics\<close>).
  \<^item> \<open>Panel_Store\<close> (\<open>panel/internal/store\<close>): the database of the panel as statements and transactions over
    explicit tables, any of which may fail, and the migrations. Shown: transactions are atomic,
    migrations run once and in order. Its predicate \<open>preserves\<close> carries invariants through panel code.
  \<^item> \<open>Rule_Fetcher\<close> (\<open>panel/internal/fetcher\<close>), \<open>Rule_Pipeline\<close> (\<open>panel/internal/rules\<close>): guarded downloads, and the
    pipeline from sources to the active version of a rule set. Shown: every hop of an accepted download is
    inside the guard, a failed build changes nothing in force, an activation has passed every threshold.
  \<^item> \<open>Panel_API\<close>, \<open>Rule_Admin\<close> (\<open>panel/internal/api\<close>: \<open>server.go\<close>, \<open>routes.go\<close>, \<open>rulesets.go\<close>): what stands between a
    request and its handler, the audit trail, idempotency keys (a locale over the table that holds them),
    optimistic locking, and the handlers of rule sets. Shown: nothing is changed without authority, the audit
    trail holds no secrets, a patch needs the current version, a rule set has one active version.
  \<^item> \<open>Panel_Auth\<close> (\<open>panel/internal/auth\<close>, \<open>crypto.go\<close>), \<open>Panel_Session\<close> (\<open>session.go\<close>): passwords, one-time codes,
    login with its lockout, sessions. Shown: a session needs the password and the second factor, guesses are bounded, a
    request is attributed to the owner of a live session only.
  \<^item> \<open>Job_Runner\<close> (\<open>panel/internal/jobs/runner.go\<close>): the job queue with its leases, the worker, the schedulers, probes and
    retention. Shown: as long as workers finish within their lease no job is executed twice at a time, a job is
    retried with growing delays and given up after its attempts, execution keeps the rule tables sound.
  \<^item> \<open>Panel_Fleet\<close> (\<open>panel/internal/api\<close>: \<open>groups.go\<close>, \<open>services.go\<close>, \<open>nodes.go\<close>, \<open>settings.go\<close>): nodes, groups, services and
    settings with the constraints of the schema; updates under a version are a locale with one interpretation per
    table. Shown: the stored fleet stays consistent, no update is lost, a repeated registration creates no second node.
  \<^item> \<open>Node_Pusher\<close> (\<open>panel/internal/pusher\<close>), \<open>Panel_Rollout\<close> (\<open>panel/internal/api\<close>: \<open>revisions.go\<close>, \<open>dispatch.go\<close>): from the tables to
    the nodes. Shown: compiling is all or nothing, a started rollout whose nodes answer ends with the revision
    active everywhere, only the pinned node can acknowledge, drift is repaired, and the tables stay well typed in
    every run of the panel.
  \<^item> \<open>Panel_Devices\<close> (\<open>panel/internal/api/devices.go\<close>): device profiles with their path tokens and the files made of
    them. Shown: the token of a created profile is admitted by a node that runs the compiled settings, that of a
    deleted one is not, and no text put into an Apple profile changes its markup.
  \<^item> This theory: properties across components, from a compiled revision to the agent and to a
    proxied connection.

  \<^bold>\<open>Conventions.\<close> A Go struct is a record (fields carry a prefix), an enumeration of outcomes a
  datatype, an error a value of a sum or option type. A handler is one function from its state and an
  environment record (what the network, the clock, the random source and the disk answer) to an
  outcome and the new state. Go's \<open>int\<close> is \<^typ>\<open>int\<close> with \<open>wrap64\<close> where it can overflow; bytes and
  \<open>uint16\<close>, \<open>uint32\<close> are words; token counts and seconds are rationals in place of \<open>float64\<close>. Third
  party and standard library code that is not modelled (JSON, gzip, SHA-256, Ed25519, regular
  expressions, IDNA, address parsing, the DNS library, X.509, ACME) is a parameter.

  \<^bold>\<open>Loops and bounds.\<close> Every loop is a total function: structural recursion, or a measure (the bytes left
  for the parsers, the labels left for the matcher, the quotient for decimal text). The splice returns
  \<^term>\<open>None\<close> for a source that never ends and is shown to return otherwise; following symbolic links is
  bounded by 40, as on Linux.

  \<^bold>\<open>Not modelled\<close>: accept loops and listeners (their handlers are), ACME issuance, certificate
  templates, the text of SQL statements (a statement is what it does to the tables), the HTTP plumbing
  around the handlers, backups, the service catalogue and its wizard, listings that only read, the web
  interface and the entry points of the processes.
\<close>

section \<open>From a compiled revision to a connection\<close>

lemma proxied_target:
  assumes "runs_config lib c p" and "handle_proxy lib en p = (Proxied i t host port raw, p')"
  shows "i < length (px_routes p) \<and> t < length (pl_targets (sr_pool (px_routes p ! i))) \<and>
    tg_info (pl_targets (sr_pool (px_routes p ! i)) ! t) \<in> set (ep_targets (sv_egress (nc_services c ! i))) \<and>
    match_host lib (compile_set lib (sv_match (nc_services c ! i))) host \<and>
    portAllowed (sv_allowed_ports (nc_services c ! i)) port \<and> i < length (nc_services c) \<and> valid_host host"
proof -
  from assms(2) obtain cfg p2 where "serve_conn lib cfg en (enter_proxy p) = (Proxied i t host port raw, p2)"
    by (rule handle_proxy_Proxied)
  then obtain sni rest route where h: "normalize_host lib sni = Inr host"
    and l: "proxy_lookup lib (enter_proxy p) host = Some (i, route)"
    and port: "portAllowed (sv_allowed_ports (sr_svc route)) port"
    and d: "fst (dial (pe_rnd en) (pe_net en) (sr_pool route)) = Connected t"
    by (rule serve_conn_Proxied)
  from proxy_lookup_Some [OF l] have i: "i < length (px_routes p)" and r: "px_routes p ! i = route"
    and sp: "0 \<le> specificity lib (sr_matcher route) host" by simp_all
  from dial_Connected [OF d] have t: "t < length (pl_targets (sr_pool route))" .
  then have "tg_info (pl_targets (sr_pool route) ! t) \<in> set (infos (sr_pool route))" by (simp add: infos_def)
  with i t r sp port runs_config_route [OF assms(1) i] match_of_specificity [of lib "sr_matcher route" host]
    normalize_host_valid [OF h] show ?thesis by auto
qed

text \<open>
  Property C1. A revision is consistent along the whole path: when an ingress node and an egress node
  run their configurations of one compiled revision, a connection the ingress hands to that egress
  is never refused there by policy. The relay reads the CONNECT frame back as the same host and port,
  and for an authenticated peer below the session limit its outcome depends only on resolution and
  on dialling (provided IDNA leaves the already normalised host unchanged).
\<close>

theorem revision_consistent_end_to_end:
  assumes comp: "Compile wl now inp = Inr out"
    and ing: "co_configs out nid = Some ci" and run: "runs_config lib ci p"
    and prox: "handle_proxy lib en p = (Proxied i t host port raw, p')"
    and eg: "co_configs out (et_node_id (tg_info (pl_targets (sr_pool (px_routes p ! i)) ! t))) = Some ce"
      "nc_role ce = ''egress''"
    and peer: "re_is_tls ren" "re_handshake_ok ren" "re_peer_certs ren \<noteq> []"
    and frame: "re_conn ren = \<lparr>cn_in = connect_frame host port @ rest, cn_out = [], cn_writable = w\<rparr>"
    and port: "0 \<le> port" "port < 65536"
    and room: "rl_active r < rl_max_sess (Apply_relay lib ce r)"
    and idna: "idna_to_ascii lib host = Some host"
  shows "case fst (handle_relay lib ren (Apply_relay lib ce r)) of
      Relayed h q a \<Rightarrow> h = host \<and> q = port
    | RResolveBlocked \<Rightarrow> True | RDialFailed \<Rightarrow> True | RStatusFailed \<Rightarrow> True
    | _ \<Rightarrow> False"
proof -
  let ?tg = "tg_info (pl_targets (sr_pool (px_routes p ! i)) ! t)"
  from proxied_target [OF run prox] have
    t: "?tg \<in> set (ep_targets (sv_egress (nc_services ci ! i)))" and
    m: "match_host lib (compile_set lib (sv_match (nc_services ci ! i))) host" and
    pa: "portAllowed (sv_allowed_ports (nc_services ci ! i)) port" and
    svc: "nc_services ci ! i \<in> set (nc_services ci)" and v: "valid_host host" by auto
  obtain s where "compiled_from (node_map_of (ci_nodes inp)) s (nc_services ci ! i)"
    by (rule service_of_config [OF comp ing svc])
  then have ports: "port \<in> set (sv_allowed_ports (nc_services ci ! i))" 
    using pa by (auto simp: compiled_from_def portAllowed_def list_ex_iff)
  have "Allowed lib (Apply_relay lib ce r) host port" by (rule routes_allowed [OF comp ing svc t eg m ports])
  moreover have "0 < length host" "length host \<le> 253" using v by (auto simp: valid_host_def)
  then have "ReadConnect (re_conn ren) = (Inr (host, port), \<lparr>cn_in = rest, cn_out = [], cn_writable = w\<rparr>)"
    using ReadConnect_frame [where host = host and port = port and rest = rest and c = "\<lparr>cn_in = [], cn_out = [], cn_writable = w\<rparr>"]
      port by (simp add: frame)
  moreover have "rl_active (Apply_relay lib ce r) = rl_active r" by (simp add: Apply_relay_def Let_def)
  moreover have "normalize_host lib host = Inr host" by (rule normalize_host_fixed [OF v idna])
  ultimately show ?thesis
    using peer room
    by (auto simp: handle_relay_def serve_peer_def connect_out_def Let_def split: sum.splits option.splits prod.splits bool.splits)
qed

definition demo_route :: service where
  "demo_route = \<lparr>sv_slug = ''tv'', sv_name = ''tv'', sv_priority = 1, sv_ttl = 60, sv_allowed_ports = [443],
     sv_udp_mode = ''disabled_fallback'', sv_match = \<lparr>Exact = [], Suffix = [''tv.a.com''], Regex = []\<rparr>,
     sv_rule_set_hash = [], sv_ingress_v4 = [''192.0.2.1''], sv_ingress_v6 = [],
     sv_egress = \<lparr>ep_mode = ''primary_fallback'',
       ep_targets = [\<lparr>et_node_id = ''e1'', et_name = ''e1'', et_endpoint = ''192.0.2.1:8443'', et_sni = ''e1'',
         et_priority = 0, et_weight = 1\<rparr>],
       ep_fail_threshold = 3, ep_rise_threshold = 2, ep_probe_interval = 30, ep_hysteresis_pct = 0, ep_hysteresis_ms = 0\<rparr>\<rparr>"

lemma demo_revision:
  "case Compile demo_wire 0 demo_state of
     Inr out \<Rightarrow>
       (case co_configs out ''i1'' of
          Some ci \<Rightarrow> nc_services ci = [demo_route] \<and> ic_max_sessions (nc_ingress ci) = 0 \<and>
            ic_max_pre_read_bytes (nc_ingress ci) = 0
        | None \<Rightarrow> False) \<and>
       (case co_configs out ''e1'' of
          Some ce \<Rightarrow> nc_role ce = ''egress'' \<and> ec_max_sessions (nc_egress ce) = 0
        | None \<Rightarrow> False)
   | Inl _ \<Rightarrow> False"
  by code_simp

lemma demo_route_proxied:
  assumes "nc_services ci = [demo_route]" and "ic_max_sessions (nc_ingress ci) = 0" and "ic_max_pre_read_bytes (nc_ingress ci) = 0"
  shows "fst (handle_proxy plain_lib demo_penv (New_proxy plain_lib plain_net ci)) = Proxied 0 0 ''x.tv.a.com'' 443 demo_raw"
proof -
  have n: "normalize_host plain_lib ''x.tv.a.com'' = Inr ''x.tv.a.com''" by code_simp
  have sp: "specificity plain_lib (compile_set plain_lib (sv_match demo_route)) ''x.tv.a.com'' = 99" by code_simp
  show ?thesis
    by (simp add: handle_proxy_def serve_conn_def demo_penv_def New_proxy_def Apply_proxy_def Let_def assms zero_proxy_def
        settings_def demo_peek n proxy_lookup_def best_indexed_def enter_proxy_def sp serve_route_def conn_port_def
        portAllowed_def dial_def order_def newPool_def prev_pool_def fresh_target_def snapshot_def)
      (simp add: demo_route_def)
qed

definition demo_tunnel :: relay_env where
  "demo_tunnel = demo_renv\<lparr>re_conn := \<lparr>cn_in = connect_frame ''x.tv.a.com'' 443 @ demo_raw, cn_out = [], cn_writable = True\<rparr>\<rparr>"

theorem revision_consistent_end_to_end_witness:
  "\<exists>out ci ce. Compile demo_wire 0 demo_state = Inr out \<and> co_configs out ''i1'' = Some ci \<and> co_configs out ''e1'' = Some ce \<and>
     fst (handle_proxy plain_lib demo_penv (New_proxy plain_lib plain_net ci)) = Proxied 0 0 ''x.tv.a.com'' 443 demo_raw \<and>
     fst (handle_relay plain_lib demo_tunnel (Apply_relay plain_lib ce zero_relay)) \<noteq> RDenied"
proof -
  from demo_revision obtain out ci ce where c: "Compile demo_wire 0 demo_state = Inr out" "co_configs out ''i1'' = Some ci"
    "co_configs out ''e1'' = Some ce" "nc_role ce = ''egress''" "ec_max_sessions (nc_egress ce) = 0"
    and i: "nc_services ci = [demo_route]" "ic_max_sessions (nc_ingress ci) = 0" "ic_max_pre_read_bytes (nc_ingress ci) = 0"
    by (auto split: sum.splits option.splits)
  let ?p = "New_proxy plain_lib plain_net ci"
  from demo_route_proxied [OF i] obtain p' where
    h: "handle_proxy plain_lib demo_penv ?p = (Proxied 0 0 ''x.tv.a.com'' 443 demo_raw, p')" by (metis prod.collapse)
  have run: "runs_config plain_lib ci ?p" unfolding New_proxy_def by (rule runs_config_Apply)
  have "px_routes ?p = [\<lparr>sr_svc = demo_route, sr_matcher = compile_set plain_lib (sv_match demo_route),
      sr_pool = newPool (sv_egress demo_route) None\<rparr>]"
    by (simp add: New_proxy_def Apply_proxy_def zero_proxy_def prev_pool_def i)
  then have "tg_info (pl_targets (sr_pool (px_routes ?p ! 0)) ! 0) = hd (ep_targets (sv_egress demo_route))"
    by (simp add: newPool_def fresh_target_def demo_route_def Let_def)
  then have e: "co_configs out (et_node_id (tg_info (pl_targets (sr_pool (px_routes ?p ! 0)) ! 0))) = Some ce"
    using c(3) by (simp add: demo_route_def)
  have room: "rl_active zero_relay < rl_max_sess (Apply_relay plain_lib ce zero_relay)"
    by (simp add: Apply_relay_def zero_relay_def c(5))
  have "fst (handle_relay plain_lib demo_tunnel (Apply_relay plain_lib ce zero_relay)) \<noteq> RDenied"
    using revision_consistent_end_to_end [OF c(1,2) run h e c(4), of demo_tunnel demo_raw True, OF _ _ _ _ _ _ room]
    by (auto simp: demo_tunnel_def demo_renv_def plain_lib_def)
  with c h show ?thesis by (metis fst_conv)
qed

section \<open>From a compiled revision to the agent\<close>

lemma validate_services_None:
  "validate_services ss = None \<longleftrightarrow> (\<forall>s\<in>set ss. ep_targets (sv_egress s) \<noteq> [] \<and> (sv_ingress_v4 s \<noteq> [] \<or> sv_ingress_v6 s \<noteq> []))"
  by (induction ss) (auto simp: validate_service_def split: option.splits)

lemma compiled_header:
  assumes "node_config_for inp compiled acc n = Inr cfg"
  shows "nc_schema_version cfg = 1 \<and> nc_node_id cfg = ni_id n \<and> (nc_role cfg = ''ingress'' \<or> nc_role cfg = ''egress'')"
  using assms by (auto simp: node_config_for_def role_config_def base_config_def zero_config_def bindE_eq_Inr Let_def split: if_splits)

lemma compiled_ports:
  assumes "compile_services (node_map_of (ci_nodes inp)) (ci_services inp) empty_acc = Inr acc"
  shows "finite (ca_ports acc nid)" and "ca_ports acc nid = {} \<longleftrightarrow> senders inp nid = {}"
proof -
  have "ca_ports acc nid = (\<Union>s\<in>senders inp nid. set (portsOrDefault (si_allowed_ports s)))"
    using compile_services_spec [OF assms] by (auto simp: empty_acc_def senders_def)
  moreover have "finite (senders inp nid)" by (simp add: senders_def)
  ultimately show "finite (ca_ports acc nid)" and "ca_ports acc nid = {} \<longleftrightarrow> senders inp nid = {}" by auto
qed

text \<open>
  What the agent accepts of a compiled revision: the configuration compiled for a node
  passes that node's validation exactly when an ingress node has at least one service and each of
  its services has an ingress address to publish, and an egress node is used by some service. The
  compiler itself only warns about the other cases, so such a revision is refused by these nodes.
\<close>

theorem compiled_config_accepted_iff:
  assumes "Compile wl now inp = Inr out" and "co_configs out nid = Some cfg"
  shows "validate cfg nid (nc_role cfg) = None \<longleftrightarrow>
    (if nc_role cfg = ''ingress''
     then nc_services cfg \<noteq> [] \<and> (\<forall>s\<in>set (nc_services cfg). sv_ingress_v4 s \<noteq> [] \<or> sv_ingress_v6 s \<noteq> [])
     else senders inp nid \<noteq> {})"
proof -
  obtain n acc compiled where n: "ni_id n = nid"
    and acc: "compile_services (node_map_of (ci_nodes inp)) (ci_services inp) empty_acc = Inr acc"
    and cfg: "node_config_for inp compiled acc n = Inr cfg"
    using config_of_node [OF assms] by metis
  note h = compiled_header [OF cfg]
  have "ep_targets (sv_egress s) \<noteq> []" if s: "s \<in> set (nc_services cfg)" for s
  proof -
    obtain si where "compiled_from (node_map_of (ci_nodes inp)) si s" by (rule service_of_config [OF assms s])
    then show ?thesis by (simp add: compiled_from_def)
  qed
  moreover have "ec_allowed_ports (nc_egress cfg) \<noteq> [] \<longleftrightarrow> senders inp nid \<noteq> {}" if "nc_role cfg = ''egress''"
    using egress_config [OF cfg that] compiled_ports [OF acc, of nid] n by simp
  ultimately show ?thesis using h n by (auto simp: validate_def validate_services_None)
qed

theorem compiled_config_accepted_iff_witness:
  "\<exists>out ce. Compile demo_wire 0 demo_state = Inr out \<and> co_configs out ''e1'' = Some ce \<and> validate ce ''e1'' (nc_role ce) = None"
proof -
  obtain out ci svc t ce where c: "Compile demo_wire 0 demo_state = Inr out" "co_configs out ''i1'' = Some ci" "svc \<in> set (nc_services ci)"
    "t \<in> set (ep_targets (sv_egress svc))" "et_node_id t = ''e1''" "co_configs out ''e1'' = Some ce" "nc_role ce = ''egress''"
    by (rule demo_output)
  obtain s where "s \<in> set (ci_services demo_state)" "compiled_from (node_map_of (ci_nodes demo_state)) s svc"
    by (rule service_of_config [OF c(1-3)])
  with c(4,5) have "senders demo_state ''e1'' \<noteq> {}" by (force simp: compiled_from_def senders_def)
  with compiled_config_accepted_iff [OF c(1,6)] c(1,6,7) show ?thesis by auto
qed

text \<open>
  A revision can compile and yet be refused by the nodes it is compiled for: with no
  enabled service, compilation succeeds and both nodes of the example refuse their configuration.
\<close>

theorem unused_nodes_refuse_revision:
  "case Compile demo_wire 0 (demo_input []) of
     Inr out \<Rightarrow>
       (case (co_configs out ''i1'', co_configs out ''e1'') of
          (Some ci, Some ce) \<Rightarrow> validate ci ''i1'' ''ingress'' = Some NoServices \<and> validate ce ''e1'' ''egress'' = Some EmptyPorts
        | _ \<Rightarrow> False)
   | Inl _ \<Rightarrow> False"
  by code_simp

end
